(* ===== verification/Go_Prelude.thy ===== *)
theory Go_Prelude
  imports Complex_Main "HOL-Library.Word" "HOL-Library.Signed_Division" "HOL-Library.Multiset"
begin

text \<open>
  Shared vocabulary of the development: Go's fixed-width signed integers with their
  wrap-around, truncated division, results of functions that return an error or panic,
  Go maps as association lists whose order is the order a range loop visits them in,
  and the generic lemmas the component theories use.
\<close>

named_theorems go_int \<open>rewriting int64 operations whose operands are in range\<close>

section \<open>Fixed-width signed integers\<close>

text \<open>
  A Go \<^verbatim>\<open>int64\<close> is an \<^typ>\<open>int\<close> in the range \<^verbatim>\<open>[-2^63, 2^63)\<close>; every arithmetic
  operation of the source that may overflow is followed by the two's complement wrap.
\<close>

definition in_int64 :: "int \<Rightarrow> bool" where
  "in_int64 x \<longleftrightarrow> - 9223372036854775808 \<le> x \<and> x < 9223372036854775808"

definition wrap64 :: "int \<Rightarrow> int" where
  "wrap64 x = (x + 9223372036854775808) mod 18446744073709551616 - 9223372036854775808"

definition in_int32 :: "int \<Rightarrow> bool" where
  "in_int32 x \<longleftrightarrow> - 2147483648 \<le> x \<and> x < 2147483648"

definition wrap32 :: "int \<Rightarrow> int" where
  "wrap32 x = (x + 2147483648) mod 4294967296 - 2147483648"

lemma wrap64_in_int64 [simp, intro]: "in_int64 (wrap64 x)"
  unfolding in_int64_def wrap64_def
  using pos_mod_bound [of 18446744073709551616 "x + 9223372036854775808"]
    pos_mod_sign [of 18446744073709551616 "x + 9223372036854775808"] by linarith

lemma wrap64_id [go_int]: "in_int64 x \<Longrightarrow> wrap64 x = x"
  by (simp add: in_int64_def wrap64_def mod_pos_pos_trivial)

lemma wrap64_wrap64 [simp]: "wrap64 (wrap64 x) = wrap64 x"
  by (rule wrap64_id) simp

text \<open>The wrap is the value of the 64-bit two's complement word, as Go defines it.\<close>

lemma wrap64_word: "wrap64 x = sint (word_of_int x :: 64 word)"
proof -
  have "sint (word_of_int x :: 64 word) = signed_take_bit 63 x"
    by (simp add: sint_sbintrunc')
  also have "\<dots> = (x + 2 ^ 63) mod (2 * 2 ^ 63) - 2 ^ 63"
    by (simp add: signed_take_bit_eq_take_bit_shift take_bit_eq_mod)
  finally show ?thesis by (simp add: wrap64_def)
qed

lemma wrap64_cong: "wrap64 x = wrap64 y \<longleftrightarrow> 18446744073709551616 dvd (x - y)"
  unfolding wrap64_def by (simp add: mod_eq_dvd_iff)

lemma wrap64_dvd: "18446744073709551616 dvd (wrap64 x - x)"
  using wrap64_cong [of "wrap64 x" x] by simp

lemma wrap64_add_left [simp]: "wrap64 (wrap64 a + b) = wrap64 (a + b)"
  using wrap64_dvd [of a] by (simp add: wrap64_cong)

lemma wrap64_add_right [simp]: "wrap64 (a + wrap64 b) = wrap64 (a + b)"
  using wrap64_dvd [of b] by (simp add: wrap64_cong)

lemma wrap64_diff_left [simp]: "wrap64 (wrap64 a - b) = wrap64 (a - b)"
  using wrap64_dvd [of a] by (simp add: wrap64_cong algebra_simps)

lemma wrap64_diff_right [simp]: "wrap64 (a - wrap64 b) = wrap64 (a - b)"
proof -
  have "18446744073709551616 dvd - (wrap64 b - b)"
    using wrap64_dvd [of b] by (simp only: dvd_minus_iff)
  then show ?thesis by (simp add: wrap64_cong)
qed

text \<open>Adding and taking away the same amount gives the value back, whatever wraps between.\<close>

lemma wrap64_add_diff_cancel: "in_int64 a \<Longrightarrow> wrap64 (wrap64 (a + b) - b) = a"
  by (simp add: go_int)

text \<open>Go's \<^verbatim>\<open>/\<close> and \<^verbatim>\<open>%\<close> truncate; the only overflowing quotient is the least int64 by -1.\<close>

definition go_div :: "int \<Rightarrow> int \<Rightarrow> int" where
  "go_div a b = wrap64 (a sdiv b)"

definition go_mod :: "int \<Rightarrow> int \<Rightarrow> int" where
  "go_mod a b = a smod b"

lemma abs_sdiv: "\<bar>a sdiv b\<bar> = \<bar>a\<bar> div \<bar>b\<bar>" for a b :: int
  by (cases "a = 0"; cases "b = 0")
     (simp_all add: signed_divide_int_def abs_mult abs_sgn_eq pos_imp_zdiv_nonneg_iff)

lemma sdiv_pos: "0 \<le> a \<Longrightarrow> 0 < b \<Longrightarrow> a sdiv b = a div b" for a b :: int
  by (cases "a = 0") (simp_all add: signed_divide_int_def)

lemma div_le_self: "0 \<le> a \<Longrightarrow> 0 < b \<Longrightarrow> a div b \<le> a" for a b :: int
proof -
  assume "0 \<le> a" "0 < b"
  then have "a div b \<le> a div 1" by (intro zdiv_mono2) auto
  then show ?thesis by simp
qed

lemma mult_sdiv_cancel: "b \<noteq> 0 \<Longrightarrow> (a * b) sdiv b = a" for a b :: int
proof -
  assume b: "b \<noteq> 0"
  have "(a * b) sdiv b = sgn a * (sgn b * sgn b) * (\<bar>a\<bar> * \<bar>b\<bar> div \<bar>b\<bar>)"
    by (simp add: signed_divide_int_def abs_mult sgn_mult)
  also have "\<dots> = sgn a * \<bar>a\<bar>" using b by simp
  finally show ?thesis by (simp add: sgn_mult_abs)
qed

lemma sdiv_smod: "a sdiv b * b + a smod b = a" for a b :: int
  by (rule sdiv_mult_smod_eq)

lemma in_int64_sdiv_pos: "in_int64 a \<Longrightarrow> 0 < b \<Longrightarrow> in_int64 (a sdiv b)"
proof -
  assume a: "in_int64 a" and b: "0 < b"
  have "\<bar>a sdiv b\<bar> \<le> \<bar>a\<bar>"
    using b by (simp add: abs_sdiv div_le_self)
  moreover have "a sdiv b \<noteq> 9223372036854775808"
  proof
    assume eq: "a sdiv b = 9223372036854775808"
    then have "0 < a sdiv b" by simp
    then have "0 < a" using b pos_imp_zdiv_nonneg_iff [of b "- a"]
      by (cases a "0 :: int" rule: linorder_cases) (auto simp: signed_divide_int_def)
    then have "a sdiv b \<le> a" using b by (simp add: sdiv_pos div_le_self)
    with eq a show False by (simp add: in_int64_def)
  qed
  ultimately show ?thesis using a by (auto simp: in_int64_def)
qed

lemma go_div_pos [go_int]: "in_int64 a \<Longrightarrow> 0 < b \<Longrightarrow> go_div a b = a sdiv b"
  by (simp add: go_div_def go_int in_int64_sdiv_pos)

section \<open>Results\<close>

text \<open>
  A Go function that returns \<^verbatim>\<open>(T, error)\<close> returns a sum with \<^const>\<open>Inl\<close> for the error;
  one that may panic returns a value of the following type.
\<close>

datatype 'a go_run = Returns 'a | Panics string

primrec go_bind :: "'a go_run \<Rightarrow> ('a \<Rightarrow> 'b go_run) \<Rightarrow> 'b go_run" where
  "go_bind (Returns x) f = f x"
| "go_bind (Panics e) f = Panics e"

lemma go_bind_Returns_iff: "go_bind r f = Returns y \<longleftrightarrow> (\<exists>x. r = Returns x \<and> f x = Returns y)"
  by (cases r) auto

lemma go_bind_cong [fundef_cong]: "r = r' \<Longrightarrow> (\<And>x. r' = Returns x \<Longrightarrow> f x = g x) \<Longrightarrow> go_bind r f = go_bind r' g"
  by (cases r') auto

text \<open>A loop whose body may panic.\<close>

primrec go_fold :: "('a \<Rightarrow> 's \<Rightarrow> 's go_run) \<Rightarrow> 'a list \<Rightarrow> 's \<Rightarrow> 's go_run" where
  "go_fold f [] s = Returns s"
| "go_fold f (x # xs) s = go_bind (f x s) (go_fold f xs)"

text \<open>Sequencing after a loop that may not end.\<close>

definition loop_bind :: "'a go_run option \<Rightarrow> ('a \<Rightarrow> 'b go_run option) \<Rightarrow> 'b go_run option" where
  "loop_bind r f = (case r of None \<Rightarrow> None | Some (Panics e) \<Rightarrow> Some (Panics e) | Some (Returns x) \<Rightarrow> f x)"

lemma loop_bind_simps [simp]:
  "loop_bind None f = None" "loop_bind (Some (Panics e)) f = Some (Panics e)" "loop_bind (Some (Returns x)) f = f x"
  by (simp_all add: loop_bind_def)

lemma go_fold_total:
  "(\<And>x s. x \<in> set xs \<Longrightarrow> f x s = Returns (g x s)) \<Longrightarrow> go_fold f xs s = Returns (fold g xs s)"
  by (induction xs arbitrary: s) auto

lemma go_fold_inv:
  assumes "P s" and "\<And>x s. x \<in> set xs \<Longrightarrow> P s \<Longrightarrow> f x s = Returns (g x s) \<and> P (g x s)"
  shows "go_fold f xs s = Returns (fold g xs s) \<and> P (fold g xs s)"
  using assms by (induction xs arbitrary: s) auto

lemma go_fold_append: "go_fold f (xs @ ys) s = go_bind (go_fold f xs s) (go_fold f ys)"
proof (induction xs arbitrary: s)
  case (Cons x xs)
  then show ?case by (cases "f x s") simp_all
qed simp

lemma go_fold_concat: "go_fold (\<lambda>x. go_fold f (h x)) xs s = go_fold f (concat (map h xs)) s"
  by (induction xs arbitrary: s) (auto simp: go_fold_append intro: go_bind_cong)

lemma go_fold_map: "go_fold f (map h xs) s = go_fold (\<lambda>x. f (h x)) xs s"
  by (induction xs arbitrary: s) (auto intro: go_bind_cong)

lemma go_fold_product: "go_fold (\<lambda>x. go_fold (f x) ys) xs s = go_fold (\<lambda>(x, y). f x y) (List.product xs ys) s"
  by (induction xs arbitrary: s) (auto simp: go_fold_append go_fold_map intro: go_bind_cong)

lemma fold_Max: "fold (\<lambda>x m. max m (f x)) xs m = Max (insert m (f ` set xs))" for f :: "'a \<Rightarrow> 'b::linorder"
proof -
  have "fold (\<lambda>x m. max m (f x)) xs m = fold max (map f xs) m"
    by (induction xs arbitrary: m) (simp_all add: max.commute)
  also have "\<dots> = Max (set (m # map f xs))" by (rule Max.set_eq_fold [symmetric])
  finally show ?thesis by simp
qed

section \<open>Go maps\<close>

text \<open>
  A Go map is an association list with distinct keys. The order of the list is the order in
  which a range loop visits the entries; Go leaves it open, so results that must not depend
  on it are shown invariant under permuting the list.
\<close>

type_synonym ('k, 'v) gomap = "('k \<times> 'v) list"

fun gomap_set :: "('k, 'v) gomap \<Rightarrow> 'k \<Rightarrow> 'v \<Rightarrow> ('k, 'v) gomap" where
  "gomap_set [] k v = [(k, v)]"
| "gomap_set ((k', v') # m) k v = (if k' = k then (k, v) # m else (k', v') # gomap_set m k v)"

definition gomap_delete :: "('k, 'v) gomap \<Rightarrow> 'k \<Rightarrow> ('k, 'v) gomap" where
  "gomap_delete m k = filter (\<lambda>e. fst e \<noteq> k) m"

abbreviation gomap_get :: "('k, 'v) gomap \<Rightarrow> 'k \<Rightarrow> 'v option" where
  "gomap_get \<equiv> map_of"

definition gomap_ok :: "('k, 'v) gomap \<Rightarrow> bool" where
  "gomap_ok m \<longleftrightarrow> distinct (map fst m)"

lemma gomap_get_set [simp]: "gomap_get (gomap_set m k v) = (gomap_get m)(k \<mapsto> v)"
  by (induction m k v rule: gomap_set.induct) auto

lemma gomap_keys_set: "fst ` set (gomap_set m k v) = insert k (fst ` set m)"
  by (induction m k v rule: gomap_set.induct) auto

lemma gomap_ok_Nil [simp]: "gomap_ok []"
  by (simp add: gomap_ok_def)

lemma gomap_ok_set [simp]: "gomap_ok m \<Longrightarrow> gomap_ok (gomap_set m k v)"
proof (induction m k v rule: gomap_set.induct)
  case (2 k' v' m k v)
  then show ?case using gomap_keys_set [of m k v] by (auto simp: gomap_ok_def)
qed (simp add: gomap_ok_def)

lemma gomap_get_delete [simp]: "gomap_get (gomap_delete m k) = (gomap_get m)(k := None)"
  by (induction m) (auto simp: gomap_delete_def)

lemma gomap_keys_delete: "fst ` set (gomap_delete m k) = fst ` set m - {k}"
  by (auto simp: gomap_delete_def)

lemma gomap_ok_delete [simp]: "gomap_ok m \<Longrightarrow> gomap_ok (gomap_delete m k)"
  by (simp add: gomap_ok_def gomap_delete_def distinct_map_filter)

lemma gomap_set_subset: "set (gomap_set m k v) \<subseteq> insert (k, v) (set m)"
  by (induction m k v rule: gomap_set.induct) auto

lemma gomap_set_nonempty [simp]: "gomap_set m k v \<noteq> []"
  by (cases m) (auto split: if_splits)

lemma gomap_delete_subset: "set (gomap_delete m k) \<subseteq> set m"
  by (auto simp: gomap_delete_def)

lemma gomap_get_in: "gomap_ok m \<Longrightarrow> gomap_get m k = Some v \<longleftrightarrow> (k, v) \<in> set m"
  by (simp add: gomap_ok_def)

lemma gomap_length_set:
  "gomap_ok m \<Longrightarrow> length (gomap_set m k v) = (if gomap_get m k = None then Suc (length m) else length m)"
  by (induction m k v rule: gomap_set.induct) (auto simp: gomap_ok_def)

lemma gomap_length_delete:
  "gomap_ok m \<Longrightarrow> length (gomap_delete m k) = (if gomap_get m k = None then length m else length m - 1)"
proof (induction m)
  case (Cons e m)
  have "filter (\<lambda>e'. fst e' \<noteq> fst e) m = m"
    using Cons.prems by (intro filter_True) (auto simp: gomap_ok_def image_iff)
  then show ?case
    using Cons by (cases e) (auto simp: gomap_ok_def gomap_delete_def, (metis Suc_pred length_pos_if_in_set map_of_SomeD)+)
qed (simp add: gomap_delete_def)

lemma fun_upd_None_idem: "f k = None \<Longrightarrow> f(k := None) = f"
  by (simp add: fun_upd_idem)

text \<open>Folding a step that commutes gives the same result in every iteration order.\<close>

lemma fold_perm:
  assumes comm: "\<And>x y. x \<in> set xs \<Longrightarrow> y \<in> set xs \<Longrightarrow> x \<noteq> y \<Longrightarrow> f x \<circ> f y = f y \<circ> f x"
    and perm: "mset xs = mset ys"
  shows "fold f xs = fold f ys"
proof (rule fold_multiset_equiv)
  show "mset xs = mset ys" by (rule perm)
  show "f x \<circ> f y = f y \<circ> f x" if "x \<in> set xs" "y \<in> set xs" for x y
    using comm [OF that] by (cases "x = y") auto
qed

end
