(* ===== verification/Go_Strconv.thy ===== *)
theory Go_Strconv
  imports Go_Prelude
begin

text \<open>
  The decimal conversions of the package strconv that the scheduler uses: \<^verbatim>\<open>Itoa\<close> and
  \<^verbatim>\<open>ParseInt\<close> with base 10 and 64 bits, and the quoting of text.
\<close>

definition is_digit :: "char \<Rightarrow> bool" where
  "is_digit c \<longleftrightarrow> 48 \<le> (of_char c :: nat) \<and> (of_char c :: nat) \<le> 57"

definition digit_val :: "char \<Rightarrow> nat" where
  "digit_val c = of_char c - 48"

definition digit_char :: "nat \<Rightarrow> char" where
  "digit_char d = char_of (d + 48)"

fun nat_digits :: "nat \<Rightarrow> string" where
  "nat_digits n =
     (if n < 10 then [digit_char n] else nat_digits (n div 10) @ [digit_char (n mod 10)])"

declare nat_digits.simps [simp del]

definition itoa :: "int \<Rightarrow> string" where
  "itoa i = (if i < 0 then CHR ''-'' # nat_digits (nat (- i)) else nat_digits (nat i))"

definition digits_val :: "string \<Rightarrow> nat" where
  "digits_val = foldl (\<lambda>v c. 10 * v + digit_val c) 0"

text \<open>\<^verbatim>\<open>Quote\<close>, the verb \<^verbatim>\<open>%q\<close>: text beyond ASCII is copied, as it is when it is printable.\<close>

definition hex_digit :: "nat \<Rightarrow> char" where
  "hex_digit d = (if d < 10 then char_of (d + 48) else char_of (d + 87))"

definition quote_char :: "char \<Rightarrow> string" where
  "quote_char c =
     (let n = of_char c :: nat; esc = (\<lambda>e. [CHR 0x5C, e]) in
      if n = 34 \<or> n = 92 then esc c
      else if 32 \<le> n \<and> n \<le> 126 \<or> 128 \<le> n then [c]
      else if n = 7 then esc CHR ''a'' else if n = 8 then esc CHR ''b'' else if n = 9 then esc CHR ''t''
      else if n = 10 then esc CHR ''n'' else if n = 11 then esc CHR ''v'' else if n = 12 then esc CHR ''f''
      else if n = 13 then esc CHR ''r'' else esc CHR ''x'' @ [hex_digit (n div 16), hex_digit (n mod 16)])"

definition go_quote :: "string \<Rightarrow> string" where
  "go_quote s = [CHR 0x22] @ concat (map quote_char s) @ [CHR 0x22]"

text \<open>\<^verbatim>\<open>ParseInt(s, 10, 64)\<close>; None is a syntax error or a value out of range.\<close>

fun parse_digits :: "string \<Rightarrow> nat option" where
  "parse_digits [] = None"
| "parse_digits cs = (if list_all is_digit cs then Some (digits_val cs) else None)"

definition parseInt :: "string \<Rightarrow> int option" where
  "parseInt s =
     (case s of [] \<Rightarrow> None
      | c # cs \<Rightarrow>
          (let neg = (c = CHR ''-''); ds = (if c = CHR ''-'' \<or> c = CHR ''+'' then cs else s)
           in case parse_digits ds of None \<Rightarrow> None
              | Some n \<Rightarrow> (let i = (if neg then - int n else int n)
                          in if in_int64 i then Some i else None)))"

lemma of_char_digit_char: "d < 10 \<Longrightarrow> (of_char (digit_char d) :: nat) = d + 48"
  by (simp add: digit_char_def)

lemma digit_char_digit [simp]: "d < 10 \<Longrightarrow> is_digit (digit_char d)"
  by (simp add: is_digit_def of_char_digit_char)

lemma digit_val_digit_char [simp]: "d < 10 \<Longrightarrow> digit_val (digit_char d) = d"
  by (simp add: digit_val_def of_char_digit_char)

lemma digit_val_less: "is_digit c \<Longrightarrow> digit_val c < 10"
  unfolding is_digit_def digit_val_def by linarith

lemma nat_digits_digits: "list_all is_digit (nat_digits n)"
proof (induction n rule: nat_digits.induct)
  case (1 n)
  then show ?case by (subst nat_digits.simps) simp
qed

lemma nat_digits_nonempty [simp]: "nat_digits n \<noteq> []"
  by (subst nat_digits.simps) simp

lemma digits_val_snoc: "digits_val (cs @ [c]) = 10 * digits_val cs + digit_val c"
  by (simp add: digits_val_def)

lemma digits_val_nat_digits [simp]: "digits_val (nat_digits n) = n"
proof (induction n rule: nat_digits.induct)
  case (1 n)
  then show ?case
    by (subst nat_digits.simps) (auto simp: digits_val_snoc digits_val_def)
qed

lemma parse_digits_nat_digits [simp]: "parse_digits (nat_digits n) = Some n"
  using nat_digits_digits [of n] digits_val_nat_digits [of n] by (cases "nat_digits n") simp_all

lemma digit_not_sign: "is_digit c \<Longrightarrow> c \<noteq> CHR ''-'' \<and> c \<noteq> CHR ''+'' \<and> c \<noteq> CHR ''.''"
  by (auto simp: is_digit_def)

lemma nat_digits_Cons:
  obtains c cs where "nat_digits n = c # cs" "is_digit c" "list_all is_digit cs"
  using nat_digits_digits [of n] by (cases "nat_digits n") auto

text \<open>Printing an int64 and parsing it back gives the same number.\<close>

lemma parseInt_itoa: "in_int64 i \<Longrightarrow> parseInt (itoa i) = Some i"
proof (cases "i < 0")
  case True
  assume "in_int64 i"
  with True show ?thesis by (simp add: itoa_def parseInt_def Let_def)
next
  case False
  assume i: "in_int64 i"
  obtain c cs where d: "nat_digits (nat i) = c # cs" "is_digit c" by (rule nat_digits_Cons)
  then have "parse_digits (c # cs) = Some (nat i)" using parse_digits_nat_digits [of "nat i"] by simp
  with d False i digit_not_sign [of c] show ?thesis
    by (simp add: itoa_def parseInt_def Let_def del: parse_digits.simps)
qed

text \<open>The number of digits printed, and that the first one is 0 only for 0.\<close>

lemma nat_digits_length: "0 < k \<Longrightarrow> length (nat_digits n) \<le> k \<longleftrightarrow> n < 10 ^ k"
proof (induction n arbitrary: k rule: nat_digits.induct)
  case (1 n)
  obtain k' where k: "k = Suc k'" using "1.prems" by (cases k) auto
  show ?case
  proof (cases "n < 10")
    case True
    then have "n < 10 * 10 ^ k'" by (rule less_le_trans) simp
    then show ?thesis using True k by (subst nat_digits.simps) simp
  next
    case False
    show ?thesis
    proof (cases k')
      case 0
      then show ?thesis using False k by (subst nat_digits.simps) simp
    next
      case (Suc j)
      then have "length (nat_digits (n div 10)) \<le> k' \<longleftrightarrow> n div 10 < 10 ^ k'"
        using "1.IH" [OF False] by simp
      then show ?thesis using False k by (subst nat_digits.simps) (simp add: div_less_iff_less_mult mult.commute)
    qed
  qed
qed

lemma char_of_nat_48: "(char_of (48 :: nat)) = CHR ''0''"
  by code_simp

lemma nat_digits_hd: "hd (nat_digits n) = CHR ''0'' \<longleftrightarrow> n = 0"
proof (induction n rule: nat_digits.induct)
  case (1 n)
  show ?case
  proof (cases "n < 10")
    case True
    have "digit_char n = CHR ''0'' \<longleftrightarrow> n = 0"
    proof
      assume "digit_char n = CHR ''0''"
      then have "digit_val (digit_char n) = digit_val CHR ''0''" by simp
      then show "n = 0" using True by (simp add: digit_val_def [of "CHR ''0''"])
    qed (simp add: digit_char_def char_of_nat_48)
    then show ?thesis using True by (subst nat_digits.simps) simp
  next
    case False
    then show ?thesis using "1" by (subst nat_digits.simps) simp
  qed
qed

end
