(* ===== verification/Go_Float.thy ===== *)
theory Go_Float
  imports Go_Strconv "HOL-Library.Log_Nat"
begin

text \<open>
  Go's \<^verbatim>\<open>float64\<close>: IEEE 754 binary64 with rounding to nearest, ties to even, as the
  language specification prescribes, and the parts of the packages math and strconv that the
  scheduler plugins call. A finite value carries its sign bit and its magnitude as an exact
  rational, so that negative zero is a value of its own. Every operation computes the exact
  rational result and rounds it once. The conversion of an out-of-range value to int64 is
  implementation-specific in Go: it is the parameter \<open>oob\<close> of the operations below.
\<close>

section \<open>Values and rounding\<close>

datatype float64 =
    F64_NaN
  | F64_Inf bool
  | F64_Fin bool rat

definition pow2 :: "int \<Rightarrow> rat" where
  "pow2 e = 2 powi e"

text \<open>The exponent of the largest power of two that is not above a positive rational.\<close>

definition rat_exp :: "rat \<Rightarrow> int" where
  "rat_exp m = (case quotient_of m of (a, b) \<Rightarrow>
     let e = bitlen a - bitlen b in if pow2 e \<le> m then e else e - 1)"

definition round_half_even :: "rat \<Rightarrow> int" where
  "round_half_even x =
     (let f = \<lfloor>x\<rfloor>; d = x - of_int f
      in if d < 1 / 2 then f else if d > 1 / 2 then f + 1 else if even f then f else f + 1)"

text \<open>
  \<open>f64_round s m\<close> rounds the exact magnitude \<open>m\<close> (not negative) with sign \<open>s\<close>: 53 bits of
  precision, exponents from -1022 to 1023, gradual underflow, overflow to infinity.
\<close>

definition f64_round :: "bool \<Rightarrow> rat \<Rightarrow> float64" where
  "f64_round s m =
     (if m = 0 then F64_Fin s 0
      else let e = max (rat_exp m) (-1022); k = round_half_even (m / pow2 (e - 52))
           in if e > 1023 \<or> (e = 1023 \<and> k \<ge> 9007199254740992) then F64_Inf s
              else F64_Fin s (of_int k * pow2 (e - 52)))"

definition f64_of_rat :: "rat \<Rightarrow> float64" where
  "f64_of_rat x = f64_round (x < 0) \<bar>x\<bar>"

definition f64_of_int :: "int \<Rightarrow> float64" where
  "f64_of_int i = f64_of_rat (of_int i)"

fun f64_sign :: "float64 \<Rightarrow> bool" where
  "f64_sign F64_NaN = False"
| "f64_sign (F64_Inf s) = s"
| "f64_sign (F64_Fin s m) = s"

text \<open>The number a finite value stands for.\<close>

fun f64_val :: "float64 \<Rightarrow> rat" where
  "f64_val (F64_Fin s m) = (if s then - m else m)"
| "f64_val _ = 0"

fun f64_finite :: "float64 \<Rightarrow> bool" where
  "f64_finite (F64_Fin s m) = True"
| "f64_finite _ = False"

section \<open>Arithmetic and comparison\<close>

fun f64_mul :: "float64 \<Rightarrow> float64 \<Rightarrow> float64" where
  "f64_mul (F64_Fin s m) (F64_Fin t n) = f64_round (s \<noteq> t) (m * n)"
| "f64_mul (F64_Inf s) (F64_Inf t) = F64_Inf (s \<noteq> t)"
| "f64_mul (F64_Inf s) (F64_Fin t n) = (if n = 0 then F64_NaN else F64_Inf (s \<noteq> t))"
| "f64_mul (F64_Fin s m) (F64_Inf t) = (if m = 0 then F64_NaN else F64_Inf (s \<noteq> t))"
| "f64_mul _ _ = F64_NaN"

fun f64_div :: "float64 \<Rightarrow> float64 \<Rightarrow> float64" where
  "f64_div (F64_Fin s m) (F64_Fin t n) =
     (if n = 0 then if m = 0 then F64_NaN else F64_Inf (s \<noteq> t) else f64_round (s \<noteq> t) (m / n))"
| "f64_div (F64_Inf s) (F64_Fin t n) = F64_Inf (s \<noteq> t)"
| "f64_div (F64_Fin s m) (F64_Inf t) = F64_Fin (s \<noteq> t) 0"
| "f64_div _ _ = F64_NaN"

fun f64_add :: "float64 \<Rightarrow> float64 \<Rightarrow> float64" where
  "f64_add (F64_Fin s m) (F64_Fin t n) =
     (let x = f64_val (F64_Fin s m) + f64_val (F64_Fin t n)
      in if x = 0 then F64_Fin (s \<and> t) 0 else f64_of_rat x)"
| "f64_add (F64_Inf s) (F64_Inf t) = (if s = t then F64_Inf s else F64_NaN)"
| "f64_add (F64_Inf s) (F64_Fin t n) = F64_Inf s"
| "f64_add (F64_Fin s m) (F64_Inf t) = F64_Inf t"
| "f64_add _ _ = F64_NaN"

fun f64_neg :: "float64 \<Rightarrow> float64" where
  "f64_neg (F64_Fin s m) = F64_Fin (\<not> s) m"
| "f64_neg (F64_Inf s) = F64_Inf (\<not> s)"
| "f64_neg F64_NaN = F64_NaN"

definition f64_sub :: "float64 \<Rightarrow> float64 \<Rightarrow> float64" where
  "f64_sub x y = f64_add x (f64_neg y)"

fun f64_lt :: "float64 \<Rightarrow> float64 \<Rightarrow> bool" where
  "f64_lt (F64_Fin s m) (F64_Fin t n) \<longleftrightarrow> f64_val (F64_Fin s m) < f64_val (F64_Fin t n)"
| "f64_lt (F64_Inf s) (F64_Inf t) \<longleftrightarrow> s \<and> \<not> t"
| "f64_lt (F64_Inf s) (F64_Fin t n) \<longleftrightarrow> s"
| "f64_lt (F64_Fin s m) (F64_Inf t) \<longleftrightarrow> \<not> t"
| "f64_lt _ _ \<longleftrightarrow> False"

fun f64_eq :: "float64 \<Rightarrow> float64 \<Rightarrow> bool" where
  "f64_eq (F64_Fin s m) (F64_Fin t n) \<longleftrightarrow> f64_val (F64_Fin s m) = f64_val (F64_Fin t n)"
| "f64_eq (F64_Inf s) (F64_Inf t) \<longleftrightarrow> s = t"
| "f64_eq _ _ \<longleftrightarrow> False"

definition f64_le :: "float64 \<Rightarrow> float64 \<Rightarrow> bool" where
  "f64_le x y \<longleftrightarrow> f64_lt x y \<or> f64_eq x y"

text \<open>\<^verbatim>\<open>math.Ceil\<close> and \<^verbatim>\<open>math.Max\<close>, special cases included.\<close>

fun f64_ceil :: "float64 \<Rightarrow> float64" where
  "f64_ceil (F64_Fin s m) = F64_Fin s (if s then of_int \<lfloor>m\<rfloor> else of_int \<lceil>m\<rceil>)"
| "f64_ceil x = x"

definition f64_max :: "float64 \<Rightarrow> float64 \<Rightarrow> float64" where
  "f64_max x y =
     (if x = F64_Inf False \<or> y = F64_Inf False then F64_Inf False
      else if x = F64_NaN \<or> y = F64_NaN then F64_NaN
      else if f64_val x = 0 \<and> f64_val y = 0 \<and> f64_finite x \<and> f64_finite y
        then (if f64_sign x then y else x)
      else if f64_lt y x then x else y)"

text \<open>The conversion \<^verbatim>\<open>int64(f)\<close>: truncation towards zero where the result fits.\<close>

definition rat_trunc :: "rat \<Rightarrow> int" where
  "rat_trunc x = (if x < 0 then - \<lfloor>- x\<rfloor> else \<lfloor>x\<rfloor>)"

definition f64_to_int64 :: "(float64 \<Rightarrow> int) \<Rightarrow> float64 \<Rightarrow> int" where
  "f64_to_int64 oob x =
     (if f64_finite x \<and> in_int64 (rat_trunc (f64_val x)) then rat_trunc (f64_val x)
      else wrap64 (oob x))"

text \<open>\<^verbatim>\<open>math.Pow10\<close>, with the product and quotient of its two tables.\<close>

definition math_Pow10 :: "int \<Rightarrow> float64" where
  "math_Pow10 n =
     (if 0 \<le> n \<and> n \<le> 308
      then f64_mul (f64_of_rat (10 ^ nat (32 * (n div 32)))) (f64_of_rat (10 ^ nat (n mod 32)))
      else if -323 \<le> n \<and> n \<le> 0
      then f64_div (f64_of_rat (1 / 10 ^ nat (32 * (- n div 32)))) (f64_of_rat (10 ^ nat (- n mod 32)))
      else if n > 0 then F64_Inf False else F64_Fin False 0)"

section \<open>strconv.ParseFloat\<close>

definition go_lower :: "char \<Rightarrow> char" where
  "go_lower c = (if 65 \<le> (of_char c :: nat) \<and> (of_char c :: nat) \<le> 90
     then char_of ((of_char c :: nat) + 32) else c)"

definition is_hex_letter :: "char \<Rightarrow> bool" where
  "is_hex_letter c \<longleftrightarrow> 97 \<le> (of_char (go_lower c) :: nat) \<and> (of_char (go_lower c) :: nat) \<le> 102"

definition hex_val :: "char \<Rightarrow> nat" where
  "hex_val c = (if is_digit c then digit_val c else of_char (go_lower c) - 87)"

text \<open>
  The mantissa loop of \<^verbatim>\<open>readFloat\<close>: underscores are skipped and noted, a second dot ends the
  number. The result is the digits' value, how many of them follow the dot, whether there was
  a digit, whether there was an underscore, and the rest of the string.
\<close>

fun read_mantissa ::
  "bool \<Rightarrow> string \<Rightarrow> bool \<Rightarrow> bool \<Rightarrow> bool \<Rightarrow> nat \<Rightarrow> nat \<Rightarrow> nat \<times> nat \<times> bool \<times> bool \<times> string" where
  "read_mantissa hex [] dot dig us v f = (v, f, dig, us, [])"
| "read_mantissa hex (c # cs) dot dig us v f =
     (if c = CHR ''_'' then read_mantissa hex cs dot dig True v f
      else if c = CHR ''.'' then
        (if dot then (v, f, dig, us, c # cs) else read_mantissa hex cs True dig us v f)
      else if is_digit c \<or> (hex \<and> is_hex_letter c) then
        read_mantissa hex cs dot True us ((if hex then 16 else 10) * v + hex_val c)
          (if dot then f + 1 else f)
      else (v, f, dig, us, c # cs))"

fun read_exponent :: "string \<Rightarrow> bool \<Rightarrow> nat \<Rightarrow> nat \<times> bool \<times> string" where
  "read_exponent [] us e = (e, us, [])"
| "read_exponent (c # cs) us e =
     (if c = CHR ''_'' then read_exponent cs True e
      else if is_digit c then read_exponent cs us (if e < 10000 then 10 * e + digit_val c else e)
      else (e, us, c # cs))"

datatype saw = Saw_Start | Saw_Digit | Saw_Underscore | Saw_Other

fun underscore_scan :: "bool \<Rightarrow> string \<Rightarrow> saw \<Rightarrow> bool" where
  "underscore_scan hex [] s \<longleftrightarrow> s \<noteq> Saw_Underscore"
| "underscore_scan hex (c # cs) s \<longleftrightarrow>
     (if is_digit c \<or> (hex \<and> is_hex_letter c) then underscore_scan hex cs Saw_Digit
      else if c = CHR ''_'' then s = Saw_Digit \<and> underscore_scan hex cs Saw_Underscore
      else s \<noteq> Saw_Underscore \<and> underscore_scan hex cs Saw_Other)"

fun strip_sign :: "string \<Rightarrow> bool \<times> string" where
  "strip_sign [] = (False, [])"
| "strip_sign (c # cs) =
     (if c = CHR ''-'' then (True, cs) else if c = CHR ''+'' then (False, cs) else (False, c # cs))"

fun underscore_body :: "string \<Rightarrow> bool" where
  "underscore_body (a # b # cs) \<longleftrightarrow>
     (if a = CHR ''0'' \<and> go_lower b \<in> {CHR ''b'', CHR ''o'', CHR ''x''}
      then underscore_scan (go_lower b = CHR ''x'') cs Saw_Digit
      else underscore_scan False (a # b # cs) Saw_Start)"
| "underscore_body cs \<longleftrightarrow> underscore_scan False cs Saw_Start"

definition underscoreOK :: "string \<Rightarrow> bool" where
  "underscoreOK s = underscore_body (snd (strip_sign s))"

fun is_hex_prefix :: "string \<Rightarrow> bool" where
  "is_hex_prefix (a # b # c # cs) \<longleftrightarrow> a = CHR ''0'' \<and> go_lower b = CHR ''x''"
| "is_hex_prefix _ \<longleftrightarrow> False"

text \<open>
  \<open>parse_exponent\<close> reads the optional exponent part after the mantissa; a hexadecimal number
  must have one. None is a syntax error.
\<close>

definition parse_exponent :: "bool \<Rightarrow> string \<Rightarrow> (int \<times> bool \<times> string) option" where
  "parse_exponent hex r =
     (case r of
        c # cs \<Rightarrow>
          if go_lower c = (if hex then CHR ''p'' else CHR ''e'') then
            (case strip_sign cs of (neg, ds) \<Rightarrow>
               (case ds of [] \<Rightarrow> None
                | d # _ \<Rightarrow> if is_digit d
                    then (case read_exponent ds False 0 of (e, us, r') \<Rightarrow>
                            Some (if neg then - int e else int e, us, r'))
                    else None))
          else if hex then None else Some (0, False, r)
      | [] \<Rightarrow> if hex then None else Some (0, False, r))"

definition readFloat :: "string \<Rightarrow> (bool \<times> rat) option" where
  "readFloat s =
     (case strip_sign s of (neg, b) \<Rightarrow>
        let hex = is_hex_prefix b in
        (case read_mantissa hex (if hex then drop 2 b else b) False False False 0 0 of
           (v, f, dig, us, r) \<Rightarrow>
             if \<not> dig then None
             else (case parse_exponent hex r of
                None \<Rightarrow> None
              | Some (e, us', r') \<Rightarrow>
                  if r' \<noteq> [] \<or> ((us \<or> us') \<and> \<not> underscoreOK s) then None
                  else Some (neg, of_nat v / (if hex then 16 else 10) ^ f
                                  * (if hex then 2 else 10) powi e))))"

definition special_float :: "string \<Rightarrow> float64 option" where
  "special_float s =
     (case strip_sign s of (neg, b) \<Rightarrow>
        if map go_lower b \<in> {''inf'', ''infinity''} then Some (F64_Inf neg)
        else if map go_lower s = ''nan'' then Some F64_NaN else None)"

text \<open>None is any error: bad syntax, or a value that overflows.\<close>

definition parseFloat :: "string \<Rightarrow> float64 option" where
  "parseFloat s =
     (case special_float s of
        Some x \<Rightarrow> Some x
      | None \<Rightarrow> (case readFloat s of
            None \<Rightarrow> None
          | Some (neg, v) \<Rightarrow>
              (let x = f64_round neg v in if f64_finite x then Some x else None)))"

section \<open>Facts about rounding\<close>

lemma pow2_less_iff [simp]: "pow2 a < pow2 b \<longleftrightarrow> a < b"
  unfolding pow2_def by (metis linorder_neq_iff one_less_numeral_iff order_less_asym power_int_strict_increasing
      semiring_norm(76))

lemma pow2_le_iff [simp]: "pow2 a \<le> pow2 b \<longleftrightarrow> a \<le> b"
  by (simp flip: not_less)

lemma pow2_pos [simp]: "0 < pow2 a"
  by (simp add: pow2_def)

lemma pow2_nonneg [simp]: "0 \<le> pow2 a"
  by (rule less_imp_le) simp

lemma pow2_nonzero [simp]: "pow2 a \<noteq> 0"
  by (simp add: pow2_def)

lemma pow2_0 [simp]: "pow2 0 = 1"
  by (simp add: pow2_def)

lemma pow2_add: "pow2 (a + b) = pow2 a * pow2 b"
  by (simp add: pow2_def power_int_add)

lemma pow2_diff: "pow2 (a - b) = pow2 a / pow2 b"
  by (simp add: pow2_def power_int_diff)

lemma pow2_nat: "pow2 (int n) = of_int (2 ^ n)"
  by (simp add: pow2_def)

lemma bitlen_powi_bounds:
  assumes "0 < a"
  shows "pow2 (bitlen a - 1) \<le> of_int a" and "of_int a < pow2 (bitlen a)"
proof -
  have "0 < bitlen a"
    using assms bitlen_nonneg [of a] bitlen_eq_zero_iff [of a] by linarith
  then have "pow2 (bitlen a - 1) = of_int (2 ^ nat (bitlen a - 1))"
    and "pow2 (bitlen a) = of_int (2 ^ nat (bitlen a))"
    using pow2_nat [of "nat (bitlen a - 1)"] pow2_nat [of "nat (bitlen a)"] by simp_all
  then show "pow2 (bitlen a - 1) \<le> of_int a" and "of_int a < pow2 (bitlen a)"
    using bitlen_bounds [OF assms] by (simp_all only: of_int_le_iff of_int_less_iff)
qed

lemma rat_exp_bounds:
  assumes "0 < m"
  shows "pow2 (rat_exp m) \<le> m" and "m < pow2 (rat_exp m + 1)"
proof -
  obtain a b where q: "quotient_of m = (a, b)" by (cases "quotient_of m") auto
  have b: "0 < b" using quotient_of_denom_pos [OF q] .
  have m: "m = of_int a / of_int b" using quotient_of_div [OF q] .
  have a: "0 < a" using assms b unfolding m by (simp add: zero_less_divide_iff)
  let ?e = "bitlen a - bitlen b"
  note la = bitlen_powi_bounds [OF a] and lb = bitlen_powi_bounds [OF b]
  have up: "m < pow2 (?e + 1)"
  proof -
    have "of_int a / of_int b < pow2 (bitlen a) / pow2 (bitlen b - 1)"
      using la lb b a by (intro frac_less) auto
    also have "\<dots> = pow2 (?e + 1)" by (simp add: pow2_diff pow2_add)
    finally show ?thesis by (simp add: m)
  qed
  have lo: "pow2 (?e - 1) \<le> m"
  proof -
    have "pow2 (?e - 1) = pow2 (bitlen a - 1) / pow2 (bitlen b)"
      by (simp add: pow2_diff)
    also have "\<dots> \<le> of_int a / of_int b"
      using la lb b a by (intro frac_le) auto
    finally show ?thesis by (simp add: m)
  qed
  show "pow2 (rat_exp m) \<le> m" and "m < pow2 (rat_exp m + 1)"
    using up lo by (auto simp: rat_exp_def q Let_def)
qed

lemma rat_exp_unique:
  assumes "pow2 e \<le> m" and "m < pow2 (e + 1)"
  shows "rat_exp m = e"
proof -
  have m: "0 < m" using assms(1) using pow2_pos [of e] by linarith
  have "pow2 e < pow2 (rat_exp m + 1)" "pow2 (rat_exp m) < pow2 (e + 1)"
    using rat_exp_bounds [OF m] assms by linarith+
  then have "e < rat_exp m + 1" "rat_exp m < e + 1"
    by (simp_all add: pow2_less_iff)
  then show ?thesis by linarith
qed

lemma rat_exp_mono: "0 < m \<Longrightarrow> m \<le> n \<Longrightarrow> rat_exp m \<le> rat_exp n"
proof -
  assume m: "0 < m" and mn: "m \<le> n"
  have "pow2 (rat_exp m) < pow2 (rat_exp n + 1)"
    using rat_exp_bounds(1) [OF m] rat_exp_bounds(2) [of n] m mn by linarith
  then show ?thesis by (simp add: pow2_less_iff)
qed

lemma round_half_even_cases:
  obtains "round_half_even x = \<lfloor>x\<rfloor>" "x - of_int \<lfloor>x\<rfloor> \<le> 1 / 2"
  | "round_half_even x = \<lfloor>x\<rfloor> + 1" "1 / 2 \<le> x - of_int \<lfloor>x\<rfloor>"
proof (cases "x - of_int \<lfloor>x\<rfloor>" "1 / 2 :: rat" rule: linorder_cases)
  case less
  then show ?thesis using that by (simp add: round_half_even_def)
next
  case equal
  then show ?thesis using that by (cases "even \<lfloor>x\<rfloor>") (simp_all add: round_half_even_def)
next
  case greater
  then show ?thesis using that by (simp add: round_half_even_def)
qed

lemma round_half_even_error: "\<bar>of_int (round_half_even x) - x\<bar> \<le> 1 / 2"
proof (cases rule: round_half_even_cases [of x])
  case 1
  then show ?thesis using of_int_floor_le [of x] by linarith
next
  case 2
  then show ?thesis using floor_correct [of x] by (simp add: abs_le_iff)
qed

lemma round_half_even_of_int [simp]: "round_half_even (of_int i) = i"
  by (simp add: round_half_even_def)

lemma round_half_even_mono:
  assumes "x \<le> y"
  shows "round_half_even x \<le> round_half_even y"
proof (cases "\<lfloor>x\<rfloor> = \<lfloor>y\<rfloor>")
  case True
  then have "x - of_int \<lfloor>x\<rfloor> \<le> y - of_int \<lfloor>y\<rfloor>" using assms by simp
  with True show ?thesis unfolding round_half_even_def Let_def by (auto split: if_splits)
next
  case False
  then have "\<lfloor>x\<rfloor> + 1 \<le> \<lfloor>y\<rfloor>" using floor_mono [OF assms] by linarith
  then show ?thesis
    by (cases rule: round_half_even_cases [of x]; cases rule: round_half_even_cases [of y]) auto
qed

lemma round_half_even_le: "x \<le> of_int i \<Longrightarrow> round_half_even x \<le> i"
  using round_half_even_mono [of x "of_int i"] by simp

lemma round_half_even_ge: "of_int i \<le> x \<Longrightarrow> i \<le> round_half_even x"
  using round_half_even_mono [of "of_int i" x] by simp


text \<open>The rounded magnitude, before the overflow test.\<close>

definition round_mag :: "rat \<Rightarrow> rat" where
  "round_mag m =
     (if m = 0 then 0
      else let e = max (rat_exp m) (-1022)
           in of_int (round_half_even (m / pow2 (e - 52))) * pow2 (e - 52))"

lemma pow2_53: "pow2 53 = 9007199254740992" and pow2_52: "pow2 52 = 4503599627370496"
  by (simp_all add: pow2_def)

lemma scaled_mantissa_less:
  assumes "0 < m"
  shows "m / pow2 (max (rat_exp m) (-1022) - 52) < 9007199254740992"
proof -
  let ?e = "max (rat_exp m) (-1022)"
  have "m < pow2 (rat_exp m + 1)" by (rule rat_exp_bounds(2) [OF assms])
  also have "\<dots> \<le> pow2 ((?e - 52) + 53)" by simp
  also have "\<dots> = pow2 (?e - 52) * 9007199254740992" by (simp only: pow2_add pow2_53)
  finally show ?thesis by (simp add: divide_less_eq mult.commute)
qed

lemma scaled_mantissa_ge:
  assumes "0 < m" and "-1022 \<le> rat_exp m"
  shows "4503599627370496 \<le> m / pow2 (rat_exp m - 52)"
proof -
  have "pow2 ((rat_exp m - 52) + 52) \<le> m" using rat_exp_bounds(1) [OF assms(1)] by simp
  then have "pow2 (rat_exp m - 52) * 4503599627370496 \<le> m" by (simp only: pow2_add pow2_52)
  then show ?thesis by (simp add: le_divide_eq mult.commute)
qed

lemma f64_round_round_mag:
  assumes "0 \<le> m"
  shows "f64_round s m = (if round_mag m < pow2 1024 then F64_Fin s (round_mag m) else F64_Inf s)"
proof (cases "m = 0")
  case True
  then show ?thesis by (simp add: f64_round_def round_mag_def)
next
  case False
  with assms have m: "0 < m" by simp
  define e where "e = max (rat_exp m) (-1022)"
  define k where "k = round_half_even (m / pow2 (e - 52))"
  have r: "round_mag m = of_int k * pow2 (e - 52)"
    using False by (simp add: round_mag_def e_def k_def Let_def)
  have k53: "k \<le> 9007199254740992"
    unfolding k_def e_def using scaled_mantissa_less [OF m] by (intro round_half_even_le) simp
  have split: "pow2 1024 = 9007199254740992 * pow2 971"
    using pow2_add [of 53 971] by (simp add: pow2_53)
  have over: "\<not> round_mag m < pow2 1024 \<longleftrightarrow> e > 1023 \<or> (e = 1023 \<and> k \<ge> 9007199254740992)"
  proof (cases e "1023::int" rule: linorder_cases)
    case less
    have "of_int k * pow2 (e - 52) \<le> 9007199254740992 * pow2 (e - 52)"
      using k53 by (intro mult_right_mono) simp_all
    also have "\<dots> < 9007199254740992 * pow2 971" using less by simp
    finally show ?thesis using less r split by simp
  next
    case equal
    then show ?thesis using r split by auto
  next
    case greater
    then have e: "e = rat_exp m" by (simp add: e_def split: if_splits)
    have "4503599627370496 \<le> k"
      unfolding k_def using scaled_mantissa_ge [OF m] greater e by (intro round_half_even_ge) simp
    then have "4503599627370496 * pow2 972 \<le> of_int k * pow2 (e - 52)"
      using greater by (intro mult_mono) simp_all
    moreover have "4503599627370496 * pow2 972 = pow2 1024"
      using pow2_add [of 52 972] by (simp add: pow2_52)
    ultimately show ?thesis using greater r by simp
  qed
  show ?thesis
    using False over r by (auto simp: f64_round_def Let_def e_def [symmetric] k_def [symmetric])
qed

lemma round_mag_0 [simp]: "round_mag 0 = 0"
  by (simp add: round_mag_def)

lemma round_mag_pos_eq:
  "0 < m \<Longrightarrow> round_mag m = of_int (round_half_even (m / pow2 (max (rat_exp m) (-1022) - 52)))
     * pow2 (max (rat_exp m) (-1022) - 52)"
  by (simp add: round_mag_def Let_def)

lemma round_mag_nonneg: "0 \<le> m \<Longrightarrow> 0 \<le> round_mag m"
proof (cases "m = 0")
  case False
  assume "0 \<le> m"
  with False have m: "0 < m" by simp
  have "0 \<le> round_half_even (m / pow2 (max (rat_exp m) (-1022) - 52))"
    using m by (intro round_half_even_ge) simp
  then show ?thesis using m by (simp add: round_mag_pos_eq)
qed simp

text \<open>Half a unit in the last place.\<close>

lemma round_mag_error:
  assumes "0 < m"
  shows "\<bar>round_mag m - m\<bar> \<le> pow2 (max (rat_exp m) (-1022) - 53)"
proof -
  let ?u = "pow2 (max (rat_exp m) (-1022) - 52)"
  let ?k = "of_int (round_half_even (m / ?u)) :: rat"
  have "round_mag m - m = (?k - m / ?u) * ?u"
    using assms by (simp add: round_mag_pos_eq left_diff_distrib)
  then have "\<bar>round_mag m - m\<bar> = \<bar>?k - m / ?u\<bar> * ?u" by (simp add: abs_mult)
  also have "\<dots> \<le> 1 / 2 * ?u" by (intro mult_right_mono round_half_even_error) simp
  also have "\<dots> = pow2 (max (rat_exp m) (-1022) - 53)"
    using pow2_diff [of "max (rat_exp m) (-1022) - 52" 1] by (simp add: pow2_def)
  finally show ?thesis .
qed

text \<open>The relative error of a result in the normal range.\<close>

lemma round_mag_rel_error:
  assumes "pow2 (-1022) \<le> m"
  shows "\<bar>round_mag m - m\<bar> \<le> m * pow2 (-53)"
proof -
  have m: "0 < m" using assms pow2_pos [of "-1022"] by linarith
  have "pow2 (-1022) < pow2 (rat_exp m + 1)" using assms rat_exp_bounds(2) [OF m] by linarith
  then have e: "max (rat_exp m) (-1022) = rat_exp m" by simp
  have "\<bar>round_mag m - m\<bar> \<le> pow2 (rat_exp m - 53)" using round_mag_error [OF m] e by simp
  also have "\<dots> = pow2 (rat_exp m) * pow2 (-53)" by (simp flip: pow2_add)
  also have "\<dots> \<le> m * pow2 (-53)" using rat_exp_bounds(1) [OF m] by (intro mult_right_mono) simp_all
  finally show ?thesis .
qed

text \<open>Values with at most 53 significant bits above the least exponent are exact.\<close>

lemma round_mag_exact:
  assumes "0 \<le> k" and "k \<le> 9007199254740992" and "-1074 \<le> j"
  shows "round_mag (of_int k * pow2 j) = of_int k * pow2 j"
proof (cases "k = 0")
  case False
  define m where "m = of_int k * pow2 j"
  define e where "e = max (rat_exp m) (-1022)"
  have m: "0 < m" using False assms(1) by (simp add: m_def)
  have q: "m / pow2 (e - 52) = of_int k * pow2 (j - (e - 52))" by (simp add: m_def pow2_diff)
  have "\<exists>i. m / pow2 (e - 52) = of_int i"
  proof (cases "e - 52 \<le> j")
    case True
    then have "m / pow2 (e - 52) = of_int (k * 2 ^ nat (j - (e - 52)))"
      using q pow2_nat [of "nat (j - (e - 52))"] by simp
    then show ?thesis by blast
  next
    case False
    then have e: "e = rat_exp m" using assms(3) by (simp add: e_def split: if_splits)
    have "pow2 e \<le> of_int k * pow2 j" using rat_exp_bounds(1) [OF m] e by (simp add: m_def)
    also have "\<dots> \<le> pow2 53 * pow2 j"
      using assms(2) by (intro mult_right_mono) (simp_all add: pow2_53)
    finally have "e \<le> 53 + j" by (simp flip: pow2_add)
    with False have ej: "e = 53 + j" by simp
    with \<open>pow2 e \<le> of_int k * pow2 j\<close> have "9007199254740992 \<le> k" by (simp add: pow2_add pow2_53)
    with assms(2) have "k = 9007199254740992" by simp
    then have "m / pow2 (e - 52) = of_int 4503599627370496" using q ej by (simp add: pow2_def)
    then show ?thesis by blast
  qed
  then obtain i where i: "m / pow2 (e - 52) = of_int i" by blast
  have "round_mag m = of_int (round_half_even (m / pow2 (e - 52))) * pow2 (e - 52)"
    using m by (simp add: round_mag_pos_eq e_def)
  also have "\<dots> = (m / pow2 (e - 52)) * pow2 (e - 52)" by (simp only: i round_half_even_of_int)
  finally have "round_mag m = m" by simp
  then show ?thesis by (simp add: m_def)
qed simp

lemma round_mag_of_int: "0 \<le> k \<Longrightarrow> k \<le> 9007199254740992 \<Longrightarrow> round_mag (of_int k) = of_int k"
  using round_mag_exact [of k 0] by simp

lemma round_mag_mono:
  assumes "0 \<le> m" and "m \<le> n"
  shows "round_mag m \<le> round_mag n"
proof (cases "m = 0")
  case True
  then show ?thesis using assms by (simp add: round_mag_nonneg)
next
  case False
  with assms have m: "0 < m" and n: "0 < n" by simp_all
  define e where "e = max (rat_exp m) (-1022)"
  define e' where "e' = max (rat_exp n) (-1022)"
  have ee: "e \<le> e'" using rat_exp_mono [OF m assms(2)] by (auto simp: e_def e'_def)
  show ?thesis
  proof (cases "e = e'")
    case True
    have "round_half_even (m / pow2 (e - 52)) \<le> round_half_even (n / pow2 (e - 52))"
      using assms(2) by (intro round_half_even_mono divide_right_mono) simp_all
    then show ?thesis
      using True m n by (simp add: round_mag_pos_eq e_def [symmetric] e'_def [symmetric])
  next
    case False
    with ee have less: "e < e'" by simp
    have en: "e' = rat_exp n" using less by (auto simp: e_def e'_def split: if_splits)
    have "round_half_even (m / pow2 (e - 52)) \<le> 9007199254740992"
      using scaled_mantissa_less [OF m] unfolding e_def by (intro round_half_even_le) simp
    then have "round_mag m \<le> pow2 53 * pow2 (e - 52)"
      using m by (simp add: round_mag_pos_eq e_def [symmetric] pow2_53)
    also have "\<dots> \<le> pow2 e'" using less by (simp flip: pow2_add)
    also have "\<dots> = 4503599627370496 * pow2 (e' - 52)"
      using pow2_add [of 52 "e' - 52"] by (simp add: pow2_52)
    also have "\<dots> \<le> round_mag n"
    proof -
      have "4503599627370496 \<le> round_half_even (n / pow2 (e' - 52))"
        using scaled_mantissa_ge [OF n] en less by (intro round_half_even_ge) (simp add: e_def e'_def)
      then show ?thesis using n by (simp add: round_mag_pos_eq e'_def [symmetric])
    qed
    finally show ?thesis .
  qed
qed


section \<open>Facts about conversions\<close>

lemma f64_of_int_exact:
  assumes "\<bar>i\<bar> \<le> 9007199254740992"
  shows "f64_of_int i = F64_Fin (i < 0) (of_int \<bar>i\<bar>)"
proof -
  have "round_mag (of_int \<bar>i\<bar>) = of_int \<bar>i\<bar>" using assms by (intro round_mag_of_int) simp_all
  moreover have "of_int \<bar>i\<bar> < pow2 1024"
  proof -
    have "of_int \<bar>i\<bar> \<le> pow2 53" using assms by (simp add: pow2_53)
    then show ?thesis by (rule le_less_trans) simp
  qed
  ultimately show ?thesis
    by (simp add: f64_of_int_def f64_of_rat_def f64_round_round_mag)
qed

lemma f64_round_finite:
  assumes "0 \<le> m" and "m \<le> pow2 1023"
  shows "f64_round s m = F64_Fin s (round_mag m)"
proof -
  have "round_mag (pow2 1023) = pow2 1023" using round_mag_exact [of 1 1023] by simp
  then have "round_mag m \<le> pow2 1023" using round_mag_mono [OF assms] by simp
  then have "round_mag m < pow2 1024" by (rule le_less_trans) simp
  then show ?thesis using assms(1) by (simp add: f64_round_round_mag)
qed

lemma rat_trunc_nonneg: "0 \<le> x \<Longrightarrow> rat_trunc x = \<lfloor>x\<rfloor>"
  by (simp add: rat_trunc_def)

lemma f64_to_int64_in_int64: "in_int64 (f64_to_int64 oob x)"
  by (simp add: f64_to_int64_def)

lemma f64_to_int64_Fin:
  "0 \<le> m \<Longrightarrow> m < 9223372036854775808 \<Longrightarrow> f64_to_int64 oob (F64_Fin False m) = \<lfloor>m\<rfloor>"
  by (simp add: f64_to_int64_def rat_trunc_nonneg in_int64_def floor_less_iff)

end
