(* ===== verification/Quantity_Math.thy ===== *)
theory Quantity_Math
  imports Go_Float
begin

text \<open>
  The int64 arithmetic of resource quantities (math.go and scale_int.go of the package
  k8s.io/apimachinery/pkg/api/resource): overflow-checked addition and multiplication,
  scaling by powers of ten, removal of factors. Checked operations return the pair of a value
  and a flag that is false on overflow.
\<close>

abbreviation mostNegative :: int where
  "mostNegative \<equiv> - 9223372036854775808"

section \<open>Definitions\<close>

definition int64Add :: "int \<Rightarrow> int \<Rightarrow> int \<times> bool" where
  "int64Add a b =
     (let c = wrap64 (a + b) in
      if a > 0 \<and> b > 0 then (if c < 0 then (0, False) else (c, True))
      else if a < 0 \<and> b < 0 then
        (if c > 0 then (0, False)
         else if a = mostNegative \<and> b = mostNegative then (0, False) else (c, True))
      else (c, True))"

definition int64Multiply :: "int \<Rightarrow> int \<Rightarrow> int \<times> bool" where
  "int64Multiply a b =
     (if a = 0 \<or> b = 0 \<or> a = 1 \<or> b = 1 then (wrap64 (a * b), True)
      else if a = mostNegative \<or> b = mostNegative then (0, False)
      else let c = wrap64 (a * b) in (c, go_div c b = a))"

definition int64MultiplyScale :: "int \<Rightarrow> int \<Rightarrow> int \<times> bool" where
  "int64MultiplyScale a b =
     (if a = 0 \<or> a = 1 then (wrap64 (a * b), True)
      else if a = mostNegative \<and> b \<noteq> 1 then (0, False)
      else let c = wrap64 (a * b) in (c, go_div c b = a))"

definition int64MultiplyScale10 :: "int \<Rightarrow> int \<times> bool" where
  "int64MultiplyScale10 a =
     (if a = 0 \<or> a = 1 then (wrap64 (a * 10), True)
      else if a = mostNegative then (0, False)
      else let c = wrap64 (a * 10) in (c, go_div c 10 = a))"

definition int64MultiplyScale100 :: "int \<Rightarrow> int \<times> bool" where
  "int64MultiplyScale100 a =
     (if a = 0 \<or> a = 1 then (wrap64 (a * 100), True)
      else if a = mostNegative then (0, False)
      else let c = wrap64 (a * 100) in (c, go_div c 100 = a))"

definition int64MultiplyScale1000 :: "int \<Rightarrow> int \<times> bool" where
  "int64MultiplyScale1000 a =
     (if a = 0 \<or> a = 1 then (wrap64 (a * 1000), True)
      else if a = mostNegative then (0, False)
      else let c = wrap64 (a * 1000) in (c, go_div c 1000 = a))"

text \<open>The default case's loop of \<^verbatim>\<open>positiveScaleInt64\<close>; the counter is what is left of the scale.\<close>

fun positiveScale_loop :: "nat \<Rightarrow> int \<Rightarrow> int \<times> bool" where
  "positiveScale_loop 0 value = (value, True)"
| "positiveScale_loop (Suc n) value =
     (case int64MultiplyScale value 10 of (v, ok) \<Rightarrow>
        if ok then positiveScale_loop n v else (0, False))"

definition positiveScaleInt64 :: "int \<Rightarrow> int \<Rightarrow> int \<times> bool" where
  "positiveScaleInt64 base scale =
     (if scale = 0 then (base, True)
      else if scale = 1 then int64MultiplyScale10 base
      else if scale = 2 then int64MultiplyScale100 base
      else if scale = 3 then int64MultiplyScale1000 base
      else if scale = 6 then int64MultiplyScale base 1000000
      else if scale = 9 then int64MultiplyScale base 1000000000
      else positiveScale_loop (nat scale) base)"

fun negativeScale_loop :: "nat \<Rightarrow> int \<Rightarrow> int \<Rightarrow> bool \<Rightarrow> int \<times> bool" where
  "negativeScale_loop 0 base value fraction =
     (if fraction then (if base > 0 then wrap64 (value + 1) else wrap64 (value - 1)) else value,
      \<not> fraction)"
| "negativeScale_loop (Suc n) base value fraction =
     (let fraction' = (fraction \<or> go_mod value 10 \<noteq> 0); value' = go_div value 10 in
      if value' = 0 then
        (if fraction' then (if base > 0 then (1, False) else (-1, False)) else (0, True))
      else negativeScale_loop n base value' fraction')"

definition negativeScaleInt64 :: "int \<Rightarrow> int \<Rightarrow> int \<times> bool" where
  "negativeScaleInt64 base scale =
     (if scale = 0 then (base, True) else negativeScale_loop (nat scale) base base False)"

definition pow10Int64 :: "int \<Rightarrow> int" where
  "pow10Int64 b = (if 0 \<le> b \<and> b \<le> 18 then 10 ^ nat b else 0)"

definition divideByScaleInt64 :: "int \<Rightarrow> int \<Rightarrow> int \<times> int \<times> bool" where
  "divideByScaleInt64 base scale =
     (if scale = 0 then (base, 0, True)
      else if scale \<ge> 18 then (0, base, False)
      else let divisor = pow10Int64 scale in (go_div base divisor, go_mod base divisor, True))"

text \<open>
  \<^verbatim>\<open>removeInt64Factors\<close>: its loop does not end for the base 1, so it is a partial function;
  all three cases of the source run the same loop with their own base.
\<close>

partial_function (option) removeFactors_loop :: "int \<Rightarrow> int \<Rightarrow> int \<Rightarrow> (int \<times> int) option" where
  [code]: "removeFactors_loop base result cnt =
     (if result \<ge> base \<and> go_mod result base = 0
      then removeFactors_loop base (go_div result base) (wrap32 (cnt + 1))
      else Some (result, cnt))"

definition removeInt64Factors :: "int \<Rightarrow> int \<Rightarrow> (int \<times> int) option" where
  "removeInt64Factors value base =
     (let negative = value < 0; r0 = (if negative then wrap64 (- value) else value) in
      case removeFactors_loop base r0 0 of None \<Rightarrow> None
      | Some (r, t) \<Rightarrow> Some (if negative then wrap64 (- r) else r, t))"

text \<open>
  \<^verbatim>\<open>scaledValue\<close> on an arbitrary-precision integer. \<^verbatim>\<open>big.Int.Int64\<close> keeps the low 64 bits,
  \<^verbatim>\<open>DivMod\<close> is Euclidean (the divisor is positive here).
\<close>

definition scaledValue :: "(float64 \<Rightarrow> int) \<Rightarrow> int \<Rightarrow> int \<Rightarrow> int \<Rightarrow> int" where
  "scaledValue oob unscaled scale newScale =
     (let dif = scale - newScale in
      if dif = 0 then wrap64 unscaled
      else if dif < 0 then wrap64 (wrap64 unscaled * f64_to_int64 oob (math_Pow10 (- dif)))
      else if unscaled < 9223372036854775807 \<and> dif < 19 then
        (let divide = f64_to_int64 oob (math_Pow10 dif);
             result = go_div (wrap64 unscaled) divide;
             md = go_mod (wrap64 unscaled) divide
         in if md \<noteq> 0 then wrap64 (result + 1) else result)
      else
        (let divisor = 10 ^ nat dif; result = unscaled div divisor; remainder = unscaled mod divisor
         in if remainder \<noteq> 0 then wrap64 (wrap64 result + 1) else wrap64 result))"

section \<open>Checked arithmetic is exact\<close>

text \<open>
  The contract of a checked operation: the flag says whether the exact result fits, and
  where it fits it is returned.
\<close>

locale checked_operation =
  fixes opr :: "int \<Rightarrow> int \<Rightarrow> int \<times> bool" and exact :: "int \<Rightarrow> int \<Rightarrow> int"
    and dom2 :: "int \<Rightarrow> bool"
  assumes flag: "in_int64 a \<Longrightarrow> in_int64 b \<Longrightarrow> dom2 b \<Longrightarrow> snd (opr a b) \<longleftrightarrow> in_int64 (exact a b)"
    and result: "in_int64 a \<Longrightarrow> in_int64 b \<Longrightarrow> dom2 b \<Longrightarrow> snd (opr a b) \<Longrightarrow> fst (opr a b) = exact a b"
begin

lemma ok_cases:
  assumes "in_int64 a" and "in_int64 b" and "dom2 b"
  obtains "opr a b = (exact a b, True)" "in_int64 (exact a b)"
  | v where "opr a b = (v, False)" "\<not> in_int64 (exact a b)"
proof (cases "opr a b")
  case (Pair v ok)
  show ?thesis
  proof (cases ok)
    case True
    then have "snd (opr a b)" by (simp add: Pair)
    then have "opr a b = (exact a b, True)" "in_int64 (exact a b)"
      using flag [OF assms] result [OF assms] Pair by auto
    then show ?thesis by (rule that(1))
  next
    case False
    then show ?thesis using flag [OF assms] Pair by (intro that(2) [of v]) auto
  qed
qed

end

text \<open>
  The overflow test of every multiplication here: the wrapped product divided by a factor
  gives the other factor only if nothing was wrapped away.
\<close>

lemma wrapped_product_quotient:
  assumes a: "in_int64 a" "a \<noteq> mostNegative" and b: "in_int64 b" "b \<noteq> 0" "b \<noteq> mostNegative"
  shows "go_div (wrap64 (a * b)) b = a \<longleftrightarrow> in_int64 (a * b)"
proof
  assume "in_int64 (a * b)"
  then have "go_div (wrap64 (a * b)) b = wrap64 ((a * b) sdiv b)"
    by (simp add: go_div_def go_int)
  also have "(a * b) sdiv b = a"
    using b by (simp add: mult_sdiv_cancel)
  finally show "go_div (wrap64 (a * b)) b = a" using a by (simp add: go_int)
next
  assume eq: "go_div (wrap64 (a * b)) b = a"
  define c where "c = wrap64 (a * b)"
  have c: "in_int64 c" by (simp add: c_def)
  show "in_int64 (a * b)"
  proof (cases "b = -1")
    case True
    then show ?thesis using a by (auto simp: in_int64_def)
  next
    case False
    have "\<bar>c sdiv b\<bar> \<le> 9223372036854775807 \<or> b = 1"
    proof (cases "b = 1")
      case False
      then have b2: "2 \<le> \<bar>b\<bar>" using \<open>b \<noteq> -1\<close> b(2) by linarith
      have "\<bar>c\<bar> div \<bar>b\<bar> \<le> \<bar>c\<bar> div 2" using b2 by (intro zdiv_mono2) auto
      then show ?thesis using c by (simp add: abs_sdiv in_int64_def) linarith
    qed simp
    then have "in_int64 (c sdiv b)" using c by (auto simp: in_int64_def)
    then have q: "c sdiv b = a" using eq by (simp add: go_div_def go_int flip: c_def)
    have "\<bar>c smod b\<bar> < \<bar>b\<bar>" using smod_int_range [of b c] b(2) by (auto simp: abs_if)
    moreover have "c - a * b = c smod b" using sdiv_smod [of c b] q by simp
    ultimately have "\<bar>c - a * b\<bar> < 9223372036854775808" using b by (auto simp: in_int64_def)
    moreover have "18446744073709551616 dvd (c - a * b)" unfolding c_def by (rule wrap64_dvd)
    ultimately have "c = a * b" using zdvd_imp_le [of 18446744073709551616 "\<bar>c - a * b\<bar>"] by auto
    then show ?thesis using c by simp
  qed
qed

lemma int64Add_spec:
  assumes "in_int64 a" and "in_int64 b"
  shows "int64Add a b = (if in_int64 (a + b) then (a + b, True) else (0, False))"
proof (cases "in_int64 (a + b)")
  case True
  then show ?thesis by (auto simp: int64Add_def Let_def go_int in_int64_def)
next
  case False
  have w: "wrap64 (a + b) = (if 0 < a then a + b - 18446744073709551616 else a + b + 18446744073709551616)"
  proof -
    have "in_int64 (a + b - 18446744073709551616)" if "0 < a"
      using that assms False by (auto simp: in_int64_def)
    moreover have "in_int64 (a + b + 18446744073709551616)" if "\<not> 0 < a"
      using that assms False by (auto simp: in_int64_def)
    moreover have "wrap64 (a + b) = wrap64 (a + b - 18446744073709551616)"
      and "wrap64 (a + b) = wrap64 (a + b + 18446744073709551616)"
      by (simp_all add: wrap64_cong)
    ultimately show ?thesis by (auto simp: go_int)
  qed
  show ?thesis
    using assms False unfolding int64Add_def Let_def w by (auto simp: in_int64_def)
qed

interpretation add64: checked_operation int64Add "(+)" "\<lambda>_. True"
  by unfold_locales (simp_all add: int64Add_spec split: if_splits)

interpretation mul64: checked_operation int64Multiply "(*)" "\<lambda>_. True"
proof unfold_locales
  fix a b :: int
  assume ab: "in_int64 a" "in_int64 b"
  have small: "in_int64 (a * b)" if "a = 0 \<or> b = 0 \<or> a = 1 \<or> b = 1"
    using that ab by (auto simp: in_int64_def)
  have big: "\<not> in_int64 (a * b)"
    if "a = mostNegative \<or> b = mostNegative" "\<not> (a = 0 \<or> b = 0 \<or> a = 1 \<or> b = 1)"
    using that ab by (auto simp: in_int64_def)
  note q = wrapped_product_quotient [of a b]
  show "snd (int64Multiply a b) \<longleftrightarrow> in_int64 (a * b)"
    using ab small big q by (auto simp: int64Multiply_def Let_def)
  then show "fst (int64Multiply a b) = a * b" if "snd (int64Multiply a b)"
    using that ab small big by (auto simp: int64Multiply_def Let_def go_int split: if_splits)
qed

interpretation mulscale64: checked_operation int64MultiplyScale "(*)" "\<lambda>b. 1 < b"
proof unfold_locales
  fix a b :: int
  assume ab: "in_int64 a" "in_int64 b" "1 < b"
  have small: "in_int64 (a * b)" if "a = 0 \<or> a = 1"
    using that ab by (auto simp: in_int64_def)
  have big: "\<not> in_int64 (a * b)" if "a = mostNegative"
    using that ab by (auto simp: in_int64_def)
  note q = wrapped_product_quotient [of a b]
  show "snd (int64MultiplyScale a b) \<longleftrightarrow> in_int64 (a * b)"
    using ab small big q by (auto simp: int64MultiplyScale_def Let_def)
  then show "fst (int64MultiplyScale a b) = a * b" if "snd (int64MultiplyScale a b)"
    using that ab small big by (auto simp: int64MultiplyScale_def Let_def go_int split: if_splits)
qed

text \<open>The variants with a constant factor are instances of the general one.\<close>

lemma int64MultiplyScale_consts:
  "int64MultiplyScale10 a = int64MultiplyScale a 10"
  "int64MultiplyScale100 a = int64MultiplyScale a 100"
  "int64MultiplyScale1000 a = int64MultiplyScale a 1000"
  by (simp_all add: int64MultiplyScale10_def int64MultiplyScale100_def
      int64MultiplyScale1000_def int64MultiplyScale_def)

lemma in_int64_mult_le:
  assumes "in_int64 (v * m)" and "1 \<le> k" and "k \<le> m"
  shows "in_int64 (v * k)"
proof (cases "0 \<le> v")
  case True
  then have "0 \<le> v * k" "v * k \<le> v * m" using assms by (auto intro: mult_left_mono)
  then show ?thesis using assms(1) by (auto simp: in_int64_def)
next
  case False
  then have "v * m \<le> v * k" "v * k \<le> 0"
    using assms by (auto intro: mult_left_mono_neg simp: mult_nonpos_nonneg)
  then show ?thesis using assms(1) by (auto simp: in_int64_def)
qed

lemma positiveScale_loop_spec:
  assumes "in_int64 v"
  shows "positiveScale_loop n v =
    (if in_int64 (v * 10 ^ n) then (v * 10 ^ n, True) else (0, False))"
  using assms
proof (induction n arbitrary: v)
  case 0
  then show ?case by simp
next
  case (Suc n)
  have ten: "in_int64 10" "(1::int) < 10" by (simp_all add: in_int64_def)
  show ?case
  proof (cases rule: mulscale64.ok_cases [OF Suc.prems ten])
    case 1
    then show ?thesis using Suc.IH [OF 1(2)] by (simp add: mult.assoc)
  next
    case (2 x)
    have "(1::int) \<le> 10 ^ n" by simp
    then have "(10::int) \<le> 10 ^ Suc n" unfolding power_Suc by linarith
    then have "\<not> in_int64 (v * 10 ^ Suc n)" using 2(2) in_int64_mult_le [of v "10 ^ Suc n" 10] by auto
    then show ?thesis using 2 by simp
  qed
qed

lemma positiveScaleInt64_flag:
  assumes "in_int64 base" and "0 \<le> scale"
  shows "snd (positiveScaleInt64 base scale) \<longleftrightarrow> in_int64 (base * 10 ^ nat scale)"
    and "snd (positiveScaleInt64 base scale) \<Longrightarrow>
      fst (positiveScaleInt64 base scale) = base * 10 ^ nat scale"
proof -
  note m = mulscale64.flag [OF assms(1)] mulscale64.result [OF assms(1)]
  have c: "in_int64 10" "in_int64 100" "in_int64 1000" "in_int64 1000000" "in_int64 1000000000"
    by (simp_all add: in_int64_def)
  show "snd (positiveScaleInt64 base scale) \<longleftrightarrow> in_int64 (base * 10 ^ nat scale)"
    using assms m c
    by (auto simp: positiveScaleInt64_def int64MultiplyScale_consts positiveScale_loop_spec)
  show "fst (positiveScaleInt64 base scale) = base * 10 ^ nat scale"
    if "snd (positiveScaleInt64 base scale)"
    using that assms m c
    by (auto simp: positiveScaleInt64_def int64MultiplyScale_consts positiveScale_loop_spec
        split: if_splits)
qed

text \<open>Division rounding away from zero.\<close>

definition div_away :: "int \<Rightarrow> int \<Rightarrow> int" where
  "div_away b p = sgn b * ((\<bar>b\<bar> + p - 1) div p)"

lemma div_away_eq:
  assumes "0 < p"
  shows "div_away b p = b sdiv p + (if p dvd b then 0 else sgn b)"
proof -
  have "(\<bar>b\<bar> + p - 1) div p = \<bar>b\<bar> div p + (if p dvd b then 0 else 1)"
  proof (cases "p dvd b")
    case True
    then obtain c where "\<bar>b\<bar> = p * c" by (metis dvd_abs_iff dvdE)
    then show ?thesis using True assms by (simp add: div_pos_pos_trivial add_diff_eq [symmetric])
  next
    case False
    then have "\<bar>b\<bar> mod p \<noteq> 0" by (simp add: mod_eq_0_iff_dvd)
    then have r: "1 \<le> \<bar>b\<bar> mod p" "\<bar>b\<bar> mod p < p" 
      using pos_mod_sign [OF assms, of "\<bar>b\<bar>"] pos_mod_bound [OF assms, of "\<bar>b\<bar>"] by linarith+
    have "(\<bar>b\<bar> + p - 1) = (\<bar>b\<bar> mod p - 1) + (\<bar>b\<bar> div p + 1) * p"
      using div_mult_mod_eq [of "\<bar>b\<bar>" p] by (simp add: algebra_simps)
    then have "(\<bar>b\<bar> + p - 1) div p = ((\<bar>b\<bar> mod p - 1) + (\<bar>b\<bar> div p + 1) * p) div p"
      by (rule arg_cong)
    also have "\<dots> = (\<bar>b\<bar> div p + 1) + (\<bar>b\<bar> mod p - 1) div p"
      using assms by (intro div_mult_self1) simp
    finally have "(\<bar>b\<bar> + p - 1) div p = (\<bar>b\<bar> div p + 1) + (\<bar>b\<bar> mod p - 1) div p" .
    then show ?thesis using False r by (simp add: div_pos_pos_trivial)
  qed
  then show ?thesis
    using assms by (simp add: div_away_def signed_divide_int_def distrib_left)
qed

lemma div_away_bounds:
  assumes "0 < p"
  shows "\<bar>b\<bar> \<le> \<bar>div_away b p\<bar> * p" and "\<bar>div_away b p\<bar> * p < \<bar>b\<bar> + p"
proof -
  have n: "0 \<le> (\<bar>b\<bar> + p - 1) div p" using assms by (simp add: pos_imp_zdiv_nonneg_iff)
  then have a: "\<bar>div_away b p\<bar> = (if b = 0 then 0 else (\<bar>b\<bar> + p - 1) div p)"
    by (simp add: div_away_def abs_mult abs_sgn_eq)
  have "(\<bar>b\<bar> + p - 1) div p * p = \<bar>b\<bar> + p - 1 - (\<bar>b\<bar> + p - 1) mod p"
    by (simp add: minus_mod_eq_div_mult)
  moreover have "0 \<le> (\<bar>b\<bar> + p - 1) mod p" "(\<bar>b\<bar> + p - 1) mod p < p" using assms by simp_all
  ultimately show "\<bar>b\<bar> \<le> \<bar>div_away b p\<bar> * p" and "\<bar>div_away b p\<bar> * p < \<bar>b\<bar> + p"
    using a assms by (cases "b = 0"; simp; linarith)+
qed

lemma sdiv_sdiv: "0 < p \<Longrightarrow> 0 < q \<Longrightarrow> (b sdiv p) sdiv q = b sdiv (p * q)" for b p q :: int
proof (cases b "0 :: int" rule: linorder_cases)
  case less
  assume pq: "0 < p" "0 < q"
  have "b sdiv p = - (- b div p)" using less pq by (simp add: signed_divide_int_def)
  moreover have "(- (- b div p)) sdiv q = - ((- b div p) div q)"
    using sdiv_pos [of "- b div p" q] less pq pos_imp_zdiv_nonneg_iff [of p "- b"] by simp
  moreover have "b sdiv (p * q) = - (- b div (p * q))" using less pq by (simp add: signed_divide_int_def)
  ultimately show ?thesis using pq by (simp add: zdiv_zmult2_eq)
next
  case greater
  assume pq: "0 < p" "0 < q"
  then show ?thesis
    using greater pos_imp_zdiv_nonneg_iff [of p b] by (simp add: sdiv_pos zdiv_zmult2_eq)
qed simp

lemma dvd_sdiv_step:
  fixes b p q :: int
  assumes "0 < p" "0 < q"
  shows "(p * q) dvd b \<longleftrightarrow> p dvd b \<and> q dvd (b sdiv p)"
proof
  assume "(p * q) dvd b"
  then obtain c where "b = p * q * c" by (rule dvdE)
  then have c: "b = (q * c) * p" by (simp add: ac_simps)
  then have "b sdiv p = q * c" using assms mult_sdiv_cancel [of p "q * c"] by simp
  then show "p dvd b \<and> q dvd (b sdiv p)" using c by simp
next
  assume "p dvd b \<and> q dvd (b sdiv p)"
  then obtain c where c: "b = c * p" "q dvd (b sdiv p)" by (metis dvdE mult.commute)
  then have "q dvd c" using assms mult_sdiv_cancel [of p c] by simp
  then show "(p * q) dvd b" using c(1) by (simp add: mult.commute)
qed

lemma go_mod_10_eq_0: "go_mod v 10 = 0 \<longleftrightarrow> 10 dvd v"
proof -
  have "v smod 10 = 0 \<longleftrightarrow> \<bar>v\<bar> mod 10 = 0"
    by (cases "v = 0") (simp_all add: smod_int_alt_def sgn_if)
  then show ?thesis by (simp add: go_mod_def mod_eq_0_iff_dvd)
qed

lemma div_away_small: "\<bar>b\<bar> < p \<Longrightarrow> div_away b p = sgn b"
proof (cases "b = 0")
  case False
  assume lt: "\<bar>b\<bar> < p"
  then have p: "0 < p" by linarith
  have "\<not> p dvd b" using lt False zdvd_imp_le [of p "\<bar>b\<bar>"] by auto
  moreover have "b sdiv p = 0" using lt by (simp add: signed_divide_int_def div_pos_pos_trivial)
  ultimately show ?thesis using div_away_eq [OF p] by simp
qed (simp add: div_away_def)

lemma in_int64_round_step:
  assumes "in_int64 b" and "0 < p" and "\<not> p dvd b"
  shows "in_int64 (b sdiv p + 1)" and "in_int64 (b sdiv p - 1)"
proof -
  have "p \<noteq> 1" using assms(3) by auto
  then have "\<bar>b\<bar> div p \<le> \<bar>b\<bar> div 2" using assms(2) by (intro zdiv_mono2) auto
  then have "\<bar>b sdiv p\<bar> \<le> 4611686018427387904" using assms by (simp add: abs_sdiv in_int64_def) linarith
  then show "in_int64 (b sdiv p + 1)" and "in_int64 (b sdiv p - 1)" by (auto simp: in_int64_def)
qed

lemma negativeScale_loop_spec:
  assumes "in_int64 base"
  shows "negativeScale_loop n base (base sdiv 10 ^ i) (\<not> 10 ^ i dvd base) =
    (div_away base (10 ^ (i + n)), 10 ^ (i + n) dvd base)"
proof (induction n arbitrary: i)
  case 0
  have p: "(0::int) < 10 ^ i" by simp
  show ?case
  proof (cases "(10::int) ^ i dvd base")
    case False
    then have "base \<noteq> 0" by auto
    then show ?thesis
      using False in_int64_round_step [OF assms p False] div_away_eq [OF p, of base]
      by (auto simp: go_int)
  qed (use div_away_eq [OF p, of base] in simp)
next
  case (Suc n)
  have p: "(0::int) < 10 ^ i" "(0::int) < 10" by simp_all
  have pp: "(0::int) < 10 ^ (i + Suc n)" by (rule zero_less_power) simp
  let ?v = "base sdiv 10 ^ i"
  have v: "go_div ?v 10 = base sdiv 10 ^ Suc i"
    using assms p by (simp add: go_int in_int64_sdiv_pos sdiv_sdiv mult.commute)
  have f: "(\<not> 10 ^ i dvd base \<or> go_mod ?v 10 \<noteq> 0) \<longleftrightarrow> \<not> 10 ^ Suc i dvd base"
    using dvd_sdiv_step [OF p, of base] by (simp add: go_mod_10_eq_0 mult.commute)
  show ?case
  proof (cases "base sdiv 10 ^ Suc i = 0")
    case True
    then have "\<bar>base\<bar> div 10 ^ Suc i = 0" by (metis abs_sdiv abs_zero abs_of_pos zero_less_power zero_less_numeral)
    then have lt: "\<bar>base\<bar> < 10 ^ Suc i" by (metis abs_ge_zero div_eq_0_iff div_pos_pos_trivial leD not_le
      pos_imp_zdiv_pos_iff zero_less_numeral zero_less_power less_irrefl)
    have "(10::int) ^ Suc i \<le> 10 ^ (i + Suc n)" by (rule power_increasing) simp_all
    then have lt': "\<bar>base\<bar> < 10 ^ (i + Suc n)" using lt by linarith
    have "(10 ^ Suc i dvd base) = (base = 0)" "(10 ^ (i + Suc n) dvd base) = (base = 0)"
      using lt lt' zdvd_imp_le [of "10 ^ Suc i" "\<bar>base\<bar>"] zdvd_imp_le [of "10 ^ (i + Suc n)" "\<bar>base\<bar>"]
      by (auto simp del: power_Suc)
    then show ?thesis using True v f div_away_small [OF lt'] by (auto simp: Let_def simp del: power_Suc)
  next
    case False
    then show ?thesis using v f Suc.IH [of "Suc i"] by (simp add: Let_def del: power_Suc)
  qed
qed

lemma negativeScaleInt64_spec:
  assumes "in_int64 base" and "0 \<le> scale"
  shows "negativeScaleInt64 base scale =
    (div_away base (10 ^ nat scale), 10 ^ nat scale dvd base)"
proof (cases "scale = 0")
  case True
  then show ?thesis by (simp add: negativeScaleInt64_def div_away_def abs_sgn mult.commute)
next
  case False
  then show ?thesis using negativeScale_loop_spec [OF assms(1), of "nat scale" 0]
    by (simp add: negativeScaleInt64_def)
qed

section \<open>Factors\<close>

lemma wrap32_id: "in_int32 x \<Longrightarrow> wrap32 x = x"
  by (simp add: in_int32_def wrap32_def mod_pos_pos_trivial)

text \<open>
  The factor loop ends for every base above 1. The bound \<open>n\<close> on the bits of the argument bounds
  the number of rounds, so the int32 counter does not wrap.
\<close>

lemma removeFactors_loop_spec:
  assumes "2 \<le> base" and "0 \<le> r" and "r < 2 ^ n" and "0 \<le> t" and "t + int n < 2147483648"
    and "in_int64 r"
  shows "\<exists>r' k. removeFactors_loop base r t = Some (r', t + int k) \<and> r = r' * base ^ k \<and> 0 \<le> r'
    \<and> (r' < base \<or> \<not> base dvd r')"
  using assms
proof (induction n arbitrary: r t)
  case 0
  then have "removeFactors_loop base r t = Some (r, t + int 0)"
    by (simp add: removeFactors_loop.simps)
  then show ?case using 0 by (intro exI [of _ r] exI [of _ 0]) simp
next
  case (Suc n)
  have md: "go_mod r base = 0 \<longleftrightarrow> base dvd r"
    using Suc.prems by (simp add: go_mod_def smod_mod_positive mod_eq_0_iff_dvd)
  show ?case
  proof (cases "r \<ge> base \<and> base dvd r")
    case True
    then obtain c where c: "r = c * base" by (metis dvdE mult.commute)
    have dv: "go_div r base = c" using Suc.prems c by (simp add: go_int mult_sdiv_cancel)
    have cpos: "0 \<le> c" using c Suc.prems by (simp add: zero_le_mult_iff)
    have "c * 2 \<le> c * base" using cpos Suc.prems(1) by (intro mult_left_mono)
    then have c2: "c * 2 \<le> r" using c by simp
    then have cn: "c < 2 ^ n" using Suc.prems(3) by simp
    have "in_int64 c" using c2 cpos Suc.prems(6) by (auto simp: in_int64_def)
    moreover have "wrap32 (t + 1) = t + 1" using Suc.prems by (intro wrap32_id) (simp add: in_int32_def)
    ultimately obtain r' k where IH: "removeFactors_loop base c (t + 1) = Some (r', t + 1 + int k)"
      "c = r' * base ^ k" "0 \<le> r'" "r' < base \<or> \<not> base dvd r'"
      using Suc.IH [of c "t + 1"] Suc.prems cpos cn by auto
    have "removeFactors_loop base r t = Some (r', t + int (Suc k))"
      using True md dv \<open>wrap32 (t + 1) = t + 1\<close> IH(1)
      by (subst removeFactors_loop.simps) (simp add: algebra_simps)
    then show ?thesis using IH c by (intro exI [of _ r'] exI [of _ "Suc k"]) simp
  next
    case False
    then have "removeFactors_loop base r t = Some (r, t + int 0)"
      using md by (subst removeFactors_loop.simps) auto
    then show ?thesis using False Suc.prems by (intro exI [of _ r] exI [of _ 0]) auto
  qed
qed

lemma removeInt64Factors_spec:
  assumes "in_int64 value" and "value \<noteq> mostNegative" and "2 \<le> base"
  shows "\<exists>r k. removeInt64Factors value base = Some (r, int k) \<and> value = r * base ^ k
    \<and> (\<bar>r\<bar> < base \<or> \<not> base dvd r)"
proof -
  define a where "a = \<bar>value\<bar>"
  have a: "0 \<le> a" "a < 2 ^ 63" "in_int64 a" using assms by (auto simp: a_def in_int64_def)
  obtain r k where rk: "removeFactors_loop base a 0 = Some (r, int k)" "a = r * base ^ k" "0 \<le> r"
    "r < base \<or> \<not> base dvd r"
    using removeFactors_loop_spec [OF assms(3) a(1,2), of 0] a(3) by auto
  have "r * 1 \<le> r * base ^ k" using rk(3) assms(3) by (intro mult_left_mono) simp_all
  then have "in_int64 (- r)" using a rk by (auto simp: in_int64_def)
  then have "removeInt64Factors value base = Some (if value < 0 then - r else r, int k)"
    using rk assms by (auto simp: removeInt64Factors_def Let_def a_def go_int in_int64_def)
  then show ?thesis
    using rk assms by (intro exI [of _ "if value < 0 then - r else r"] exI [of _ k]) (auto simp: a_def)
qed

section \<open>Scaling arbitrary-precision values\<close>

lemma math_Pow10_small:
  assumes "0 \<le> n" and "n \<le> 18"
  shows "math_Pow10 n = F64_Fin False (10 ^ nat n)"
proof -
  define k where "k = nat n"
  have k: "k \<le> 18" using assms by (simp add: k_def)
  have n: "n div 32 = 0" "n mod 32 = n" using assms by simp_all
  have e: "(10 :: rat) ^ k = of_int (5 ^ k) * pow2 (int k)"
    by (simp add: pow2_nat flip: power_mult_distrib)
  have five: "(5::int) ^ k \<le> 9007199254740992"
  proof -
    have "(5::int) ^ k \<le> 5 ^ 18" using k by (intro power_increasing) simp_all
    then show ?thesis by simp
  qed
  have r: "round_mag (10 ^ k) = 10 ^ k"
    unfolding e using five by (intro round_mag_exact) simp_all
  have "(10 :: rat) ^ k \<le> 10 ^ 18" using k by (intro power_increasing) simp_all
  also have "\<dots> \<le> pow2 64" by (simp add: pow2_def)
  also have "\<dots> \<le> pow2 1023" by simp
  finally have fin: "f64_round s (10 ^ k) = F64_Fin s (10 ^ k)" for s
    using f64_round_finite [of "10 ^ k" s] r by simp
  have one: "f64_of_rat 1 = F64_Fin False 1" using f64_of_int_exact [of 1] by (simp add: f64_of_int_def)
  show ?thesis
    using assms n fin [of False] one
    by (simp add: math_Pow10_def f64_of_rat_def k_def [symmetric])
qed

lemma int64_Pow10:
  assumes "0 \<le> n" and "n \<le> 18"
  shows "f64_to_int64 oob (math_Pow10 n) = 10 ^ nat n"
proof -
  have "(10::int) ^ nat n \<le> 10 ^ 18" using assms by (intro power_increasing) simp_all
  then have "in_int64 (10 ^ nat n)" by (auto simp: in_int64_def intro: order_trans [of _ 0])
  moreover have "rat_trunc (10 ^ nat n) = 10 ^ nat n"
    using rat_trunc_nonneg [of "of_int (10 ^ nat n)"] by (simp only: floor_of_int) simp
  ultimately show ?thesis using assms by (simp add: math_Pow10_small f64_to_int64_def)
qed

text \<open>
  Scaling a nonnegative value down is the ceiling of the exact quotient; on both of the
  source's paths (int64 and big.Int) it is the same.
\<close>

lemma scaledValue_nonneg:
  assumes "0 \<le> u" and "newScale < scale"
  shows "scaledValue oob u scale newScale = wrap64 (div_away u (10 ^ nat (scale - newScale)))"
proof -
  define d where "d = scale - newScale"
  define p where "p = (10::int) ^ nat d"
  have p: "0 < p" by (simp add: p_def)
  have d: "d \<noteq> 0" "\<not> d < 0" using assms by (simp_all add: d_def)
  have sd: "u sdiv p = u div p" using assms(1) p by (simp add: sdiv_pos)
  have da: "div_away u p = u div p + (if p dvd u then 0 else 1)"
    using div_away_eq [OF p, of u] sd assms(1) by (cases "u = 0") auto
  show ?thesis
  proof (cases "u < 9223372036854775807 \<and> d < 19")
    case True
    then have iu: "in_int64 u" using assms by (simp add: in_int64_def)
    have pw: "f64_to_int64 oob (math_Pow10 d) = p" using True d by (simp add: int64_Pow10 p_def)
    have "go_mod u p = 0 \<longleftrightarrow> p dvd u"
      using assms(1) p by (simp add: go_mod_def smod_mod_positive mod_eq_0_iff_dvd)
    moreover have "go_div u p = u div p" using iu p sd by (simp add: go_int)
    moreover have "in_int64 (u div p)" using iu p sd in_int64_sdiv_pos [of u p] by simp
    ultimately show ?thesis
      using True d da pw iu
      by (auto simp: scaledValue_def Let_def d_def [symmetric] p_def [symmetric] go_int)
  next
    case False
    then show ?thesis using d da
      by (auto simp: scaledValue_def Let_def d_def [symmetric] p_def [symmetric] mod_eq_0_iff_dvd)
  qed
qed

end
