(* ===== verification/Quantity.thy ===== *)
theory Quantity
  imports Quantity_Math
begin

text \<open>
  Resource quantities: \<^verbatim>\<open>int64Amount\<close> (amount.go), \<^verbatim>\<open>Quantity\<close> (quantity.go) with its parser,
  the suffix tables (suffix.go), and the operations of the vendored decimal type inf.Dec that
  they use. A quantity is an int64 with a decimal scale or, when that is too small, an
  arbitrary-precision decimal.
\<close>

section \<open>Decimals (gopkg.in/inf.v0)\<close>

record infDec =
  dec_unscaled :: int
  dec_scale :: int

text \<open>
  A shift of exactly \<^verbatim>\<open>-2^31\<close>, whose int32 negation overflows and makes the code's \<^verbatim>\<open>exp10\<close> index
  its cache out of range, is outside the model.
\<close>

definition dec_rescale :: "infDec \<Rightarrow> int \<Rightarrow> infDec" where
  "dec_rescale x newScale =
     (let shift = wrap32 (newScale - dec_scale x) in
      if shift < 0 then \<lparr>dec_unscaled = dec_unscaled x sdiv 10 ^ nat (- shift), dec_scale = newScale\<rparr>
      else if shift > 0 then \<lparr>dec_unscaled = dec_unscaled x * 10 ^ nat shift, dec_scale = newScale\<rparr>
      else x)"

definition dec_upscale :: "infDec \<Rightarrow> infDec \<Rightarrow> infDec \<times> infDec" where
  "dec_upscale a b =
     (if dec_scale a = dec_scale b then (a, b)
      else if dec_scale a > dec_scale b then (a, dec_rescale b (dec_scale a))
      else (dec_rescale a (dec_scale b), b))"

definition int_cmp :: "int \<Rightarrow> int \<Rightarrow> int" where
  "int_cmp a b = (if a < b then -1 else if a = b then 0 else 1)"

definition dec_cmp :: "infDec \<Rightarrow> infDec \<Rightarrow> int" where
  "dec_cmp x y = (case dec_upscale x y of (xx, yy) \<Rightarrow> int_cmp (dec_unscaled xx) (dec_unscaled yy))"

definition dec_add :: "infDec \<Rightarrow> infDec \<Rightarrow> infDec" where
  "dec_add x y = (case dec_upscale x y of (xx, yy) \<Rightarrow>
     \<lparr>dec_unscaled = dec_unscaled xx + dec_unscaled yy, dec_scale = dec_scale xx\<rparr>)"

definition dec_sub :: "infDec \<Rightarrow> infDec \<Rightarrow> infDec" where
  "dec_sub x y = (case dec_upscale x y of (xx, yy) \<Rightarrow>
     \<lparr>dec_unscaled = dec_unscaled xx - dec_unscaled yy, dec_scale = dec_scale xx\<rparr>)"

definition dec_neg :: "infDec \<Rightarrow> infDec" where
  "dec_neg x = x\<lparr>dec_unscaled := - dec_unscaled x\<rparr>"

definition dec_sign :: "infDec \<Rightarrow> int" where
  "dec_sign x = sgn (dec_unscaled x)"

text \<open>\<^verbatim>\<open>Round(x, s, RoundUp)\<close>: the quotient by one at scale \<open>s\<close>, then away from zero.\<close>

definition dec_round_up :: "infDec \<Rightarrow> int \<Rightarrow> infDec" where
  "dec_round_up x s =
     (let shift = wrap32 (s - dec_scale x);
          ix = (if shift > 0 then dec_unscaled x * 10 ^ nat shift else dec_unscaled x);
          iy = (if shift < 0 then 10 ^ nat (- shift) else 1);
          q = ix sdiv iy; r = ix smod iy
      in \<lparr>dec_unscaled = (if r \<noteq> 0 then q + sgn r else q), dec_scale = s\<rparr>)"

text \<open>
  \<^verbatim>\<open>SetString\<close>: an optional sign that must come first, digits with at most one dot, and
  nothing else; the scale is the number of characters collected after the dot.
\<close>

fun dec_scan :: "string \<Rightarrow> string \<Rightarrow> nat option \<Rightarrow> bool \<Rightarrow> (string \<times> nat option \<times> bool) option" where
  "dec_scan [] acc dp dg = Some (acc, dp, dg)"
| "dec_scan (c # cs) acc dp dg =
     (if c = CHR ''+'' \<or> c = CHR ''-'' then
        (if acc \<noteq> [] \<or> dp \<noteq> None then None else dec_scan cs (acc @ [c]) dp dg)
      else if c = CHR ''.'' then
        (if dp \<noteq> None then None else dec_scan cs acc (Some (length acc)) dg)
      else if is_digit c then dec_scan cs (acc @ [c]) dp True
      else None)"

definition big_of_string :: "string \<Rightarrow> int option" where
  "big_of_string s =
     (case s of [] \<Rightarrow> None
      | c # cs \<Rightarrow>
          map_option (\<lambda>n. if c = CHR ''-'' then - int n else int n)
            (parse_digits (if c = CHR ''-'' \<or> c = CHR ''+'' then cs else s)))"

definition dec_set_string :: "string \<Rightarrow> infDec option" where
  "dec_set_string s =
     (case dec_scan s [] None False of None \<Rightarrow> None
      | Some (acc, dp, dg) \<Rightarrow>
          if \<not> dg then None
          else map_option (\<lambda>u. \<lparr>dec_unscaled = u,
              dec_scale = (case dp of None \<Rightarrow> 0 | Some n \<Rightarrow> wrap32 (int (length acc) - int n))\<rparr>)
            (big_of_string acc))"

section \<open>Amounts (amount.go)\<close>

record int64Amount =
  ia_value :: int
  ia_scale :: int

definition int64Amount_Sign :: "int64Amount \<Rightarrow> int" where
  "int64Amount_Sign a = (if ia_value a = 0 then 0 else if ia_value a > 0 then 1 else -1)"

definition int64Amount_AsInt64 :: "int64Amount \<Rightarrow> int \<times> bool" where
  "int64Amount_AsInt64 a =
     (if ia_scale a = 0 then (ia_value a, True)
      else if ia_scale a < 0 then (0, False)
      else positiveScaleInt64 (ia_value a) (ia_scale a))"

definition AsScaledInt64 :: "int64Amount \<Rightarrow> int \<Rightarrow> int \<times> bool" where
  "AsScaledInt64 a scale =
     (if ia_scale a < scale
      then (fst (negativeScaleInt64 (ia_value a) (wrap32 (scale - ia_scale a))), True)
      else positiveScaleInt64 (ia_value a) (wrap32 (ia_scale a - scale)))"

definition int64Amount_AsDec :: "int64Amount \<Rightarrow> infDec" where
  "int64Amount_AsDec a = \<lparr>dec_unscaled = ia_value a, dec_scale = wrap32 (- ia_scale a)\<rparr>"

definition int64Amount_Cmp :: "int64Amount \<Rightarrow> int64Amount \<Rightarrow> int" where
  "int64Amount_Cmp a b =
     (if ia_scale a = ia_scale b then int_cmp (ia_value a) (ia_value b)
      else if ia_scale a > ia_scale b then
        (case divideByScaleInt64 (ia_value b) (wrap32 (ia_scale a - ia_scale b)) of
           (result, remainder, exact) \<Rightarrow>
             if \<not> exact then dec_cmp (int64Amount_AsDec a) (int64Amount_AsDec b)
             else if result = ia_value a then
               (if remainder = 0 then 0 else if remainder > 0 then -1 else 1)
             else int_cmp (ia_value a) result)
      else
        (case divideByScaleInt64 (ia_value a) (wrap32 (ia_scale b - ia_scale a)) of
           (result, remainder, exact) \<Rightarrow>
             if \<not> exact then dec_cmp (int64Amount_AsDec a) (int64Amount_AsDec b)
             else if result = ia_value b then
               (if remainder = 0 then 0 else if remainder > 0 then 1 else -1)
             else int_cmp result (ia_value b)))"

text \<open>\<^verbatim>\<open>Add\<close> mutates its receiver: the pair is the receiver afterwards and the flag.\<close>

definition int64Amount_Add :: "int64Amount \<Rightarrow> int64Amount \<Rightarrow> int64Amount \<times> bool" where
  "int64Amount_Add a b =
     (if ia_value b = 0 then (a, True)
      else if ia_value a = 0 then (b, True)
      else if ia_scale a = ia_scale b then
        (case int64Add (ia_value a) (ia_value b) of (c, ok) \<Rightarrow>
           if ok then (a\<lparr>ia_value := c\<rparr>, True) else (a, False))
      else if ia_scale a > ia_scale b then
        (case positiveScaleInt64 (ia_value a) (wrap32 (ia_scale a - ia_scale b)) of (c, ok) \<Rightarrow>
           if \<not> ok then (a, False)
           else (case int64Add c (ia_value b) of (c', ok') \<Rightarrow>
             if ok' then (\<lparr>ia_value = c', ia_scale = ia_scale b\<rparr>, True) else (a, False)))
      else
        (case positiveScaleInt64 (ia_value b) (wrap32 (ia_scale b - ia_scale a)) of (c, ok) \<Rightarrow>
           if \<not> ok then (a, False)
           else (case int64Add (ia_value a) c of (c', ok') \<Rightarrow>
             if ok' then (a\<lparr>ia_value := c'\<rparr>, True) else (a, False))))"

definition int64Amount_Sub :: "int64Amount \<Rightarrow> int64Amount \<Rightarrow> int64Amount \<times> bool" where
  "int64Amount_Sub a b = int64Amount_Add a \<lparr>ia_value = wrap64 (- ia_value b), ia_scale = ia_scale b\<rparr>"

definition int64Amount_AsScale :: "int64Amount \<Rightarrow> int \<Rightarrow> int64Amount \<times> bool" where
  "int64Amount_AsScale a scale =
     (if ia_scale a \<ge> scale then (a, True)
      else (case negativeScaleInt64 (ia_value a) (wrap32 (scale - ia_scale a)) of (r, exact) \<Rightarrow>
        (\<lparr>ia_value = r, ia_scale = scale\<rparr>, exact)))"

section \<open>Quantities (quantity.go)\<close>

datatype Format = NoFormat | DecimalExponent | BinarySI | DecimalSI

record Quantity =
  q_i :: int64Amount
  q_d :: "infDec option"
  q_s :: string
  q_format :: Format

abbreviation Nano :: int where "Nano \<equiv> -9"
abbreviation Milli :: int where "Milli \<equiv> -3"

definition zero_amount :: int64Amount where
  "zero_amount = \<lparr>ia_value = 0, ia_scale = 0\<rparr>"

definition NewQuantity :: "int \<Rightarrow> Format \<Rightarrow> Quantity" where
  "NewQuantity v f = \<lparr>q_i = \<lparr>ia_value = v, ia_scale = 0\<rparr>, q_d = None, q_s = [], q_format = f\<rparr>"

definition NewMilliQuantity :: "int \<Rightarrow> Format \<Rightarrow> Quantity" where
  "NewMilliQuantity v f = \<lparr>q_i = \<lparr>ia_value = v, ia_scale = -3\<rparr>, q_d = None, q_s = [], q_format = f\<rparr>"

definition NewScaledQuantity :: "int \<Rightarrow> int \<Rightarrow> Quantity" where
  "NewScaledQuantity v scale =
     \<lparr>q_i = \<lparr>ia_value = v, ia_scale = scale\<rparr>, q_d = None, q_s = [], q_format = DecimalSI\<rparr>"

definition ScaledValue :: "(float64 \<Rightarrow> int) \<Rightarrow> Quantity \<Rightarrow> int \<Rightarrow> int" where
  "ScaledValue oob q scale =
     (case q_d q of None \<Rightarrow> fst (AsScaledInt64 (q_i q) scale)
      | Some dec \<Rightarrow> scaledValue oob (dec_unscaled dec) (dec_scale dec) (wrap32 (- scale)))"

definition Value :: "(float64 \<Rightarrow> int) \<Rightarrow> Quantity \<Rightarrow> int" where
  "Value oob q = ScaledValue oob q 0"

definition MilliValue :: "(float64 \<Rightarrow> int) \<Rightarrow> Quantity \<Rightarrow> int" where
  "MilliValue oob q = ScaledValue oob q Milli"

text \<open>
  \<^verbatim>\<open>AsDec\<close> promotes its receiver in place: the pair is the decimal and the receiver afterwards.
  \<^verbatim>\<open>ToDec\<close> is the same promotion, returning the receiver only.
\<close>

definition Quantity_AsDec :: "Quantity \<Rightarrow> infDec \<times> Quantity" where
  "Quantity_AsDec q = (case q_d q of Some d \<Rightarrow> (d, q)
     | None \<Rightarrow> (let d = int64Amount_AsDec (q_i q) in (d, q\<lparr>q_d := Some d, q_i := zero_amount\<rparr>)))"

definition ToDec :: "Quantity \<Rightarrow> Quantity" where
  "ToDec q = (case q_d q of Some _ \<Rightarrow> q
     | None \<Rightarrow> q\<lparr>q_d := Some (int64Amount_AsDec (q_i q)), q_i := zero_amount\<rparr>)"

definition IsZero :: "Quantity \<Rightarrow> bool" where
  "IsZero q = (case q_d q of Some d \<Rightarrow> dec_sign d = 0 | None \<Rightarrow> ia_value (q_i q) = 0)"

definition Quantity_Sign :: "Quantity \<Rightarrow> int" where
  "Quantity_Sign q = (case q_d q of Some d \<Rightarrow> dec_sign d | None \<Rightarrow> int64Amount_Sign (q_i q))"

definition Quantity_Cmp :: "Quantity \<Rightarrow> Quantity \<Rightarrow> int \<times> Quantity" where
  "Quantity_Cmp q y =
     (if q_d q = None \<and> q_d y = None then (int64Amount_Cmp (q_i q) (q_i y), q)
      else (case Quantity_AsDec q of (d, q') \<Rightarrow> (dec_cmp d (fst (Quantity_AsDec y)), q')))"

definition CmpInt64 :: "Quantity \<Rightarrow> int \<Rightarrow> int" where
  "CmpInt64 q y =
     (case q_d q of Some d \<Rightarrow> dec_cmp d \<lparr>dec_unscaled = y, dec_scale = 0\<rparr>
      | None \<Rightarrow> int64Amount_Cmp (q_i q) \<lparr>ia_value = y, ia_scale = 0\<rparr>)"

definition Quantity_AsInt64 :: "Quantity \<Rightarrow> int \<times> bool" where
  "Quantity_AsInt64 q = (case q_d q of Some _ \<Rightarrow> (0, False) | None \<Rightarrow> int64Amount_AsInt64 (q_i q))"

definition Quantity_Add :: "Quantity \<Rightarrow> Quantity \<Rightarrow> Quantity" where
  "Quantity_Add q0 y =
     (let q = q0\<lparr>q_s := []\<rparr>;
          slow = (\<lambda>q. (ToDec q)\<lparr>q_d := Some (dec_add (fst (Quantity_AsDec q)) (fst (Quantity_AsDec y)))\<rparr>)
      in if q_d q = None \<and> q_d y = None then
           (let q = (if ia_value (q_i q) = 0 then q\<lparr>q_format := q_format y\<rparr> else q)
            in case int64Amount_Add (q_i q) (q_i y) of (i, ok) \<Rightarrow>
                 if ok then q\<lparr>q_i := i\<rparr> else slow q)
         else slow (if IsZero q then q\<lparr>q_format := q_format y\<rparr> else q))"

definition Quantity_Sub :: "Quantity \<Rightarrow> Quantity \<Rightarrow> Quantity" where
  "Quantity_Sub q0 y =
     (let q1 = q0\<lparr>q_s := []\<rparr>;
          q = (if IsZero q1 then q1\<lparr>q_format := q_format y\<rparr> else q1);
          slow = (ToDec q)\<lparr>q_d := Some (dec_sub (fst (Quantity_AsDec q)) (fst (Quantity_AsDec y)))\<rparr>
      in if q_d q = None \<and> q_d y = None then
           (case int64Amount_Sub (q_i q) (q_i y) of (i, ok) \<Rightarrow> if ok then q\<lparr>q_i := i\<rparr> else slow)
         else slow)"

definition Quantity_Neg :: "Quantity \<Rightarrow> Quantity" where
  "Quantity_Neg q0 =
     (let q = q0\<lparr>q_s := []\<rparr> in
      case q_d q of None \<Rightarrow> q\<lparr>q_i := (q_i q)\<lparr>ia_value := wrap64 (- ia_value (q_i q))\<rparr>\<rparr>
      | Some d \<Rightarrow> q\<lparr>q_d := Some (dec_neg d)\<rparr>)"

definition RoundUp :: "Quantity \<Rightarrow> int \<Rightarrow> Quantity \<times> bool" where
  "RoundUp q scale =
     (case q_d q of
        Some d \<Rightarrow> (let d' = dec_round_up d (wrap32 (- scale))
                  in (q\<lparr>q_s := [], q_d := Some d'\<rparr>, dec_cmp d' d = 0))
      | None \<Rightarrow>
          if ia_scale (q_i q) \<ge> scale then (q, True)
          else (case int64Amount_AsScale (q_i q) scale of (i, exact) \<Rightarrow>
            (q\<lparr>q_s := [], q_i := i\<rparr>, exact)))"

section \<open>The number a quantity stands for\<close>

definition pow10 :: "int \<Rightarrow> rat" where
  "pow10 n = 10 powi n"

lemma pow10_pos [simp]: "0 < pow10 n"
  by (simp add: pow10_def)

lemma pow10_nz [simp]: "pow10 n \<noteq> 0"
  by (simp add: pow10_def)

lemma pow10_mult_nonneg [simp]: "0 \<le> of_int u * pow10 n \<longleftrightarrow> 0 \<le> u"
  using pow10_pos [of n] by (simp add: zero_le_mult_iff not_le [symmetric] del: pow10_pos)

lemma pow10_add: "pow10 (m + n) = pow10 m * pow10 n"
  by (simp add: pow10_def power_int_add)

lemma pow10_nat: "0 \<le> n \<Longrightarrow> pow10 n = of_int (10 ^ nat n)"
  by (simp add: pow10_def power_int_def)

lemma pow10_0 [simp]: "pow10 0 = 1"
  by (simp add: pow10_def)

lemma pow10_shift: "m \<le> n \<Longrightarrow> pow10 n = of_int (10 ^ nat (n - m)) * pow10 m"
  using pow10_add [of "n - m" m] pow10_nat [of "n - m"] by simp

lemma pow10_neg_shift:
  assumes "s \<le> t"
  shows "pow10 (- s) = of_int (10 ^ nat (t - s)) * pow10 (- t)"
proof -
  have "- s - - t = t - s" "- t \<le> - s" using assms by simp_all
  then show ?thesis using pow10_shift [of "- t" "- s"] by metis
qed

definition dec_val :: "infDec \<Rightarrow> rat" where
  "dec_val d = of_int (dec_unscaled d) * pow10 (- dec_scale d)"

definition ia_val :: "int64Amount \<Rightarrow> rat" where
  "ia_val a = of_int (ia_value a) * pow10 (ia_scale a)"

definition q_val :: "Quantity \<Rightarrow> rat" where
  "q_val q = (case q_d q of Some d \<Rightarrow> dec_val d | None \<Rightarrow> ia_val (q_i q))"

text \<open>
  The representation invariant: int64 values, and scales of magnitude below \<^verbatim>\<open>2^30\<close>, so that no
  difference of two scales overflows an int32.
\<close>

definition scale_ok :: "int \<Rightarrow> bool" where
  "scale_ok s \<longleftrightarrow> \<bar>s\<bar> < 1073741824"

definition ia_ok :: "int64Amount \<Rightarrow> bool" where
  "ia_ok a \<longleftrightarrow> in_int64 (ia_value a) \<and> scale_ok (ia_scale a)"

definition q_ok :: "Quantity \<Rightarrow> bool" where
  "q_ok q = (case q_d q of Some d \<Rightarrow> scale_ok (dec_scale d) | None \<Rightarrow> ia_ok (q_i q))"

lemma wrap32_scale_diff [simp]:
  "scale_ok a \<Longrightarrow> scale_ok b \<Longrightarrow> wrap32 (a - b) = a - b"
  by (rule wrap32_id) (auto simp: scale_ok_def in_int32_def)

lemma wrap32_scale_neg [simp]: "scale_ok a \<Longrightarrow> wrap32 (- a) = - a"
  by (rule wrap32_id) (auto simp: scale_ok_def in_int32_def)

lemma scale_ok_neg [simp]: "scale_ok (- a) = scale_ok a"
  by (simp add: scale_ok_def)

lemma scale_ok_consts [simp]: "scale_ok 0" "scale_ok 3" "scale_ok (-3)" "scale_ok 9" "scale_ok (-9)"
  by (simp_all add: scale_ok_def)

lemma zero_amount_ok [simp]: "ia_ok zero_amount"
  by (simp add: zero_amount_def ia_ok_def in_int64_def)

section \<open>Decimals\<close>

lemma dec_upscale_spec:
  assumes "scale_ok (dec_scale x)" and "scale_ok (dec_scale y)"
  obtains xx yy s where "dec_upscale x y = (xx, yy)" "dec_scale xx = s" "dec_scale yy = s" "scale_ok s"
    "dec_val xx = dec_val x" "dec_val yy = dec_val y"
proof -
  have up: "dec_val (dec_rescale d s) = dec_val d \<and> dec_scale (dec_rescale d s) = s"
    if "scale_ok (dec_scale d)" "scale_ok s" "dec_scale d < s" for d s
  proof -
    have "dec_rescale d s = \<lparr>dec_unscaled = dec_unscaled d * 10 ^ nat (s - dec_scale d), dec_scale = s\<rparr>"
      using that by (simp add: dec_rescale_def Let_def)
    moreover have "pow10 (- dec_scale d) = of_int (10 ^ nat (s - dec_scale d)) * pow10 (- s)"
      using that(3) by (intro pow10_neg_shift) simp
    ultimately show ?thesis by (simp add: dec_val_def)
  qed
  consider "dec_scale x = dec_scale y" | "dec_scale x > dec_scale y" | "dec_scale x < dec_scale y"
    by linarith
  then show thesis
  proof cases
    case 1
    show ?thesis by (rule that [of x y "dec_scale x"]) (use 1 assms in \<open>simp_all add: dec_upscale_def\<close>)
  next
    case 2
    show ?thesis
      by (rule that [of x "dec_rescale y (dec_scale x)" "dec_scale x"])
        (use 2 up [of y "dec_scale x"] assms in \<open>simp_all add: dec_upscale_def\<close>)
  next
    case 3
    show ?thesis
      by (rule that [of "dec_rescale x (dec_scale y)" y "dec_scale y"])
        (use 3 up [of x "dec_scale y"] assms in \<open>simp_all add: dec_upscale_def\<close>)
  qed
qed

definition rat_cmp :: "rat \<Rightarrow> rat \<Rightarrow> int" where
  "rat_cmp a b = (if a < b then -1 else if a = b then 0 else 1)"

lemma rat_cmp_scaled: "0 < c \<Longrightarrow> rat_cmp (of_int a * c) (of_int b * c) = int_cmp a b"
  by (simp add: rat_cmp_def int_cmp_def)

lemma dec_cmp_correct:
  assumes "scale_ok (dec_scale x)" and "scale_ok (dec_scale y)"
  shows "dec_cmp x y = rat_cmp (dec_val x) (dec_val y)"
proof -
  obtain xx yy s where u: "dec_upscale x y = (xx, yy)" "dec_scale xx = s" "dec_scale yy = s"
    "dec_val xx = dec_val x" "dec_val yy = dec_val y"
    using dec_upscale_spec [OF assms] by metis
  have "dec_cmp x y = int_cmp (dec_unscaled xx) (dec_unscaled yy)" using u by (simp add: dec_cmp_def)
  also have "\<dots> = rat_cmp (dec_val xx) (dec_val yy)"
    unfolding dec_val_def u(2,3) by (simp add: rat_cmp_scaled)
  finally show ?thesis using u by simp
qed

lemma dec_add_correct:
  assumes "scale_ok (dec_scale x)" and "scale_ok (dec_scale y)"
  shows "dec_val (dec_add x y) = dec_val x + dec_val y" and "scale_ok (dec_scale (dec_add x y))"
  by (rule dec_upscale_spec [OF assms], simp add: dec_add_def dec_val_def distrib_right)+

lemma dec_sub_correct:
  assumes "scale_ok (dec_scale x)" and "scale_ok (dec_scale y)"
  shows "dec_val (dec_sub x y) = dec_val x - dec_val y" and "scale_ok (dec_scale (dec_sub x y))"
  by (rule dec_upscale_spec [OF assms], simp add: dec_sub_def dec_val_def left_diff_distrib)+

lemma dec_neg_val [simp]: "dec_val (dec_neg d) = - dec_val d"
  by (simp add: dec_neg_def dec_val_def)

section \<open>Amounts\<close>

lemma int64Amount_AsDec_val [simp]:
  "scale_ok (ia_scale a) \<Longrightarrow> dec_val (int64Amount_AsDec a) = ia_val a"
  "scale_ok (ia_scale a) \<Longrightarrow> dec_scale (int64Amount_AsDec a) = - ia_scale a"
  by (simp_all add: int64Amount_AsDec_def dec_val_def ia_val_def)

text \<open>Comparing an integer with a quotient needs only the truncated quotient and the remainder.\<close>

lemma cmp_truncated:
  fixes a b p :: int
  assumes "0 < p"
  shows "int_cmp (a * p) b =
    (if b sdiv p = a then (if b smod p = 0 then 0 else if b smod p > 0 then -1 else 1)
     else int_cmp a (b sdiv p))"
proof -
  have b: "b = (b sdiv p) * p + b smod p" by (simp add: sdiv_smod)
  have r: "\<bar>b smod p\<bar> < p" using assms by (simp add: signed_modulo_int_def abs_mult abs_sgn_eq)
  have lt: "a * p < b" if "a < b sdiv p"
  proof -
    have "(a + 1) * p \<le> (b sdiv p) * p" using that assms by (intro mult_right_mono) simp_all
    then show ?thesis using b r by (simp add: distrib_right)
  qed
  have gt: "b < a * p" if "b sdiv p < a"
  proof -
    have "(b sdiv p + 1) * p \<le> a * p" using that assms by (intro mult_right_mono) simp_all
    then show ?thesis using b r by (simp add: distrib_right)
  qed
  show ?thesis
  proof (cases "b sdiv p = a")
    case True
    then have "b = a * p + b smod p" using b by simp
    then show ?thesis using True by (auto simp: int_cmp_def)
  next
    case False
    then have "a < b sdiv p \<or> b sdiv p < a" by linarith
    then show ?thesis using lt gt by (auto simp: int_cmp_def)
  qed
qed

lemma rat_cmp_shifted:
  assumes "s \<le> t"
  shows "rat_cmp (of_int a * pow10 t) (of_int b * pow10 s) = int_cmp (a * 10 ^ nat (t - s)) b"
    and "rat_cmp (of_int b * pow10 s) (of_int a * pow10 t) = int_cmp b (a * 10 ^ nat (t - s))"
proof -
  have "of_int a * pow10 t = of_int (a * 10 ^ nat (t - s)) * pow10 s"
    using pow10_shift [OF assms] by (simp only: of_int_mult mult.assoc)
  then show "rat_cmp (of_int a * pow10 t) (of_int b * pow10 s) = int_cmp (a * 10 ^ nat (t - s)) b"
    and "rat_cmp (of_int b * pow10 s) (of_int a * pow10 t) = int_cmp b (a * 10 ^ nat (t - s))"
    by (simp_all only: rat_cmp_scaled pow10_pos)
qed

lemma int_cmp_swap: "int_cmp a b = - int_cmp b a"
  by (auto simp: int_cmp_def)

lemma divideByScaleInt64_spec:
  assumes "in_int64 b" and "0 < k"
  shows "divideByScaleInt64 b k = (if k < 18 then (b sdiv 10 ^ nat k, b smod 10 ^ nat k, True) else (0, b, False))"
  using assms by (auto simp: divideByScaleInt64_def pow10Int64_def Let_def go_mod_def go_int)

text \<open>
  Comparing two int64 amounts of different scales, with the truncating division the code
  uses, orders them as the numbers they stand for, negative ones included.
\<close>

lemma int64Amount_Cmp_rat:
  assumes "ia_ok a" and "ia_ok b"
  shows "int64Amount_Cmp a b = rat_cmp (ia_val a) (ia_val b)"
proof -
  have ok: "scale_ok (ia_scale a)" "scale_ok (ia_scale b)" "in_int64 (ia_value a)" "in_int64 (ia_value b)"
    using assms by (simp_all add: ia_ok_def)
  have dec: "dec_cmp (int64Amount_AsDec a) (int64Amount_AsDec b) = rat_cmp (ia_val a) (ia_val b)"
    using ok by (simp add: dec_cmp_correct)
  consider (eq) "ia_scale a = ia_scale b" | (gt) "ia_scale a > ia_scale b" | (lt) "ia_scale a < ia_scale b"
    by linarith
  then show ?thesis
  proof cases
    case eq
    then show ?thesis by (simp add: int64Amount_Cmp_def ia_val_def rat_cmp_scaled)
  next
    case gt
    then show ?thesis
      using ok dec cmp_truncated [of "10 ^ nat (ia_scale a - ia_scale b)" "ia_value a" "ia_value b"]
      by (auto simp: int64Amount_Cmp_def divideByScaleInt64_spec ia_val_def rat_cmp_shifted)
  next
    case lt
    then show ?thesis
      using ok dec cmp_truncated [of "10 ^ nat (ia_scale b - ia_scale a)" "ia_value b" "ia_value a"]
        int_cmp_swap [of "ia_value a"] int_cmp_swap [of "ia_value a sdiv 10 ^ nat (ia_scale b - ia_scale a)"]
      by (auto simp: int64Amount_Cmp_def divideByScaleInt64_spec ia_val_def rat_cmp_shifted)
  qed
qed

lemma positiveScaleInt64_cases:
  assumes "in_int64 base" and "0 \<le> scale"
  obtains "positiveScaleInt64 base scale = (base * 10 ^ nat scale, True)" "in_int64 (base * 10 ^ nat scale)"
  | v where "positiveScaleInt64 base scale = (v, False)" "\<not> in_int64 (base * 10 ^ nat scale)"
  using positiveScaleInt64_flag [OF assms] by (metis prod.collapse)

lemma ia_val_rescaled:
  assumes "s \<le> ia_scale a"
  shows "ia_val \<lparr>ia_value = ia_value a * 10 ^ nat (ia_scale a - s), ia_scale = s\<rparr> = ia_val a"
  using pow10_shift [OF assms] by (simp add: ia_val_def)

text \<open>
  \<^verbatim>\<open>Add\<close> on int64 amounts: it either leaves the receiver alone and says so, or the receiver
  becomes exactly the sum and stays well formed.
\<close>

lemma int64Amount_Add_correct:
  assumes "ia_ok a" and "ia_ok b"
  shows "case int64Amount_Add a b of (r, ok) \<Rightarrow>
    if ok then ia_val r = ia_val a + ia_val b \<and> ia_ok r else r = a"
proof -
  have ok: "scale_ok (ia_scale a)" "scale_ok (ia_scale b)" "in_int64 (ia_value a)" "in_int64 (ia_value b)"
    using assms by (simp_all add: ia_ok_def)
  consider (b0) "ia_value b = 0" | (a0) "ia_value b \<noteq> 0" "ia_value a = 0"
    | (eq) "ia_value b \<noteq> 0" "ia_value a \<noteq> 0" "ia_scale a = ia_scale b"
    | (gt) "ia_value b \<noteq> 0" "ia_value a \<noteq> 0" "ia_scale a > ia_scale b"
    | (lt) "ia_value b \<noteq> 0" "ia_value a \<noteq> 0" "ia_scale a < ia_scale b"
    by linarith
  then show ?thesis
  proof cases
    case b0
    then show ?thesis using assms by (simp add: int64Amount_Add_def ia_val_def)
  next
    case a0
    then show ?thesis using assms by (simp add: int64Amount_Add_def ia_val_def)
  next
    case eq
    then show ?thesis using ok
      by (simp add: int64Amount_Add_def int64Add_spec ia_val_def ia_ok_def distrib_right)
  next
    case gt
    have k: "0 \<le> ia_scale a - ia_scale b" using gt by simp
    show ?thesis
      using gt ok ia_val_rescaled [of "ia_scale b" a]
      by (cases rule: positiveScaleInt64_cases [OF ok(3) k])
        (simp_all add: int64Amount_Add_def int64Add_spec ia_ok_def ia_val_def distrib_right)
  next
    case lt
    have k: "0 \<le> ia_scale b - ia_scale a" using lt by simp
    show ?thesis
      using lt ok ia_val_rescaled [of "ia_scale a" b]
      by (cases rule: positiveScaleInt64_cases [OF ok(4) k])
        (simp_all add: int64Amount_Add_def int64Add_spec ia_ok_def ia_val_def distrib_right)
  qed
qed

section \<open>Quantities\<close>

lemma q_AsDec:
  assumes "q_ok q"
  shows "dec_val (fst (Quantity_AsDec q)) = q_val q" and "scale_ok (dec_scale (fst (Quantity_AsDec q)))"
    and "q_val (snd (Quantity_AsDec q)) = q_val q" and "q_ok (snd (Quantity_AsDec q))"
  using assms by (auto simp: Quantity_AsDec_def q_val_def q_ok_def ia_ok_def Let_def split: option.splits)

lemma q_dec_result [simp]:
  "q_val (q\<lparr>q_d := Some d\<rparr>) = dec_val d" "q_ok (q\<lparr>q_d := Some d\<rparr>) = scale_ok (dec_scale d)"
  by (simp_all add: q_val_def q_ok_def)

lemma q_int_result [simp]:
  "q_d q = None \<Longrightarrow> q_val (q\<lparr>q_i := i\<rparr>) = ia_val i" "q_d q = None \<Longrightarrow> q_ok (q\<lparr>q_i := i\<rparr>) = ia_ok i"
  by (simp_all add: q_val_def q_ok_def)

lemma q_cosmetic [simp]:
  "q_val (q\<lparr>q_s := s\<rparr>) = q_val q" "q_ok (q\<lparr>q_s := s\<rparr>) = q_ok q"
  "q_val (q\<lparr>q_format := f\<rparr>) = q_val q" "q_ok (q\<lparr>q_format := f\<rparr>) = q_ok q"
  "fst (Quantity_AsDec (q\<lparr>q_s := s\<rparr>)) = fst (Quantity_AsDec q)"
  "fst (Quantity_AsDec (q\<lparr>q_format := f\<rparr>)) = fst (Quantity_AsDec q)"
  by (simp_all add: q_val_def q_ok_def Quantity_AsDec_def Let_def split: option.splits)

lemma dec_sum:
  assumes "q_ok q" and "q_ok y"
  shows "dec_val (dec_add (fst (Quantity_AsDec q)) (fst (Quantity_AsDec y))) = q_val q + q_val y"
    and "scale_ok (dec_scale (dec_add (fst (Quantity_AsDec q)) (fst (Quantity_AsDec y))))"
    and "dec_val (dec_sub (fst (Quantity_AsDec q)) (fst (Quantity_AsDec y))) = q_val q - q_val y"
    and "scale_ok (dec_scale (dec_sub (fst (Quantity_AsDec q)) (fst (Quantity_AsDec y))))"
  using q_AsDec [OF assms(1)] q_AsDec [OF assms(2)] dec_add_correct dec_sub_correct by simp_all

text \<open>
  C38: adding quantities is exact whichever representation they are in: the int64 path is used
  only when the sum fits, and otherwise the receiver moves to arbitrary precision. The
  representation invariant is kept.
\<close>

theorem Quantity_Add_correct:
  assumes "q_ok q" and "q_ok y"
  shows "q_val (Quantity_Add q y) = q_val q + q_val y \<and> q_ok (Quantity_Add q y)"
proof (cases "q_d q = None \<and> q_d y = None")
  case True
  then have "ia_ok (q_i q)" "ia_ok (q_i y)" using assms by (simp_all add: q_ok_def)
  then show ?thesis
    using True int64Amount_Add_correct [of "q_i q" "q_i y"] dec_sum [OF assms]
    by (auto simp: Quantity_Add_def Let_def q_val_def split: prod.splits if_splits)
next
  case False
  then show ?thesis
    using dec_sum [OF assms] by (auto simp: Quantity_Add_def Let_def)
qed

theorem Quantity_Add_witness:
  "q_val (Quantity_Add (NewQuantity 9223372036854775807 DecimalSI) (NewMilliQuantity 1 DecimalSI)) =
     q_val (NewQuantity 9223372036854775807 DecimalSI) + q_val (NewMilliQuantity 1 DecimalSI) \<and>
   q_ok (Quantity_Add (NewQuantity 9223372036854775807 DecimalSI) (NewMilliQuantity 1 DecimalSI))"
  by (rule Quantity_Add_correct)
    (simp_all add: q_ok_def ia_ok_def in_int64_def NewQuantity_def NewMilliQuantity_def)

lemma int64Amount_Sub_correct:
  assumes "ia_ok a" and "ia_ok b" and "ia_value b \<noteq> mostNegative"
  shows "case int64Amount_Sub a b of (r, ok) \<Rightarrow>
    if ok then ia_val r = ia_val a - ia_val b \<and> ia_ok r else r = a"
proof -
  define nb where "nb = \<lparr>ia_value = - ia_value b, ia_scale = ia_scale b\<rparr>"
  have i: "in_int64 (- ia_value b)" using assms by (auto simp: ia_ok_def in_int64_def)
  then have "ia_ok nb" using assms(2) by (simp add: ia_ok_def nb_def)
  moreover have "ia_val nb = - ia_val b" by (simp add: nb_def ia_val_def)
  moreover have "int64Amount_Sub a b = int64Amount_Add a nb"
    using i by (simp add: int64Amount_Sub_def nb_def go_int)
  ultimately show ?thesis using int64Amount_Add_correct [OF assms(1), of nb] by (simp split: prod.splits)
qed

text \<open>
  Subtracting quantities is exact, unless the subtrahend is held as the most negative
  int64, whose negation overflows.
\<close>

theorem Quantity_Sub_correct:
  assumes "q_ok q" and "q_ok y" and "q_d y = None \<Longrightarrow> ia_value (q_i y) \<noteq> mostNegative"
  shows "q_val (Quantity_Sub q y) = q_val q - q_val y \<and> q_ok (Quantity_Sub q y)"
proof (cases "q_d q = None \<and> q_d y = None")
  case True
  then have "ia_ok (q_i q)" "ia_ok (q_i y)" "ia_value (q_i y) \<noteq> mostNegative"
    using assms by (simp_all add: q_ok_def)
  then show ?thesis
    using True int64Amount_Sub_correct [of "q_i q" "q_i y"] dec_sum [OF assms(1,2)]
    by (auto simp: Quantity_Sub_def Let_def q_val_def split: prod.splits if_splits)
next
  case False
  then show ?thesis
    using dec_sum [OF assms(1,2)] by (auto simp: Quantity_Sub_def Let_def)
qed

theorem Quantity_Sub_witness:
  "q_val (Quantity_Sub (NewQuantity 1 DecimalSI) (NewMilliQuantity 250 DecimalSI)) =
     q_val (NewQuantity 1 DecimalSI) - q_val (NewMilliQuantity 250 DecimalSI) \<and>
   q_ok (Quantity_Sub (NewQuantity 1 DecimalSI) (NewMilliQuantity 250 DecimalSI))"
  by (rule Quantity_Sub_correct)
    (simp_all add: q_ok_def ia_ok_def in_int64_def NewQuantity_def NewMilliQuantity_def)

text \<open>
  The exception is real: subtracting the most negative int64 from 1 silently gives a
  negative quantity, because \<^verbatim>\<open>-b.value\<close> wraps back to itself and the checked addition then fits.
\<close>

theorem Quantity_Sub_wraps:
  "Quantity_Sub (NewQuantity 1 DecimalSI) (NewQuantity mostNegative DecimalSI) =
     NewQuantity (mostNegative + 1) DecimalSI"
  by code_simp

text \<open>
  C39: comparing quantities orders them as the numbers they stand for, whichever representation
  they are in; the receiver may be promoted to arbitrary precision but keeps its value.
\<close>

theorem Quantity_Cmp_correct:
  assumes "q_ok q" and "q_ok y"
  shows "case Quantity_Cmp q y of (c, q') \<Rightarrow>
    c = rat_cmp (q_val q) (q_val y) \<and> q_val q' = q_val q \<and> q_ok q'"
proof (cases "q_d q = None \<and> q_d y = None")
  case True
  then show ?thesis
    using assms by (simp add: Quantity_Cmp_def q_val_def q_ok_def int64Amount_Cmp_rat)
next
  case False
  then show ?thesis
    using q_AsDec [OF assms(1)] q_AsDec [OF assms(2)]
    by (auto simp: Quantity_Cmp_def dec_cmp_correct split: prod.splits)
qed

theorem Quantity_Cmp_witness:
  "case Quantity_Cmp (NewMilliQuantity (-15) DecimalSI) (NewQuantity 2 DecimalSI) of (c, q') \<Rightarrow>
    c = rat_cmp (q_val (NewMilliQuantity (-15) DecimalSI)) (q_val (NewQuantity 2 DecimalSI))
    \<and> q_val q' = q_val (NewMilliQuantity (-15) DecimalSI) \<and> q_ok q'"
  by (rule Quantity_Cmp_correct)
    (simp_all add: q_ok_def ia_ok_def in_int64_def NewQuantity_def NewMilliQuantity_def)

section \<open>Reading a quantity at a scale\<close>

lemma div_away_ceiling:
  assumes "0 < p" and "0 \<le> u"
  shows "div_away u p = \<lceil>of_int u / of_int p :: rat\<rceil>"
proof -
  define z where "z = div_away u p"
  have z: "0 \<le> z" using assms by (cases "u = 0") (simp_all add: z_def div_away_def pos_imp_zdiv_nonneg_iff)
  have b: "u \<le> z * p" "z * p < u + p"
    using div_away_bounds [OF assms(1), of u] z assms(2) by (simp_all add: z_def [symmetric])
  have p: "0 < (of_int p :: rat)" using assms(1) by simp
  have "(of_int u :: rat) \<le> of_int (z * p)" "(of_int (z * p) :: rat) < of_int (u + p)"
    using b by (simp_all only: of_int_le_iff of_int_less_iff)
  then have "of_int u / of_int p \<le> (of_int z :: rat)" "(of_int z :: rat) - 1 < of_int u / of_int p"
    using p by (simp_all add: field_simps)
  then show ?thesis using ceiling_unique z_def by metis
qed

lemma wrap64_mult_left: "wrap64 (wrap64 a * b) = wrap64 (a * b)"
proof -
  have "18446744073709551616 dvd (wrap64 a - a) * b" by (intro dvd_mult2 wrap64_dvd)
  then show ?thesis by (simp add: wrap64_cong left_diff_distrib)
qed

lemma in_int64_pow10_bound:
  assumes "in_int64 (u * 10 ^ k)" and "u \<noteq> 0"
  shows "k \<le> 18"
proof (rule ccontr)
  assume "\<not> k \<le> 18"
  then have "(10::int) ^ 19 \<le> 10 ^ k" by (intro power_increasing) simp_all
  moreover have "1 * 10 ^ k \<le> \<bar>u\<bar> * 10 ^ k" using assms(2) by (intro mult_right_mono) auto
  moreover have "\<bar>u * 10 ^ k\<bar> = \<bar>u\<bar> * 10 ^ k" by (simp add: abs_mult)
  ultimately have "10 ^ 19 \<le> \<bar>u * 10 ^ k\<bar>" by linarith
  then show False using assms(1) by (auto simp: in_int64_def)
qed

lemma scaledValue_up:
  assumes "scale \<le> newScale" and "in_int64 (u * 10 ^ nat (newScale - scale))"
  shows "scaledValue oob u scale newScale = u * 10 ^ nat (newScale - scale)"
proof (cases "u = 0 \<or> scale = newScale")
  case True
  then show ?thesis
    using assms by (auto simp: scaledValue_def Let_def wrap64_id in_int64_def)
next
  case False
  then have k: "nat (newScale - scale) \<le> 18" using in_int64_pow10_bound assms(2) by blast
  have "f64_to_int64 oob (math_Pow10 (newScale - scale)) = 10 ^ nat (newScale - scale)"
    using assms(1) k by (intro int64_Pow10) simp_all
  then show ?thesis
    using False assms by (simp add: scaledValue_def Let_def wrap64_mult_left wrap64_id)
qed

lemma ceiling_scaled_up:
  assumes "s \<le> t"
  shows "\<lceil>of_int u * pow10 t * pow10 (- s)\<rceil> = u * 10 ^ nat (t - s)"
proof -
  have "pow10 t * pow10 (- s) = of_int (10 ^ nat (t - s))"
    using assms by (simp only: pow10_add [symmetric] pow10_nat) (simp add: pow10_nat)
  then have "of_int u * pow10 t * pow10 (- s) = of_int (u * 10 ^ nat (t - s))"
    by (simp only: mult.assoc of_int_mult)
  then show ?thesis by (simp only: ceiling_of_int)
qed

lemma ceiling_scaled_down:
  assumes "t \<le> s" and "0 \<le> u"
  shows "\<lceil>of_int u * pow10 t * pow10 (- s)\<rceil> = div_away u (10 ^ nat (s - t))"
proof -
  have "pow10 s * pow10 (- s) = 1" by (simp add: pow10_add [symmetric])
  moreover have "pow10 s = of_int (10 ^ nat (s - t)) * pow10 t" by (rule pow10_shift [OF assms(1)])
  ultimately have "pow10 t * pow10 (- s) = 1 / of_int (10 ^ nat (s - t))"
    by (simp add: field_simps)
  then have "of_int u * pow10 t * pow10 (- s) = of_int u / of_int (10 ^ nat (s - t))"
    by (simp only: mult.assoc) simp
  then show ?thesis by (simp only: div_away_ceiling [OF _ assms(2)] zero_less_power zero_less_numeral)
qed

lemma ScaledValue_nonneg:
  assumes "q_ok q" and "0 \<le> q_val q" and "scale_ok scale"
    and "in_int64 \<lceil>q_val q * pow10 (- scale)\<rceil>"
  shows "ScaledValue oob q scale = \<lceil>q_val q * pow10 (- scale)\<rceil>"
proof (cases "q_d q")
  case None
  then have i: "in_int64 (ia_value (q_i q))" "scale_ok (ia_scale (q_i q))" "0 \<le> ia_value (q_i q)"
    using assms by (simp_all add: q_ok_def ia_ok_def q_val_def ia_val_def)
  show ?thesis
  proof (cases "ia_scale (q_i q) < scale")
    case True
    then show ?thesis using None i assms(3)
      by (simp add: ScaledValue_def AsScaledInt64_def negativeScaleInt64_spec q_val_def ia_val_def
          ceiling_scaled_down)
  next
    case False
    then show ?thesis using None i assms(3,4) positiveScaleInt64_flag [OF i(1)]
      by (simp add: ScaledValue_def AsScaledInt64_def q_val_def ia_val_def ceiling_scaled_up)
  qed
next
  case (Some d)
  then have i: "scale_ok (dec_scale d)" "0 \<le> dec_unscaled d"
    using assms by (simp_all add: q_ok_def q_val_def dec_val_def)
  show ?thesis
  proof (cases "- scale < dec_scale d")
    case True
    then show ?thesis using Some i assms(3,4)
      by (simp add: ScaledValue_def scaledValue_nonneg q_val_def dec_val_def ceiling_scaled_down
          wrap64_id add.commute)
  next
    case False
    then show ?thesis using Some i assms(3,4)
      by (simp add: ScaledValue_def scaledValue_up q_val_def dec_val_def ceiling_scaled_up
          minus_diff_commute)
  qed
qed

text \<open>
  C37: the values the scheduler reads. For a non-negative quantity in either representation,
  \<^verbatim>\<open>ScaledValue\<close> is the ceiling of the quantity in units of \<^verbatim>\<open>10^scale\<close> whenever that fits in an
  int64; \<^verbatim>\<open>Value\<close> and \<^verbatim>\<open>MilliValue\<close> are the scales 0 and -3.
\<close>

theorem ScaledValue_ceiling:
  assumes "q_ok q" and "0 \<le> q_val q" and "scale_ok scale"
    and "in_int64 \<lceil>q_val q * pow10 (- scale)\<rceil>"
  shows "ScaledValue oob q scale = \<lceil>q_val q * pow10 (- scale)\<rceil>"
  by (rule ScaledValue_nonneg [OF assms])

theorem ScaledValue_ceiling_witness:
  "ScaledValue (\<lambda>_. 0) (NewMilliQuantity 1500 DecimalSI) 0 =
     \<lceil>q_val (NewMilliQuantity 1500 DecimalSI) * pow10 (- 0)\<rceil>"
proof (rule ScaledValue_ceiling)
  have "q_val (NewMilliQuantity 1500 DecimalSI) = 3 / 2"
    by (simp add: q_val_def NewMilliQuantity_def ia_val_def pow10_def power_int_def
        power3_eq_cube)
  then show "0 \<le> q_val (NewMilliQuantity 1500 DecimalSI)"
    and "in_int64 \<lceil>q_val (NewMilliQuantity 1500 DecimalSI) * pow10 (- 0)\<rceil>"
    by (simp_all add: in_int64_def ceiling_altdef floor_divide_of_int_eq)
qed (simp_all add: q_ok_def ia_ok_def in_int64_def NewMilliQuantity_def)


lemma MilliValue_NewMilliQuantity: "in_int64 v \<Longrightarrow> MilliValue oob (NewMilliQuantity v f) = v"
  by (simp add: MilliValue_def ScaledValue_def NewMilliQuantity_def AsScaledInt64_def
      positiveScaleInt64_def wrap32_def)

lemma Value_NewQuantity: "in_int64 v \<Longrightarrow> Value oob (NewQuantity v f) = v"
  by (simp add: Value_def ScaledValue_def NewQuantity_def AsScaledInt64_def positiveScaleInt64_def
      wrap32_def)

end
