(* ===== verification/Quantity_Text.thy ===== *)
theory Quantity_Text
  imports Quantity
begin

text \<open>
  The textual form of quantities: the suffix tables (suffix.go), the scanner and
  \<^verbatim>\<open>ParseQuantity\<close> (quantity.go), and the canonical printer \<^verbatim>\<open>String\<close> with the two
  \<^verbatim>\<open>AsCanonicalBytes\<close> routines (amount.go).
\<close>

section \<open>Suffixes (suffix.go)\<close>

definition decSuffixToBE :: "(string, int \<times> int) gomap" where
  "decSuffixToBE =
     [(''n'', (10, -9)), (''u'', (10, -6)), (''m'', (10, -3)), ([], (10, 0)), (''k'', (10, 3)),
      (''M'', (10, 6)), (''G'', (10, 9)), (''T'', (10, 12)), (''P'', (10, 15)), (''E'', (10, 18))]"

definition binSuffixToBE :: "(string, int \<times> int) gomap" where
  "binSuffixToBE =
     [(''Ki'', (2, 10)), (''Mi'', (2, 20)), (''Gi'', (2, 30)), (''Ti'', (2, 40)), (''Pi'', (2, 50)),
      (''Ei'', (2, 60))]"

definition decBEToSuffix :: "(int \<times> int, string) gomap" where
  "decBEToSuffix = ((2, 0), []) # map (\<lambda>(s, be). (be, s)) decSuffixToBE"

definition binBEToSuffix :: "(int \<times> int, string) gomap" where
  "binBEToSuffix = map (\<lambda>(s, be). (be, s)) binSuffixToBE"

definition suffixHandler_interpret :: "string \<Rightarrow> (int \<times> int \<times> Format) option" where
  "suffixHandler_interpret s =
     (case map_of decSuffixToBE s of Some (b, e) \<Rightarrow> Some (b, e, DecimalSI)
      | None \<Rightarrow>
        (case map_of binSuffixToBE s of Some (b, e) \<Rightarrow> Some (b, e, BinarySI)
         | None \<Rightarrow>
           if length s > 1 \<and> (hd s = CHR ''E'' \<or> hd s = CHR ''e'')
           then map_option (\<lambda>parsed. (10, wrap32 parsed, DecimalExponent)) (parseInt (tl s))
           else None))"

definition interpret_suffix :: "string \<Rightarrow> (int \<times> int \<times> Format) option" where
  "interpret_suffix s =
     (if s = [] then Some (10, 0, DecimalSI)
      else if s = ''n'' then Some (10, -9, DecimalSI)
      else if s = ''u'' then Some (10, -6, DecimalSI)
      else if s = ''m'' then Some (10, -3, DecimalSI)
      else if s = ''k'' then Some (10, 3, DecimalSI)
      else if s = ''M'' then Some (10, 6, DecimalSI)
      else if s = ''G'' then Some (10, 9, DecimalSI)
      else suffixHandler_interpret s)"

definition constructBytes :: "int \<Rightarrow> int \<Rightarrow> Format \<Rightarrow> string \<times> bool" where
  "constructBytes base exponent format =
     (let lookup = (\<lambda>m. case map_of m (base, exponent) of Some s \<Rightarrow> (s, True) | None \<Rightarrow> ([], False))
      in case format of
           DecimalSI \<Rightarrow> lookup decBEToSuffix
         | BinarySI \<Rightarrow> lookup binBEToSuffix
         | DecimalExponent \<Rightarrow>
             if base \<noteq> 10 then ([], False)
             else if exponent = 0 then ([], True)
             else (CHR ''e'' # itoa exponent, True)
         | NoFormat \<Rightarrow> ([], False))"

section \<open>Parsing\<close>

datatype quantity_error = ErrFormatWrong | ErrNumeric | ErrSuffix

record scanned =
  sc_positive :: bool
  sc_value :: string
  sc_num :: string
  sc_denom :: string
  sc_suffix :: string

definition suffix_char :: "char \<Rightarrow> bool" where
  "suffix_char c = (c \<in> set ''eEinumkKMGTP'')"

definition scan_suffix :: "string \<Rightarrow> quantity_error + string" where
  "scan_suffix rest =
     (let r1 = dropWhile suffix_char rest;
          r2 = (case r1 of c # cs \<Rightarrow> if c = CHR ''-'' \<or> c = CHR ''+'' then cs else r1 | [] \<Rightarrow> [])
      in if r1 = [] \<or> dropWhile is_digit r2 = [] then Inr rest else Inl ErrFormatWrong)"

definition parseQuantityString :: "string \<Rightarrow> quantity_error + scanned" where
  "parseQuantityString str =
     (let positive = (case str of c # _ \<Rightarrow> c \<noteq> CHR ''-'' | [] \<Rightarrow> True);
          r0 = (case str of c # cs \<Rightarrow> if c = CHR ''-'' \<or> c = CHR ''+'' then cs else str | [] \<Rightarrow> []);
          r1 = dropWhile (\<lambda>c. c = CHR ''0'') r0;
          r2 = dropWhile is_digit r1;
          num = takeWhile is_digit r1;
          ret = (\<lambda>value num denom suffix. \<lparr>sc_positive = positive, sc_value = value, sc_num = num,
                   sc_denom = denom, sc_suffix = suffix\<rparr>)
      in if r1 = [] then Inr (ret ''0'' ''0'' [] [])
         else if r2 = [] then Inr (ret str num [] [])
         else
           let num = (if num = [] then ''0'' else num);
               dotted = (hd r2 = CHR ''.'');
               denom = (if dotted then takeWhile is_digit (tl r2) else []);
               r3 = (if dotted then dropWhile is_digit (tl r2) else r2)
           in if dotted \<and> r3 = [] then Inr (ret str num denom [])
              else map_sum id (ret (take (length str - length r3) str) num denom) (scan_suffix r3))"

definition maxInt64Factors :: int where
  "maxInt64Factors = 18"

text \<open>
  The arbitrary-precision path: the scale is adjusted by the suffix, the magnitude is rounded up
  to nano units, and binary quantities are capped at the largest int64.
\<close>

definition parse_dec_amount :: "string \<Rightarrow> int \<Rightarrow> int \<Rightarrow> Format \<Rightarrow> quantity_error + Quantity" where
  "parse_dec_amount value base exponent format =
     (case dec_set_string value of None \<Rightarrow> Inl ErrNumeric
      | Some a0 \<Rightarrow>
        (let a1 = (if base = 10 then a0\<lparr>dec_scale := wrap32 (dec_scale a0 + wrap32 (- exponent))\<rparr>
                   else if base = 2 then a0\<lparr>dec_unscaled := dec_unscaled a0 * 2 ^ nat exponent\<rparr>
                   else a0);
             sign = dec_sign a1;
             a2 = (if sign = -1 then dec_neg a1 else a1);
             v = wrap64 (dec_unscaled a2);
             a3 = (if v \<noteq> 0 \<or> v \<noteq> dec_unscaled a2 then dec_round_up a2 (wrap32 (- Nano)) else a2);
             maxAllowed = \<lparr>dec_unscaled = 2 ^ 63 - 1, dec_scale = 0\<rparr>;
             a4 = (if format = BinarySI \<and> dec_cmp a3 maxAllowed > 0 then maxAllowed else a3);
             format' = (if format = BinarySI \<and> dec_cmp a4 \<lparr>dec_unscaled = 1, dec_scale = 0\<rparr> < 0
                          \<and> dec_cmp a4 \<lparr>dec_unscaled = 0, dec_scale = 0\<rparr> > 0
                        then DecimalSI else format);
             a5 = (if sign = -1 then dec_neg a4 else a4)
         in Inr \<lparr>q_i = zero_amount, q_d = Some a5, q_s = [], q_format = format'\<rparr>))"

text \<open>
  The int64 fast path. For binary suffixes the exponent is one of 10, 20, .., 60, for which the
  float32 expression \<^verbatim>\<open>float32(exponent)*3/10\<close> is exact.
\<close>

definition ParseQuantity :: "string \<Rightarrow> quantity_error + Quantity" where
  "ParseQuantity str =
     (if str = [] then Inl ErrFormatWrong
      else if str = ''0'' then Inr \<lparr>q_i = zero_amount, q_d = None, q_s = str, q_format = DecimalSI\<rparr>
      else case parseQuantityString str of Inl e \<Rightarrow> Inl e
      | Inr sc \<Rightarrow>
        (case interpret_suffix (sc_suffix sc) of None \<Rightarrow> Inl ErrSuffix
         | Some (base, exponent, format) \<Rightarrow>
           (let num = sc_num sc; denom = sc_denom sc;
                binary = (format = BinarySI);
                fast_binary = (exponent \<ge> 0 \<and> denom = []);
                scale = (if binary then 0 else exponent);
                mantissa = (if binary \<and> fast_binary then wrap64 (2 ^ nat exponent) else 1);
                precision =
                  (if \<not> binary then wrap32 (maxInt64Factors - wrap32 (int (length num + length denom)))
                   else if fast_binary
                   then wrap32 (15 - wrap32 (int (length num)) - (exponent * 3) sdiv 10 - 1)
                   else -1);
                scale' = wrap32 (scale - wrap32 (int (length denom)));
                shifted = num @ denom;
                slow = parse_dec_amount (sc_value sc) base exponent format
            in if precision \<ge> 0 \<and> scale' \<ge> Nano then
                 (case parseInt shifted of None \<Rightarrow> Inl ErrNumeric
                  | Some v \<Rightarrow>
                    (case int64Multiply v mantissa of (result, ok) \<Rightarrow>
                       if \<not> ok then slow
                       else
                         (let result' = (if sc_positive sc then result else wrap64 (- result));
                              canonical =
                                (if binary then go_mod exponent 10 = 0 \<and> v mod 8 \<noteq> 0
                                 else go_mod scale' 3 = 0 \<and> drop (length shifted - 3) shifted \<noteq> ''000''
                                   \<and> hd shifted \<noteq> CHR ''0'')
                          in Inr \<lparr>q_i = \<lparr>ia_value = result', ia_scale = scale'\<rparr>, q_d = None,
                                  q_s = (if canonical then str else []), q_format = format\<rparr>)))
               else slow)))"

section \<open>Printing\<close>

partial_function (option) removeBigIntFactors :: "int \<Rightarrow> int \<Rightarrow> int \<Rightarrow> (int \<times> int) option" where
  [code]: "removeBigIntFactors d factor tms =
     (if d \<noteq> 0 \<and> d mod factor = 0 then removeBigIntFactors (d div factor) factor (wrap32 (tms + 1))
      else Some (d, tms))"

partial_function (option) exponent3_loop :: "int \<Rightarrow> int \<Rightarrow> (int \<times> int) option" where
  [code]: "exponent3_loop amount exponent =
     (if go_mod exponent 3 \<noteq> 0 then exponent3_loop (amount * 10) (wrap32 (exponent - 1))
      else Some (amount, exponent))"

definition infDecAmount_AsCanonicalBytes :: "infDec \<Rightarrow> (string \<times> int) option" where
  "infDecAmount_AsCanonicalBytes a =
     (case removeBigIntFactors (dec_unscaled a) 10 0 of None \<Rightarrow> None
      | Some (amount, tms) \<Rightarrow>
          map_option (\<lambda>(amount', exponent). (itoa amount', exponent))
            (exponent3_loop amount (wrap32 (wrap32 (- dec_scale a) + tms))))"

definition infDecAmount_AsCanonicalBase1024Bytes :: "infDec \<Rightarrow> (string \<times> int) option" where
  "infDecAmount_AsCanonicalBase1024Bytes a =
     map_option (\<lambda>(amount, exponent). (itoa amount, exponent))
       (removeBigIntFactors (dec_unscaled (dec_round_up a 0)) 1024 0)"

definition int64Amount_AsCanonicalBytes :: "int64Amount \<Rightarrow> (string \<times> int) option" where
  "int64Amount_AsCanonicalBytes a =
     (case removeInt64Factors (ia_value a) 10 of None \<Rightarrow> None
      | Some (amount, tms) \<Rightarrow>
        (let exponent = wrap32 (ia_scale a + tms);
             m = go_mod exponent 3
         in if m = 1 \<or> m = -2 then
              (case int64MultiplyScale10 amount of (amount', ok) \<Rightarrow>
                 if ok then Some (itoa amount', wrap32 (exponent - 1))
                 else infDecAmount_AsCanonicalBytes (int64Amount_AsDec a))
            else if m = 2 \<or> m = -1 then
              (case int64MultiplyScale100 amount of (amount', ok) \<Rightarrow>
                 if ok then Some (itoa amount', wrap32 (exponent - 2))
                 else infDecAmount_AsCanonicalBytes (int64Amount_AsDec a))
            else Some (itoa amount, exponent)))"

definition int64Amount_AsCanonicalBase1024Bytes :: "int64Amount \<Rightarrow> (string \<times> int) option" where
  "int64Amount_AsCanonicalBase1024Bytes a =
     (case AsScaledInt64 a 0 of (value, ok) \<Rightarrow>
        if ok then map_option (\<lambda>(amount, exponent). (itoa amount, exponent))
                     (removeInt64Factors value 1024)
        else infDecAmount_AsCanonicalBase1024Bytes (int64Amount_AsDec a))"

text \<open>
  \<^verbatim>\<open>CanonicalizeBytes\<close> and \<^verbatim>\<open>String\<close>; the latter caches its result in the receiver, which the pair
  returns. For the binary formats \<^verbatim>\<open>rounded\<close> is the quantity at scale 0, which is the quantity
  itself exactly when the format stays binary.
\<close>

definition CanonicalizeBytes :: "Quantity \<Rightarrow> (string \<times> string) option" where
  "CanonicalizeBytes q =
     (if IsZero q then Some (''0'', [])
      else
        (let (format, rounded_i, rounded_d) =
               (case q_format q of
                  BinarySI \<Rightarrow>
                    if CmpInt64 q (-1024) > 0 \<and> CmpInt64 q 1024 < 0 then (DecimalSI, q_i q, q_d q)
                    else (case q_d q of
                            Some d \<Rightarrow> (let d' = dec_round_up d 0
                                      in (if dec_cmp d' d = 0 then BinarySI else DecimalSI, q_i q, Some d'))
                          | None \<Rightarrow> (case int64Amount_AsScale (q_i q) 0 of (i, exact) \<Rightarrow>
                                      (if exact then BinarySI else DecimalSI, i, None)))
                | NoFormat \<Rightarrow> (DecimalExponent, q_i q, q_d q)
                | f \<Rightarrow> (f, q_i q, q_d q))
         in if format = BinarySI then
              map_option (\<lambda>(number, exponent).
                  (number, fst (constructBytes 2 (wrap32 (exponent * 10)) format)))
                (case rounded_d of Some d \<Rightarrow> infDecAmount_AsCanonicalBase1024Bytes d
                 | None \<Rightarrow> int64Amount_AsCanonicalBase1024Bytes rounded_i)
            else
              map_option (\<lambda>(number, exponent). (number, fst (constructBytes 10 exponent format)))
                (case q_d q of Some d \<Rightarrow> infDecAmount_AsCanonicalBytes d
                 | None \<Rightarrow> int64Amount_AsCanonicalBytes (q_i q))))"

definition Quantity_String :: "Quantity \<Rightarrow> (string \<times> Quantity) option" where
  "Quantity_String q =
     (if q_s q = [] then
        map_option (\<lambda>(number, suffix). (number @ suffix, q\<lparr>q_s := number @ suffix\<rparr>)) (CanonicalizeBytes q)
      else Some (q_s q, q))"

section \<open>Parsing what was printed\<close>

definition decimal_suffix :: "string \<Rightarrow> int \<Rightarrow> bool" where
  "decimal_suffix suf e \<longleftrightarrow> (suf, (10, e)) \<in> set decSuffixToBE"

lemma decimal_suffix_cases:
  "decimal_suffix suf e \<longleftrightarrow>
     suf = ''n'' \<and> e = -9 \<or> suf = ''u'' \<and> e = -6 \<or> suf = ''m'' \<and> e = -3 \<or> suf = [] \<and> e = 0
     \<or> suf = ''k'' \<and> e = 3 \<or> suf = ''M'' \<and> e = 6 \<or> suf = ''G'' \<and> e = 9 \<or> suf = ''T'' \<and> e = 12
     \<or> suf = ''P'' \<and> e = 15 \<or> suf = ''E'' \<and> e = 18"
  by (auto simp: decimal_suffix_def decSuffixToBE_def)

lemma interpret_decimal: "decimal_suffix suf e \<Longrightarrow> interpret_suffix suf = Some (10, e, DecimalSI)"
  by (auto simp: decimal_suffix_cases interpret_suffix_def suffixHandler_interpret_def
      decSuffixToBE_def)

lemma decimal_suffix_scan:
  assumes "decimal_suffix suf e" and "suf \<noteq> []"
  shows "scan_suffix suf = Inr suf" and "hd suf \<noteq> CHR ''.''" and "\<not> is_digit (hd suf)"
  using assms by (auto simp: decimal_suffix_cases scan_suffix_def suffix_char_def Let_def is_digit_def)

lemma constructBytes_decimal:
  assumes "e \<in> {-9, -6, -3, 0, 3, 6, 9, 12, 15, 18}"
  shows "decimal_suffix (fst (constructBytes 10 e DecimalSI)) e"
  using assms
  by (auto simp: constructBytes_def decBEToSuffix_def decSuffixToBE_def decimal_suffix_def)

lemma takeWhile_digits [simp]: "takeWhile is_digit (nat_digits n @ suf) = nat_digits n @ takeWhile is_digit suf"
  using nat_digits_digits [of n] by (simp add: list_all_iff takeWhile_append)

lemma dropWhile_digits [simp]: "dropWhile is_digit (nat_digits n @ suf) = dropWhile is_digit suf"
  using nat_digits_digits [of n] by (simp add: list_all_iff dropWhile_append)

lemma nat_digits_no_zeros [simp]:
  "0 < n \<Longrightarrow> dropWhile (\<lambda>c. c = CHR ''0'') (nat_digits n @ suf) = nat_digits n @ suf"
  using nat_digits_hd [of n] nat_digits_nonempty [of n] by (cases "nat_digits n") auto

lemma nat_digits_signless:
  "nat_digits n = c # cs \<Longrightarrow> c \<noteq> CHR ''-'' \<and> c \<noteq> CHR ''+''"
  using nat_digits_digits [of n] digit_not_sign by fastforce

lemma parseQuantityString_printed:
  assumes "m \<noteq> 0" and "decimal_suffix suf e"
  shows "parseQuantityString (itoa m @ suf) =
    Inr \<lparr>sc_positive = (0 < m), sc_value = itoa m, sc_num = nat_digits (nat \<bar>m\<bar>), sc_denom = [],
         sc_suffix = suf\<rparr>"
proof -
  define n where "n = nat \<bar>m\<bar>"
  have n: "0 < n" using assms(1) by (simp add: n_def)
  have tw: "takeWhile is_digit suf = []" "dropWhile is_digit suf = suf"
    using assms(2) decimal_suffix_scan by (cases suf; fastforce)+
  obtain c cs where c: "nat_digits n = c # cs" "is_digit c" by (rule nat_digits_Cons)
  have sign: "c \<noteq> CHR ''-''" "c \<noteq> CHR ''+''" using nat_digits_signless [OF c(1)] by simp_all
  have body: "(case itoa m @ suf of x # xs \<Rightarrow> if x = CHR ''-'' \<or> x = CHR ''+'' then xs else itoa m @ suf
      | [] \<Rightarrow> []) = nat_digits n @ suf"
    and pos: "(case itoa m @ suf of x # _ \<Rightarrow> x \<noteq> CHR ''-'' | [] \<Rightarrow> True) = (0 < m)"
    using assms(1) c sign by (auto simp: itoa_def n_def split: if_splits)
  have num: "takeWhile is_digit (nat_digits n @ suf) = nat_digits n"
    "dropWhile is_digit (nat_digits n @ suf) = suf"
    by (simp_all only: takeWhile_digits dropWhile_digits tw append_Nil2)
  show ?thesis
    unfolding parseQuantityString_def body pos Let_def nat_digits_no_zeros [OF n] num n_def [symmetric]
    using decimal_suffix_scan [OF assms(2)] by (cases "suf = []") simp_all
qed

lemma dec_scan_digits:
  "list_all is_digit cs \<Longrightarrow> dec_scan cs acc None dg = Some (acc @ cs, None, dg \<or> cs \<noteq> [])"
  by (induction cs arbitrary: acc dg) (auto dest: digit_not_sign)

lemma dec_set_string_itoa: "dec_set_string (itoa m) = Some \<lparr>dec_unscaled = m, dec_scale = 0\<rparr>"
proof -
  have "big_of_string (itoa m) = Some m"
  proof (cases "m < 0")
    case True
    then show ?thesis by (simp add: big_of_string_def itoa_def)
  next
    case False
    obtain c cs where c: "nat_digits (nat m) = c # cs" by (rule nat_digits_Cons)
    then have "c \<noteq> CHR ''-''" "c \<noteq> CHR ''+''" by (auto dest: nat_digits_signless)
    then show ?thesis
      using False parse_digits_nat_digits [of "nat m"] c by (simp add: big_of_string_def itoa_def)
  qed
  moreover have "dec_scan (itoa m) [] None False = Some (itoa m, None, True)"
    using nat_digits_digits by (simp add: itoa_def dec_scan_digits)
  ultimately show ?thesis by (simp add: dec_set_string_def)
qed

lemma dec_round_up_fine:
  assumes "scale_ok (dec_scale d)" and "dec_scale d \<le> 9"
  shows "dec_val (dec_round_up d 9) = dec_val d" and "dec_scale (dec_round_up d 9) = 9"
proof -
  have w: "wrap32 (9 - dec_scale d) = 9 - dec_scale d" using assms(1) by simp
  have "dec_round_up d 9 = \<lparr>dec_unscaled = dec_unscaled d * 10 ^ nat (9 - dec_scale d), dec_scale = 9\<rparr>"
    using assms(2) unfolding dec_round_up_def w
    by (cases "dec_scale d = 9") (simp_all add: Let_def signed_modulo_int_def)
  moreover have "pow10 (- dec_scale d) = of_int (10 ^ nat (9 - dec_scale d)) * pow10 (-9)"
    by (rule pow10_neg_shift [OF assms(2)])
  ultimately show "dec_val (dec_round_up d 9) = dec_val d" "dec_scale (dec_round_up d 9) = 9"
    by (simp_all add: dec_val_def)
qed

lemma parse_dec_amount_printed:
  assumes "m \<noteq> 0" and "decimal_suffix suf e"
  shows "\<exists>q. parse_dec_amount (itoa m) 10 e DecimalSI = Inr q \<and> q_val q = of_int m * pow10 e \<and> q_ok q
    \<and> q_format q = DecimalSI"
proof -
  define d where "d = \<lparr>dec_unscaled = \<bar>m\<bar>, dec_scale = - e\<rparr>"
  have e: "scale_ok e" "- e \<le> 9" using assms(2) by (auto simp: decimal_suffix_cases scale_ok_def)
  have d: "scale_ok (dec_scale d)" "dec_scale d \<le> 9" using e by (simp_all add: d_def)
  define r where "r = dec_round_up d 9"
  have r: "dec_val r = of_int \<bar>m\<bar> * pow10 e" "dec_scale r = 9"
    using dec_round_up_fine [OF d] by (simp_all add: r_def) (simp add: d_def dec_val_def)
  define res where "res = (if m < 0 then dec_neg r else r)"
  have "wrap64 \<bar>m\<bar> \<noteq> 0 \<or> wrap64 \<bar>m\<bar> \<noteq> \<bar>m\<bar>" using assms(1) by auto
  moreover have "wrap32 (wrap32 (- e)) = - e" "wrap32 (- Nano) = 9"
    using wrap32_id [of 9] e by (simp_all add: in_int32_def)
  ultimately have "parse_dec_amount (itoa m) 10 e DecimalSI =
      Inr \<lparr>q_i = zero_amount, q_d = Some res, q_s = [], q_format = DecimalSI\<rparr>"
    using assms(1) e
    by (auto simp: parse_dec_amount_def dec_set_string_itoa Let_def dec_sign_def dec_neg_def res_def r_def d_def
        sgn_if)
  moreover have "dec_val res = of_int m * pow10 e" using r by (auto simp: res_def)
  moreover have "scale_ok (dec_scale res)" using r by (auto simp: res_def dec_neg_def)
  ultimately show ?thesis by (simp add: q_val_def q_ok_def)
qed

text \<open>
  Both paths of the parser agree on a printed number with a decimal suffix: short mantissas go
  through the int64 path, longer ones through arbitrary precision.
\<close>

lemma ParseQuantity_printed:
  assumes "m \<noteq> 0" and "decimal_suffix suf e" and "length (itoa m) < 1073741824"
  shows "\<exists>q. ParseQuantity (itoa m @ suf) = Inr q \<and> q_val q = of_int m * pow10 e \<and> q_ok q
    \<and> q_format q = DecimalSI"
proof -
  define n where "n = nat \<bar>m\<bar>"
  define l where "l = length (nat_digits n)"
  have n: "0 < n" "int n = \<bar>m\<bar>" using assms(1) by (simp_all add: n_def)
  have len: "int l < 1073741824" using assms(3) by (simp add: l_def n_def itoa_def split: if_splits)
  have prec: "wrap32 (maxInt64Factors - wrap32 (int l)) = 18 - int l"
    using len wrap32_id [of "int l"] wrap32_id [of "18 - int l"]
    by (simp add: maxInt64Factors_def in_int32_def)
  have w0: "wrap32 0 = 0" by (simp add: wrap32_def)
  have e: "scale_ok e" "-9 \<le> e" using assms(2) by (auto simp: decimal_suffix_cases scale_ok_def)
  then have we: "wrap32 e = e" using wrap32_id [of e] by (auto simp: scale_ok_def in_int32_def)
  have ne: "itoa m @ suf \<noteq> []" "itoa m @ suf \<noteq> ''0''"
    using n nat_digits_hd [of n] nat_digits_nonempty [of n]
    by (auto simp: itoa_def n_def append_eq_Cons_conv Cons_eq_append_conv)
  note scan = parseQuantityString_printed [OF assms(1,2)] interpret_decimal [OF assms(2)]
  obtain q where slow: "parse_dec_amount (itoa m) 10 e DecimalSI = Inr q" "q_val q = of_int m * pow10 e"
    "q_ok q" "q_format q = DecimalSI"
    using parse_dec_amount_printed [OF assms(1,2)] by blast
  show ?thesis
  proof (cases "l \<le> 18")
    case False
    then have "ParseQuantity (itoa m @ suf) = Inr q"
      using ne slow(1) prec by (simp add: ParseQuantity_def scan Let_def n_def [symmetric] l_def)
    then show ?thesis using slow by blast
  next
    case True
    then have "n < 10 ^ 18" using nat_digits_length [of 18 n] by (simp add: l_def)
    then have i: "in_int64 (int n)" "in_int64 m" using n by (auto simp: in_int64_def)
    have pn: "parseInt (nat_digits n) = Some (int n)"
      using parseInt_itoa [OF i(1)] by (simp add: itoa_def)
    have mul: "int64Multiply (int n) 1 = (int n, True)"
      using i by (simp add: int64Multiply_def wrap64_id)
    have "wrap64 (- int n) = - int n" using i n by (intro wrap64_id) (auto simp: in_int64_def)
    then have neg: "(if 0 < m then int n else wrap64 (- int n)) = m" using n assms(1) by auto
    have "\<exists>s. ParseQuantity (itoa m @ suf) =
        Inr \<lparr>q_i = \<lparr>ia_value = m, ia_scale = e\<rparr>, q_d = None, q_s = s, q_format = DecimalSI\<rparr>"
      using ne True e prec pn mul neg
      by (simp add: ParseQuantity_def scan Let_def n_def [symmetric] l_def w0 we)
    then show ?thesis using i e by (auto simp: q_val_def q_ok_def ia_val_def ia_ok_def)
  qed
qed

text \<open>
  Printing an int64 number of milli-units. Factors of ten move into the exponent, which is then
  brought back to a multiple of three; the factors put back were there before, so nothing
  overflows.
\<close>

lemma removeInt64Factors_10:
  assumes "in_int64 v"
  shows "\<exists>r k. removeInt64Factors v 10 = Some (r, int k) \<and> v = r * 10 ^ k"
proof (cases "v = mostNegative")
  case True
  have "removeFactors_loop 10 mostNegative 0 = Some (mostNegative, 0)"
    by (subst removeFactors_loop.simps) simp
  then have "removeInt64Factors v 10 = Some (v, int 0)"
    using True by (simp add: removeInt64Factors_def wrap64_def)
  then show ?thesis by (intro exI [of _ v] exI [of _ 0]) simp
next
  case False
  then show ?thesis using removeInt64Factors_spec [OF assms False, of 10] by auto
qed

lemma in_int64_factor: "in_int64 (r * c) \<Longrightarrow> 0 < c \<Longrightarrow> in_int64 r" for c :: int
  using in_int64_mult_le [of r c 1] by simp

lemma go_mod_3_cases:
  fixes j :: nat
  shows "go_mod (3 * int j - 3) 3 = 0" and "go_mod (3 * int j - 2) 3 \<in> {1, -2}"
    and "go_mod (3 * int j - 1) 3 \<in> {2, -1}"
  by (cases j; simp add: go_mod_def signed_modulo_int_def; presburger)+

lemma scale_consts_exact:
  shows "in_int64 (a * 10) \<Longrightarrow> int64MultiplyScale10 a = (a * 10, True)"
    and "in_int64 (a * 100) \<Longrightarrow> int64MultiplyScale100 a = (a * 100, True)"
proof -
  have *: "int64MultiplyScale a c = (a * c, True)" if "in_int64 (a * c)" "in_int64 c" "1 < c" for c
  proof -
    have "in_int64 a" using in_int64_factor [OF that(1)] that(3) by simp
    then have "snd (int64MultiplyScale a c)" "fst (int64MultiplyScale a c) = a * c"
      using that mulscale64.flag [of a c] mulscale64.result [of a c] by simp_all
    then show ?thesis by (simp add: prod_eq_iff)
  qed
  show "in_int64 (a * 10) \<Longrightarrow> int64MultiplyScale10 a = (a * 10, True)"
    "in_int64 (a * 100) \<Longrightarrow> int64MultiplyScale100 a = (a * 100, True)"
    using * [of 10] * [of 100] by (simp_all add: int64MultiplyScale_consts in_int64_def)
qed

lemma milli_canonical:
  assumes "in_int64 v" and "v \<noteq> 0"
  shows "\<exists>m e. int64Amount_AsCanonicalBytes \<lparr>ia_value = v, ia_scale = -3\<rparr> = Some (itoa m, e)
    \<and> of_int m * pow10 e = of_int v * pow10 (-3) \<and> in_int64 m \<and> m \<noteq> 0
    \<and> e \<in> {-9, -6, -3, 0, 3, 6, 9, 12, 15, 18}"
proof -
  obtain r k where rk: "removeInt64Factors v 10 = Some (r, int k)" "v = r * 10 ^ k"
    using removeInt64Factors_10 [OF assms(1)] by blast
  have k: "k \<le> 18" using in_int64_pow10_bound [of r k] assms rk(2) by auto
  define j i where "j = k div 3" and "i = k mod 3"
  have ji: "k = 3 * j + i" "i < 3" "j \<le> 6" using k by (simp_all add: j_def i_def)
  define e where "e = 3 * int j - 3"
  define m where "m = r * 10 ^ i"
  have v: "v = m * 10 ^ (3 * j)" using rk(2) ji(1) by (simp add: m_def power_add mult_ac)
  then have m: "in_int64 m" "m \<noteq> 0" using assms in_int64_factor [of m "10 ^ (3 * j)"] by auto
  have "int64Amount_AsCanonicalBytes \<lparr>ia_value = v, ia_scale = -3\<rparr> = Some (itoa m, e)"
  proof -
    have "in_int32 (e + int i)" "in_int32 e" using ji by (auto simp: e_def in_int32_def)
    then have w: "wrap32 (-3 + int k) = e + int i" "wrap32 (e + int i - int i) = e"
      using ji(1) wrap32_id [of "e + int i"] wrap32_id [of e] by (auto simp: e_def algebra_simps)
    consider "i = 0" | "i = 1" | "i = 2" using ji(2) by linarith
    then show ?thesis
      using go_mod_3_cases [of j] m w
      by cases (auto simp: int64Amount_AsCanonicalBytes_def rk(1) Let_def e_def m_def
          scale_consts_exact)
  qed
  moreover have "of_int m * pow10 e = of_int v * pow10 (-3)"
  proof -
    have "pow10 e = of_int (10 ^ (3 * j)) * pow10 (-3)"
      using pow10_shift [of "-3" e] by (simp add: e_def nat_mult_distrib)
    then show ?thesis using v by (simp add: mult.assoc)
  qed
  moreover have "e \<in> {-9, -6, -3, 0, 3, 6, 9, 12, 15, 18}"
  proof -
    have "j = 0 \<or> j = 1 \<or> j = 2 \<or> j = 3 \<or> j = 4 \<or> j = 5 \<or> j = 6" using ji(3) by linarith
    then show ?thesis by (auto simp: e_def)
  qed
  ultimately show ?thesis using m by blast
qed

lemma length_itoa:
  assumes "in_int64 m"
  shows "length (itoa m) \<le> 21"
proof -
  have "nat \<bar>m\<bar> < 10 ^ 20" using assms by (auto simp: in_int64_def)
  then have "length (nat_digits (nat \<bar>m\<bar>)) \<le> 20" using nat_digits_length [of 20 "nat \<bar>m\<bar>"] by simp
  then show ?thesis by (auto simp: itoa_def split: if_splits)
qed

lemma pow10_milli: "pow10 (-3) = 1 / 1000"
  by (simp add: pow10_def power_int_def power3_eq_cube)

lemma MilliValue_exact:
  assumes "q_ok q" and "q_val q = of_int v * pow10 (-3)" and "0 \<le> v" and "in_int64 v"
  shows "MilliValue oob q = v"
proof -
  have "q_val q * pow10 (- (-3)) = of_int v"
    using assms(2) by (simp add: mult.assoc flip: pow10_add)
  then have "\<lceil>q_val q * pow10 (- (-3))\<rceil> = v" by (simp only: ceiling_of_int)
  then show ?thesis
    using ScaledValue_nonneg [of q "-3" oob] assms by (simp add: MilliValue_def)
qed

fun quantity_error_text :: "quantity_error \<Rightarrow> string" where
  "quantity_error_text ErrFormatWrong = ''quantities must match the regular expression '' @ [CHR 0x27]
     @ ''^([+-]?[0-9.]+)([eEinumkKMGTP]*[-+]?[0-9]*)$'' @ [CHR 0x27]"
| "quantity_error_text ErrNumeric = ''unable to parse numeric part of quantity''"
| "quantity_error_text ErrSuffix = ''unable to parse quantity'' @ [CHR 0x27] @ ''s suffix''"

definition MustParse :: "string \<Rightarrow> Quantity go_run" where
  "MustParse str =
     (case ParseQuantity str of
        Inl err \<Rightarrow> Panics (''cannot parse '' @ [CHR 0x27] @ str @ [CHR 0x27] @ '': '' @ quantity_error_text err)
      | Inr q \<Rightarrow> Returns q)"

lemma MustParse_milli:
  assumes "in_int64 n"
  obtains q where "MustParse (itoa n @ ''m'') = Returns q" "q_val q = of_int n / 1000" "q_ok q"
    "0 \<le> n \<longrightarrow> MilliValue oob q = n"
proof (cases "n = 0")
  case True
  let ?q = "\<lparr>q_i = \<lparr>ia_value = 0, ia_scale = -3\<rparr>, q_d = None, q_s = [], q_format = DecimalSI\<rparr>"
  have "MustParse (itoa 0 @ ''m'') = Returns ?q" by code_simp
  then have "MustParse (itoa n @ ''m'') = Returns ?q" using True by simp
  moreover have "q_ok ?q" "q_val ?q = of_int n * pow10 (-3)"
    using True by (simp_all add: q_val_def q_ok_def ia_val_def ia_ok_def in_int64_def scale_ok_def)
  ultimately show ?thesis using that [of ?q] MilliValue_exact [of ?q n oob] True assms by (simp add: pow10_milli)
next
  case False
  have "decimal_suffix ''m'' (-3)" by (simp add: decimal_suffix_cases)
  then obtain q where q: "ParseQuantity (itoa n @ ''m'') = Inr q" "q_val q = of_int n * pow10 (-3)" "q_ok q"
    using ParseQuantity_printed [OF False] length_itoa [OF assms] by fastforce
  then show ?thesis using that [of q] MilliValue_exact [of q n oob] assms by (simp add: MustParse_def pow10_milli)
qed

text \<open>
  C36: the printed form of every int64 number of milli-units parses back to the same quantity,
  and a non-negative one reads back as the same number of milli-units. This is the form in
  which a scaled CPU request is stored.
\<close>

theorem milli_text_roundtrip:
  assumes "in_int64 v"
  shows "\<exists>s p q. Quantity_String (NewMilliQuantity v DecimalSI) = Some (s, p) \<and> ParseQuantity s = Inr q
    \<and> q_val q = of_int v / 1000 \<and> (0 \<le> v \<longrightarrow> MilliValue oob q = v)"
proof -
  have milli: "MilliValue oob q = v" if "q_ok q" "q_val q = of_int v * pow10 (-3)" "0 \<le> v" for q
    using that assms by (rule MilliValue_exact)
  show ?thesis
  proof (cases "v = 0")
    case True
    have "ParseQuantity ''0'' = Inr \<lparr>q_i = zero_amount, q_d = None, q_s = ''0'', q_format = DecimalSI\<rparr>"
      by (simp add: ParseQuantity_def)
    moreover have "Quantity_String (NewMilliQuantity v DecimalSI) =
        Some (''0'', (NewMilliQuantity v DecimalSI)\<lparr>q_s := ''0''\<rparr>)"
      using True by (simp add: Quantity_String_def CanonicalizeBytes_def IsZero_def NewMilliQuantity_def)
    ultimately show ?thesis
      using True milli by (auto simp: q_val_def q_ok_def ia_val_def zero_amount_def ia_ok_def in_int64_def)
  next
    case False
    obtain m e where me: "int64Amount_AsCanonicalBytes \<lparr>ia_value = v, ia_scale = -3\<rparr> = Some (itoa m, e)"
      "of_int m * pow10 e = of_int v * pow10 (-3)" "in_int64 m" "m \<noteq> 0"
      "e \<in> {-9, -6, -3, 0, 3, 6, 9, 12, 15, 18}"
      using milli_canonical [OF assms False] by metis
    define suf where "suf = fst (constructBytes 10 e DecimalSI)"
    have "\<exists>p. Quantity_String (NewMilliQuantity v DecimalSI) = Some (itoa m @ suf, p)"
      using False me(1)
      by (simp add: Quantity_String_def CanonicalizeBytes_def IsZero_def NewMilliQuantity_def suf_def)
    moreover have "length (itoa m) < 1073741824" using length_itoa [OF me(3)] by simp
    then obtain q where "ParseQuantity (itoa m @ suf) = Inr q" "q_val q = of_int m * pow10 e" "q_ok q"
      using ParseQuantity_printed [OF me(4) constructBytes_decimal [OF me(5)]] unfolding suf_def by blast
    ultimately show ?thesis using milli [of q] me(2) by (auto simp: pow10_milli)
  qed
qed

theorem milli_text_roundtrip_witness:
  "\<exists>s p q. Quantity_String (NewMilliQuantity 1500000 DecimalSI) = Some (s, p) \<and> ParseQuantity s = Inr q
    \<and> q_val q = of_int 1500000 / 1000 \<and> (0 \<le> (1500000 :: int) \<longrightarrow> MilliValue (\<lambda>_. 0) q = 1500000)"
  by (rule milli_text_roundtrip) (simp add: in_int64_def)

text \<open>
  The scanner accepts strings with no digit at all, which the documented regular expression
  excludes: a lone sign, a lone dot and a lone suffix all parse as zero.
\<close>

theorem ParseQuantity_no_digits:
  "map (\<lambda>s. map_sum id q_i (ParseQuantity s)) [''-'', ''+'', ''.'', ''m''] =
     [Inr zero_amount, Inr zero_amount, Inr zero_amount, Inr \<lparr>ia_value = 0, ia_scale = -3\<rparr>]"
  by code_simp

end
