(* ===== verification/Api_Objects.thy ===== *)
theory Api_Objects
  imports Quantity_Text
begin

text \<open>
  The API objects the scheduler reads and writes (pods, containers, nodes), restricted to the
  fields the modelled code uses, the resource-name classification of
  pkg/apis/core/v1/helper and pkg/scheduler/util, and the name validation it relies on.
  A nil map and an empty one are the same list, except for annotations, where the plugins
  distinguish them.
\<close>

section \<open>Strings\<close>

definition has_prefix :: "string \<Rightarrow> string \<Rightarrow> bool" where
  "has_prefix p s \<longleftrightarrow> take (length p) s = p"

fun str_contains :: "string \<Rightarrow> string \<Rightarrow> bool" where
  "str_contains p [] \<longleftrightarrow> p = []"
| "str_contains p (c # cs) \<longleftrightarrow> has_prefix p (c # cs) \<or> str_contains p cs"

fun split_on :: "char \<Rightarrow> string \<Rightarrow> string list" where
  "split_on d [] = [[]]"
| "split_on d (c # cs) =
     (if c = d then [] # split_on d cs
      else case split_on d cs of [] \<Rightarrow> [[c]] | w # ws \<Rightarrow> (c # w) # ws)"

fun join_strings :: "string \<Rightarrow> string list \<Rightarrow> string" where
  "join_strings sep [] = []"
| "join_strings sep [s] = s"
| "join_strings sep (s # t # ts) = s @ sep @ join_strings sep (t # ts)"

section \<open>Name validation\<close>

definition is_lower_alnum :: "char \<Rightarrow> bool" where
  "is_lower_alnum c \<longleftrightarrow> is_digit c \<or> 97 \<le> (of_char c :: nat) \<and> (of_char c :: nat) \<le> 122"

definition is_alnum :: "char \<Rightarrow> bool" where
  "is_alnum c \<longleftrightarrow> is_lower_alnum c \<or> 65 \<le> (of_char c :: nat) \<and> (of_char c :: nat) \<le> 90"

definition dns1123Label :: "string \<Rightarrow> bool" where
  "dns1123Label s \<longleftrightarrow> s \<noteq> [] \<and> is_lower_alnum (hd s) \<and> is_lower_alnum (last s) \<and>
     list_all (\<lambda>c. is_lower_alnum c \<or> c = CHR ''-'') s"

definition IsDNS1123Subdomain :: "string \<Rightarrow> bool" where
  "IsDNS1123Subdomain s \<longleftrightarrow> length s \<le> 253 \<and> list_all dns1123Label (split_on (CHR ''.'') s)"

definition qualifiedName :: "string \<Rightarrow> bool" where
  "qualifiedName s \<longleftrightarrow> s \<noteq> [] \<and> is_alnum (hd s) \<and> is_alnum (last s) \<and>
     list_all (\<lambda>c. is_alnum c \<or> c = CHR ''-'' \<or> c = CHR ''_'' \<or> c = CHR ''.'') s"

text \<open>The name is qualified when the validation reports no error.\<close>

definition IsQualifiedName :: "string \<Rightarrow> bool" where
  "IsQualifiedName value =
     (let ok = (\<lambda>name. name \<noteq> [] \<and> length name \<le> 63 \<and> qualifiedName name)
      in case split_on (CHR ''/'') value of
           [name] \<Rightarrow> ok name
         | [prefix, name] \<Rightarrow> prefix \<noteq> [] \<and> IsDNS1123Subdomain prefix \<and> ok name
         | _ \<Rightarrow> False)"

section \<open>Resource names\<close>

abbreviation ResourceCPU :: string where "ResourceCPU \<equiv> ''cpu''"
abbreviation ResourceMemory :: string where "ResourceMemory \<equiv> ''memory''"
abbreviation ResourcePods :: string where "ResourcePods \<equiv> ''pods''"
abbreviation ResourceEphemeralStorage :: string where "ResourceEphemeralStorage \<equiv> ''ephemeral-storage''"

definition IsPrefixedNativeResource :: "string \<Rightarrow> bool" where
  "IsPrefixedNativeResource name = str_contains ''kubernetes.io/'' name"

definition IsNativeResource :: "string \<Rightarrow> bool" where
  "IsNativeResource name = (\<not> str_contains ''/'' name \<or> IsPrefixedNativeResource name)"

definition IsExtendedResourceName :: "string \<Rightarrow> bool" where
  "IsExtendedResourceName name =
     (if IsNativeResource name \<or> has_prefix ''requests.'' name then False
      else IsQualifiedName (''requests.'' @ name))"

definition IsHugePageResourceName :: "string \<Rightarrow> bool" where
  "IsHugePageResourceName name = has_prefix ''hugepages-'' name"

definition IsAttachableVolumeResourceName :: "string \<Rightarrow> bool" where
  "IsAttachableVolumeResourceName name = has_prefix ''attachable-volumes-'' name"

definition IsScalarResourceName :: "string \<Rightarrow> bool" where
  "IsScalarResourceName name =
     (IsExtendedResourceName name \<or> IsHugePageResourceName name \<or> IsPrefixedNativeResource name
      \<or> IsAttachableVolumeResourceName name)"

section \<open>Objects\<close>

type_synonym ResourceList = "(string, Quantity) gomap"

definition ResourceList_Name :: "ResourceList \<Rightarrow> string \<Rightarrow> Format \<Rightarrow> Quantity" where
  "ResourceList_Name rl name defaultFormat =
     (case gomap_get rl name of Some val \<Rightarrow> val
      | None \<Rightarrow> \<lparr>q_i = zero_amount, q_d = None, q_s = [], q_format = defaultFormat\<rparr>)"

definition ResourceList_Cpu :: "ResourceList \<Rightarrow> Quantity" where
  "ResourceList_Cpu rl = ResourceList_Name rl ResourceCPU DecimalSI"

definition ResourceList_Memory :: "ResourceList \<Rightarrow> Quantity" where
  "ResourceList_Memory rl = ResourceList_Name rl ResourceMemory BinarySI"

record ContainerPort =
  cp_HostIP :: string
  cp_Protocol :: string
  cp_HostPort :: int

record Container =
  ct_Name :: string
  ct_Image :: string
  ct_Requests :: ResourceList
  ct_Limits :: ResourceList
  ct_Ports :: "ContainerPort list"

text \<open>Affinity terms are kept as opaque strings: the modelled code only asks whether there are any.\<close>

record Affinity =
  af_PodAffinity :: "string list option"
  af_PodAntiAffinity :: "string list option"

record Pod =
  pod_Name :: string
  pod_Namespace :: string
  pod_UID :: string
  pod_ResourceVersion :: string
  pod_Generation :: int
  pod_Labels :: "(string, string) gomap"
  pod_Annotations :: "(string, string) gomap option"
  pod_DeletionTimestamp :: "int option"
  pod_SchedulerName :: string
  pod_NodeName :: string
  pod_Containers :: "Container list"
  pod_InitContainers :: "Container list"
  pod_Overhead :: "ResourceList option"
  pod_Affinity :: "Affinity option"
  pod_Volumes :: "string option list"
  pod_Priority :: "int option"
  pod_Conditions :: "(string \<times> string) list"
  pod_NominatedNodeName :: string

record Node =
  node_Name :: string
  node_Labels :: "(string, string) gomap"
  node_Allocatable :: ResourceList
  node_Images :: "(string list \<times> int) list"

text \<open>
  What the code reads from its process: the platform's conversion of an out-of-range float to an
  int64, and two feature gates (both enabled by default).
\<close>

record runtime_env =
  env_oob :: "float64 \<Rightarrow> int"
  gate_LocalStorageCapacityIsolation :: bool
  gate_PodOverhead :: bool

text \<open>Reading a map with a missing key gives the zero value of its type.\<close>

definition get_or :: "'v \<Rightarrow> ('k, 'v) gomap \<Rightarrow> 'k \<Rightarrow> 'v" where
  "get_or z m k = (case gomap_get m k of Some v \<Rightarrow> v | None \<Rightarrow> z)"

lemma get_or_set [simp]: "get_or z (gomap_set m k v) k' = (if k' = k then v else get_or z m k')"
  by (simp add: get_or_def)

lemma get_or_delete [simp]: "get_or z (gomap_delete m k) k' = (if k' = k then z else get_or z m k')"
  by (simp add: get_or_def)

lemma get_or_Nil [simp]: "get_or z [] k = z"
  by (simp add: get_or_def)

lemma standard_resources_not_scalar:
  "\<not> IsScalarResourceName ResourceCPU" "\<not> IsScalarResourceName ResourceMemory"
  "\<not> IsScalarResourceName ResourcePods" "\<not> IsScalarResourceName ResourceEphemeralStorage"
  by code_simp+

lemma split_on_nonempty [simp]: "split_on d s \<noteq> []"
  by (induction s) (auto split: list.splits)

lemma join_split: "join_strings [d] (split_on d s) = s"
proof (induction s)
  case (Cons c cs)
  obtain w ws where w: "split_on d cs = w # ws" by (metis split_on_nonempty neq_Nil_conv)
  then show ?case using Cons by (cases ws) auto
qed simp

end
