(* ===== verification/Framework_Status.thy ===== *)
theory Framework_Status
  imports Api_Objects
begin

text \<open>
  Plugin statuses and the per-cycle store of the scheduling framework
  (pkg/scheduler/framework/interface.go and cycle_state.go). A nil status is None.
\<close>

section \<open>Statuses\<close>

datatype Code = Success | Error | Unschedulable | UnschedulableAndUnresolvable | Wait | Skip

definition statusPrecedence :: "Code \<Rightarrow> int" where
  "statusPrecedence c =
     (case c of Error \<Rightarrow> 3 | UnschedulableAndUnresolvable \<Rightarrow> 2 | Unschedulable \<Rightarrow> 1 | Success \<Rightarrow> -1
      | Wait \<Rightarrow> 0 | Skip \<Rightarrow> 0)"

record Status =
  st_code :: Code
  st_reasons :: "string list"
  st_err :: "string option"
  st_failedPlugin :: string

definition Status_Code :: "Status option \<Rightarrow> Code" where
  "Status_Code s = (case s of None \<Rightarrow> Success | Some st \<Rightarrow> st_code st)"

definition Status_Message :: "Status option \<Rightarrow> string" where
  "Status_Message s = (case s of None \<Rightarrow> [] | Some st \<Rightarrow> join_strings '', '' (st_reasons st))"

definition WithFailedPlugin :: "string \<Rightarrow> Status \<Rightarrow> Status" where
  "WithFailedPlugin plugin s = s\<lparr>st_failedPlugin := plugin\<rparr>"

definition AppendReason :: "string \<Rightarrow> Status \<Rightarrow> Status" where
  "AppendReason r s = s\<lparr>st_reasons := st_reasons s @ [r]\<rparr>"

definition IsSuccess :: "Status option \<Rightarrow> bool" where
  "IsSuccess s \<longleftrightarrow> Status_Code s = Success"

definition IsUnschedulable :: "Status option \<Rightarrow> bool" where
  "IsUnschedulable s \<longleftrightarrow> Status_Code s = Unschedulable \<or> Status_Code s = UnschedulableAndUnresolvable"

definition AsError :: "Status option \<Rightarrow> string option" where
  "AsError s =
     (if IsSuccess s then None
      else case s of Some st \<Rightarrow> (case st_err st of Some e \<Rightarrow> Some e | None \<Rightarrow> Some (Status_Message s))
           | None \<Rightarrow> None)"

definition Status_Equal :: "Status option \<Rightarrow> Status option \<Rightarrow> bool" where
  "Status_Equal s x =
     (case (s, x) of
        (Some a, Some b) \<Rightarrow>
          if st_code a \<noteq> st_code b then False
          else if st_code a = Error then st_err a = st_err b
          else st_reasons a = st_reasons b
      | _ \<Rightarrow> IsSuccess s \<and> IsSuccess x)"

definition NewStatus :: "Code \<Rightarrow> string list \<Rightarrow> Status" where
  "NewStatus c reasons =
     \<lparr>st_code = c, st_reasons = reasons,
      st_err = (if c = Error then Some (join_strings '', '' reasons) else None), st_failedPlugin = []\<rparr>"

definition AsStatus :: "string \<Rightarrow> Status" where
  "AsStatus err = \<lparr>st_code = Error, st_reasons = [err], st_err = Some err, st_failedPlugin = []\<rparr>"

text \<open>
  \<^verbatim>\<open>Merge\<close> ranges over a map from plugin to status, in the list's order; a nil entry is
  dereferenced for its reasons, which panics.
\<close>

definition merge_one :: "Status \<Rightarrow> Status \<Rightarrow> Status" where
  "merge_one fin s =
     (let f1 = (if st_code s = Error then fin\<lparr>st_err := AsError (Some s)\<rparr> else fin);
          f2 = (if statusPrecedence (st_code s) > statusPrecedence (st_code f1)
                then f1\<lparr>st_code := st_code s, st_failedPlugin := st_failedPlugin s\<rparr> else f1)
      in fold AppendReason (st_reasons s) f2)"

fun merge_loop :: "Status \<Rightarrow> (string \<times> Status option) list \<Rightarrow> Status go_run" where
  "merge_loop fin [] = Returns fin"
| "merge_loop fin ((_, None) # ps) = Panics ''nil pointer dereference''"
| "merge_loop fin ((_, Some s) # ps) = merge_loop (merge_one fin s) ps"

definition Merge :: "(string, Status option) gomap \<Rightarrow> Status option go_run" where
  "Merge p =
     (if p = [] then Returns None
      else case merge_loop (NewStatus Success []) p of Returns s \<Rightarrow> Returns (Some s) | Panics e \<Rightarrow> Panics e)"

section \<open>The per-cycle store\<close>

record 'd CycleState =
  cs_storage :: "(string, 'd) gomap"
  cs_recordPluginMetrics :: bool

definition NewCycleState :: "'d CycleState" where
  "NewCycleState = \<lparr>cs_storage = [], cs_recordPluginMetrics = False\<rparr>"

definition CycleState_Read :: "'d CycleState \<Rightarrow> string \<Rightarrow> string + 'd" where
  "CycleState_Read c key =
     (case gomap_get (cs_storage c) key of Some v \<Rightarrow> Inr v | None \<Rightarrow> Inl ''not found'')"

definition CycleState_Write :: "'d CycleState \<Rightarrow> string \<Rightarrow> 'd \<Rightarrow> 'd CycleState" where
  "CycleState_Write c key val = c\<lparr>cs_storage := gomap_set (cs_storage c) key val\<rparr>"

definition CycleState_Delete :: "'d CycleState \<Rightarrow> string \<Rightarrow> 'd CycleState" where
  "CycleState_Delete c key = c\<lparr>cs_storage := gomap_delete (cs_storage c) key\<rparr>"

text \<open>\<^verbatim>\<open>Clone\<close> copies every entry through its own \<^verbatim>\<open>Clone\<close> into a fresh state; the metrics flag is not copied.\<close>

definition CycleState_Clone :: "('d \<Rightarrow> 'd) \<Rightarrow> 'd CycleState \<Rightarrow> 'd CycleState" where
  "CycleState_Clone clone c =
     fold (\<lambda>(k, v) acc. CycleState_Write acc k (clone v)) (cs_storage c) NewCycleState"

section \<open>Laws\<close>

lemma merge_one_simps [simp]:
  "st_code (merge_one fin s) =
     (if statusPrecedence (st_code s) > statusPrecedence (st_code fin) then st_code s else st_code fin)"
  "st_reasons (merge_one fin s) = st_reasons fin @ st_reasons s"
proof -
  have code: "st_code (fold AppendReason rs f) = st_code f" for rs f
    by (induction rs arbitrary: f) (simp_all add: AppendReason_def)
  have reasons: "st_reasons (fold AppendReason rs f) = st_reasons f @ rs" for rs f
    by (induction rs arbitrary: f) (simp_all add: AppendReason_def)
  show "st_code (merge_one fin s) =
     (if statusPrecedence (st_code s) > statusPrecedence (st_code fin) then st_code s else st_code fin)"
    and "st_reasons (merge_one fin s) = st_reasons fin @ st_reasons s"
    by (simp_all add: merge_one_def Let_def code reasons)
qed

lemma merge_loop_spec:
  "merge_loop fin (map (\<lambda>(n, s). (n, Some s)) ps) = Returns r \<Longrightarrow>
     statusPrecedence (st_code r) =
       fold (\<lambda>(_, s) m. max m (statusPrecedence (st_code s))) ps (statusPrecedence (st_code fin))
     \<and> (st_code r = st_code fin \<or> (\<exists>(n, s) \<in> set ps. st_code r = st_code s))
     \<and> st_reasons r = st_reasons fin @ concat (map (st_reasons \<circ> snd) ps)"
  by (induction ps arbitrary: fin) (fastforce simp: max_def)+

lemma merge_loop_total: "\<exists>r. merge_loop fin (map (\<lambda>(n, s). (n, Some s)) ps) = Returns r"
  by (induction ps arbitrary: fin) auto

lemma fold_max_in:
  fixes f :: "'a \<Rightarrow> int"
  shows "fold (\<lambda>x m. max m (f x)) xs b = Max (insert b (f ` set xs))"
proof (induction xs arbitrary: b)
  case (Cons x xs)
  have "insert (max b (f x)) (f ` set xs) \<noteq> {}" by simp
  show ?case
    using Cons [of "max b (f x)"] by (cases "xs = []") (simp_all add: insert_commute max.assoc)
qed simp

text \<open>
  C35: merging plugin statuses never panics when no entry is nil, its code is one of the given
  ones and has the highest precedence among them (Error, then UnschedulableAndUnresolvable,
  then Unschedulable), and it keeps every reason, in the order of the range loop.
\<close>

theorem Merge_precedence:
  assumes "ps \<noteq> []"
  shows "\<exists>r. Merge (map (\<lambda>(n, s). (n, Some s)) ps) = Returns (Some r)
    \<and> st_code r \<in> (st_code \<circ> snd) ` set ps
    \<and> (\<forall>(n, s) \<in> set ps. statusPrecedence (st_code s) \<le> statusPrecedence (st_code r))
    \<and> st_reasons r = concat (map (st_reasons \<circ> snd) ps)"
proof -
  obtain r where r: "merge_loop (NewStatus Success []) (map (\<lambda>(n, s). (n, Some s)) ps) = Returns r"
    using merge_loop_total by blast
  have f: "(\<lambda>(_, s) m. max m (statusPrecedence (st_code s))) =
      (\<lambda>x m. max m ((\<lambda>x. statusPrecedence (st_code (snd x))) x))" by (simp add: fun_eq_iff split: prod.splits)
  define P where "P = (\<lambda>x :: string \<times> Status. statusPrecedence (st_code (snd x)))"
  have spec: "statusPrecedence (st_code r) = Max (insert (-1) (P ` set ps))"
    "st_code r = Success \<or> (\<exists>(n, s) \<in> set ps. st_code r = st_code s)"
    "st_reasons r = concat (map (st_reasons \<circ> snd) ps)"
    using merge_loop_spec [OF r] unfolding f fold_max_in P_def
    by (auto simp: NewStatus_def statusPrecedence_def)
  have le: "P x \<le> statusPrecedence (st_code r)" if "x \<in> set ps" for x
    unfolding spec(1) using that by (intro Max_ge) auto
  obtain x where x: "x \<in> set ps" using assms by (meson list.set_sel(1))
  have mem: "st_code r \<in> (st_code \<circ> snd) ` set ps"
  proof (cases "st_code r = Success")
    case True
    then have "P x \<le> -1" using le [OF x] by (simp add: statusPrecedence_def)
    then have "st_code (snd x) = Success"
      by (cases "st_code (snd x)") (simp_all add: P_def statusPrecedence_def)
    then show ?thesis using True x by (metis comp_apply image_eqI)
  next
    case False
    then obtain n s where "(n, s) \<in> set ps" "st_code r = st_code s" using spec(2) by auto
    then show ?thesis by (metis comp_apply image_eqI snd_conv)
  qed
  have "Merge (map (\<lambda>(n, s). (n, Some s)) ps) = Returns (Some r)" using assms r by (simp add: Merge_def)
  then show ?thesis using mem le spec(3) by (auto simp: P_def)
qed

theorem Merge_precedence_witness:
  "[(''a'', NewStatus Unschedulable [''x'']), (''b'', NewStatus Error [''y''])] \<noteq> [] \<and>
   (\<exists>r. Merge (map (\<lambda>(n, s). (n, Some s))
        [(''a'', NewStatus Unschedulable [''x'']), (''b'', NewStatus Error [''y''])]) = Returns (Some r)
    \<and> st_code r \<in> (st_code \<circ> snd) ` set
        [(''a'', NewStatus Unschedulable [''x'']), (''b'', NewStatus Error [''y''])]
    \<and> (\<forall>(n, s) \<in> set [(''a'', NewStatus Unschedulable [''x'']), (''b'', NewStatus Error [''y''])].
        statusPrecedence (st_code s) \<le> statusPrecedence (st_code r))
    \<and> st_reasons r = concat (map (st_reasons \<circ> snd)
        [(''a'', NewStatus Unschedulable [''x'']), (''b'', NewStatus Error [''y''])]))"
  using Merge_precedence [of "[(''a'', NewStatus Unschedulable [''x'']), (''b'', NewStatus Error [''y''])]"]
  by blast

text \<open>The store as an interface: what a plugin wrote last under a key is what is read there.\<close>

locale keyed_store =
  fixes rd :: "'s \<Rightarrow> string \<Rightarrow> string + 'd" and wr :: "'s \<Rightarrow> string \<Rightarrow> 'd \<Rightarrow> 's"
    and rm :: "'s \<Rightarrow> string \<Rightarrow> 's"
  assumes read_write: "rd (wr s k v) k' = (if k' = k then Inr v else rd s k')"
    and read_del: "rd (rm s k) k' = (if k' = k then Inl ''not found'' else rd s k')"
begin

lemma write_write: "rd (wr (wr s k v) k w) k' = rd (wr s k w) k'"
  by (simp add: read_write)

lemma write_two:
  assumes "k1 \<noteq> k2"
  shows "rd (wr (wr s k1 v1) k2 v2) k1 = Inr v1" and "rd (wr (wr s k1 v1) k2 v2) k2 = Inr v2"
  using assms by (simp_all add: read_write)

end

interpretation cycle: keyed_store CycleState_Read CycleState_Write CycleState_Delete
  by unfold_locales (simp_all add: CycleState_Read_def CycleState_Write_def CycleState_Delete_def)

lemma fold_clone_get:
  "gomap_ok kvs \<Longrightarrow>
   gomap_get (cs_storage (fold (\<lambda>(k, v) acc. CycleState_Write acc k (f v)) kvs c)) key =
     (case gomap_get kvs key of Some v \<Rightarrow> Some (f v) | None \<Rightarrow> gomap_get (cs_storage c) key)"
proof (induction kvs arbitrary: c)
  case (Cons kv kvs)
  obtain k v where kv: "kv = (k, v)" by (cases kv)
  have ok: "gomap_ok kvs" "gomap_get kvs k = None"
    using Cons.prems kv by (auto simp: gomap_ok_def map_of_eq_None_iff)
  show ?case
    using Cons.IH [OF ok(1), of "CycleState_Write c k (f v)"] ok(2)
    by (auto simp: kv CycleState_Write_def split: option.splits)
qed simp

lemma CycleState_Clone_read:
  "gomap_ok (cs_storage c) \<Longrightarrow>
   CycleState_Read (CycleState_Clone clone c) key = map_sum id clone (CycleState_Read c key)"
  by (simp add: CycleState_Read_def CycleState_Clone_def fold_clone_get NewCycleState_def split: option.splits)

end
