(* ===== verification/Node_Info.thy ===== *)
theory Node_Info
  imports Api_Objects
begin

text \<open>
  Node-level bookkeeping of the scheduler (pkg/scheduler/framework/types.go and
  pkg/scheduler/util/non_zero.go): resource vectors, host ports, and the NodeInfo record with
  the operations that add and remove pods. Every int64 counter wraps. The package-level
  generation counter is passed through the operations that bump it.
\<close>

section \<open>Resource vectors\<close>

record Resource =
  MilliCPU :: int
  Memory :: int
  EphemeralStorage :: int
  AllowedPodNumber :: int
  ScalarResources :: "(string, int) gomap"

definition zero_resource :: Resource where
  "zero_resource = \<lparr>MilliCPU = 0, Memory = 0, EphemeralStorage = 0, AllowedPodNumber = 0,
     ScalarResources = []\<rparr>"

definition go_max :: "int \<Rightarrow> int \<Rightarrow> int" where
  "go_max a b = (if a \<ge> b then a else b)"

definition SetScalar :: "string \<Rightarrow> int \<Rightarrow> Resource \<Rightarrow> Resource" where
  "SetScalar name quantity r = r\<lparr>ScalarResources := gomap_set (ScalarResources r) name quantity\<rparr>"

definition AddScalar :: "string \<Rightarrow> int \<Rightarrow> Resource \<Rightarrow> Resource" where
  "AddScalar name quantity r =
     SetScalar name (wrap64 (get_or 0 (ScalarResources r) name + quantity)) r"

definition Resource_Add_step :: "runtime_env \<Rightarrow> string \<times> Quantity \<Rightarrow> Resource \<Rightarrow> Resource" where
  "Resource_Add_step env kv r =
     (case kv of (rName, rQuant) \<Rightarrow>
        if rName = ResourceCPU then r\<lparr>MilliCPU := wrap64 (MilliCPU r + MilliValue (env_oob env) rQuant)\<rparr>
        else if rName = ResourceMemory then r\<lparr>Memory := wrap64 (Memory r + Value (env_oob env) rQuant)\<rparr>
        else if rName = ResourcePods then
          r\<lparr>AllowedPodNumber := wrap64 (AllowedPodNumber r + Value (env_oob env) rQuant)\<rparr>
        else if rName = ResourceEphemeralStorage then
          (if gate_LocalStorageCapacityIsolation env
           then r\<lparr>EphemeralStorage := wrap64 (EphemeralStorage r + Value (env_oob env) rQuant)\<rparr> else r)
        else if IsScalarResourceName rName then AddScalar rName (Value (env_oob env) rQuant) r
        else r)"

definition Resource_Add :: "runtime_env \<Rightarrow> ResourceList \<Rightarrow> Resource \<Rightarrow> Resource" where
  "Resource_Add env rl r = fold (Resource_Add_step env) rl r"

definition NewResource :: "runtime_env \<Rightarrow> ResourceList \<Rightarrow> Resource" where
  "NewResource env rl = Resource_Add env rl zero_resource"

definition SetMaxResource_step :: "runtime_env \<Rightarrow> string \<times> Quantity \<Rightarrow> Resource \<Rightarrow> Resource" where
  "SetMaxResource_step env kv r =
     (case kv of (rName, rQuantity) \<Rightarrow>
        if rName = ResourceMemory then r\<lparr>Memory := go_max (Memory r) (Value (env_oob env) rQuantity)\<rparr>
        else if rName = ResourceCPU then r\<lparr>MilliCPU := go_max (MilliCPU r) (MilliValue (env_oob env) rQuantity)\<rparr>
        else if rName = ResourceEphemeralStorage then
          (if gate_LocalStorageCapacityIsolation env
           then r\<lparr>EphemeralStorage := go_max (EphemeralStorage r) (Value (env_oob env) rQuantity)\<rparr> else r)
        else if IsScalarResourceName rName
          then SetScalar rName (go_max (get_or 0 (ScalarResources r) rName) (Value (env_oob env) rQuantity)) r
        else r)"

definition SetMaxResource :: "runtime_env \<Rightarrow> ResourceList \<Rightarrow> Resource \<Rightarrow> Resource" where
  "SetMaxResource env rl r = fold (SetMaxResource_step env) rl r"

definition DefaultMilliCPURequest :: int where "DefaultMilliCPURequest = 100"
definition DefaultMemoryRequest :: int where "DefaultMemoryRequest = 200 * 1024 * 1024"

definition GetNonzeroRequestForResource :: "runtime_env \<Rightarrow> string \<Rightarrow> ResourceList \<Rightarrow> int" where
  "GetNonzeroRequestForResource env res requests =
     (if res = ResourceCPU then
        (case gomap_get requests ResourceCPU of None \<Rightarrow> DefaultMilliCPURequest
         | Some _ \<Rightarrow> MilliValue (env_oob env) (ResourceList_Cpu requests))
      else if res = ResourceMemory then
        (case gomap_get requests ResourceMemory of None \<Rightarrow> DefaultMemoryRequest
         | Some _ \<Rightarrow> Value (env_oob env) (ResourceList_Memory requests))
      else if res = ResourceEphemeralStorage then
        (if \<not> gate_LocalStorageCapacityIsolation env then 0
         else case gomap_get requests ResourceEphemeralStorage of None \<Rightarrow> 0
              | Some quantity \<Rightarrow> Value (env_oob env) quantity)
      else case gomap_get requests res of None \<Rightarrow> 0 | Some quantity \<Rightarrow> Value (env_oob env) quantity)"

definition GetNonzeroRequests :: "runtime_env \<Rightarrow> ResourceList \<Rightarrow> int \<times> int" where
  "GetNonzeroRequests env requests =
     (GetNonzeroRequestForResource env ResourceCPU requests,
      GetNonzeroRequestForResource env ResourceMemory requests)"

text \<open>
  The request of a pod: the sum over its containers, raised to each init container's request,
  plus the overhead. The two integers are the same with defaults for missing CPU and memory.
\<close>

definition calc_container :: "runtime_env \<Rightarrow> Container \<Rightarrow> Resource \<times> int \<times> int \<Rightarrow> Resource \<times> int \<times> int" where
  "calc_container env ct acc =
     (case (acc, GetNonzeroRequests env (ct_Requests ct)) of ((res, c, m), (non0CPUReq, non0MemReq)) \<Rightarrow>
        (Resource_Add env (ct_Requests ct) res, wrap64 (c + non0CPUReq), wrap64 (m + non0MemReq)))"

definition calc_init :: "runtime_env \<Rightarrow> Container \<Rightarrow> Resource \<times> int \<times> int \<Rightarrow> Resource \<times> int \<times> int" where
  "calc_init env ct acc =
     (case (acc, GetNonzeroRequests env (ct_Requests ct)) of ((res, c, m), (non0CPUReq, non0MemReq)) \<Rightarrow>
        (SetMaxResource env (ct_Requests ct) res, go_max c non0CPUReq, go_max m non0MemReq))"

definition calculateResource :: "runtime_env \<Rightarrow> Pod \<Rightarrow> Resource \<times> int \<times> int" where
  "calculateResource env pod =
     (case fold (calc_init env) (pod_InitContainers pod)
             (fold (calc_container env) (pod_Containers pod) (zero_resource, 0, 0)) of (res, c, m) \<Rightarrow>
      case pod_Overhead pod of None \<Rightarrow> (res, c, m)
      | Some overhead \<Rightarrow>
          if \<not> gate_PodOverhead env then (res, c, m)
          else (Resource_Add env overhead res,
                (if gomap_get overhead ResourceCPU \<noteq> None
                 then wrap64 (c + MilliValue (env_oob env) (ResourceList_Cpu overhead)) else c),
                (if gomap_get overhead ResourceMemory \<noteq> None
                 then wrap64 (m + Value (env_oob env) (ResourceList_Memory overhead)) else m)))"

section \<open>Host ports\<close>

record ProtocolPort =
  pp_Protocol :: string
  pp_Port :: int

type_synonym HostPortInfo = "(string, (ProtocolPort, unit) gomap) gomap"

abbreviation DefaultBindAllHostIP :: string where "DefaultBindAllHostIP \<equiv> ''0.0.0.0''"

definition NewProtocolPort :: "string \<Rightarrow> int \<Rightarrow> ProtocolPort" where
  "NewProtocolPort protocol port =
     \<lparr>pp_Protocol = (if protocol = [] then ''TCP'' else protocol), pp_Port = port\<rparr>"

definition sanitize :: "string \<Rightarrow> string \<Rightarrow> string \<times> string" where
  "sanitize ip protocol =
     (if ip = [] then DefaultBindAllHostIP else ip, if protocol = [] then ''TCP'' else protocol)"

definition HostPortInfo_Add :: "string \<Rightarrow> string \<Rightarrow> int \<Rightarrow> HostPortInfo \<Rightarrow> HostPortInfo" where
  "HostPortInfo_Add ip0 protocol0 port h =
     (if port \<le> 0 then h
      else case sanitize ip0 protocol0 of (ip, protocol) \<Rightarrow>
        (let pp = NewProtocolPort protocol port
         in case gomap_get h ip of None \<Rightarrow> gomap_set h ip [(pp, ())]
            | Some m \<Rightarrow> gomap_set h ip (gomap_set m pp ())))"

definition HostPortInfo_Remove :: "string \<Rightarrow> string \<Rightarrow> int \<Rightarrow> HostPortInfo \<Rightarrow> HostPortInfo" where
  "HostPortInfo_Remove ip0 protocol0 port h =
     (if port \<le> 0 then h
      else case sanitize ip0 protocol0 of (ip, protocol) \<Rightarrow>
        (let pp = NewProtocolPort protocol port
         in case gomap_get h ip of None \<Rightarrow> h
            | Some m \<Rightarrow> (let m' = gomap_delete m pp
                        in if m' = [] then gomap_delete h ip else gomap_set h ip m')))"

definition HostPortInfo_Len :: "HostPortInfo \<Rightarrow> nat" where
  "HostPortInfo_Len h = sum_list (map (\<lambda>(_, m). length m) h)"

definition CheckConflict :: "HostPortInfo \<Rightarrow> string \<Rightarrow> string \<Rightarrow> int \<Rightarrow> bool" where
  "CheckConflict h ip0 protocol0 port =
     (if port \<le> 0 then False
      else case sanitize ip0 protocol0 of (ip, protocol) \<Rightarrow>
        (let pp = NewProtocolPort protocol port
         in if ip = DefaultBindAllHostIP then list_ex (\<lambda>(_, m). gomap_get m pp \<noteq> None) h
            else list_ex (\<lambda>key. case gomap_get h key of None \<Rightarrow> False | Some m \<Rightarrow> gomap_get m pp \<noteq> None)
                   [DefaultBindAllHostIP, ip]))"

section \<open>NodeInfo\<close>

record PodInfo =
  pi_Pod :: Pod

definition NewPodInfo :: "Pod \<Rightarrow> PodInfo" where
  "NewPodInfo pod = \<lparr>pi_Pod = pod\<rparr>"

record ImageStateSummary =
  iss_Size :: int
  iss_NumNodes :: int

record NodeInfo =
  ni_node :: "Node option"
  ni_Pods :: "PodInfo list"
  ni_PodsWithAffinity :: "PodInfo list"
  ni_PodsWithRequiredAntiAffinity :: "PodInfo list"
  ni_UsedPorts :: HostPortInfo
  ni_Requested :: Resource
  ni_NonZeroRequested :: Resource
  ni_Allocatable :: Resource
  ni_ImageStates :: "(string, ImageStateSummary) gomap"
  ni_PVCRefCounts :: "(string, int) gomap"
  ni_Generation :: int

definition nextGeneration :: "int \<Rightarrow> int" where
  "nextGeneration g = wrap64 (g + 1)"

definition GetPodKey :: "Pod \<Rightarrow> string + string" where
  "GetPodKey pod =
     (if pod_UID pod = [] then Inl ''cannot get cache key for pod with empty UID'' else Inr (pod_UID pod))"

definition podWithAffinity :: "Pod \<Rightarrow> bool" where
  "podWithAffinity p =
     (case pod_Affinity p of None \<Rightarrow> False
      | Some a \<Rightarrow> af_PodAffinity a \<noteq> None \<or> af_PodAntiAffinity a \<noteq> None)"

definition podWithRequiredAntiAffinity :: "Pod \<Rightarrow> bool" where
  "podWithRequiredAntiAffinity p =
     (case pod_Affinity p of None \<Rightarrow> False
      | Some a \<Rightarrow> (case af_PodAntiAffinity a of None \<Rightarrow> False | Some ts \<Rightarrow> ts \<noteq> []))"

text \<open>Overwrite position \<open>i\<close> with the last element and drop the last position.\<close>

definition swap_remove :: "nat \<Rightarrow> 'a list \<Rightarrow> 'a list" where
  "swap_remove i s = butlast (s[i := last s])"

fun find_key :: "string \<Rightarrow> PodInfo list \<Rightarrow> nat option" where
  "find_key k [] = None"
| "find_key k (p # ps) =
     (if GetPodKey (pi_Pod p) = Inr k then Some 0 else map_option Suc (find_key k ps))"

definition removeFromSlice :: "PodInfo list \<Rightarrow> string \<Rightarrow> PodInfo list" where
  "removeFromSlice s k = (case find_key k s of None \<Rightarrow> s | Some i \<Rightarrow> swap_remove i s)"

definition updateUsedPorts :: "Pod \<Rightarrow> bool \<Rightarrow> HostPortInfo \<Rightarrow> HostPortInfo" where
  "updateUsedPorts pod add h =
     fold (\<lambda>ct. fold (\<lambda>p. (if add then HostPortInfo_Add else HostPortInfo_Remove)
         (cp_HostIP p) (cp_Protocol p) (cp_HostPort p)) (ct_Ports ct)) (pod_Containers pod) h"

definition updatePVCRefCounts_step :: "string \<Rightarrow> bool \<Rightarrow> string option \<Rightarrow> (string, int) gomap \<Rightarrow> (string, int) gomap" where
  "updatePVCRefCounts_step ns add v m =
     (case v of None \<Rightarrow> m
      | Some claim \<Rightarrow>
        (let key = ns @ ''/'' @ claim in
         if add then gomap_set m key (wrap64 (get_or 0 m key + 1))
         else (let c = wrap64 (get_or 0 m key - 1)
               in if c \<le> 0 then gomap_delete (gomap_set m key c) key else gomap_set m key c)))"

definition updatePVCRefCounts :: "Pod \<Rightarrow> bool \<Rightarrow> (string, int) gomap \<Rightarrow> (string, int) gomap" where
  "updatePVCRefCounts pod add m =
     fold (updatePVCRefCounts_step (pod_Namespace pod) add) (pod_Volumes pod) m"

text \<open>The resource arithmetic shared by \<^verbatim>\<open>AddPodInfo\<close> (\<open>sg = 1\<close>) and \<^verbatim>\<open>RemovePod\<close> (\<open>sg = -1\<close>).\<close>

definition apply_request :: "int \<Rightarrow> Resource \<Rightarrow> Resource \<Rightarrow> Resource" where
  "apply_request sg res r =
     r\<lparr>MilliCPU := wrap64 (MilliCPU r + sg * MilliCPU res), Memory := wrap64 (Memory r + sg * Memory res),
       EphemeralStorage := wrap64 (EphemeralStorage r + sg * EphemeralStorage res),
       ScalarResources := fold (\<lambda>(rName, rQuant) m. gomap_set m rName (wrap64 (get_or 0 m rName + sg * rQuant)))
         (ScalarResources res) (ScalarResources r)\<rparr>"

definition apply_nonzero :: "int \<Rightarrow> int \<Rightarrow> int \<Rightarrow> Resource \<Rightarrow> Resource" where
  "apply_nonzero sg cpu mem r =
     r\<lparr>MilliCPU := wrap64 (MilliCPU r + sg * cpu), Memory := wrap64 (Memory r + sg * mem)\<rparr>"

definition AddPodInfo :: "runtime_env \<Rightarrow> PodInfo \<Rightarrow> int \<times> NodeInfo \<Rightarrow> int \<times> NodeInfo" where
  "AddPodInfo env pinfo gn =
     (case gn of (gen, n) \<Rightarrow>
      case calculateResource env (pi_Pod pinfo) of (res, non0CPU, non0Mem) \<Rightarrow>
      (nextGeneration gen,
       n\<lparr>ni_Requested := apply_request 1 res (ni_Requested n),
         ni_NonZeroRequested := apply_nonzero 1 non0CPU non0Mem (ni_NonZeroRequested n),
         ni_Pods := ni_Pods n @ [pinfo],
         ni_PodsWithAffinity :=
           (if podWithAffinity (pi_Pod pinfo) then ni_PodsWithAffinity n @ [pinfo] else ni_PodsWithAffinity n),
         ni_PodsWithRequiredAntiAffinity :=
           (if podWithRequiredAntiAffinity (pi_Pod pinfo)
            then ni_PodsWithRequiredAntiAffinity n @ [pinfo] else ni_PodsWithRequiredAntiAffinity n),
         ni_UsedPorts := updateUsedPorts (pi_Pod pinfo) True (ni_UsedPorts n),
         ni_PVCRefCounts := updatePVCRefCounts (pi_Pod pinfo) True (ni_PVCRefCounts n),
         ni_Generation := nextGeneration gen\<rparr>))"

definition AddPod :: "runtime_env \<Rightarrow> Pod \<Rightarrow> int \<times> NodeInfo \<Rightarrow> int \<times> NodeInfo" where
  "AddPod env pod = AddPodInfo env (NewPodInfo pod)"

definition NewNodeInfo :: "runtime_env \<Rightarrow> int \<Rightarrow> Pod list \<Rightarrow> int \<times> NodeInfo" where
  "NewNodeInfo env gen pods =
     fold (AddPod env) pods
       (nextGeneration gen,
        \<lparr>ni_node = None, ni_Pods = [], ni_PodsWithAffinity = [], ni_PodsWithRequiredAntiAffinity = [],
         ni_UsedPorts = [], ni_Requested = zero_resource, ni_NonZeroRequested = zero_resource,
         ni_Allocatable = zero_resource, ni_ImageStates = [], ni_PVCRefCounts = [],
         ni_Generation = nextGeneration gen\<rparr>)"

text \<open>
  \<^verbatim>\<open>RemovePod\<close>: the affinity slices are changed before the pod is looked up, so they stay changed
  when it is not found; the error message then reads the node's name, which panics without a node.
\<close>

definition RemovePod :: "runtime_env \<Rightarrow> Pod \<Rightarrow> int \<times> NodeInfo \<Rightarrow> (string option \<times> int \<times> NodeInfo) go_run" where
  "RemovePod env pod gn =
     (case gn of (gen, n) \<Rightarrow>
      case GetPodKey pod of Inl err \<Rightarrow> Returns (Some err, gen, n)
      | Inr k \<Rightarrow>
        (let n1 = n\<lparr>ni_PodsWithAffinity :=
                      (if podWithAffinity pod then removeFromSlice (ni_PodsWithAffinity n) k
                       else ni_PodsWithAffinity n),
                    ni_PodsWithRequiredAntiAffinity :=
                      (if podWithRequiredAntiAffinity pod
                       then removeFromSlice (ni_PodsWithRequiredAntiAffinity n) k
                       else ni_PodsWithRequiredAntiAffinity n)\<rparr>
         in case find_key k (ni_Pods n1) of
              Some i \<Rightarrow>
                (case calculateResource env pod of (res, non0CPU, non0Mem) \<Rightarrow>
                 Returns (None, nextGeneration gen,
                   n1\<lparr>ni_Pods := swap_remove i (ni_Pods n1),
                      ni_Requested := apply_request (-1) res (ni_Requested n1),
                      ni_NonZeroRequested := apply_nonzero (-1) non0CPU non0Mem (ni_NonZeroRequested n1),
                      ni_UsedPorts := updateUsedPorts pod False (ni_UsedPorts n1),
                      ni_PVCRefCounts := updatePVCRefCounts pod False (ni_PVCRefCounts n1),
                      ni_Generation := nextGeneration gen\<rparr>))
            | None \<Rightarrow>
                (case ni_node n1 of None \<Rightarrow> Panics ''nil pointer dereference''
                 | Some node \<Rightarrow>
                     Returns (Some (''no corresponding pod '' @ pod_Name pod @ '' in pods of node '' @ node_Name node),
                              gen, n1))))"

definition SetNode :: "runtime_env \<Rightarrow> Node \<Rightarrow> int \<times> NodeInfo \<Rightarrow> int \<times> NodeInfo" where
  "SetNode env node gn =
     (case gn of (gen, n) \<Rightarrow>
      (nextGeneration gen,
       n\<lparr>ni_node := Some node, ni_Allocatable := NewResource env (node_Allocatable node),
         ni_Generation := nextGeneration gen\<rparr>))"

definition RemoveNode :: "int \<times> NodeInfo \<Rightarrow> int \<times> NodeInfo" where
  "RemoveNode gn = (case gn of (gen, n) \<Rightarrow> (nextGeneration gen, n\<lparr>ni_node := None, ni_Generation := nextGeneration gen\<rparr>))"

text \<open>
  \<^verbatim>\<open>Clone\<close> copies the counters, the slices and the port map. The map of volume claims is shared
  with the original, which later changes it in place: the field of the clone is what both hold at
  the time of the copy.
\<close>

definition NodeInfo_Clone :: "NodeInfo \<Rightarrow> NodeInfo" where
  "NodeInfo_Clone n =
     \<lparr>ni_node = ni_node n, ni_Pods = ni_Pods n, ni_PodsWithAffinity = ni_PodsWithAffinity n,
      ni_PodsWithRequiredAntiAffinity = ni_PodsWithRequiredAntiAffinity n, ni_UsedPorts = ni_UsedPorts n,
      ni_Requested = ni_Requested n, ni_NonZeroRequested = ni_NonZeroRequested n, ni_Allocatable = ni_Allocatable n,
      ni_ImageStates = ni_ImageStates n, ni_PVCRefCounts = ni_PVCRefCounts n, ni_Generation = ni_Generation n\<rparr>"

lemma NodeInfo_Clone_id [simp]: "NodeInfo_Clone n = n"
  by (simp add: NodeInfo_Clone_def)

definition FilterOutPods :: "NodeInfo \<Rightarrow> Pod list \<Rightarrow> Pod list" where
  "FilterOutPods n pods =
     (case ni_node n of None \<Rightarrow> pods
      | Some node \<Rightarrow>
          filter (\<lambda>p. pod_NodeName p \<noteq> node_Name node \<or>
             (case GetPodKey p of Inl _ \<Rightarrow> False
              | Inr podKey \<Rightarrow> list_ex (\<lambda>np. (case GetPodKey (pi_Pod np) of Inl _ \<Rightarrow> [] | Inr k \<Rightarrow> k) = podKey)
                  (ni_Pods n))) pods)"

section \<open>Host ports are a set of (address, protocol, port) triples\<close>

definition used_ports :: "HostPortInfo \<Rightarrow> (string \<times> ProtocolPort) set" where
  "used_ports h = {(ip, pp). \<exists>m. gomap_get h ip = Some m \<and> gomap_get m pp = Some ()}"

definition ports_ok :: "HostPortInfo \<Rightarrow> bool" where
  "ports_ok h \<longleftrightarrow> gomap_ok h \<and> (\<forall>(ip, m) \<in> set h. gomap_ok m \<and> m \<noteq> [])"

text \<open>The triple a port specification stands for; a port that is not positive is ignored.\<close>

definition port_key :: "string \<times> string \<times> int \<Rightarrow> (string \<times> ProtocolPort) set" where
  "port_key x = (case x of (ip, protocol, port) \<Rightarrow>
     if port \<le> 0 then {} else case sanitize ip protocol of (ip', protocol') \<Rightarrow> {(ip', NewProtocolPort protocol' port)})"

lemma ports_ok_get:
  assumes "ports_ok h" and "gomap_get h ip = Some m"
  shows "gomap_ok m" and "m \<noteq> []"
  using assms map_of_SomeD [OF assms(2)] by (auto simp: ports_ok_def)

lemma ports_ok_set: "ports_ok h \<Longrightarrow> gomap_ok m \<Longrightarrow> m \<noteq> [] \<Longrightarrow> ports_ok (gomap_set h ip m)"
  using gomap_set_subset [of h ip m] by (auto simp: ports_ok_def)

lemma ports_ok_delete: "ports_ok h \<Longrightarrow> ports_ok (gomap_delete h ip)"
  using gomap_delete_subset [of h ip] by (auto simp: ports_ok_def)

lemma used_ports_set:
  "used_ports (gomap_set h ip m) =
     {(i, p) \<in> used_ports h. i \<noteq> ip} \<union> {(i, p). i = ip \<and> gomap_get m p = Some ()}"
  by (auto simp: used_ports_def split: if_splits)

lemma used_ports_delete: "used_ports (gomap_delete h ip) = {(i, p) \<in> used_ports h. i \<noteq> ip}"
  by (auto simp: used_ports_def split: if_splits)

lemma HostPortInfo_Add_spec:
  assumes "ports_ok h"
  shows "ports_ok (HostPortInfo_Add ip protocol port h)"
    and "used_ports (HostPortInfo_Add ip protocol port h) = used_ports h \<union> port_key (ip, protocol, port)"
proof -
  show "ports_ok (HostPortInfo_Add ip protocol port h)"
    using assms ports_ok_get [OF assms]
    by (auto simp: HostPortInfo_Add_def Let_def sanitize_def gomap_ok_def [of "[_]"] gomap_set_nonempty
        intro!: ports_ok_set split: option.splits)
  show "used_ports (HostPortInfo_Add ip protocol port h) = used_ports h \<union> port_key (ip, protocol, port)"
    by (auto simp: HostPortInfo_Add_def Let_def port_key_def used_ports_def sanitize_def
        split: option.splits if_splits)
qed

lemma HostPortInfo_Remove_spec:
  assumes "ports_ok h"
  shows "ports_ok (HostPortInfo_Remove ip protocol port h)"
    and "used_ports (HostPortInfo_Remove ip protocol port h) = used_ports h - port_key (ip, protocol, port)"
proof -
  show "ports_ok (HostPortInfo_Remove ip protocol port h)"
    using assms ports_ok_get [OF assms]
    by (auto simp: HostPortInfo_Remove_def Let_def sanitize_def
        intro!: ports_ok_set ports_ok_delete split: option.splits)
  show "used_ports (HostPortInfo_Remove ip protocol port h) = used_ports h - port_key (ip, protocol, port)"
  proof (cases "port \<le> 0")
    case True
    then show ?thesis by (simp add: HostPortInfo_Remove_def port_key_def)
  next
    case False
    define ip' where "ip' = fst (sanitize ip protocol)"
    define pp where "pp = NewProtocolPort (snd (sanitize ip protocol)) port"
    have key: "port_key (ip, protocol, port) = {(ip', pp)}"
      using False by (simp add: port_key_def ip'_def pp_def split: prod.splits)
    show ?thesis
    proof (cases "gomap_get h ip'")
      case None
      then have "HostPortInfo_Remove ip protocol port h = h"
        using False by (simp add: HostPortInfo_Remove_def ip'_def Let_def case_prod_beta)
      then show ?thesis using None key by (auto simp: used_ports_def)
    next
      case (Some m)
      have "HostPortInfo_Remove ip protocol port h =
          (if gomap_delete m pp = [] then gomap_delete h ip' else gomap_set h ip' (gomap_delete m pp))"
        using False Some by (simp add: HostPortInfo_Remove_def ip'_def pp_def Let_def case_prod_beta)
      moreover have "gomap_get m x = None" if "gomap_delete m pp = []" "x \<noteq> pp" for x
        using that gomap_get_delete [of m pp] by (metis fun_upd_apply map_of.simps(1))
      moreover have "(ip', x) \<in> used_ports h \<longleftrightarrow> gomap_get m x = Some ()" for x
        using Some by (simp add: used_ports_def)
      ultimately show ?thesis
        using key by (auto simp: used_ports_set used_ports_delete)
    qed
  qed
qed

text \<open>
  C34: host-port conflicts. A requested port conflicts exactly when a used triple has the same
  protocol and port and either address is the wildcard, or both are the same; a port that is not
  positive never conflicts.
\<close>

theorem CheckConflict_correct:
  assumes "ports_ok h"
  shows "CheckConflict h ip protocol port \<longleftrightarrow>
    (\<exists>(ip1, pp1) \<in> port_key (ip, protocol, port). \<exists>(ip2, pp2) \<in> used_ports h.
      pp1 = pp2 \<and> (ip1 = DefaultBindAllHostIP \<or> ip2 = DefaultBindAllHostIP \<or> ip1 = ip2))"
proof -
  have ex: "list_ex (\<lambda>(_, m). gomap_get m pp \<noteq> None) h \<longleftrightarrow> (\<exists>ip. (ip, pp) \<in> used_ports h)" for pp
    using assms by (fastforce simp: list_ex_iff used_ports_def ports_ok_def gomap_get_in)
  have one: "(case gomap_get h key of None \<Rightarrow> False | Some m \<Rightarrow> gomap_get m pp \<noteq> None) \<longleftrightarrow>
      (key, pp) \<in> used_ports h" for key pp
    by (auto simp: used_ports_def split: option.splits)
  show ?thesis
    unfolding CheckConflict_def port_key_def sanitize_def Let_def ex one
    by (auto simp: one)
qed

theorem CheckConflict_witness:
  "ports_ok (HostPortInfo_Add [] [] 80 []) \<and>
   (CheckConflict (HostPortInfo_Add [] [] 80 []) ''10.0.0.1'' ''TCP'' 80 \<longleftrightarrow>
    (\<exists>(ip1, pp1) \<in> port_key (''10.0.0.1'', ''TCP'', 80). \<exists>(ip2, pp2) \<in> used_ports (HostPortInfo_Add [] [] 80 []).
      pp1 = pp2 \<and> (ip1 = DefaultBindAllHostIP \<or> ip2 = DefaultBindAllHostIP \<or> ip1 = ip2)))"
proof -
  have "ports_ok []" by (simp add: ports_ok_def)
  then have "ports_ok (HostPortInfo_Add [] [] 80 [])" by (rule HostPortInfo_Add_spec)
  then show ?thesis by (intro conjI CheckConflict_correct)
qed

text \<open>
  Adding and removing as operations on an abstract set of keys. Adding a list of items and then
  removing the same list leaves the set without them, so it restores the set exactly when none
  of them was there before.
\<close>

locale tracked_set =
  fixes add :: "'x \<Rightarrow> 's \<Rightarrow> 's" and rem :: "'x \<Rightarrow> 's \<Rightarrow> 's"
    and abst :: "'s \<Rightarrow> 'k set" and inv :: "'s \<Rightarrow> bool" and keys :: "'x \<Rightarrow> 'k set"
  assumes inv_add: "inv s \<Longrightarrow> inv (add x s)" and inv_rem: "inv s \<Longrightarrow> inv (rem x s)"
    and abst_add: "inv s \<Longrightarrow> abst (add x s) = abst s \<union> keys x"
    and abst_rem: "inv s \<Longrightarrow> abst (rem x s) = abst s - keys x"
begin

lemma fold_add: "inv s \<Longrightarrow> inv (fold add xs s) \<and> abst (fold add xs s) = abst s \<union> \<Union> (keys ` set xs)"
  by (induction xs arbitrary: s) (auto simp: inv_add abst_add)

lemma fold_rem: "inv s \<Longrightarrow> inv (fold rem xs s) \<and> abst (fold rem xs s) = abst s - \<Union> (keys ` set xs)"
  by (induction xs arbitrary: s) (auto simp: inv_rem abst_rem)

lemma add_then_rem:
  "inv s \<Longrightarrow> abst (fold rem xs (fold add xs s)) = abst s - \<Union> (keys ` set xs)"
  using fold_add [of s xs] fold_rem [of "fold add xs s" xs] by auto

end

interpretation host_ports: tracked_set "\<lambda>(ip, protocol, port). HostPortInfo_Add ip protocol port"
  "\<lambda>(ip, protocol, port). HostPortInfo_Remove ip protocol port" used_ports ports_ok port_key
  by unfold_locales (auto simp: HostPortInfo_Add_spec HostPortInfo_Remove_spec)

definition pod_ports :: "Pod \<Rightarrow> (string \<times> string \<times> int) list" where
  "pod_ports pod = concat (map (\<lambda>ct. map (\<lambda>p. (cp_HostIP p, cp_Protocol p, cp_HostPort p)) (ct_Ports ct))
     (pod_Containers pod))"

lemma fold_concat_map: "fold f (concat (map g xs)) = fold (\<lambda>x. fold f (g x)) xs"
  by (induction xs) auto

lemma updateUsedPorts_fold:
  "updateUsedPorts pod True h = fold (\<lambda>(ip, protocol, port). HostPortInfo_Add ip protocol port) (pod_ports pod) h"
  "updateUsedPorts pod False h = fold (\<lambda>(ip, protocol, port). HostPortInfo_Remove ip protocol port) (pod_ports pod) h"
  by (simp_all add: updateUsedPorts_def pod_ports_def fold_concat_map fold_map comp_def)

section \<open>Accounting\<close>

lemma swap_remove_mset:
  assumes "i < length s"
  shows "mset (swap_remove i s) = mset s - {# s ! i #}"
proof -
  have "s \<noteq> []" using assms by auto
  then have "mset s = mset (butlast s) + {# last s #}"
    by (metis append_butlast_last_id mset_append mset.simps(1,2))
  moreover have "mset (swap_remove i s) = mset (s[i := last s]) - {# last s #}"
  proof -
    have "s[i := last s] \<noteq> []" "last (s[i := last s]) = last s"
      using \<open>s \<noteq> []\<close> by (auto simp: last_list_update)
    then have "mset (s[i := last s]) = mset (swap_remove i s) + {# last s #}"
      unfolding swap_remove_def by (metis append_butlast_last_id mset_append mset.simps(1,2))
    then show ?thesis by simp
  qed
  moreover have "mset (s[i := last s]) = add_mset (last s) (mset s - {# s ! i #})"
    by (rule mset_update [OF assms])
  ultimately show ?thesis by simp
qed

lemma distinct_map_submset:
  assumes "mset xs \<subseteq># mset ys" and "distinct (map f ys)"
  shows "distinct (map f xs)"
proof -
  obtain zs where "mset ys = mset xs + mset zs" using assms(1) by (metis ex_mset subset_mset.le_iff_add)
  then have "mset (map f ys) = mset (map f (xs @ zs))" by simp
  then have "distinct (map f (xs @ zs))" using assms(2) by (metis mset_eq_imp_distinct_iff)
  then show ?thesis by simp
qed

lemma swap_remove_sum:
  fixes f :: "'a \<Rightarrow> int"
  assumes "i < length s"
  shows "sum_list (map f (swap_remove i s)) = sum_list (map f s) - f (s ! i)"
proof -
  have "s ! i \<in># mset s" using assms by simp
  then have "sum_mset (image_mset f (mset s - {# s ! i #})) = sum_mset (image_mset f (mset s)) - f (s ! i)"
    by (metis add_diff_cancel_left' image_mset_add_mset insert_DiffM sum_mset.add_mset)
  then show ?thesis using swap_remove_mset [OF assms] by (simp add: sum_mset_sum_list [symmetric])
qed

lemma find_key_Some:
  "find_key k ps = Some i \<Longrightarrow> i < length ps \<and> GetPodKey (pi_Pod (ps ! i)) = Inr k"
  by (induction ps arbitrary: i) (auto split: if_splits)

lemma find_key_None: "find_key k ps = None \<longleftrightarrow> (\<forall>p \<in> set ps. GetPodKey (pi_Pod p) \<noteq> Inr k)"
  by (induction ps) auto

lemma find_key_append:
  "find_key k (ps @ qs) = (case find_key k ps of Some i \<Rightarrow> Some i | None \<Rightarrow> map_option (\<lambda>i. length ps + i) (find_key k qs))"
  by (induction ps) (cases "find_key k qs"; auto split: option.splits)+

abbreviation pod_request :: "runtime_env \<Rightarrow> PodInfo \<Rightarrow> Resource" where
  "pod_request env p \<equiv> fst (calculateResource env (pi_Pod p))"

abbreviation pod_nonzero_cpu :: "runtime_env \<Rightarrow> PodInfo \<Rightarrow> int" where
  "pod_nonzero_cpu env p \<equiv> fst (snd (calculateResource env (pi_Pod p)))"

abbreviation pod_nonzero_mem :: "runtime_env \<Rightarrow> PodInfo \<Rightarrow> int" where
  "pod_nonzero_mem env p \<equiv> snd (snd (calculateResource env (pi_Pod p)))"

lemma gomap_ok_Add_step: "gomap_ok (ScalarResources r) \<Longrightarrow> gomap_ok (ScalarResources (Resource_Add_step env kv r))"
  by (auto simp: Resource_Add_step_def AddScalar_def SetScalar_def split: prod.splits)

lemma gomap_ok_Max_step: "gomap_ok (ScalarResources r) \<Longrightarrow> gomap_ok (ScalarResources (SetMaxResource_step env kv r))"
  by (auto simp: SetMaxResource_step_def SetScalar_def split: prod.splits)

lemma gomap_ok_Resource_Add: "gomap_ok (ScalarResources r) \<Longrightarrow> gomap_ok (ScalarResources (Resource_Add env rl r))"
  unfolding Resource_Add_def by (induction rl arbitrary: r) (simp_all add: gomap_ok_Add_step)

lemma gomap_ok_SetMax: "gomap_ok (ScalarResources r) \<Longrightarrow> gomap_ok (ScalarResources (SetMaxResource env rl r))"
  unfolding SetMaxResource_def by (induction rl arbitrary: r) (simp_all add: gomap_ok_Max_step)

lemma fold_invariant: "P s \<Longrightarrow> (\<And>x s. P s \<Longrightarrow> P (f x s)) \<Longrightarrow> P (fold f xs s)"
  by (induction xs arbitrary: s) auto

lemma gomap_ok_request: "gomap_ok (ScalarResources (fst (calculateResource env pod)))"
proof -
  let ?P = "\<lambda>x :: Resource \<times> int \<times> int. gomap_ok (ScalarResources (fst x))"
  have "?P (fold (calc_container env) (pod_Containers pod) (zero_resource, 0, 0))"
    by (rule fold_invariant)
      (auto simp: zero_resource_def calc_container_def gomap_ok_Resource_Add split: prod.splits)
  then have "?P (fold (calc_init env) (pod_InitContainers pod)
      (fold (calc_container env) (pod_Containers pod) (zero_resource, 0, 0)))"
    by (rule fold_invariant) (auto simp: calc_init_def gomap_ok_SetMax split: prod.splits)
  then show ?thesis
    by (auto simp: calculateResource_def gomap_ok_Resource_Add split: prod.splits option.splits)
qed

lemma fold_scalar_get:
  fixes m :: "(string, int) gomap"
  assumes "gomap_ok kvs"
  shows "wrap64 (get_or 0 (fold (\<lambda>(k, v) m. gomap_set m k (wrap64 (get_or 0 m k + sg * v))) kvs m) name) =
    wrap64 (get_or 0 m name + sg * get_or 0 kvs name)"
  using assms
proof (induction kvs arbitrary: m)
  case (Cons kv kvs)
  obtain k v where kv: "kv = (k, v)" by (cases kv)
  have ok: "gomap_ok kvs" "gomap_get kvs k = None"
    using Cons.prems kv by (auto simp: gomap_ok_def map_of_eq_None_iff)
  then have "get_or 0 kvs k = 0" by (simp add: get_or_def)
  then show ?case
    using Cons.IH [OF ok(1), of "gomap_set m k (wrap64 (get_or 0 m k + sg * v))"]
    by (auto simp: kv get_or_def [of 0 "_ # _"] simp flip: get_or_def)
qed simp

text \<open>
  The totals of a node agree with its pod list: every counter is the wrapped sum of the pods'
  requests, and the two affinity slices hold exactly the pods they are meant for.
\<close>

definition totals_ok :: "runtime_env \<Rightarrow> NodeInfo \<Rightarrow> bool" where
  "totals_ok env n \<longleftrightarrow>
     MilliCPU (ni_Requested n) = wrap64 (\<Sum>p \<leftarrow> ni_Pods n. MilliCPU (pod_request env p)) \<and>
     Memory (ni_Requested n) = wrap64 (\<Sum>p \<leftarrow> ni_Pods n. Memory (pod_request env p)) \<and>
     EphemeralStorage (ni_Requested n) = wrap64 (\<Sum>p \<leftarrow> ni_Pods n. EphemeralStorage (pod_request env p)) \<and>
     (\<forall>name. wrap64 (get_or 0 (ScalarResources (ni_Requested n)) name) =
        wrap64 (\<Sum>p \<leftarrow> ni_Pods n. get_or 0 (ScalarResources (pod_request env p)) name)) \<and>
     MilliCPU (ni_NonZeroRequested n) = wrap64 (\<Sum>p \<leftarrow> ni_Pods n. pod_nonzero_cpu env p) \<and>
     Memory (ni_NonZeroRequested n) = wrap64 (\<Sum>p \<leftarrow> ni_Pods n. pod_nonzero_mem env p)"

definition slices_ok :: "NodeInfo \<Rightarrow> bool" where
  "slices_ok n \<longleftrightarrow>
     mset (ni_PodsWithAffinity n) = mset (filter (podWithAffinity \<circ> pi_Pod) (ni_Pods n)) \<and>
     mset (ni_PodsWithRequiredAntiAffinity n) =
       mset (filter (podWithRequiredAntiAffinity \<circ> pi_Pod) (ni_Pods n))"

definition pods_ok :: "NodeInfo \<Rightarrow> bool" where
  "pods_ok n \<longleftrightarrow> distinct (map (pod_UID \<circ> pi_Pod) (ni_Pods n)) \<and> (\<forall>p \<in> set (ni_Pods n). pod_UID (pi_Pod p) \<noteq> [])"

definition node_inv :: "runtime_env \<Rightarrow> NodeInfo \<Rightarrow> bool" where
  "node_inv env n \<longleftrightarrow> totals_ok env n \<and> slices_ok n \<and> pods_ok n \<and> ports_ok (ni_UsedPorts n)"

lemma wrap64_acc:
  "a = wrap64 s \<Longrightarrow> wrap64 (a + x) = wrap64 (s + x)" "a = wrap64 s \<Longrightarrow> wrap64 (a - x) = wrap64 (s - x)"
  by simp_all

lemma wrap64_scalar:
  assumes "wrap64 a = wrap64 (s :: int)"
  shows "wrap64 (a + x) = wrap64 (s + x)"
  using assms by (metis wrap64_add_left)

lemma totals_ok_request:
  assumes t: "totals_ok env n" and ok: "gomap_ok (ScalarResources res)"
    and n': "ni_Requested n' = apply_request sg res (ni_Requested n)"
      "ni_NonZeroRequested n' = apply_nonzero sg c m (ni_NonZeroRequested n)"
    and sums: "\<And>f. (\<Sum>p \<leftarrow> ni_Pods n'. f (calculateResource env (pi_Pod p)) :: int) =
        (\<Sum>p \<leftarrow> ni_Pods n. f (calculateResource env (pi_Pod p))) + sg * f (res, c, m)"
  shows "totals_ok env n'"
proof -
  have acc: "a' = wrap64 s'" if "a' = wrap64 (a + d)" "a = wrap64 s" "s' = s + d" for a a' s s' d
    using that by simp
  have t': "MilliCPU (ni_Requested n) = wrap64 (\<Sum>p \<leftarrow> ni_Pods n. MilliCPU (pod_request env p))"
    "Memory (ni_Requested n) = wrap64 (\<Sum>p \<leftarrow> ni_Pods n. Memory (pod_request env p))"
    "EphemeralStorage (ni_Requested n) = wrap64 (\<Sum>p \<leftarrow> ni_Pods n. EphemeralStorage (pod_request env p))"
    "\<And>name. wrap64 (get_or 0 (ScalarResources (ni_Requested n)) name) =
        wrap64 (\<Sum>p \<leftarrow> ni_Pods n. get_or 0 (ScalarResources (pod_request env p)) name)"
    "MilliCPU (ni_NonZeroRequested n) = wrap64 (\<Sum>p \<leftarrow> ni_Pods n. pod_nonzero_cpu env p)"
    "Memory (ni_NonZeroRequested n) = wrap64 (\<Sum>p \<leftarrow> ni_Pods n. pod_nonzero_mem env p)"
    using t unfolding totals_ok_def by blast+
  have scalar: "wrap64 (get_or 0 (ScalarResources (ni_Requested n')) name) =
      wrap64 (\<Sum>p \<leftarrow> ni_Pods n'. get_or 0 (ScalarResources (pod_request env p)) name)" for name
  proof -
    have "wrap64 (get_or 0 (ScalarResources (ni_Requested n')) name) =
        wrap64 (get_or 0 (ScalarResources (ni_Requested n)) name + sg * get_or 0 (ScalarResources res) name)"
      unfolding n'(1) apply_request_def by (simp add: fold_scalar_get [OF ok])
    also have "\<dots> = wrap64 ((\<Sum>p \<leftarrow> ni_Pods n. get_or 0 (ScalarResources (pod_request env p)) name)
        + sg * get_or 0 (ScalarResources res) name)"
      by (rule wrap64_scalar [OF t'(4)])
    finally show ?thesis using sums [of "\<lambda>x. get_or 0 (ScalarResources (fst x)) name"] by simp
  qed
  show ?thesis
    unfolding totals_ok_def
  proof (intro conjI allI)
    show "MilliCPU (ni_Requested n') = wrap64 (\<Sum>p \<leftarrow> ni_Pods n'. MilliCPU (pod_request env p))"
      by (rule acc [OF _ t'(1) sums [of "\<lambda>x. MilliCPU (fst x)"]]) (simp add: n' apply_request_def)
    show "Memory (ni_Requested n') = wrap64 (\<Sum>p \<leftarrow> ni_Pods n'. Memory (pod_request env p))"
      by (rule acc [OF _ t'(2) sums [of "\<lambda>x. Memory (fst x)"]]) (simp add: n' apply_request_def)
    show "EphemeralStorage (ni_Requested n') = wrap64 (\<Sum>p \<leftarrow> ni_Pods n'. EphemeralStorage (pod_request env p))"
      by (rule acc [OF _ t'(3) sums [of "\<lambda>x. EphemeralStorage (fst x)"]]) (simp add: n' apply_request_def)
    show "MilliCPU (ni_NonZeroRequested n') = wrap64 (\<Sum>p \<leftarrow> ni_Pods n'. pod_nonzero_cpu env p)"
      by (rule acc [OF _ t'(5) sums [of "\<lambda>x. fst (snd x)"]]) (simp add: n' apply_nonzero_def)
    show "Memory (ni_NonZeroRequested n') = wrap64 (\<Sum>p \<leftarrow> ni_Pods n'. pod_nonzero_mem env p)"
      by (rule acc [OF _ t'(6) sums [of "\<lambda>x. snd (snd x)"]]) (simp add: n' apply_nonzero_def)
  qed (rule scalar)
qed

lemma GetPodKey_Inr: "GetPodKey p = Inr k \<longleftrightarrow> k \<noteq> [] \<and> pod_UID p = k"
  by (auto simp: GetPodKey_def)

lemma AddPodInfo_inv:
  assumes "node_inv env n" and "GetPodKey (pi_Pod p) = Inr k" and "find_key k (ni_Pods n) = None"
  shows "node_inv env (snd (AddPodInfo env p (gen, n)))"
proof -
  obtain res c m where r: "calculateResource env (pi_Pod p) = (res, c, m)" by (cases "calculateResource env (pi_Pod p)")
  have ok: "gomap_ok (ScalarResources res)" using gomap_ok_request [of env "pi_Pod p"] r by simp
  have t: "totals_ok env n" and s: "slices_ok n" and u: "pods_ok n" and h: "ports_ok (ni_UsedPorts n)"
    using assms(1) by (simp_all add: node_inv_def)
  define n' where "n' = snd (AddPodInfo env p (gen, n))"
  have "totals_ok env n'"
    by (rule totals_ok_request [OF t ok, where sg = 1 and c = c and m = m])
      (simp_all add: n'_def AddPodInfo_def r)
  moreover have "slices_ok n'" using s by (simp add: slices_ok_def n'_def AddPodInfo_def r)
  moreover have "pods_ok n'" using u assms(2,3)
    by (auto simp: pods_ok_def n'_def AddPodInfo_def r find_key_None GetPodKey_Inr)
  moreover have "ports_ok (ni_UsedPorts n')"
    using host_ports.fold_add [OF h, of "pod_ports (pi_Pod p)"]
    by (simp add: n'_def AddPodInfo_def r updateUsedPorts_fold)
  ultimately show ?thesis by (simp add: node_inv_def n'_def)
qed

lemma removeFromSlice_mset:
  assumes "find_key k s = Some i"
  shows "mset (removeFromSlice s k) = mset s - {# s ! i #}"
  using find_key_Some [OF assms] assms by (simp add: removeFromSlice_def swap_remove_mset)

text \<open>With unique keys, removing by key from a slice of the pods removes the pod itself.\<close>

lemma removeFromSlice_filter:
  assumes "mset s = mset (filter P ps)" and "distinct (map (pod_UID \<circ> pi_Pod) ps)" and "x \<in> set ps" and "P x"
    and "GetPodKey (pi_Pod x) = Inr k"
  shows "mset (removeFromSlice s k) = mset (filter P ps) - {# x #}"
proof -
  have set: "set s = set (filter P ps)" using assms(1) by (metis set_mset_mset)
  have "x \<in> set s" using assms(3,4) set by simp
  then have "find_key k s \<noteq> None" using assms(5) by (auto simp: find_key_None)
  then obtain i where i: "find_key k s = Some i" by blast
  have "s ! i \<in> set ps" using find_key_Some [OF i] set by (metis filter_is_subset nth_mem subsetD)
  moreover have "pod_UID (pi_Pod (s ! i)) = pod_UID (pi_Pod x)"
    using find_key_Some [OF i] assms(5) by (auto simp: GetPodKey_Inr)
  ultimately have "s ! i = x"
    using assms(2,3) inj_onD [of "pod_UID \<circ> pi_Pod" "set ps" "s ! i" x] by (simp add: distinct_map)
  then show ?thesis using removeFromSlice_mset [OF i] assms(1) by simp
qed

lemma filter_remove_mset:
  "x \<in> set ps \<Longrightarrow> mset (filter P ps) - (if P x then {# x #} else {#}) = filter_mset P (mset ps - {# x #})"
  by (simp add: mset_filter)

lemma RemovePod_inv:
  assumes inv: "node_inv env n" and key: "GetPodKey pod = Inr k" and i: "find_key k (ni_Pods n) = Some i"
    and same: "pi_Pod (ni_Pods n ! i) = pod"
  shows "\<exists>n'. RemovePod env pod (gen, n) = Returns (None, nextGeneration gen, n') \<and> node_inv env n'
    \<and> mset (ni_Pods n') = mset (ni_Pods n) - {# ni_Pods n ! i #}"
proof -
  define x where "x = ni_Pods n ! i"
  have x: "x \<in> set (ni_Pods n)" "i < length (ni_Pods n)" using find_key_Some [OF i] by (auto simp: x_def)
  obtain res c m where r: "calculateResource env pod = (res, c, m)" by (cases "calculateResource env pod")
  have ok: "gomap_ok (ScalarResources res)" using gomap_ok_request [of env pod] r by simp
  have t: "totals_ok env n" and s: "slices_ok n" and u: "pods_ok n" and h: "ports_ok (ni_UsedPorts n)"
    using inv by (simp_all add: node_inv_def)
  obtain n' where n': "RemovePod env pod (gen, n) = Returns (None, nextGeneration gen, n')"
    "ni_Pods n' = swap_remove i (ni_Pods n)"
    "ni_Requested n' = apply_request (-1) res (ni_Requested n)"
    "ni_NonZeroRequested n' = apply_nonzero (-1) c m (ni_NonZeroRequested n)"
    "ni_UsedPorts n' = updateUsedPorts pod False (ni_UsedPorts n)"
    "ni_PodsWithAffinity n' = (if podWithAffinity pod then removeFromSlice (ni_PodsWithAffinity n) k
       else ni_PodsWithAffinity n)"
    "ni_PodsWithRequiredAntiAffinity n' = (if podWithRequiredAntiAffinity pod
       then removeFromSlice (ni_PodsWithRequiredAntiAffinity n) k else ni_PodsWithRequiredAntiAffinity n)"
    using i by (simp add: RemovePod_def key r)
  have m': "mset (ni_Pods n') = mset (ni_Pods n) - {# x #}"
    using swap_remove_mset [OF x(2)] by (simp add: n'(2) x_def)
  have "totals_ok env n'"
    by (rule totals_ok_request [OF t ok n'(3,4)])
      (simp add: n'(2) swap_remove_sum [OF x(2)] same r)
  moreover have "slices_ok n'"
  proof -
    have slice: "mset (if P pod then removeFromSlice sl k else sl) = mset (filter (P \<circ> pi_Pod) (ni_Pods n'))"
      if "mset sl = mset (filter (P \<circ> pi_Pod) (ni_Pods n))" for P sl
    proof -
      have "mset (filter (P \<circ> pi_Pod) (ni_Pods n')) = filter_mset (P \<circ> pi_Pod) (mset (ni_Pods n) - {# x #})"
        by (simp only: m' mset_filter)
      also have "\<dots> = mset (filter (P \<circ> pi_Pod) (ni_Pods n)) - (if (P \<circ> pi_Pod) x then {# x #} else {#})"
        by (rule filter_remove_mset [OF x(1), symmetric])
      also have "\<dots> = mset (if P pod then removeFromSlice sl k else sl)"
        using removeFromSlice_filter [OF that _ x(1), of k] u key same
        by (auto simp: pods_ok_def x_def that)
      finally show ?thesis by simp
    qed
    show ?thesis using s slice by (simp add: slices_ok_def n'(6,7))
  qed
  moreover have "pods_ok n'"
  proof -
    have sub: "mset (ni_Pods n') \<subseteq># mset (ni_Pods n)" by (simp add: m')
    have "distinct (map (pod_UID \<circ> pi_Pod) (ni_Pods n'))"
      using u by (intro distinct_map_submset [OF sub]) (simp add: pods_ok_def)
    moreover have "set (ni_Pods n') \<subseteq> set (ni_Pods n)" using set_mset_mono [OF sub] by simp
    ultimately show ?thesis using u by (auto simp: pods_ok_def)
  qed
  moreover have "ports_ok (ni_UsedPorts n')"
    using host_ports.fold_rem [OF h, of "pod_ports pod"] by (simp add: n'(5) updateUsedPorts_fold)
  ultimately show ?thesis using n'(1) m' by (auto simp: node_inv_def x_def)
qed

text \<open>
  The histories of a NodeInfo: it is created, pods with fresh keys are added, pods it holds are
  removed, and its node is set or removed.
\<close>

inductive node_reach :: "runtime_env \<Rightarrow> int \<times> NodeInfo \<Rightarrow> bool" for env where
  new: "node_reach env (NewNodeInfo env gen [])"
| add: "node_reach env (gen, n) \<Longrightarrow> GetPodKey (pi_Pod p) = Inr k \<Longrightarrow> find_key k (ni_Pods n) = None
    \<Longrightarrow> node_reach env (AddPodInfo env p (gen, n))"
| remove: "node_reach env (gen, n) \<Longrightarrow> GetPodKey pod = Inr k \<Longrightarrow> find_key k (ni_Pods n) = Some i
    \<Longrightarrow> pi_Pod (ni_Pods n ! i) = pod \<Longrightarrow> RemovePod env pod (gen, n) = Returns (None, gen', n')
    \<Longrightarrow> node_reach env (gen', n')"
| set_node: "node_reach env gn \<Longrightarrow> node_reach env (SetNode env node gn)"
| remove_node: "node_reach env gn \<Longrightarrow> node_reach env (RemoveNode gn)"

lemma node_inv_fields:
  assumes "ni_Requested n' = ni_Requested n" "ni_NonZeroRequested n' = ni_NonZeroRequested n"
    "ni_Pods n' = ni_Pods n" "ni_PodsWithAffinity n' = ni_PodsWithAffinity n"
    "ni_PodsWithRequiredAntiAffinity n' = ni_PodsWithRequiredAntiAffinity n" "ni_UsedPorts n' = ni_UsedPorts n"
  shows "node_inv env n' = node_inv env n"
  using assms by (simp add: node_inv_def totals_ok_def slices_ok_def pods_ok_def)


definition example_env :: runtime_env where
  "example_env = \<lparr>env_oob = (\<lambda>_. 0), gate_LocalStorageCapacityIsolation = True, gate_PodOverhead = True\<rparr>"

definition example_pod :: "string \<Rightarrow> string \<Rightarrow> Container list \<Rightarrow> Pod" where
  "example_pod name uid cts =
     \<lparr>pod_Name = name, pod_Namespace = ''default'', pod_UID = uid, pod_ResourceVersion = [],
      pod_Generation = 0, pod_Labels = [], pod_Annotations = None, pod_DeletionTimestamp = None,
      pod_SchedulerName = ''kubehice-scheduler'', pod_NodeName = [], pod_Containers = cts,
      pod_InitContainers = [], pod_Overhead = None, pod_Affinity = None, pod_Volumes = [],
      pod_Priority = None, pod_Conditions = [], pod_NominatedNodeName = []\<rparr>"

definition example_container :: "string \<Rightarrow> string \<Rightarrow> int \<Rightarrow> Container" where
  "example_container name img cpu =
     \<lparr>ct_Name = name, ct_Image = img, ct_Requests = [(ResourceCPU, NewMilliQuantity cpu DecimalSI)],
      ct_Limits = [], ct_Ports = [\<lparr>cp_HostIP = [], cp_Protocol = [], cp_HostPort = 80\<rparr>]\<rparr>"


lemma PVC_add_remove_step:
  assumes "0 \<le> get_or 0 m key" and "get_or 0 m key < 9223372036854775807"
    and "key = ns @ ''/'' @ claim"
  shows "get_or 0 (updatePVCRefCounts_step ns False (Some claim)
      (updatePVCRefCounts_step ns True (Some claim) m)) k = get_or 0 m k"
proof -
  have w: "wrap64 (get_or 0 m key + 1) = get_or 0 m key + 1" "wrap64 (get_or 0 m key + 1 - 1) = get_or 0 m key"
    using assms(1,2) by (auto intro: wrap64_id simp: in_int64_def)
  show ?thesis
    using assms w by (auto simp: updatePVCRefCounts_step_def Let_def)
qed

lemma apply_request_undo:
  assumes "in_int64 (MilliCPU r)" "in_int64 (Memory r)" "in_int64 (EphemeralStorage r)"
    and "gomap_ok (ScalarResources res)"
  shows "MilliCPU (apply_request (-1) res (apply_request 1 res r)) = MilliCPU r"
    and "Memory (apply_request (-1) res (apply_request 1 res r)) = Memory r"
    and "EphemeralStorage (apply_request (-1) res (apply_request 1 res r)) = EphemeralStorage r"
    and "wrap64 (get_or 0 (ScalarResources (apply_request (-1) res (apply_request 1 res r))) name) =
      wrap64 (get_or 0 (ScalarResources r) name)"
proof -
  show "MilliCPU (apply_request (-1) res (apply_request 1 res r)) = MilliCPU r"
    "Memory (apply_request (-1) res (apply_request 1 res r)) = Memory r"
    "EphemeralStorage (apply_request (-1) res (apply_request 1 res r)) = EphemeralStorage r"
    using assms by (simp_all add: apply_request_def wrap64_add_diff_cancel wrap64_id)
  define m1 where "m1 = fold (\<lambda>(k, v) m. gomap_set m k (wrap64 (get_or 0 m k + 1 * v))) (ScalarResources res)
    (ScalarResources r)"
  have "wrap64 (get_or 0 m1 name) = wrap64 (get_or 0 (ScalarResources r) name + 1 * get_or 0 (ScalarResources res) name)"
    unfolding m1_def by (rule fold_scalar_get [OF assms(4)])
  then have "wrap64 (get_or 0 m1 name + - 1 * get_or 0 (ScalarResources res) name) =
      wrap64 (get_or 0 (ScalarResources r) name + 1 * get_or 0 (ScalarResources res) name
        + - 1 * get_or 0 (ScalarResources res) name)"
    by (rule wrap64_scalar)
  then show "wrap64 (get_or 0 (ScalarResources (apply_request (-1) res (apply_request 1 res r))) name) =
      wrap64 (get_or 0 (ScalarResources r) name)"
    using fold_scalar_get [OF assms(4), of "-1" m1 name] by (simp add: apply_request_def m1_def)
qed

text \<open>
  C31: removing a pod undoes adding it: the pod list is the same list, every counter of the
  requested resources has its old value, and the used ports are the old ones without the pod's
  own. So a port that another pod of the node had already taken is released with this pod.
\<close>

theorem AddPod_RemovePod:
  assumes "GetPodKey pod = Inr k" and "find_key k (ni_Pods n) = None" and "ports_ok (ni_UsedPorts n)"
    and "in_int64 (MilliCPU (ni_Requested n))" and "in_int64 (Memory (ni_Requested n))"
    and "in_int64 (EphemeralStorage (ni_Requested n))"
  shows "\<exists>g' n'. RemovePod env pod (AddPod env pod (gen, n)) = Returns (None, g', n')
    \<and> ni_Pods n' = ni_Pods n
    \<and> MilliCPU (ni_Requested n') = MilliCPU (ni_Requested n)
    \<and> Memory (ni_Requested n') = Memory (ni_Requested n)
    \<and> EphemeralStorage (ni_Requested n') = EphemeralStorage (ni_Requested n)
    \<and> (\<forall>name. wrap64 (get_or 0 (ScalarResources (ni_Requested n')) name) =
         wrap64 (get_or 0 (ScalarResources (ni_Requested n)) name))
    \<and> used_ports (ni_UsedPorts n') = used_ports (ni_UsedPorts n) - \<Union> (port_key ` set (pod_ports pod))"
proof -
  obtain res c m where r: "calculateResource env pod = (res, c, m)" by (cases "calculateResource env pod")
  have ok: "gomap_ok (ScalarResources res)" using gomap_ok_request [of env pod] r by simp
  have fk: "find_key k (ni_Pods n @ [NewPodInfo pod]) = Some (length (ni_Pods n))"
    using assms(1,2) by (simp add: find_key_append NewPodInfo_def)
  have sw: "swap_remove (length (ni_Pods n)) (ni_Pods n @ [NewPodInfo pod]) = ni_Pods n"
    by (simp add: swap_remove_def)
  have "\<exists>g' n'. RemovePod env pod (AddPod env pod (gen, n)) = Returns (None, g', n')
      \<and> ni_Pods n' = ni_Pods n
      \<and> ni_Requested n' = apply_request (-1) res (apply_request 1 res (ni_Requested n))
      \<and> ni_UsedPorts n' = updateUsedPorts pod False (updateUsedPorts pod True (ni_UsedPorts n))"
    using fk sw by (simp add: RemovePod_def AddPod_def AddPodInfo_def NewPodInfo_def assms(1) r)
  then obtain g' n' where n': "RemovePod env pod (AddPod env pod (gen, n)) = Returns (None, g', n')"
    "ni_Pods n' = ni_Pods n" "ni_Requested n' = apply_request (-1) res (apply_request 1 res (ni_Requested n))"
    "ni_UsedPorts n' = updateUsedPorts pod False (updateUsedPorts pod True (ni_UsedPorts n))"
    by blast
  have "used_ports (ni_UsedPorts n') = used_ports (ni_UsedPorts n) - \<Union> (port_key ` set (pod_ports pod))"
    unfolding n'(4) updateUsedPorts_fold by (rule host_ports.add_then_rem [OF assms(3)])
  then show ?thesis
    using n' apply_request_undo [OF assms(4-6) ok] by auto
qed

theorem AddPod_RemovePod_witness:
  "\<exists>g' n'. RemovePod example_env (example_pod ''p'' ''u'' [example_container ''c'' ''i'' 500])
      (AddPod example_env (example_pod ''p'' ''u'' [example_container ''c'' ''i'' 500])
        (0, snd (NewNodeInfo example_env 0 []))) = Returns (None, g', n')
    \<and> ni_Pods n' = ni_Pods (snd (NewNodeInfo example_env 0 []))
    \<and> MilliCPU (ni_Requested n') = MilliCPU (ni_Requested (snd (NewNodeInfo example_env 0 [])))
    \<and> Memory (ni_Requested n') = Memory (ni_Requested (snd (NewNodeInfo example_env 0 [])))
    \<and> EphemeralStorage (ni_Requested n') = EphemeralStorage (ni_Requested (snd (NewNodeInfo example_env 0 [])))
    \<and> (\<forall>name. wrap64 (get_or 0 (ScalarResources (ni_Requested n')) name) =
         wrap64 (get_or 0 (ScalarResources (ni_Requested (snd (NewNodeInfo example_env 0 [])))) name))
    \<and> used_ports (ni_UsedPorts n') = used_ports (ni_UsedPorts (snd (NewNodeInfo example_env 0 [])))
        - \<Union> (port_key ` set (pod_ports (example_pod ''p'' ''u'' [example_container ''c'' ''i'' 500])))"
  by (rule AddPod_RemovePod [where k = "''u''"])
    (simp_all add: GetPodKey_def example_pod_def NewNodeInfo_def ports_ok_def zero_resource_def in_int64_def)

lemma Resource_Add_step_fields:
  "MilliCPU (Resource_Add_step env (k, q) r) =
     (if k = ResourceCPU then wrap64 (MilliCPU r + MilliValue (env_oob env) q) else MilliCPU r)"
  "Memory (Resource_Add_step env (k, q) r) =
     (if k = ResourceMemory then wrap64 (Memory r + Value (env_oob env) q) else Memory r)"
  "AllowedPodNumber (Resource_Add_step env (k, q) r) =
     (if k = ResourcePods then wrap64 (AllowedPodNumber r + Value (env_oob env) q) else AllowedPodNumber r)"
  "EphemeralStorage (Resource_Add_step env (k, q) r) =
     (if k = ResourceEphemeralStorage \<and> gate_LocalStorageCapacityIsolation env
      then wrap64 (EphemeralStorage r + Value (env_oob env) q) else EphemeralStorage r)"
  "get_or 0 (ScalarResources (Resource_Add_step env (k, q) r)) name =
     (if k = name \<and> IsScalarResourceName k then wrap64 (get_or 0 (ScalarResources r) name + Value (env_oob env) q)
      else get_or 0 (ScalarResources r) name)"
  using standard_resources_not_scalar
  by (auto simp: Resource_Add_step_def AddScalar_def SetScalar_def)

text \<open>A counter that one key of the list updates, and no other, depends on that key's value only.\<close>

lemma fold_single_key:
  assumes step: "\<And>k v s. c (f (k, v) s) = (if k = key then upd v (c s) else c s)" and "gomap_ok kvs"
  shows "c (fold f kvs s) = (case gomap_get kvs key of None \<Rightarrow> c s | Some v \<Rightarrow> upd v (c s))"
  using assms(2)
proof (induction kvs arbitrary: s)
  case (Cons kv kvs)
  obtain k v where kv: "kv = (k, v)" by (cases kv)
  have ok: "gomap_ok kvs" "gomap_get kvs k = None"
    using Cons.prems kv by (auto simp: gomap_ok_def map_of_eq_None_iff)
  show ?case using Cons.IH [OF ok(1), of "f kv s"] ok(2) by (auto simp: kv step split: option.splits)
qed simp

text \<open>
  The requests of a resource list do not depend on the order in which the range loop visits
  it: any two orders of the same entries give the same counters.
\<close>

theorem Resource_Add_order:
  assumes "mset rl1 = mset rl2" and "gomap_ok rl1"
  shows "MilliCPU (Resource_Add env rl1 r) = MilliCPU (Resource_Add env rl2 r)
    \<and> Memory (Resource_Add env rl1 r) = Memory (Resource_Add env rl2 r)
    \<and> EphemeralStorage (Resource_Add env rl1 r) = EphemeralStorage (Resource_Add env rl2 r)
    \<and> AllowedPodNumber (Resource_Add env rl1 r) = AllowedPodNumber (Resource_Add env rl2 r)
    \<and> (\<forall>name. get_or 0 (ScalarResources (Resource_Add env rl1 r)) name =
        get_or 0 (ScalarResources (Resource_Add env rl2 r)) name)"
proof -
  have ok2: "gomap_ok rl2"
    using assms by (metis gomap_ok_def mset_map mset_eq_imp_distinct_iff)
  have get: "gomap_get rl1 = gomap_get rl2"
  proof (rule map_of_inject_set [THEN iffD2])
    show "distinct (map fst rl1)" "distinct (map fst rl2)" using assms(2) ok2 by (simp_all add: gomap_ok_def)
    show "set rl1 = set rl2" using assms(1) by (rule mset_eq_setD)
  qed
  note single = fold_single_key [where f = "Resource_Add_step env" and s = r, OF _ assms(2)]
    fold_single_key [where f = "Resource_Add_step env" and s = r, OF _ ok2]
  show ?thesis
    unfolding Resource_Add_def
  proof (intro conjI allI)
    show "MilliCPU (fold (Resource_Add_step env) rl1 r) = MilliCPU (fold (Resource_Add_step env) rl2 r)"
      by (simp add: single [where c = MilliCPU, OF Resource_Add_step_fields(1)] get)
    show "Memory (fold (Resource_Add_step env) rl1 r) = Memory (fold (Resource_Add_step env) rl2 r)"
      by (simp add: single [where c = Memory, OF Resource_Add_step_fields(2)] get)
    show "AllowedPodNumber (fold (Resource_Add_step env) rl1 r) = AllowedPodNumber (fold (Resource_Add_step env) rl2 r)"
      by (simp add: single [where c = AllowedPodNumber, OF Resource_Add_step_fields(3)] get)
    show "EphemeralStorage (fold (Resource_Add_step env) rl1 r) = EphemeralStorage (fold (Resource_Add_step env) rl2 r)"
      using single [where c = EphemeralStorage and key = ResourceEphemeralStorage and
          upd = "\<lambda>q e. if gate_LocalStorageCapacityIsolation env then wrap64 (e + Value (env_oob env) q) else e"]
      by (simp add: Resource_Add_step_fields get)
    show "get_or 0 (ScalarResources (fold (Resource_Add_step env) rl1 r)) name =
        get_or 0 (ScalarResources (fold (Resource_Add_step env) rl2 r)) name" for name
      using single [where c = "\<lambda>r. get_or 0 (ScalarResources r) name" and key = name and
          upd = "\<lambda>q e. if IsScalarResourceName name then wrap64 (e + Value (env_oob env) q) else e"]
      by (simp add: Resource_Add_step_fields get)
  qed
qed

theorem Resource_Add_order_witness:
  "MilliCPU (Resource_Add example_env [(ResourceCPU, NewMilliQuantity 5 DecimalSI), (ResourceMemory, NewQuantity 7 BinarySI)] zero_resource)
     = MilliCPU (Resource_Add example_env [(ResourceMemory, NewQuantity 7 BinarySI), (ResourceCPU, NewMilliQuantity 5 DecimalSI)] zero_resource)"
  using Resource_Add_order [of "[(ResourceCPU, NewMilliQuantity 5 DecimalSI), (ResourceMemory, NewQuantity 7 BinarySI)]"
      "[(ResourceMemory, NewQuantity 7 BinarySI), (ResourceCPU, NewMilliQuantity 5 DecimalSI)]" example_env zero_resource]
  by (simp add: gomap_ok_def)

end
