(* ===== verification/Hicev1.thy ===== *)
theory Hicev1
  imports Framework_Status Node_Info
begin

text \<open>
  The multi-architecture image plugin (pkg/scheduler/framework/plugins/hicev1/hice.go): it reads
  the image table from etcd in PreFilter, keeps only nodes whose architecture every container
  has an image for, and at Bind rewrites the stored pod to the images of the node's
  architecture. etcd is a key-value map whose calls can fail; the JSON and protobuf codecs are
  parameters.
\<close>

section \<open>Environment\<close>

record ImageInf =
  im_Name :: string
  im_Arch :: string
  im_Os :: string

record Images =
  ims_Name :: string
  ims_ImageInfs :: "ImageInf list"

text \<open>
  The codecs the plugin calls. None is a decoding error; decoding a pod gives None when the
  bytes do not decode to a pod object.
\<close>

record codecs =
  cd_images :: "string \<Rightarrow> Images list option"
  cd_unavailable :: "string \<Rightarrow> string list option"
  cd_unavailable_enc :: "string list \<Rightarrow> string"
  cd_pod :: "string \<Rightarrow> Pod option"
  cd_pod_enc :: "Pod \<Rightarrow> string"

type_synonym etcd = "(string, string) gomap"

text \<open>Which etcd calls fail, with the error they return: dialling, and a Get or Put of a key.\<close>

record etcd_faults =
  ef_dial :: "string option"
  ef_get :: "string \<Rightarrow> string option"
  ef_put :: "string \<Rightarrow> string option"

definition etcd_get :: "etcd_faults \<Rightarrow> etcd \<Rightarrow> string \<Rightarrow> string + string list" where
  "etcd_get ef db key =
     (case ef_get ef key of Some err \<Rightarrow> Inl err
      | None \<Rightarrow> Inr (case gomap_get db key of Some v \<Rightarrow> [v] | None \<Rightarrow> []))"

definition etcd_put :: "etcd_faults \<Rightarrow> etcd \<Rightarrow> string \<Rightarrow> string \<Rightarrow> string option \<times> etcd" where
  "etcd_put ef db key v =
     (case ef_put ef key of Some err \<Rightarrow> (Some err, db) | None \<Rightarrow> (None, gomap_set db key v))"

datatype hice_data = PreFilterState "string list" | ImageState string | OtherData string

type_synonym hice_state = "hice_data CycleState"

abbreviation preFilterStateKey :: string where "preFilterStateKey \<equiv> ''PreFilterHicev1''"
abbreviation imageStateKey :: string where "imageStateKey \<equiv> ''images''"
abbreviation ErrReasonArch :: string where
  "ErrReasonArch \<equiv> ''node(s)'' @ [CHR 0x27] @ ''s arch isn'' @ [CHR 0x27] @ ''t included in pods arches''"

section \<open>Images and architectures\<close>

definition GetMultiArchImages :: "codecs \<Rightarrow> string \<Rightarrow> string \<Rightarrow> ImageInf list" where
  "GetMultiArchImages cd imageName imagedata =
     (case cd_images cd imagedata of None \<Rightarrow> []
      | Some lst \<Rightarrow> (case find (\<lambda>item. imageName = ims_Name item) lst of
            Some item \<Rightarrow> ims_ImageInfs item | None \<Rightarrow> []))"

definition arch_map :: "ImageInf list \<Rightarrow> (string, string) gomap" where
  "arch_map items = fold (\<lambda>item m. gomap_set m (im_Arch item) (im_Arch item)) items []"

definition arch_meet :: "(string, string) gomap \<Rightarrow> ImageInf list \<Rightarrow> (string, string) gomap" where
  "arch_meet available items =
     fold (\<lambda>item temp. if gomap_get available (im_Arch item) \<noteq> None
             then gomap_set temp (im_Arch item) (im_Arch item) else temp) items []"

text \<open>Indexing the first container panics when there is none.\<close>

definition PodAvailableArch :: "codecs \<Rightarrow> Pod \<Rightarrow> string \<Rightarrow> string list go_run" where
  "PodAvailableArch cd pod imagedata =
     (case pod_Containers pod of [] \<Rightarrow> Panics ''index out of range''
      | c # cs \<Rightarrow>
          Returns (map snd (fold (\<lambda>ct available. arch_meet available (GetMultiArchImages cd (ct_Image ct) imagedata)) cs
            (arch_map (GetMultiArchImages cd (ct_Image c) imagedata)))))"

definition GetUnAvailableImages :: "codecs \<Rightarrow> Pod \<Rightarrow> string \<Rightarrow> string list" where
  "GetUnAvailableImages cd pod data =
     map ct_Image (filter (\<lambda>c. GetMultiArchImages cd (ct_Image c) data = []) (pod_Containers pod))"

definition add_missing :: "string list \<Rightarrow> string list \<Rightarrow> string list \<times> bool" where
  "add_missing images existed =
     fold (\<lambda>image1 (ex, upgradeAble). if image1 \<in> set ex then (ex, upgradeAble) else (ex @ [image1], True))
       images (existed, False)"

definition UpdateUnAvailableImageData :: "codecs \<Rightarrow> string \<Rightarrow> string list \<Rightarrow> string go_run" where
  "UpdateUnAvailableImageData cd old images =
     (if images = [] then Returns old
      else if old = [] then Returns (cd_unavailable_enc cd images)
      else case cd_unavailable cd old of None \<Rightarrow> Panics ''cannot unmarshal unavailable images''
           | Some existed \<Rightarrow>
               (case add_missing images existed of (ex, upgradeAble) \<Rightarrow>
                  Returns (if upgradeAble then cd_unavailable_enc cd ex else old)))"

section \<open>PreFilter\<close>

text \<open>
  The status, the cycle state and the store afterwards. A nil response of a failed second read
  is dereferenced, which panics; the status built for an unknown image is dropped by the code.
\<close>

definition record_unavailable :: "codecs \<Rightarrow> etcd_faults \<Rightarrow> etcd \<Rightarrow> string list \<Rightarrow> etcd go_run" where
  "record_unavailable cd ef db images =
     (if images = [] then Returns db
      else case etcd_get ef db ''kubehice/unavailableimages'' of
             Inl _ \<Rightarrow> Panics ''nil pointer dereference''
           | Inr kvs \<Rightarrow>
               (case UpdateUnAvailableImageData cd (case kvs of [] \<Rightarrow> [] | v # _ \<Rightarrow> v) images of
                  Panics e \<Rightarrow> Panics e
                | Returns data' \<Rightarrow> Returns (snd (etcd_put ef db ''kubehice/unavailableimages'' data'))))"

definition PreFilter :: "codecs \<Rightarrow> etcd_faults \<Rightarrow> Pod \<Rightarrow> hice_state \<Rightarrow> etcd
    \<Rightarrow> (Status option \<times> hice_state \<times> etcd) go_run" where
  "PreFilter cd ef pod cs db =
     (case ef_dial ef of Some _ \<Rightarrow> Returns (None, cs, db)
      | None \<Rightarrow>
        (case etcd_get ef db ''kubehice/images'' of Inl err \<Rightarrow> Returns (Some (NewStatus Error [err]), cs, db)
         | Inr [] \<Rightarrow> Panics ''index out of range''
         | Inr (data # _) \<Rightarrow>
           (case record_unavailable cd ef db (GetUnAvailableImages cd pod data) of Panics e \<Rightarrow> Panics e
            | Returns db' \<Rightarrow>
              (case PodAvailableArch cd pod data of Panics e \<Rightarrow> Panics e
               | Returns s \<Rightarrow>
                   Returns (None,
                     CycleState_Write (CycleState_Write cs preFilterStateKey (PreFilterState s))
                       imageStateKey (ImageState data), db')))))"

section \<open>Filter\<close>

definition getPreFilterState :: "hice_state \<Rightarrow> string + string list" where
  "getPreFilterState cs =
     (case CycleState_Read cs preFilterStateKey of
        Inl err \<Rightarrow> Inl (''error reading '' @ [CHR 0x22] @ preFilterStateKey @ [CHR 0x22] @ '' from cycleState: '' @ err)
      | Inr (PreFilterState s) \<Rightarrow> Inr s
      | Inr _ \<Rightarrow> Inl ''convert to hicev1.preFilterState error'')"

definition getImageState :: "hice_state \<Rightarrow> string + string" where
  "getImageState cs =
     (case CycleState_Read cs imageStateKey of
        Inl err \<Rightarrow> Inl (''error reading '' @ [CHR 0x22] @ preFilterStateKey @ [CHR 0x22] @ '' from cycleState: '' @ err)
      | Inr (ImageState s) \<Rightarrow> Inr s
      | Inr _ \<Rightarrow> Inl ''convert to hice.imageState error'')"

definition fitsArches :: "string list \<Rightarrow> NodeInfo \<Rightarrow> bool go_run" where
  "fitsArches availableArches nodeInfo =
     (case ni_node nodeInfo of None \<Rightarrow> Panics ''nil pointer dereference''
      | Some node \<Rightarrow> Returns (get_or [] (node_Labels node) ''kubernetes.io/arch'' \<in> set availableArches))"

definition Filter :: "hice_state \<Rightarrow> NodeInfo \<Rightarrow> Status option go_run" where
  "Filter cs nodeInfo =
     (case getPreFilterState cs of Inl err \<Rightarrow> Returns (Some (NewStatus Error [err]))
      | Inr availableArches \<Rightarrow>
        (case fitsArches availableArches nodeInfo of Panics e \<Rightarrow> Panics e
         | Returns fits \<Rightarrow> Returns (if fits then None else Some (NewStatus Unschedulable [ErrReasonArch]))))"

section \<open>Bind\<close>

definition convert_image :: "codecs \<Rightarrow> string \<Rightarrow> string \<Rightarrow> Container \<Rightarrow> Container" where
  "convert_image cd arch imagedata ct =
     (case find (\<lambda>im. arch = im_Arch im) (GetMultiArchImages cd (ct_Image ct) imagedata) of
        Some im \<Rightarrow> ct\<lparr>ct_Image := im_Name im\<rparr> | None \<Rightarrow> ct)"

definition ConvertPodImages :: "codecs \<Rightarrow> string \<Rightarrow> string \<Rightarrow> Pod \<Rightarrow> Pod" where
  "ConvertPodImages cd arch imagedata p = p\<lparr>pod_Containers := map (convert_image cd arch imagedata) (pod_Containers p)\<rparr>"

definition pod_etcd_key :: "Pod \<Rightarrow> string" where
  "pod_etcd_key p = ''/registry/pods/'' @ pod_Namespace p @ ''/'' @ pod_Name p"

text \<open>The stored pod after the change: images by container name, the node, a scheduled condition.\<close>

definition patch_images :: "Pod \<Rightarrow> Pod \<Rightarrow> Pod" where
  "patch_images p etcdPod =
     etcdPod\<lparr>pod_Containers :=
         map (\<lambda>ct. case find (\<lambda>pct. ct_Name ct = ct_Name pct) (pod_Containers p) of
                Some pct \<Rightarrow> ct\<lparr>ct_Image := ct_Image pct\<rparr> | None \<Rightarrow> ct) (pod_Containers etcdPod),
       pod_NodeName := pod_NodeName p,
       pod_Conditions := pod_Conditions etcdPod @ [(''PodScheduled'', ''True'')]\<rparr>"

definition change_pod :: "(Pod \<Rightarrow> Pod \<Rightarrow> Pod) \<Rightarrow> codecs \<Rightarrow> etcd_faults \<Rightarrow> Pod \<Rightarrow> etcd \<Rightarrow> (string option \<times> etcd) go_run" where
  "change_pod patch cd ef p db =
     (let key = pod_etcd_key p in
      case etcd_get ef db key of Inl err \<Rightarrow> Returns (Some err, db)
      | Inr [] \<Rightarrow> Panics ''index out of range''
      | Inr (v # _) \<Rightarrow>
        (case cd_pod cd v of None \<Rightarrow> Panics ''interface conversion''
         | Some etcdPod \<Rightarrow> Returns (etcd_put ef db key (cd_pod_enc cd (patch p etcdPod)))))"

definition changePodInEtcd :: "codecs \<Rightarrow> etcd_faults \<Rightarrow> Pod \<Rightarrow> etcd \<Rightarrow> (string option \<times> etcd) go_run" where
  "changePodInEtcd = change_pod patch_images"

text \<open>
  \<^verbatim>\<open>Bind\<close> with the snapshot's node lookup as a parameter. A missing image state is ignored: the
  images then decode from empty data.
\<close>

definition Bind :: "codecs \<Rightarrow> etcd_faults \<Rightarrow> (string \<Rightarrow> string + NodeInfo) \<Rightarrow> hice_state \<Rightarrow> Pod \<Rightarrow> string \<Rightarrow> etcd
    \<Rightarrow> (Status option \<times> etcd) go_run" where
  "Bind cd ef nodeInfos state p nodeName db =
     (case nodeInfos nodeName of Inl err \<Rightarrow> Returns (Some (NewStatus Error [err]), db)
      | Inr nodeInfo \<Rightarrow>
        (case ni_node nodeInfo of None \<Rightarrow> Panics ''nil pointer dereference''
         | Some node \<Rightarrow>
           (let imageData = (case getImageState state of Inl _ \<Rightarrow> [] | Inr d \<Rightarrow> d);
                tempPod = ConvertPodImages cd (get_or [] (node_Labels node) ''kubernetes.io/arch'') imageData p
            in case ef_dial ef of Some err \<Rightarrow> Returns (Some (NewStatus Error [err]), db)
               | None \<Rightarrow>
                 (case changePodInEtcd cd ef tempPod db of Panics e \<Rightarrow> Panics e
                  | Returns (Some err, db') \<Rightarrow> Returns (Some (NewStatus Error [err]), db')
                  | Returns (None, db') \<Rightarrow> Returns (None, db')))))"

section \<open>Available architectures\<close>

definition arches :: "codecs \<Rightarrow> string \<Rightarrow> string \<Rightarrow> string set" where
  "arches cd imagedata img = im_Arch ` set (GetMultiArchImages cd img imagedata)"

definition self_map :: "(string, string) gomap \<Rightarrow> bool" where
  "self_map m \<longleftrightarrow> gomap_ok m \<and> (\<forall>(k, v) \<in> set m. v = k)"

lemma self_map_set: "self_map m \<Longrightarrow> self_map (gomap_set m k k)"
  using gomap_set_subset [of m k k] by (auto simp: self_map_def)

lemma self_map_snd: "self_map m \<Longrightarrow> snd ` set m = fst ` set m"
  by (force simp: self_map_def image_iff)

lemma self_map_get: "self_map m \<Longrightarrow> gomap_get m k \<noteq> None \<longleftrightarrow> k \<in> fst ` set m"
  by (simp add: map_of_eq_None_iff)

lemma arch_map_spec: "self_map (arch_map items) \<and> fst ` set (arch_map items) = im_Arch ` set items"
proof -
  have "self_map m \<Longrightarrow> self_map (fold (\<lambda>item m. gomap_set m (im_Arch item) (im_Arch item)) items m)
      \<and> fst ` set (fold (\<lambda>item m. gomap_set m (im_Arch item) (im_Arch item)) items m) =
        fst ` set m \<union> im_Arch ` set items" for m
    by (induction items arbitrary: m) (auto simp: self_map_set gomap_keys_set)
  from this [of "[]"] show ?thesis by (simp add: arch_map_def self_map_def)
qed

lemma arch_meet_spec:
  assumes "self_map available"
  shows "self_map (arch_meet available items) \<and>
    fst ` set (arch_meet available items) = fst ` set available \<inter> im_Arch ` set items"
proof -
  have "self_map m \<Longrightarrow> self_map (fold (\<lambda>item temp. if gomap_get available (im_Arch item) \<noteq> None
             then gomap_set temp (im_Arch item) (im_Arch item) else temp) items m)
      \<and> fst ` set (fold (\<lambda>item temp. if gomap_get available (im_Arch item) \<noteq> None
             then gomap_set temp (im_Arch item) (im_Arch item) else temp) items m) =
        fst ` set m \<union> (fst ` set available \<inter> im_Arch ` set items)" for m
    by (induction items arbitrary: m)
      (auto simp: self_map_set gomap_keys_set map_of_eq_None_iff simp del: not_None_eq)
  from this [of "[]"] show ?thesis by (simp add: arch_meet_def self_map_def)
qed

lemma PodAvailableArch_set:
  assumes "pod_Containers pod \<noteq> []"
  shows "\<exists>s. PodAvailableArch cd pod data = Returns s \<and>
    set s = (\<Inter>ct \<in> set (pod_Containers pod). arches cd data (ct_Image ct))"
proof -
  obtain c cs where c: "pod_Containers pod = c # cs" using assms by (cases "pod_Containers pod") auto
  have meet: "self_map m \<Longrightarrow>
      self_map (fold (\<lambda>ct available. arch_meet available (GetMultiArchImages cd (ct_Image ct) data)) cs m) \<and>
      fst ` set (fold (\<lambda>ct available. arch_meet available (GetMultiArchImages cd (ct_Image ct) data)) cs m) =
        fst ` set m \<inter> (\<Inter>ct \<in> set cs. arches cd data (ct_Image ct))" for m
    by (induction cs arbitrary: m) (auto simp: arch_meet_spec arches_def)
  show ?thesis
    using meet [OF conjunct1 [OF arch_map_spec]] arch_map_spec [of "GetMultiArchImages cd (ct_Image c) data"]
    by (auto simp: PodAvailableArch_def c self_map_snd arches_def)
qed

text \<open>
  The architectures kept for a pod are exactly those for which every container of the pod
  has an image; a pod without containers makes the plugin panic.
\<close>

theorem PodAvailableArch_correct:
  "case PodAvailableArch cd pod data of
     Returns s \<Rightarrow> pod_Containers pod \<noteq> [] \<and> set s = (\<Inter>ct \<in> set (pod_Containers pod). arches cd data (ct_Image ct))
   | Panics _ \<Rightarrow> pod_Containers pod = []"
proof (cases "pod_Containers pod")
  case Nil
  then show ?thesis by (simp add: PodAvailableArch_def)
next
  case (Cons c cs)
  then show ?thesis using PodAvailableArch_set [of pod cd data] by auto
qed

section \<open>From PreFilter through Filter to Bind\<close>

lemma PreFilter_writes:
  assumes "PreFilter cd ef pod cs db = Returns (None, cs', db')" and "ef_dial ef = None"
  shows "\<exists>data s. getImageState cs' = Inr data \<and> getPreFilterState cs' = Inr s
    \<and> PodAvailableArch cd pod data = Returns s \<and> gomap_get db ''kubehice/images'' = Some data"
proof -
  obtain data kvs s where d: "etcd_get ef db ''kubehice/images'' = Inr (data # kvs)"
    "PodAvailableArch cd pod data = Returns s"
    "cs' = CycleState_Write (CycleState_Write cs preFilterStateKey (PreFilterState s)) imageStateKey (ImageState data)"
    using assms
    by (auto simp: PreFilter_def split: sum.splits list.splits go_run.splits)
  have "gomap_get db ''kubehice/images'' = Some data"
    using d(1) by (auto simp: etcd_get_def split: option.splits)
  moreover have "getImageState cs' = Inr data" "getPreFilterState cs' = Inr s"
    using cycle.write_two [of preFilterStateKey imageStateKey cs "PreFilterState s" "ImageState data"]
    by (simp_all add: getImageState_def getPreFilterState_def d(3))
  ultimately show ?thesis using d(2) by blast
qed

lemma convert_image_available:
  assumes "a \<in> arches cd data (ct_Image ct)"
  shows "\<exists>im \<in> set (GetMultiArchImages cd (ct_Image ct) data).
    im_Arch im = a \<and> convert_image cd a data ct = ct\<lparr>ct_Image := im_Name im\<rparr>"
proof -
  have "find (\<lambda>im. a = im_Arch im) (GetMultiArchImages cd (ct_Image ct) data) \<noteq> None"
    using assms by (auto simp: find_None_iff arches_def)
  then obtain im where im: "find (\<lambda>im. a = im_Arch im) (GetMultiArchImages cd (ct_Image ct) data) = Some im" by blast
  then have "im \<in> set (GetMultiArchImages cd (ct_Image ct) data)" "im_Arch im = a"
    by (auto simp: find_Some_iff)
  then show ?thesis using im by (auto simp: convert_image_def)
qed

lemma accepted_images:
  assumes "PreFilter cd ef pod cs db = Returns (None, cs', db')" and "ef_dial ef = None"
    and "ni_node ni = Some node" and "getImageState cs' = Inr data"
  shows "(Filter cs' ni = Returns None \<longleftrightarrow>
       (\<forall>ct \<in> set (pod_Containers pod). get_or [] (node_Labels node) ''kubernetes.io/arch'' \<in> arches cd data (ct_Image ct)))
    \<and> (Filter cs' ni = Returns None \<longrightarrow>
       (\<forall>(ct, ct') \<in> set (zip (pod_Containers pod)
           (pod_Containers (ConvertPodImages cd (get_or [] (node_Labels node) ''kubernetes.io/arch'') data pod))).
         \<exists>im \<in> set (GetMultiArchImages cd (ct_Image ct) data).
           im_Arch im = get_or [] (node_Labels node) ''kubernetes.io/arch'' \<and> ct' = ct\<lparr>ct_Image := im_Name im\<rparr>))"
proof -
  define a where "a = get_or [] (node_Labels node) ''kubernetes.io/arch''"
  obtain s where s: "getPreFilterState cs' = Inr s" "PodAvailableArch cd pod data = Returns s"
    using PreFilter_writes [OF assms(1,2)] assms(4) by auto
  have set: "set s = (\<Inter>ct \<in> set (pod_Containers pod). arches cd data (ct_Image ct))"
    using PodAvailableArch_set [of pod cd data] s(2) by (cases "pod_Containers pod") (auto simp: PodAvailableArch_def)
  have filt: "Filter cs' ni = Returns None \<longleftrightarrow> (\<forall>ct \<in> set (pod_Containers pod). a \<in> arches cd data (ct_Image ct))"
    using s(1) set assms(3) by (auto simp: Filter_def fitsArches_def a_def)
  moreover have "\<forall>(ct, ct') \<in> set (zip (pod_Containers pod) (pod_Containers (ConvertPodImages cd a data pod))).
      \<exists>im \<in> set (GetMultiArchImages cd (ct_Image ct) data). im_Arch im = a \<and> ct' = ct\<lparr>ct_Image := im_Name im\<rparr>"
    if "Filter cs' ni = Returns None"
    using filt that convert_image_available
    by (fastforce simp: ConvertPodImages_def zip_map2 set_zip in_set_conv_nth)
  ultimately show ?thesis unfolding a_def by blast
qed

text \<open>
  C3: the contract of the plugin. After PreFilter, Filter accepts a node exactly when every
  container of the pod has an image for the node's architecture, and for an accepted node the
  rewriting done at Bind gives every container an image of that architecture from its own entry
  of the table.
\<close>

theorem accepted_node_runs_images:
  assumes "PreFilter cd ef pod cs db = Returns (None, cs', db')" and "ef_dial ef = None"
    and "ni_node ni = Some node" and "getImageState cs' = Inr data"
  shows "(Filter cs' ni = Returns None \<longleftrightarrow>
       (\<forall>ct \<in> set (pod_Containers pod). get_or [] (node_Labels node) ''kubernetes.io/arch'' \<in> arches cd data (ct_Image ct)))
    \<and> (Filter cs' ni = Returns None \<longrightarrow>
       (\<forall>(ct, ct') \<in> set (zip (pod_Containers pod)
           (pod_Containers (ConvertPodImages cd (get_or [] (node_Labels node) ''kubernetes.io/arch'') data pod))).
         \<exists>im \<in> set (GetMultiArchImages cd (ct_Image ct) data).
           im_Arch im = get_or [] (node_Labels node) ''kubernetes.io/arch'' \<and> ct' = ct\<lparr>ct_Image := im_Name im\<rparr>))"
  by (rule accepted_images [OF assms])

text \<open>A concrete environment: one table entry with an amd64 and an arm64 image, and one stored pod.\<close>

definition example_table :: "Images list" where
  "example_table = [\<lparr>ims_Name = ''web'', ims_ImageInfs =
     [\<lparr>im_Name = ''web-amd64'', im_Arch = ''amd64'', im_Os = ''linux''\<rparr>,
      \<lparr>im_Name = ''web-arm64'', im_Arch = ''arm64'', im_Os = ''linux''\<rparr>]\<rparr>]"

definition example_web :: Pod where
  "example_web = example_pod ''p'' ''u'' [example_container ''c'' ''web'' 500]"

definition example_codecs :: codecs where
  "example_codecs = \<lparr>cd_images = (\<lambda>s. if s = ''table'' then Some example_table else None),
     cd_unavailable = (\<lambda>s. Some [s]), cd_unavailable_enc = concat,
     cd_pod = (\<lambda>s. if s = ''stored'' then Some example_web
        else Some (patch_images (ConvertPodImages \<lparr>cd_images = (\<lambda>s. if s = ''table'' then Some example_table else None),
            cd_unavailable = (\<lambda>s. Some [s]), cd_unavailable_enc = concat, cd_pod = (\<lambda>_. None), cd_pod_enc = (\<lambda>_. [])\<rparr>
          ''arm64'' ''table'' example_web) example_web)),
     cd_pod_enc = (\<lambda>_. ''changed'')\<rparr>"

definition no_faults :: etcd_faults where
  "no_faults = \<lparr>ef_dial = None, ef_get = (\<lambda>_. None), ef_put = (\<lambda>_. None)\<rparr>"

definition example_db :: etcd where
  "example_db = [(''kubehice/images'', ''table''), (''/registry/pods/default/p'', ''stored'')]"

definition example_node :: "string \<Rightarrow> Node" where
  "example_node arch = \<lparr>node_Name = ''n1'', node_Labels = [(''kubernetes.io/arch'', arch)], node_Allocatable = [],
     node_Images = []\<rparr>"

definition example_ni :: NodeInfo where
  "example_ni = snd (SetNode example_env (example_node ''arm64'') (NewNodeInfo example_env 0 []))"

lemmas example_defs = example_table_def example_web_def example_codecs_def no_faults_def example_db_def
  example_node_def example_pod_def example_container_def

lemma example_ni_node: "ni_node example_ni = Some (example_node ''arm64'')"
  by (simp add: example_ni_def SetNode_def NewNodeInfo_def split: prod.splits)

definition example_state :: hice_state where
  "example_state = CycleState_Write (CycleState_Write NewCycleState preFilterStateKey
     (PreFilterState [''amd64'', ''arm64''])) imageStateKey (ImageState ''table'')"

lemma example_PreFilter:
  "PreFilter example_codecs no_faults example_web NewCycleState example_db = Returns (None, example_state, example_db)"
  by (simp add: PreFilter_def record_unavailable_def GetUnAvailableImages_def PodAvailableArch_def
      GetMultiArchImages_def arch_map_def etcd_get_def example_state_def example_defs)

lemma example_image_state: "getImageState example_state = Inr ''table''"
  by (simp add: getImageState_def example_state_def cycle.read_write)

theorem accepted_node_runs_images_witness:
  "Filter example_state example_ni = Returns None \<and>
   (\<exists>im \<in> set (GetMultiArchImages example_codecs ''web'' ''table''). im_Arch im = ''arm64'' \<and>
      pod_Containers (ConvertPodImages example_codecs ''arm64'' ''table'' example_web) =
        [(example_container ''c'' ''web'' 500)\<lparr>ct_Image := im_Name im\<rparr>])"
proof -
  have arch: "get_or [] (node_Labels (example_node ''arm64'')) ''kubernetes.io/arch'' = ''arm64''"
    by (simp add: example_node_def get_or_def)
  note main = accepted_node_runs_images [OF example_PreFilter _ example_ni_node example_image_state, unfolded arch]
  have cts: "pod_Containers example_web = [example_container ''c'' ''web'' 500]"
    "ct_Image (example_container ''c'' ''web'' 500) = ''web''"
    by (simp_all add: example_web_def example_pod_def example_container_def)
  have "''arm64'' \<in> arches example_codecs ''table'' ''web''"
    by (simp add: arches_def GetMultiArchImages_def example_codecs_def example_table_def)
  then have f: "Filter example_state example_ni = Returns None"
    using main by (simp add: no_faults_def cts)
  moreover have "pod_Containers (ConvertPodImages example_codecs ''arm64'' ''table'' example_web) =
      [convert_image example_codecs ''arm64'' ''table'' (example_container ''c'' ''web'' 500)]"
    by (simp add: ConvertPodImages_def cts)
  ultimately show ?thesis using main by (auto simp: no_faults_def cts)
qed

text \<open>
  C27: an image that is not in the table does not fail PreFilter, although the code builds an
  error status for it: the pod goes on, and Filter then rejects every node as unschedulable.
\<close>

theorem unknown_image_unschedulable:
  assumes "PreFilter cd ef pod cs db = Returns (st, cs', db')" and "ef_dial ef = None"
    and "etcd_get ef db ''kubehice/images'' = Inr (data # kvs)"
    and "GetUnAvailableImages cd pod data \<noteq> []" and "ni_node ni \<noteq> None"
  shows "st = None \<and> Filter cs' ni = Returns (Some (NewStatus Unschedulable [ErrReasonArch]))"
proof -
  have st: "st = None"
    using assms(1-3) by (auto simp: PreFilter_def split: go_run.splits)
  obtain s where s: "getPreFilterState cs' = Inr s" "PodAvailableArch cd pod data = Returns s"
    using PreFilter_writes [of cd ef pod cs db cs' db'] assms(1-3) st by (auto simp: etcd_get_def split: option.splits)
  obtain ct where ct: "ct \<in> set (pod_Containers pod)" "GetMultiArchImages cd (ct_Image ct) data = []"
    using assms(4) by (auto simp: GetUnAvailableImages_def filter_empty_conv)
  have "set s = (\<Inter>ct \<in> set (pod_Containers pod). arches cd data (ct_Image ct))"
    using PodAvailableArch_set [of pod cd data] s(2) ct(1) by (cases "pod_Containers pod") auto
  then have "set s \<subseteq> arches cd data (ct_Image ct)" using INT_lower [OF ct(1)] by simp
  then have "set s = {}" using ct(2) by (simp add: arches_def)
  then show ?thesis using st s(1) assms(5) by (auto simp: Filter_def fitsArches_def)
qed

theorem unknown_image_unschedulable_witness:
  "(None :: Status option) = None \<and>
   Filter (CycleState_Write (CycleState_Write NewCycleState preFilterStateKey (PreFilterState []))
       imageStateKey (ImageState ''table'')) example_ni
     = Returns (Some (NewStatus Unschedulable [ErrReasonArch]))"
  by (rule unknown_image_unschedulable [where cd = example_codecs and ef = no_faults and kvs = "[]"
        and cs = NewCycleState and db = example_db
        and pod = "example_pod ''q'' ''v'' [example_container ''c'' ''other'' 1]" and data = "''table''"
        and db' = "gomap_set example_db ''kubehice/unavailableimages'' ''other''"])
    (simp_all add: PreFilter_def record_unavailable_def GetUnAvailableImages_def PodAvailableArch_def
      UpdateUnAvailableImageData_def GetMultiArchImages_def arch_map_def etcd_get_def etcd_put_def
      example_ni_node example_defs)

text \<open>
  When etcd cannot be reached, PreFilter reports success without leaving any state, so every
  node is refused with an internal error rather than the pod being retried as unschedulable.
\<close>

theorem dial_error_fails_every_node:
  assumes "ef_dial ef = Some err" and "CycleState_Read cs preFilterStateKey = Inl e"
  shows "PreFilter cd ef pod cs db = Returns (None, cs, db)
    \<and> (\<exists>st. Filter cs ni = Returns (Some st) \<and> st_code st = Error)"
  using assms by (simp add: PreFilter_def Filter_def getPreFilterState_def NewStatus_def)

theorem dial_error_fails_every_node_witness:
  "PreFilter example_codecs (no_faults\<lparr>ef_dial := Some ''timeout''\<rparr>) example_web NewCycleState example_db =
     Returns (None, NewCycleState, example_db)
    \<and> (\<exists>st. Filter (NewCycleState :: hice_state) example_ni = Returns (Some st) \<and> st_code st = Error)"
  by (rule dial_error_fails_every_node [where e = "''not found''"])
    (simp_all add: CycleState_Read_def NewCycleState_def)

section \<open>The stored pod after Bind\<close>

lemma find_same_name:
  assumes "i < length ps" and "distinct (map ct_Name ps)" and "ct_Name ct = ct_Name (ps ! i)"
  shows "find (\<lambda>pct. ct_Name ct = ct_Name pct) ps = Some (ps ! i)"
  unfolding find_Some_iff
proof (intro exI [of _ i] conjI allI impI)
  fix j assume "j < i"
  then show "ct_Name ct \<noteq> ct_Name (ps ! j)"
    using assms nth_eq_iff_index_eq [of "map ct_Name ps" j i] by simp
qed (use assms in simp_all)

lemma patch_images_containers:
  assumes "map ct_Name (pod_Containers p) = map ct_Name (pod_Containers etcdPod)"
    and "distinct (map ct_Name (pod_Containers p))"
  shows "map ct_Image (pod_Containers (patch_images p etcdPod)) = map ct_Image (pod_Containers p)"
proof (rule nth_equalityI)
  have len: "length (pod_Containers p) = length (pod_Containers etcdPod)" using assms(1) by (metis length_map)
  then show "length (map ct_Image (pod_Containers (patch_images p etcdPod))) = length (map ct_Image (pod_Containers p))"
    by (simp add: patch_images_def)
  fix i assume "i < length (map ct_Image (pod_Containers (patch_images p etcdPod)))"
  then have i: "i < length (pod_Containers p)" "i < length (pod_Containers etcdPod)"
    using len by (simp_all add: patch_images_def)
  have name: "ct_Name (pod_Containers etcdPod ! i) = ct_Name (pod_Containers p ! i)"
    using assms(1) i by (metis nth_map)
  have "find (\<lambda>pct. ct_Name (pod_Containers etcdPod ! i) = ct_Name pct) (pod_Containers p) = Some (pod_Containers p ! i)"
    by (rule find_same_name [OF i(1) assms(2) name])
  then show "map ct_Image (pod_Containers (patch_images p etcdPod)) ! i = map ct_Image (pod_Containers p) ! i"
    using i by (simp add: patch_images_def)
qed

lemma pod_etcd_key_convert [simp]: "pod_etcd_key (ConvertPodImages cd a d p) = pod_etcd_key p"
  by (simp add: pod_etcd_key_def ConvertPodImages_def)

lemma change_pod_success:
  assumes "change_pod patch cd ef p db = Returns (None, db')"
  shows "\<exists>v etcdPod. gomap_get db (pod_etcd_key p) = Some v \<and> cd_pod cd v = Some etcdPod
    \<and> db' = gomap_set db (pod_etcd_key p) (cd_pod_enc cd (patch p etcdPod))"
proof -
  obtain v vs where v: "etcd_get ef db (pod_etcd_key p) = Inr (v # vs)"
    using assms by (auto simp: change_pod_def Let_def split: sum.splits list.splits)
  then obtain etcdPod where e: "cd_pod cd v = Some etcdPod"
    using assms by (auto simp: change_pod_def Let_def split: option.splits)
  have "etcd_put ef db (pod_etcd_key p) (cd_pod_enc cd (patch p etcdPod)) = (None, db')"
    using assms v e by (simp add: change_pod_def)
  then show ?thesis using v e by (auto simp: etcd_get_def etcd_put_def split: option.splits)
qed

lemma Bind_stores:
  assumes "Bind cd ef nodeInfos state p nodeName db = Returns (None, db')"
    and "nodeInfos nodeName = Inr nodeInfo" and "ni_node nodeInfo = Some node" and "getImageState state = Inr data"
  shows "changePodInEtcd cd ef (ConvertPodImages cd (get_or [] (node_Labels node) ''kubernetes.io/arch'') data p) db =
    Returns (None, db')"
  using assms by (auto simp: Bind_def Let_def split: option.splits go_run.splits prod.splits)

lemma Bind_stored_pod:
  assumes "Bind cd ef nodeInfos state p nodeName db = Returns (None, db')"
    and "nodeInfos nodeName = Inr nodeInfo" and "ni_node nodeInfo = Some node" and "getImageState state = Inr data"
    and stored: "gomap_get db (pod_etcd_key p) = Some v" "cd_pod cd v = Some etcdPod"
      "map ct_Name (pod_Containers p) = map ct_Name (pod_Containers etcdPod)"
    and roundtrip: "cd_pod cd (cd_pod_enc cd (patch_images (ConvertPodImages cd
        (get_or [] (node_Labels node) ''kubernetes.io/arch'') data p) etcdPod)) =
      Some (patch_images (ConvertPodImages cd (get_or [] (node_Labels node) ''kubernetes.io/arch'') data p) etcdPod)"
    and "distinct (map ct_Name (pod_Containers p))"
  shows "\<exists>v q. gomap_get db' (pod_etcd_key p) = Some v \<and> cd_pod cd v = Some q
    \<and> map ct_Image (pod_Containers q) = map ct_Image (pod_Containers
        (ConvertPodImages cd (get_or [] (node_Labels node) ''kubernetes.io/arch'') data p))
    \<and> pod_NodeName q = pod_NodeName p
    \<and> (\<forall>k. k \<noteq> pod_etcd_key p \<longrightarrow> gomap_get db' k = gomap_get db k)"
proof -
  define p' where "p' = ConvertPodImages cd (get_or [] (node_Labels node) ''kubernetes.io/arch'') data p"
  have key: "pod_etcd_key p' = pod_etcd_key p" by (simp add: p'_def)
  have "change_pod patch_images cd ef p' db = Returns (None, db')"
    using Bind_stores [OF assms(1-4)] by (simp add: changePodInEtcd_def p'_def)
  then have db': "db' = gomap_set db (pod_etcd_key p) (cd_pod_enc cd (patch_images p' etcdPod))"
    using change_pod_success stored(1,2) key by fastforce
  have "map ct_Name (pod_Containers p') = map ct_Name (pod_Containers p)"
    by (simp add: p'_def ConvertPodImages_def convert_image_def comp_def split: option.splits)
  then have "map ct_Image (pod_Containers (patch_images p' etcdPod)) = map ct_Image (pod_Containers p')"
    using stored(3) assms(9) by (intro patch_images_containers) simp_all
  moreover have "pod_NodeName (patch_images p' etcdPod) = pod_NodeName p"
    by (simp add: patch_images_def p'_def ConvertPodImages_def)
  ultimately show ?thesis using db' roundtrip by (auto simp: p'_def)
qed


lemma example_image_convert:
  "ConvertPodImages example_codecs ''arm64'' ''table'' example_web =
     example_pod ''p'' ''u'' [(example_container ''c'' ''web'' 500)\<lparr>ct_Image := ''web-arm64''\<rparr>]"
  by (simp add: ConvertPodImages_def convert_image_def GetMultiArchImages_def example_defs)

lemma example_codec_pod:
  "cd_pod example_codecs ''stored'' = Some example_web"
  "cd_pod example_codecs (cd_pod_enc example_codecs q) =
     Some (patch_images (ConvertPodImages example_codecs ''arm64'' ''table'' example_web) example_web)"
  by (simp_all add: ConvertPodImages_def convert_image_def GetMultiArchImages_def example_defs)

lemma example_arch: "get_or [] (node_Labels (example_node ''arm64'')) ''kubernetes.io/arch'' = ''arm64''"
  by (simp add: example_node_def get_or_def)

lemma example_key: "pod_etcd_key example_web = ''/registry/pods/default/p''"
  by (simp add: pod_etcd_key_def example_web_def example_pod_def)

lemma example_stored: "gomap_get example_db ''/registry/pods/default/p'' = Some ''stored''"
  by (simp add: example_db_def)

lemma example_etcd:
  "ef_dial no_faults = None" "etcd_get no_faults db k = Inr (case gomap_get db k of Some v \<Rightarrow> [v] | None \<Rightarrow> [])"
  "etcd_put no_faults db k v = (None, gomap_set db k v)" "cd_pod_enc example_codecs q = ''changed''"
  by (simp_all add: no_faults_def etcd_get_def etcd_put_def example_codecs_def)

lemma example_change:
  "changePodInEtcd example_codecs no_faults (ConvertPodImages example_codecs a d example_web) example_db =
     Returns (None, gomap_set example_db ''/registry/pods/default/p'' ''changed'')"
  by (simp add: changePodInEtcd_def change_pod_def example_key example_stored example_etcd example_codec_pod(1))

lemma example_Bind:
  "Bind example_codecs no_faults (\<lambda>_. Inr example_ni) example_state example_web ''n1'' example_db =
     Returns (None, gomap_set example_db ''/registry/pods/default/p'' ''changed'')"
  by (simp add: Bind_def example_ni_node example_change example_etcd(1) Let_def)


text \<open>
  The list of unknown images: Recording images never loses one that was recorded before,
  records every new one, and records nothing else, whenever the stored list decodes.
\<close>

theorem add_missing_correct:
  "case add_missing images existed of (ex, upgradeAble) \<Rightarrow>
     set ex = set existed \<union> set images \<and> (\<exists>new. ex = existed @ new \<and> distinct new \<and> set new \<inter> set existed = {})
     \<and> (upgradeAble \<longleftrightarrow> \<not> set images \<subseteq> set existed)"
proof -
  have "case fold (\<lambda>image1 (ex, up). if image1 \<in> set ex then (ex, up) else (ex @ [image1], True)) images (ex0, up0) of
      (ex, up) \<Rightarrow> set ex = set ex0 \<union> set images \<and> (\<exists>new. ex = existed @ new \<and> distinct new \<and> set new \<inter> set existed = {})
        \<and> (up \<longleftrightarrow> up0 \<or> \<not> set images \<subseteq> set ex0)"
    if "ex0 = existed @ new0" "distinct new0" "set new0 \<inter> set existed = {}" for ex0 up0 new0
    using that
  proof (induction images arbitrary: ex0 up0 new0)
    case (Cons im images)
    show ?case
    proof (cases "im \<in> set ex0")
      case True
      then show ?thesis using Cons.IH [OF Cons.prems, of up0] by (auto split: prod.splits)
    next
      case False
      have n: "ex0 @ [im] = existed @ (new0 @ [im])" "distinct (new0 @ [im])" "set (new0 @ [im]) \<inter> set existed = {}"
        using False Cons.prems by auto
      show ?thesis using False Cons.IH [OF n, of True] by (auto split: prod.splits)
    qed
  qed auto
  from this [of existed "[]" False] show ?thesis by (simp add: add_missing_def)
qed

end
