(* ===== verification/Hice_Factors.thy ===== *)
theory Hice_Factors
  imports Node_Info
begin

text \<open>
  Performance labels of pods and nodes, and the scaling of a CPU request by them: the arithmetic
  that the plugins hicev2 and mhice share.
\<close>

definition f64_one :: float64 where
  "f64_one = F64_Fin False 1"

text \<open>
  A performance label: 1.0 when it is missing or does not parse. The code writes this lookup out
  at every use, once through the default text 1.0.
\<close>

definition hice_factor :: "(string, string) gomap \<Rightarrow> string \<Rightarrow> float64" where
  "hice_factor labels key =
     (case gomap_get labels key of None \<Rightarrow> f64_one
      | Some s \<Rightarrow> (case parseFloat s of None \<Rightarrow> f64_one | Some k \<Rightarrow> k))"

text \<open>\<^verbatim>\<open>int64(float64(cpu) * kb / kj)\<close>\<close>

definition scale_cpu :: "runtime_env \<Rightarrow> int \<Rightarrow> float64 \<Rightarrow> float64 \<Rightarrow> int" where
  "scale_cpu env cpu kb kj = f64_to_int64 (env_oob env) (f64_div (f64_mul (f64_of_int cpu) kb) kj)"

lemma scale_cpu_in_int64 [simp]: "in_int64 (scale_cpu env c kb kj)"
  by (simp add: scale_cpu_def f64_to_int64_in_int64)

end
