(* ===== verification/Hicev2.thy ===== *)
theory Hicev2
  imports Hicev1 Hice_Factors
begin

text \<open>
  The CPU-capability plugin (pkg/scheduler/framework/plugins/hicev2/hice.go and fit.go). Pods are
  labelled with the single-thread performance they were sized for (hice.kb), nodes with their own
  (hice.kj); a CPU request is multiplied by kb/kj in float64 arithmetic and truncated. Filter
  compares scaled requests with the node, Bind stores the scaled requests, Score prefers nodes
  that need no more cores.
\<close>

section \<open>Requests\<close>

definition computePodResourceRequest :: "runtime_env \<Rightarrow> Pod \<Rightarrow> Resource" where
  "computePodResourceRequest env pod =
     (let r1 = fold (\<lambda>ct. Resource_Add env (ct_Requests ct)) (pod_Containers pod) zero_resource;
          r2 = fold (\<lambda>ct. SetMaxResource env (ct_Requests ct)) (pod_InitContainers pod) r1
      in case pod_Overhead pod of None \<Rightarrow> r2
         | Some overhead \<Rightarrow> if gate_PodOverhead env then Resource_Add env overhead r2 else r2)"

section \<open>Filter\<close>

record InsufficientResource =
  ir_ResourceName :: string
  ir_Reason :: string
  ir_Requested :: int
  ir_Used :: int
  ir_Capacity :: int

text \<open>
  The CPU already requested on the node, in the node's own units: pods of this scheduler without
  annotations are still in their labelled units, all others are counted as they are.
\<close>

definition hice_pod_cpu :: "runtime_env \<Rightarrow> float64 \<Rightarrow> Pod \<Rightarrow> int" where
  "hice_pod_cpu env hiceKj pod =
     (if pod_SchedulerName pod = ''kubehice-scheduler'' \<and> pod_Annotations pod = None
      then scale_cpu env (MilliCPU (computePodResourceRequest env pod)) (hice_factor (pod_Labels pod) ''hice.kb'') hiceKj
      else MilliCPU (computePodResourceRequest env pod))"

definition hice_node_cpu :: "runtime_env \<Rightarrow> float64 \<Rightarrow> PodInfo list \<Rightarrow> int" where
  "hice_node_cpu env hiceKj pods =
     fold (\<lambda>p acc. wrap64 (acc + hice_pod_cpu env hiceKj (pi_Pod p))) pods 0"

definition scalar_insufficient :: "string list \<Rightarrow> string list \<Rightarrow> NodeInfo \<Rightarrow> string \<times> int \<Rightarrow> InsufficientResource list" where
  "scalar_insufficient ignoredExtendedResources ignoredResourceGroups nodeInfo kv =
     (case kv of (rName, rQuant) \<Rightarrow>
      if IsExtendedResourceName rName \<and>
         (rName \<in> set ignoredExtendedResources \<or>
          (if ignoredResourceGroups \<noteq> [] then hd (split_on (CHR ''/'') rName) else []) \<in> set ignoredResourceGroups)
      then []
      else if get_or 0 (ScalarResources (ni_Allocatable nodeInfo)) rName
              < wrap64 (rQuant + get_or 0 (ScalarResources (ni_Requested nodeInfo)) rName)
      then [\<lparr>ir_ResourceName = rName, ir_Reason = ''Insufficient '' @ rName, ir_Requested = rQuant,
             ir_Used = get_or 0 (ScalarResources (ni_Requested nodeInfo)) rName,
             ir_Capacity = get_or 0 (ScalarResources (ni_Allocatable nodeInfo)) rName\<rparr>]
      else [])"

definition fitsRequest :: "runtime_env \<Rightarrow> Resource \<Rightarrow> NodeInfo \<Rightarrow> string list \<Rightarrow> string list
    \<Rightarrow> InsufficientResource list go_run" where
  "fitsRequest env podRequest nodeInfo ignoredExtendedResources ignoredResourceGroups =
     (case ni_node nodeInfo of None \<Rightarrow> Panics ''nil pointer dereference''
      | Some node \<Rightarrow>
        (let allowedPodNumber = AllowedPodNumber (ni_Allocatable nodeInfo);
             n = int (length (ni_Pods nodeInfo));
             pods = (if n + 1 > allowedPodNumber
                     then [\<lparr>ir_ResourceName = ResourcePods, ir_Reason = ''Too many pods'', ir_Requested = 1,
                            ir_Used = n, ir_Capacity = allowedPodNumber\<rparr>] else [])
         in if MilliCPU podRequest = 0 \<and> Memory podRequest = 0 \<and> EphemeralStorage podRequest = 0
               \<and> ScalarResources podRequest = [] then Returns pods
            else
              let hiceKj = hice_factor (node_Labels node) ''hice.kj'';
                  used = hice_node_cpu env hiceKj (ni_Pods nodeInfo);
                  al = ni_Allocatable nodeInfo; rq = ni_Requested nodeInfo;
                  cpu = (if MilliCPU al < wrap64 (MilliCPU podRequest + used)
                         then [\<lparr>ir_ResourceName = ResourceCPU, ir_Reason = ''Insufficient hice v2 cpu'',
                                ir_Requested = MilliCPU podRequest, ir_Used = used, ir_Capacity = MilliCPU al\<rparr>] else []);
                  mem = (if Memory al < wrap64 (Memory podRequest + Memory rq)
                         then [\<lparr>ir_ResourceName = ResourceMemory, ir_Reason = ''Insufficient memory'',
                                ir_Requested = Memory podRequest, ir_Used = Memory rq, ir_Capacity = Memory al\<rparr>] else []);
                  eph = (if EphemeralStorage al < wrap64 (EphemeralStorage podRequest + EphemeralStorage rq)
                         then [\<lparr>ir_ResourceName = ResourceEphemeralStorage, ir_Reason = ''Insufficient ephemeral-storage'',
                                ir_Requested = EphemeralStorage podRequest, ir_Used = EphemeralStorage rq,
                                ir_Capacity = EphemeralStorage al\<rparr>] else []);
                  scalars = concat (map (scalar_insufficient ignoredExtendedResources ignoredResourceGroups nodeInfo)
                              (ScalarResources podRequest))
              in Returns (pods @ cpu @ mem @ eph @ scalars)))"

abbreviation ErrReasonPerf :: string where
  "ErrReasonPerf \<equiv> ''node(s)'' @ [CHR 0x27] @ ''s performace is too low''"

definition max_cpu_request :: "runtime_env \<Rightarrow> Pod \<Rightarrow> int" where
  "max_cpu_request env pod =
     fold (\<lambda>ct mx. let v = MilliValue (env_oob env) (ResourceList_Cpu (ct_Requests ct)) in if v > mx then v else mx)
       (pod_Containers pod) 0"

definition needs_more_cores :: "int \<Rightarrow> float64 \<Rightarrow> float64 \<Rightarrow> bool" where
  "needs_more_cores maxCpuReq kb kj =
     (let cores = f64_div (f64_of_int maxCpuReq) (f64_of_int 1000)
      in f64_lt (f64_ceil cores) (f64_mul (f64_div cores kj) kb))"

definition Filter :: "runtime_env \<Rightarrow> string list \<Rightarrow> string list \<Rightarrow> Pod \<Rightarrow> NodeInfo \<Rightarrow> Status option go_run" where
  "Filter env ignoredResources ignoredResourceGroups pod nodeInfo =
     (case ni_node nodeInfo of None \<Rightarrow> Panics ''nil pointer dereference''
      | Some node \<Rightarrow>
        (let kb = hice_factor (pod_Labels pod) ''hice.kb''; kj = hice_factor (node_Labels node) ''hice.kj''
         in if needs_more_cores (max_cpu_request env pod) kb kj
            then Returns (Some (NewStatus Unschedulable [ErrReasonPerf]))
            else
              let s = computePodResourceRequest env pod;
                  s' = s\<lparr>MilliCPU := scale_cpu env (MilliCPU s) kb kj\<rparr>
              in case fitsRequest env s' nodeInfo ignoredResources ignoredResourceGroups of
                   Panics e \<Rightarrow> Panics e
                 | Returns irs \<Rightarrow>
                     Returns (if irs = [] then None else Some (NewStatus Unschedulable (map ir_Reason irs)))))"

section \<open>Bind\<close>

text \<open>The package has its own copies of the image functions.\<close>

fun lookup_images :: "string \<Rightarrow> Images list \<Rightarrow> ImageInf list" where
  "lookup_images imageName [] = []"
| "lookup_images imageName (item # items) =
     (if imageName = ims_Name item then ims_ImageInfs item else lookup_images imageName items)"

definition GetMultiArchImages :: "codecs \<Rightarrow> string \<Rightarrow> string \<Rightarrow> ImageInf list" where
  "GetMultiArchImages cd imageName imagedata =
     (case cd_images cd imagedata of None \<Rightarrow> [] | Some containers \<Rightarrow> lookup_images imageName containers)"

fun first_image :: "string \<Rightarrow> ImageInf list \<Rightarrow> Container \<Rightarrow> Container" where
  "first_image arch [] ct = ct"
| "first_image arch (im # images) ct =
     (if arch = im_Arch im then ct\<lparr>ct_Image := im_Name im\<rparr> else first_image arch images ct)"

definition ConvertPodImages :: "codecs \<Rightarrow> string \<Rightarrow> string \<Rightarrow> Pod \<Rightarrow> Pod" where
  "ConvertPodImages cd arch imagedata p =
     p\<lparr>pod_Containers := map (\<lambda>ct. first_image arch (GetMultiArchImages cd (ct_Image ct) imagedata) ct) (pod_Containers p)\<rparr>"

definition convert_cpu_list :: "runtime_env \<Rightarrow> float64 \<Rightarrow> float64 \<Rightarrow> ResourceList \<Rightarrow> ResourceList go_run" where
  "convert_cpu_list env kb kj rl =
     (let v = MilliValue (env_oob env) (ResourceList_Cpu rl)
      in if v = 0 then Returns rl
         else case MustParse (itoa (scale_cpu env v kb kj) @ ''m'') of
                Panics e \<Rightarrow> Panics e | Returns q \<Rightarrow> Returns (gomap_set rl ''cpu'' q))"

definition convert_cpu :: "runtime_env \<Rightarrow> float64 \<Rightarrow> float64 \<Rightarrow> Container \<Rightarrow> Container go_run" where
  "convert_cpu env kb kj ct =
     (case convert_cpu_list env kb kj (ct_Requests ct) of Panics e \<Rightarrow> Panics e
      | Returns reqs \<Rightarrow>
        (case convert_cpu_list env kb kj (ct_Limits ct) of Panics e \<Rightarrow> Panics e
         | Returns lims \<Rightarrow> Returns (ct\<lparr>ct_Requests := reqs, ct_Limits := lims\<rparr>)))"

fun convert_cpus :: "runtime_env \<Rightarrow> float64 \<Rightarrow> float64 \<Rightarrow> Container list \<Rightarrow> Container list go_run" where
  "convert_cpus env kb kj [] = Returns []"
| "convert_cpus env kb kj (ct # cts) =
     (case convert_cpu env kb kj ct of Panics e \<Rightarrow> Panics e
      | Returns ct' \<Rightarrow>
        (case convert_cpus env kb kj cts of Panics e \<Rightarrow> Panics e | Returns cts' \<Rightarrow> Returns (ct' # cts')))"

definition ConvertPodCpu :: "runtime_env \<Rightarrow> float64 \<Rightarrow> float64 \<Rightarrow> Pod \<Rightarrow> Pod go_run" where
  "ConvertPodCpu env kb kj p =
     (case convert_cpus env kb kj (pod_Containers p) of Panics e \<Rightarrow> Panics e
      | Returns cts \<Rightarrow> Returns (p\<lparr>pod_Containers := cts\<rparr>))"

text \<open>
  The stored pod after the change: image and resources by container name, the node, a scheduled
  condition, and the fromEtcd annotation if there were no annotations at all.
\<close>

definition patch_resources :: "Pod \<Rightarrow> Pod \<Rightarrow> Pod" where
  "patch_resources p etcdPod =
     etcdPod\<lparr>pod_Containers :=
         map (\<lambda>ct. case find (\<lambda>pct. ct_Name ct = ct_Name pct) (pod_Containers p) of
                Some pct \<Rightarrow> ct\<lparr>ct_Image := ct_Image pct, ct_Requests := ct_Requests pct, ct_Limits := ct_Limits pct\<rparr>
              | None \<Rightarrow> ct) (pod_Containers etcdPod),
       pod_NodeName := pod_NodeName p,
       pod_Conditions := pod_Conditions etcdPod @ [(''PodScheduled'', ''True'')],
       pod_Annotations :=
         (case pod_Annotations etcdPod of None \<Rightarrow> Some [(''fromEtcd'', ''1'')] | Some a \<Rightarrow> Some a)\<rparr>"

definition changePodInEtcd :: "codecs \<Rightarrow> etcd_faults \<Rightarrow> Pod \<Rightarrow> etcd \<Rightarrow> (string option \<times> etcd) go_run" where
  "changePodInEtcd = change_pod patch_resources"

definition read_images :: "hice_state \<Rightarrow> string" where
  "read_images state = (case CycleState_Read state ''images'' of Inr (ImageState d) \<Rightarrow> d | _ \<Rightarrow> [])"

definition Bind :: "runtime_env \<Rightarrow> codecs \<Rightarrow> etcd_faults \<Rightarrow> (string \<Rightarrow> string + NodeInfo) \<Rightarrow> hice_state \<Rightarrow> Pod
    \<Rightarrow> string \<Rightarrow> etcd \<Rightarrow> (Status option \<times> etcd) go_run" where
  "Bind env cd ef nodeInfos state p nodeName db =
     (case nodeInfos nodeName of Inl err \<Rightarrow> Returns (Some (NewStatus Error [err]), db)
      | Inr nodeInfo \<Rightarrow>
        (case ef_dial ef of Some err \<Rightarrow> Returns (Some (NewStatus Error [err]), db)
         | None \<Rightarrow>
           (case ni_node nodeInfo of None \<Rightarrow> Panics ''nil pointer dereference''
            | Some node \<Rightarrow>
              (let tempPod = ConvertPodImages cd (get_or [] (node_Labels node) ''kubernetes.io/arch'') (read_images state) p
               in case ConvertPodCpu env (hice_factor (pod_Labels tempPod) ''hice.kb'')
                         (hice_factor (node_Labels node) ''hice.kj'') tempPod of
                    Panics e \<Rightarrow> Panics e
                  | Returns tempPod' \<Rightarrow>
                    (case changePodInEtcd cd ef (tempPod'\<lparr>pod_NodeName := nodeName\<rparr>) db of Panics e \<Rightarrow> Panics e
                     | Returns (Some err, db') \<Rightarrow> Returns (Some (NewStatus Error [err]), db')
                     | Returns (None, db') \<Rightarrow> Returns (None, db'))))))"

section \<open>Score\<close>

definition mCeil :: "int \<Rightarrow> int" where
  "mCeil x =
     (if wrap64 (wrap64 (go_div x 1000 * 1000) - x) = 0 then x
      else wrap64 (wrap64 (go_div x 1000 + 1) * 1000))"

definition hiceLevel :: "runtime_env \<Rightarrow> int \<Rightarrow> int \<Rightarrow> float64 \<Rightarrow> float64 \<Rightarrow> int" where
  "hiceLevel env req0 lmt bPerf nPerf =
     (if f64_le bPerf nPerf then 0
      else if req0 = 0 \<and> lmt = 0 then 0
      else
        let req = (if req0 = 0 \<and> lmt > 0 then lmt else req0);
            hiceReq = f64_to_int64 (env_oob env) (f64_mul (f64_div (f64_of_int req) nPerf) bPerf);
            hiceLmt = f64_to_int64 (env_oob env) (f64_mul (f64_div (f64_of_int lmt) nPerf) bPerf)
        in if hiceReq \<le> mCeil req then (if hiceLmt \<le> mCeil lmt then 1 else 2) else 3)"

definition pod_level :: "runtime_env \<Rightarrow> float64 \<Rightarrow> float64 \<Rightarrow> Container list \<Rightarrow> int" where
  "pod_level env bPerf nPerf cts =
     fold (\<lambda>ct pLevel.
         let level = hiceLevel env (MilliValue (env_oob env) (ResourceList_Cpu (ct_Requests ct)))
               (MilliValue (env_oob env) (ResourceList_Cpu (ct_Limits ct))) bPerf nPerf
         in if pLevel < level then level else pLevel) cts 0"

definition perf_score :: "runtime_env \<Rightarrow> int \<Rightarrow> float64 \<Rightarrow> float64 \<Rightarrow> int" where
  "perf_score env base nPerf bPerf =
     f64_to_int64 (env_oob env) (f64_add (f64_of_int base) (f64_div (f64_mul (f64_of_int 49) nPerf) bPerf))"

definition Score :: "runtime_env \<Rightarrow> (string \<Rightarrow> string + NodeInfo) \<Rightarrow> Pod \<Rightarrow> string \<Rightarrow> (int \<times> Status option) go_run" where
  "Score env nodeInfos pod nodeName =
     (case nodeInfos nodeName of
        Inl err \<Rightarrow> Returns (0, Some (NewStatus Error
          [''getting node '' @ [CHR 0x22] @ nodeName @ [CHR 0x22] @ '' from Snapshot: '' @ err]))
      | Inr nodeInfo \<Rightarrow>
        (case ni_node nodeInfo of None \<Rightarrow> Panics ''nil pointer dereference''
         | Some node \<Rightarrow>
           (let nPerf = hice_factor (node_Labels node) ''hice.kj'' in
            case gomap_get (pod_Labels pod) ''hice.kb'' of None \<Rightarrow> Returns (100, None)
            | Some _ \<Rightarrow>
              (let bPerf = hice_factor (pod_Labels pod) ''hice.kb'';
                   pLevel = pod_level env bPerf nPerf (pod_Containers pod)
               in if pLevel = 0 then Returns (100, None)
                  else if pLevel = 1 then Returns (perf_score env 51 nPerf bPerf, None)
                  else if pLevel = 2 then Returns (perf_score env 1 nPerf bPerf, None)
                  else Returns (0, None)))))"

section \<open>Images\<close>

lemma GetMultiArchImages_v1: "GetMultiArchImages = Hicev1.GetMultiArchImages"
proof -
  have "lookup_images n items = (case find (\<lambda>item. n = ims_Name item) items of
      Some item \<Rightarrow> ims_ImageInfs item | None \<Rightarrow> [])" for n items
    by (induction items) simp_all
  then show ?thesis
    by (intro ext) (simp add: GetMultiArchImages_def Hicev1.GetMultiArchImages_def split: option.split)
qed

lemma ConvertPodImages_v1: "ConvertPodImages = Hicev1.ConvertPodImages"
proof -
  have "first_image a images ct = (case find (\<lambda>im. a = im_Arch im) images of
      Some im \<Rightarrow> ct\<lparr>ct_Image := im_Name im\<rparr> | None \<Rightarrow> ct)" for a images ct
    by (induction images) simp_all
  then show ?thesis
    by (intro ext) (simp add: ConvertPodImages_def Hicev1.ConvertPodImages_def convert_image_def GetMultiArchImages_v1)
qed

section \<open>The stored CPU\<close>

text \<open>The milli-CPU of a resource list, as the plugins read it.\<close>

definition milli_cpu :: "runtime_env \<Rightarrow> ResourceList \<Rightarrow> int" where
  "milli_cpu env rl = MilliValue (env_oob env) (ResourceList_Cpu rl)"

text \<open>\<open>cpu_scaled\<close>: the second list is the first with its CPU, if any, scaled exactly.\<close>

definition cpu_scaled :: "runtime_env \<Rightarrow> float64 \<Rightarrow> float64 \<Rightarrow> ResourceList \<Rightarrow> ResourceList \<Rightarrow> bool" where
  "cpu_scaled env kb kj rl rl' \<longleftrightarrow>
     (if milli_cpu env rl = 0 then rl' = rl
      else q_val (ResourceList_Cpu rl') = of_int (scale_cpu env (milli_cpu env rl) kb kj) / 1000
        \<and> (0 \<le> scale_cpu env (milli_cpu env rl) kb kj \<longrightarrow>
             milli_cpu env rl' = scale_cpu env (milli_cpu env rl) kb kj)
        \<and> (\<forall>r. r \<noteq> ''cpu'' \<longrightarrow> gomap_get rl' r = gomap_get rl r))"

lemma convert_cpu_list_scaled:
  obtains rl' where "convert_cpu_list env kb kj rl = Returns rl'" "cpu_scaled env kb kj rl rl'"
proof (cases "milli_cpu env rl = 0")
  case True
  then show ?thesis using that [of rl] by (simp add: convert_cpu_list_def cpu_scaled_def milli_cpu_def)
next
  case False
  define n where "n = scale_cpu env (milli_cpu env rl) kb kj"
  obtain q where q: "MustParse (itoa n @ ''m'') = Returns q" "q_val q = of_int n / 1000"
    "0 \<le> n \<longrightarrow> MilliValue (env_oob env) q = n"
    using MustParse_milli [of n "env_oob env"] by (auto simp: n_def)
  have cpu: "ResourceList_Cpu (gomap_set rl ''cpu'' q) = q"
    by (simp add: ResourceList_Cpu_def ResourceList_Name_def)
  show ?thesis
  proof (rule that [of "gomap_set rl ''cpu'' q"])
    show "convert_cpu_list env kb kj rl = Returns (gomap_set rl ''cpu'' q)"
      using False q(1) by (simp add: convert_cpu_list_def milli_cpu_def n_def)
    show "cpu_scaled env kb kj rl (gomap_set rl ''cpu'' q)"
      using False q(2,3) by (simp add: cpu_scaled_def n_def milli_cpu_def cpu)
  qed
qed

text \<open>\<open>container_scaled\<close>: only the CPU of the requests and of the limits changes.\<close>

definition container_scaled :: "runtime_env \<Rightarrow> float64 \<Rightarrow> float64 \<Rightarrow> Container \<Rightarrow> Container \<Rightarrow> bool" where
  "container_scaled env kb kj ct ct' \<longleftrightarrow>
     ct' = ct\<lparr>ct_Requests := ct_Requests ct', ct_Limits := ct_Limits ct'\<rparr>
     \<and> cpu_scaled env kb kj (ct_Requests ct) (ct_Requests ct') \<and> cpu_scaled env kb kj (ct_Limits ct) (ct_Limits ct')"

lemma convert_cpu_scaled:
  obtains ct' where "convert_cpu env kb kj ct = Returns ct'" "container_scaled env kb kj ct ct'"
proof -
  obtain rq where rq: "convert_cpu_list env kb kj (ct_Requests ct) = Returns rq" "cpu_scaled env kb kj (ct_Requests ct) rq"
    using convert_cpu_list_scaled by blast
  obtain lm where lm: "convert_cpu_list env kb kj (ct_Limits ct) = Returns lm" "cpu_scaled env kb kj (ct_Limits ct) lm"
    using convert_cpu_list_scaled by blast
  show ?thesis
    by (rule that [of "ct\<lparr>ct_Requests := rq, ct_Limits := lm\<rparr>"])
      (use rq lm in \<open>simp_all add: convert_cpu_def container_scaled_def\<close>)
qed

lemma convert_cpus_scaled:
  "\<exists>cts'. convert_cpus env kb kj cts = Returns cts' \<and> list_all2 (container_scaled env kb kj) cts cts'"
proof (induction cts)
  case (Cons ct cts)
  obtain ct' where "convert_cpu env kb kj ct = Returns ct'" "container_scaled env kb kj ct ct'"
    using convert_cpu_scaled by blast
  with Cons show ?case by auto
qed simp

text \<open>
  C14: the conversion of a pod's CPU never panics, whatever the performance labels are, NaN,
  infinite, zero and negative ones included. It changes nothing but the CPU entries of requests
  and limits, and each one that is not zero becomes exactly the truncated scaled number of
  milli-CPUs.
\<close>

theorem ConvertPodCpu_correct:
  "\<exists>cts'. ConvertPodCpu env kb kj p = Returns (p\<lparr>pod_Containers := cts'\<rparr>)
     \<and> list_all2 (container_scaled env kb kj) (pod_Containers p) cts'"
  using convert_cpus_scaled [of env kb kj "pod_Containers p"] by (auto simp: ConvertPodCpu_def)

lemma ConvertPodCpu_returns:
  assumes "ConvertPodCpu env kb kj p = Returns p'"
  shows "\<exists>cts. p' = p\<lparr>pod_Containers := cts\<rparr> \<and> list_all2 (container_scaled env kb kj) (pod_Containers p) cts"
  using assms convert_cpus_scaled [of env kb kj "pod_Containers p"] by (auto simp: ConvertPodCpu_def)

lemma patch_resources_containers:
  assumes "map ct_Name (pod_Containers p) = map ct_Name (pod_Containers etcdPod)"
    and "distinct (map ct_Name (pod_Containers p))"
  shows "list_all2 (\<lambda>ct ct'. ct_Image ct' = ct_Image ct \<and> ct_Requests ct' = ct_Requests ct \<and> ct_Limits ct' = ct_Limits ct)
    (pod_Containers p) (pod_Containers (patch_resources p etcdPod))"
proof (rule list_all2_all_nthI)
  have len: "length (pod_Containers p) = length (pod_Containers etcdPod)" using assms(1) by (metis length_map)
  then show "length (pod_Containers p) = length (pod_Containers (patch_resources p etcdPod))"
    by (simp add: patch_resources_def)
  fix i assume i: "i < length (pod_Containers p)"
  have name: "ct_Name (pod_Containers etcdPod ! i) = ct_Name (pod_Containers p ! i)"
    using assms(1) i len by (metis nth_map)
  show "ct_Image (pod_Containers (patch_resources p etcdPod) ! i) = ct_Image (pod_Containers p ! i)
    \<and> ct_Requests (pod_Containers (patch_resources p etcdPod) ! i) = ct_Requests (pod_Containers p ! i)
    \<and> ct_Limits (pod_Containers (patch_resources p etcdPod) ! i) = ct_Limits (pod_Containers p ! i)"
    using i len by (simp add: patch_resources_def find_same_name [OF i assms(2) name])
qed

lemma container_scaled_name: "container_scaled env kb kj ct ct' \<Longrightarrow> ct_Name ct' = ct_Name ct"
  and container_scaled_image: "container_scaled env kb kj ct ct' \<Longrightarrow> ct_Image ct' = ct_Image ct"
  unfolding container_scaled_def by (metis Container.simps(1,2) Container.surjective Container.update_convs(3,4))+

lemma Bind_stores_pod:
  assumes "Bind env cd ef nodeInfos state p nodeName db = Returns (None, db')"
    and "nodeInfos nodeName = Inr nodeInfo" and "ni_node nodeInfo = Some node"
  obtains p' where "ConvertPodCpu env (hice_factor (pod_Labels p) ''hice.kb'') (hice_factor (node_Labels node) ''hice.kj'')
      (ConvertPodImages cd (get_or [] (node_Labels node) ''kubernetes.io/arch'') (read_images state) p) = Returns p'"
    "change_pod patch_resources cd ef (p'\<lparr>pod_NodeName := nodeName\<rparr>) db = Returns (None, db')"
  using assms
  by (auto simp: Bind_def Let_def changePodInEtcd_def ConvertPodImages_def split: option.splits go_run.splits prod.splits)

lemma ConvertPodImages_containers:
  "list_all2 (\<lambda>ct ct'. ct_Name ct' = ct_Name ct \<and> ct_Requests ct' = ct_Requests ct \<and> ct_Limits ct' = ct_Limits ct)
    (pod_Containers p) (pod_Containers (ConvertPodImages cd a d p))"
  by (auto simp: ConvertPodImages_v1 Hicev1.ConvertPodImages_def convert_image_def list_all2_conv_all_nth
      split: option.splits)

lemma list_all2_map_eq: "list_all2 R xs ys \<Longrightarrow> (\<And>x y. R x y \<Longrightarrow> f y = f x) \<Longrightarrow> map f ys = map f xs"
  by (induction rule: list_all2_induct) simp_all

text \<open>
  C6: a successful Bind replaces the value under the pod's own key by the encoding of a pod that
  is bound to the chosen node and carries annotations. Container by container (the stored pod has
  the same, uniquely named containers) it has the image for the node's architecture, and CPU
  requests and limits scaled from the pod's to the node's performance.
\<close>

theorem Bind_stores_scaled_pod:
  assumes "Bind env cd ef nodeInfos state p nodeName db = Returns (None, db')"
    and "nodeInfos nodeName = Inr nodeInfo" and "ni_node nodeInfo = Some node"
    and "gomap_get db (pod_etcd_key p) = Some v" and "cd_pod cd v = Some etcdPod"
    and "map ct_Name (pod_Containers p) = map ct_Name (pod_Containers etcdPod)"
    and "distinct (map ct_Name (pod_Containers p))"
  shows "\<exists>q. db' = gomap_set db (pod_etcd_key p) (cd_pod_enc cd q) \<and> pod_NodeName q = nodeName \<and> pod_Annotations q \<noteq> None
    \<and> list_all2 (\<lambda>ct ct'. ct_Image ct' = ct_Image ct
         \<and> cpu_scaled env (hice_factor (pod_Labels p) ''hice.kb'') (hice_factor (node_Labels node) ''hice.kj'')
             (ct_Requests ct) (ct_Requests ct')
         \<and> cpu_scaled env (hice_factor (pod_Labels p) ''hice.kb'') (hice_factor (node_Labels node) ''hice.kj'')
             (ct_Limits ct) (ct_Limits ct'))
       (pod_Containers (ConvertPodImages cd (get_or [] (node_Labels node) ''kubernetes.io/arch'') (read_images state) p))
       (pod_Containers q)"
proof -
  define p1 where "p1 = ConvertPodImages cd (get_or [] (node_Labels node) ''kubernetes.io/arch'') (read_images state) p"
  let ?scaled = "container_scaled env (hice_factor (pod_Labels p) ''hice.kb'') (hice_factor (node_Labels node) ''hice.kj'')"
  obtain p' where p': "ConvertPodCpu env (hice_factor (pod_Labels p) ''hice.kb'')
      (hice_factor (node_Labels node) ''hice.kj'') p1 = Returns p'"
    "change_pod patch_resources cd ef (p'\<lparr>pod_NodeName := nodeName\<rparr>) db = Returns (None, db')"
    using Bind_stores_pod [OF assms(1-3)] unfolding p1_def by blast
  obtain cts where cts: "p' = p1\<lparr>pod_Containers := cts\<rparr>" "list_all2 ?scaled (pod_Containers p1) cts"
    using ConvertPodCpu_returns [OF p'(1)] by blast
  define p2 where "p2 = p'\<lparr>pod_NodeName := nodeName\<rparr>"
  have key: "pod_etcd_key p2 = pod_etcd_key p" by (simp add: p2_def cts(1) p1_def ConvertPodImages_def pod_etcd_key_def)
  have "map ct_Name (pod_Containers p1) = map ct_Name (pod_Containers p)"
    unfolding p1_def by (rule list_all2_map_eq [OF ConvertPodImages_containers]) simp
  moreover have "map ct_Name (pod_Containers p2) = map ct_Name (pod_Containers p1)"
    using list_all2_map_eq [OF cts(2) container_scaled_name] by (simp add: p2_def cts(1))
  ultimately have names: "map ct_Name (pod_Containers p2) = map ct_Name (pod_Containers etcdPod)"
    "distinct (map ct_Name (pod_Containers p2))" using assms(6,7) by simp_all
  define q where "q = patch_resources p2 etcdPod"
  have "db' = gomap_set db (pod_etcd_key p) (cd_pod_enc cd q)"
    using change_pod_success [OF p'(2)] assms(4,5) key unfolding p2_def [symmetric] q_def by auto
  moreover have "pod_NodeName q = nodeName" "pod_Annotations q \<noteq> None"
    by (simp_all add: q_def patch_resources_def p2_def split: option.splits)
  moreover have "list_all2 (\<lambda>ct ct'. ct_Image ct' = ct_Image ct
      \<and> cpu_scaled env (hice_factor (pod_Labels p) ''hice.kb'') (hice_factor (node_Labels node) ''hice.kj'') (ct_Requests ct) (ct_Requests ct')
      \<and> cpu_scaled env (hice_factor (pod_Labels p) ''hice.kb'') (hice_factor (node_Labels node) ''hice.kj'') (ct_Limits ct) (ct_Limits ct'))
      (pod_Containers p1) (pod_Containers q)"
  proof (rule list_all2_trans [OF _ cts(2)])
    show "list_all2 (\<lambda>ct ct'. ct_Image ct' = ct_Image ct \<and> ct_Requests ct' = ct_Requests ct \<and> ct_Limits ct' = ct_Limits ct)
        cts (pod_Containers q)"
      using patch_resources_containers [OF names] by (simp add: q_def p2_def cts(1))
  qed (simp add: container_scaled_image, simp add: container_scaled_def)
  ultimately show ?thesis unfolding p1_def by blast
qed

definition hice_web :: Pod where
  "hice_web = example_web\<lparr>pod_Labels := [(''hice.kb'', ''2.0'')]\<rparr>"

definition hice_node :: Node where
  "hice_node = (example_node ''arm64'')\<lparr>node_Labels := [(''kubernetes.io/arch'', ''arm64''), (''hice.kj'', ''1.5'')],
     node_Allocatable := [(ResourceCPU, NewMilliQuantity 4000 DecimalSI), (ResourcePods, NewQuantity 10 DecimalSI)]\<rparr>"

definition hice_ni :: NodeInfo where
  "hice_ni = snd (SetNode example_env hice_node (NewNodeInfo example_env 0 []))"

lemma hice_ni_node: "ni_node hice_ni = Some hice_node"
  by (simp add: hice_ni_def SetNode_def NewNodeInfo_def split: prod.splits)

lemma hice_web_key: "pod_etcd_key (hice_web\<lparr>pod_Containers := cts, pod_NodeName := n\<rparr>) = ''/registry/pods/default/p''"
  by (simp add: pod_etcd_key_def hice_web_def example_web_def example_pod_def)

lemma hice_web_Bind:
  "Bind example_env example_codecs no_faults (\<lambda>_. Inr hice_ni) example_state hice_web ''n1'' example_db =
     Returns (None, gomap_set example_db ''/registry/pods/default/p'' ''changed'')"
proof -
  define kb kj where "kb = hice_factor (pod_Labels hice_web) ''hice.kb''" and "kj = hice_factor (node_Labels hice_node) ''hice.kj''"
  define p1 where "p1 = ConvertPodImages example_codecs (get_or [] (node_Labels hice_node) ''kubernetes.io/arch'')
    (read_images example_state) hice_web"
  obtain cts where cts: "ConvertPodCpu example_env kb kj p1 = Returns (p1\<lparr>pod_Containers := cts\<rparr>)"
    using convert_cpus_scaled [of example_env kb kj "pod_Containers p1"] by (auto simp: ConvertPodCpu_def)
  have "changePodInEtcd example_codecs no_faults (p1\<lparr>pod_Containers := cts, pod_NodeName := ''n1''\<rparr>) example_db =
      Returns (None, gomap_set example_db ''/registry/pods/default/p'' ''changed'')"
    unfolding p1_def ConvertPodImages_def
    by (simp add: changePodInEtcd_def change_pod_def hice_web_key example_stored example_etcd example_codec_pod(1))
  moreover have "pod_Labels p1 = pod_Labels hice_web" by (simp add: p1_def ConvertPodImages_def)
  ultimately show ?thesis
    using cts by (simp add: Bind_def hice_ni_node example_etcd(1) kb_def kj_def Let_def flip: p1_def)
qed

theorem Bind_stores_scaled_pod_witness:
  "\<exists>q. gomap_set example_db ''/registry/pods/default/p'' ''changed'' =
      gomap_set example_db (pod_etcd_key hice_web) (cd_pod_enc example_codecs q)
    \<and> pod_NodeName q = ''n1'' \<and> pod_Annotations q \<noteq> None
    \<and> list_all2 (\<lambda>ct ct'. ct_Image ct' = ct_Image ct
         \<and> cpu_scaled example_env (hice_factor (pod_Labels hice_web) ''hice.kb'') (hice_factor (node_Labels hice_node) ''hice.kj'')
             (ct_Requests ct) (ct_Requests ct')
         \<and> cpu_scaled example_env (hice_factor (pod_Labels hice_web) ''hice.kb'') (hice_factor (node_Labels hice_node) ''hice.kj'')
             (ct_Limits ct) (ct_Limits ct'))
       (pod_Containers (ConvertPodImages example_codecs (get_or [] (node_Labels hice_node) ''kubernetes.io/arch'')
          (read_images example_state) hice_web))
       (pod_Containers q)"
proof (rule Bind_stores_scaled_pod [OF hice_web_Bind refl hice_ni_node])
  show "gomap_get example_db (pod_etcd_key hice_web) = Some ''stored''"
    using hice_web_key [where cts = "pod_Containers hice_web" and n = "pod_NodeName hice_web"] by (simp add: example_stored)
  show "cd_pod example_codecs ''stored'' = Some example_web" by (rule example_codec_pod)
qed (simp_all add: hice_web_def example_web_def example_pod_def)

section \<open>Admission\<close>

lemma hice_node_cpu_sum:
  "hice_node_cpu env kj pods = wrap64 (\<Sum>p \<leftarrow> pods. hice_pod_cpu env kj (pi_Pod p))"
proof -
  have "wrap64 (fold (\<lambda>p acc. wrap64 (acc + hice_pod_cpu env kj (pi_Pod p))) pods a) =
      wrap64 (a + (\<Sum>p \<leftarrow> pods. hice_pod_cpu env kj (pi_Pod p)))" for a
    by (induction pods arbitrary: a) (simp_all add: add.assoc)
  moreover have "wrap64 (fold (\<lambda>p acc. wrap64 (acc + hice_pod_cpu env kj (pi_Pod p))) pods 0) =
      fold (\<lambda>p acc. wrap64 (acc + hice_pod_cpu env kj (pi_Pod p))) pods 0"
    by (cases pods rule: rev_cases) (simp_all add: wrap64_def)
  ultimately show ?thesis by (simp add: hice_node_cpu_def)
qed

text \<open>What a node must have room for: the capacity left by its pods, resource by resource.\<close>

definition request_empty :: "Resource \<Rightarrow> bool" where
  "request_empty r \<longleftrightarrow> MilliCPU r = 0 \<and> Memory r = 0 \<and> EphemeralStorage r = 0 \<and> ScalarResources r = []"

definition scalars_fit :: "Resource \<Rightarrow> NodeInfo \<Rightarrow> bool" where
  "scalars_fit r ni \<longleftrightarrow> (\<forall>(n, v) \<in> set (ScalarResources r).
     v + get_or 0 (ScalarResources (ni_Requested ni)) n \<le> get_or 0 (ScalarResources (ni_Allocatable ni)) n)"

definition sums_in_range :: "Resource \<Rightarrow> int \<Rightarrow> NodeInfo \<Rightarrow> bool" where
  "sums_in_range r used ni \<longleftrightarrow> in_int64 (MilliCPU r + used) \<and> in_int64 (Memory r + Memory (ni_Requested ni))
     \<and> in_int64 (EphemeralStorage r + EphemeralStorage (ni_Requested ni))
     \<and> (\<forall>(n, v) \<in> set (ScalarResources r). in_int64 (v + get_or 0 (ScalarResources (ni_Requested ni)) n))"

lemma scalar_insufficient_none:
  assumes "\<And>n v. (n, v) \<in> set kvs \<Longrightarrow> in_int64 (v + get_or 0 (ScalarResources (ni_Requested ni)) n)"
  shows "concat (map (scalar_insufficient [] [] ni) kvs) = [] \<longleftrightarrow>
    (\<forall>(n, v) \<in> set kvs. v + get_or 0 (ScalarResources (ni_Requested ni)) n \<le> get_or 0 (ScalarResources (ni_Allocatable ni)) n)"
  using assms by (induction kvs) (auto simp: scalar_insufficient_def wrap64_id split: if_splits)

lemma fitsRequest_empty:
  assumes "ni_node ni = Some node"
    and "sums_in_range r (\<Sum>p \<leftarrow> ni_Pods ni. hice_pod_cpu env (hice_factor (node_Labels node) ''hice.kj'') (pi_Pod p)) ni"
  shows "fitsRequest env r ni [] [] = Returns [] \<longleftrightarrow>
    int (length (ni_Pods ni)) + 1 \<le> AllowedPodNumber (ni_Allocatable ni)
    \<and> (request_empty r \<or>
       MilliCPU r + (\<Sum>p \<leftarrow> ni_Pods ni. hice_pod_cpu env (hice_factor (node_Labels node) ''hice.kj'') (pi_Pod p))
         \<le> MilliCPU (ni_Allocatable ni)
       \<and> Memory r + Memory (ni_Requested ni) \<le> Memory (ni_Allocatable ni)
       \<and> EphemeralStorage r + EphemeralStorage (ni_Requested ni) \<le> EphemeralStorage (ni_Allocatable ni)
       \<and> scalars_fit r ni)"
proof -
  have sc: "concat (map (scalar_insufficient [] [] ni) (ScalarResources r)) = [] \<longleftrightarrow> scalars_fit r ni"
    unfolding scalars_fit_def
    by (rule scalar_insufficient_none) (use assms(2) in \<open>auto simp: sums_in_range_def\<close>)
  show ?thesis
    using assms(2) sc
    by (cases "request_empty r")
      (simp add: fitsRequest_def assms(1) Let_def request_empty_def not_less,
       auto simp: fitsRequest_def assms(1) Let_def request_empty_def hice_node_cpu_sum sums_in_range_def wrap64_id
        not_less simp del: concat_eq_Nil_conv)
qed

text \<open>
  C8: what Filter admits. With no ignored resources (the plugin is always created with none) and
  sums inside int64, a node is accepted exactly when its largest container needs no more cores
  than on the reference node, a pod slot is free, and the scaled CPU on top of the scaled CPU of
  the node's pods, the memory, the ephemeral storage and every scalar resource fit into what the
  node can allocate.
\<close>

theorem Filter_correct:
  assumes "ni_node ni = Some node"
    and "kb = hice_factor (pod_Labels pod) ''hice.kb''" and "kj = hice_factor (node_Labels node) ''hice.kj''"
    and "req = computePodResourceRequest env pod"
    and "r = req\<lparr>MilliCPU := scale_cpu env (MilliCPU req) kb kj\<rparr>"
    and "used = (\<Sum>p \<leftarrow> ni_Pods ni. hice_pod_cpu env kj (pi_Pod p))"
    and "sums_in_range r used ni"
  shows "Filter env [] [] pod ni = Returns None \<longleftrightarrow>
    \<not> needs_more_cores (max_cpu_request env pod) kb kj
    \<and> int (length (ni_Pods ni)) + 1 \<le> AllowedPodNumber (ni_Allocatable ni)
    \<and> (request_empty r \<or>
       MilliCPU r + used \<le> MilliCPU (ni_Allocatable ni)
       \<and> Memory r + Memory (ni_Requested ni) \<le> Memory (ni_Allocatable ni)
       \<and> EphemeralStorage r + EphemeralStorage (ni_Requested ni) \<le> EphemeralStorage (ni_Allocatable ni)
       \<and> scalars_fit r ni)"
proof -
  have "Filter env [] [] pod ni = Returns None \<longleftrightarrow>
      \<not> needs_more_cores (max_cpu_request env pod) kb kj \<and> fitsRequest env r ni [] [] = Returns []"
    using assms(1) by (auto simp: Filter_def Let_def assms(2-5) split: go_run.splits)
  then show ?thesis using fitsRequest_empty [of ni node r env] assms by simp
qed

theorem Filter_correct_witness:
  "Filter example_env [] [] hice_web hice_ni = Returns None"
proof -
  have ni: "ni_Pods hice_ni = []" "ni_Requested hice_ni = zero_resource" "AllowedPodNumber (ni_Allocatable hice_ni) = 10"
    "MilliCPU (ni_Allocatable hice_ni) = 4000" "Memory (ni_Allocatable hice_ni) = 0" "EphemeralStorage (ni_Allocatable hice_ni) = 0"
    by code_simp+
  have req: "computePodResourceRequest example_env hice_web = zero_resource\<lparr>MilliCPU := 500\<rparr>"
    and cpu: "scale_cpu example_env 500 (hice_factor (pod_Labels hice_web) ''hice.kb'') (hice_factor (node_Labels hice_node) ''hice.kj'') = 666"
    and fast: "\<not> needs_more_cores (max_cpu_request example_env hice_web)
      (hice_factor (pod_Labels hice_web) ''hice.kb'') (hice_factor (node_Labels hice_node) ''hice.kj'')"
    by code_simp+
  show ?thesis
    by (subst Filter_correct [OF hice_ni_node refl refl refl refl refl])
      (simp_all add: ni req cpu fast sums_in_range_def scalars_fit_def zero_resource_def, simp add: in_int64_def)
qed

section \<open>Default performance\<close>

lemma round_mag_idem: "0 \<le> m \<Longrightarrow> round_mag (round_mag m) = round_mag m"
proof (cases "m = 0")
  case False
  assume "0 \<le> m"
  with False have m: "0 < m" by simp
  define e where "e = max (rat_exp m) (-1022) - 52"
  define k where "k = round_half_even (m / pow2 e)"
  have "0 \<le> k" unfolding k_def by (rule round_half_even_ge) (use m in simp)
  moreover have "k \<le> 9007199254740992"
    unfolding k_def using scaled_mantissa_less [OF m] by (intro round_half_even_le) (simp add: e_def)
  moreover have "-1074 \<le> e" by (simp add: e_def)
  ultimately show ?thesis
    using round_mag_exact [of k e] by (simp add: round_mag_pos_eq [OF m] k_def e_def)
qed simp

lemma f64_round_idem: "0 \<le> m \<Longrightarrow> f64_round s m = F64_Fin t x \<Longrightarrow> f64_round u x = F64_Fin u x"
  by (auto simp: f64_round_round_mag round_mag_idem round_mag_nonneg split: if_splits)

lemma hice_factor_default: "gomap_get labels key = None \<Longrightarrow> hice_factor labels key = f64_one"
  by (simp add: hice_factor_def)

lemma parse_default: "parseFloat ''1.0'' = Some f64_one"
  by code_simp

lemma f64_of_int_round_trip:
  assumes "\<bar>c\<bar> \<le> 9007199254740992"
  shows "f64_mul (f64_of_int c) f64_one = f64_of_int c" "f64_div (f64_of_int c) f64_one = f64_of_int c"
proof -
  have "f64_round s (of_int \<bar>c\<bar>) = F64_Fin s (of_int \<bar>c\<bar>)" for s
  proof -
    have "of_int \<bar>c\<bar> \<le> (9007199254740992 :: rat)" using assms by (metis of_int_le_iff of_int_numeral)
    also have "\<dots> \<le> pow2 1023" unfolding pow2_53 [symmetric] by simp
    finally show ?thesis using f64_round_finite [of "of_int \<bar>c\<bar>" s] round_mag_of_int [of "\<bar>c\<bar>"] assms by simp
  qed
  then show "f64_mul (f64_of_int c) f64_one = f64_of_int c" "f64_div (f64_of_int c) f64_one = f64_of_int c"
    by (simp_all add: f64_of_int_exact [OF assms] f64_one_def)
qed

text \<open>
  C28: without performance labels the plugin changes nothing: for requests up to 2^53 milli-CPUs
  scaling is the identity and no node is refused for its performance.
\<close>

theorem unlabelled_is_neutral:
  assumes "gomap_get (pod_Labels pod) ''hice.kb'' = None" and "gomap_get (node_Labels node) ''hice.kj'' = None"
    and "\<bar>c\<bar> \<le> 9007199254740992"
  shows "scale_cpu env c (hice_factor (pod_Labels pod) ''hice.kb'') (hice_factor (node_Labels node) ''hice.kj'') = c
    \<and> \<not> needs_more_cores c (hice_factor (pod_Labels pod) ''hice.kb'') (hice_factor (node_Labels node) ''hice.kj'')"
proof -
  have f: "hice_factor (pod_Labels pod) ''hice.kb'' = f64_one" "hice_factor (node_Labels node) ''hice.kj'' = f64_one"
    using assms(1,2) by (simp_all add: hice_factor_default)
  have "in_int64 c" using assms(3) by (auto simp: in_int64_def)
  then have "f64_to_int64 (env_oob env) (f64_of_int c) = c"
    by (simp add: f64_to_int64_def f64_of_int_exact [OF assms(3)] rat_trunc_def)
  then have 1: "scale_cpu env c f64_one f64_one = c"
    by (simp add: scale_cpu_def f64_of_int_round_trip [OF assms(3)])
  have "\<not> needs_more_cores c f64_one f64_one"
  proof (cases "f64_div (f64_of_int c) (f64_of_int 1000)")
    case (F64_Fin s m)
    then have "f64_round (c < 0) (of_int \<bar>c\<bar> / 1000) = F64_Fin s m"
      by (simp add: f64_of_int_exact [OF assms(3)] f64_of_int_exact [of 1000])
    then have "f64_round u m = F64_Fin u m" for u by (rule f64_round_idem [rotated]) simp
    moreover have "\<not> m < of_int \<lfloor>m\<rfloor>" "\<not> of_int \<lceil>m\<rceil> < m" by (simp_all add: not_less)
    ultimately show ?thesis using F64_Fin by (simp add: needs_more_cores_def f64_one_def)
  qed (auto simp: needs_more_cores_def f64_one_def)
  with 1 f show ?thesis by simp
qed

theorem unlabelled_is_neutral_witness:
  "scale_cpu example_env 1500 (hice_factor (pod_Labels example_web) ''hice.kb'') (hice_factor (node_Labels (example_node ''arm64'')) ''hice.kj'') = 1500
    \<and> \<not> needs_more_cores 1500 (hice_factor (pod_Labels example_web) ''hice.kb'') (hice_factor (node_Labels (example_node ''arm64'')) ''hice.kj'')"
  by (rule unlabelled_is_neutral) (simp_all add: example_web_def example_pod_def example_node_def)

section \<open>Score\<close>

lemma perf_score_bounds:
  assumes "pow2 (-1022) \<le> n" and "n < b" and "b \<le> pow2 1000" and "base = 1 \<or> base = 51"
  shows "base \<le> perf_score env base (F64_Fin False n) (F64_Fin False b)
    \<and> perf_score env base (F64_Fin False n) (F64_Fin False b) \<le> base + 49"
proof -
  have n: "0 < n" using assms(1) pow2_pos [of "-1022"] by linarith
  then have b: "0 < b" using assms(2) by linarith
  have half: "round_mag (of_int k / 2) = of_int k / 2" if "0 \<le> k" "k \<le> 1000" for k
    using round_mag_exact [of k "-1"] that by (simp add: pow2_def)
  have small: "f64_round False x = F64_Fin False (round_mag x)" if "0 \<le> x" "x \<le> 1000" for x
  proof -
    have "x \<le> pow2 53" using that by (simp add: pow2_53)
    also have "\<dots> \<le> pow2 1023" by simp
    finally show ?thesis using that by (simp add: f64_round_finite)
  qed
  define x where "x = round_mag (49 * n)"
  define y where "y = round_mag (x / b)"
  define z where "z = round_mag (of_int base + y)"
  have "49 * n \<le> pow2 1023"
  proof -
    have "49 * n \<le> 64 * pow2 1000" using assms(2,3) n by linarith
    also have "\<dots> = pow2 1006" using pow2_add [of 6 1000] by (simp add: pow2_def)
    also have "\<dots> \<le> pow2 1023" by simp
    finally show ?thesis .
  qed
  then have fx: "f64_round False (49 * n) = F64_Fin False x" using n by (simp add: f64_round_finite x_def)
  have x: "0 \<le> x" "x \<le> 99 / 2 * n"
  proof -
    show "0 \<le> x" unfolding x_def using n by (simp add: round_mag_nonneg)
    have "x - 49 * n \<le> 49 * n * pow2 (-53)"
      using round_mag_rel_error [of "49 * n"] assms(1) n by (auto simp: x_def abs_le_iff)
    moreover have "49 * n * pow2 (-53) \<le> n / 2" using n by (simp add: pow2_def power_int_def field_simps)
    ultimately show "x \<le> 99 / 2 * n" by linarith
  qed
  have xb: "0 \<le> x / b" "x / b \<le> of_int 99 / 2"
  proof -
    have "x \<le> 99 / 2 * b" using x(2) assms(2) by linarith
    then show "x / b \<le> of_int 99 / 2" using b by (simp add: divide_le_eq)
  qed (use x b in simp)
  have y: "0 \<le> y" "y \<le> 99 / 2"
    using round_mag_nonneg [OF xb(1)] round_mag_mono [OF xb] half [of 99] by (simp_all add: y_def)
  have z: "of_int base \<le> z" "z \<le> of_int base + 99 / 2"
  proof -
    have "round_mag (of_int base) \<le> z" unfolding z_def by (rule round_mag_mono) (use y assms(4) in auto)
    then show "of_int base \<le> z" using round_mag_of_int [of base] assms(4) by auto
    have "z \<le> round_mag (of_int (2 * base + 99) / 2)"
      unfolding z_def by (rule round_mag_mono) (use y assms(4) in \<open>auto simp: field_simps\<close>)
    then show "z \<le> of_int base + 99 / 2" using half [of "2 * base + 99"] assms(4) by auto
  qed
  have "f64_add (f64_of_int base) (f64_div (f64_mul (f64_of_int 49) (F64_Fin False n)) (F64_Fin False b)) = F64_Fin False z"
  proof -
    have "f64_div (f64_mul (f64_of_int 49) (F64_Fin False n)) (F64_Fin False b) = F64_Fin False y"
      using b small [OF xb(1) order_trans [OF xb(2)]] by (simp add: f64_of_int_exact fx y_def)
    moreover have "f64_of_int base = F64_Fin False (of_int base)" using assms(4) by (auto simp: f64_of_int_exact)
    moreover have "f64_round False (of_int base + y) = F64_Fin False z"
      using y assms(4) by (auto simp: z_def small)
    ultimately show ?thesis using y assms(4) by (auto simp: f64_of_rat_def)
  qed
  moreover have "f64_to_int64 (env_oob env) (F64_Fin False z) = \<lfloor>z\<rfloor>"
    by (rule f64_to_int64_Fin) (use z assms(4) in auto)
  ultimately show ?thesis
    using z by (auto simp: perf_score_def le_floor_iff floor_le_iff)
qed

lemma fold_larger:
  fixes f :: "'a \<Rightarrow> int"
  shows "fold (\<lambda>x l. if l < f x then f x else l) xs l = Max (insert l (f ` set xs))"
proof -
  have "(\<lambda>x l. if l < f x then f x else l) = (\<lambda>x. max (f x))"
    by (intro ext) (simp add: max_def)
  then show ?thesis
    using Max.set_eq_fold [of l "map f xs"] by (simp add: fold_map comp_def)
qed

lemma hiceLevel_range: "hiceLevel env req lmt b n \<in> {0, 1, 2, 3}"
  by (simp add: hiceLevel_def Let_def)

lemma hiceLevel_fast_node: "f64_le b n \<Longrightarrow> hiceLevel env req lmt b n = 0"
  by (simp add: hiceLevel_def)

text \<open>The level of a pod is the largest level of its containers.\<close>

lemma pod_level_Max:
  "pod_level env b n cts =
     Max (insert 0 ((\<lambda>ct. hiceLevel env (milli_cpu env (ct_Requests ct)) (milli_cpu env (ct_Limits ct)) b n) ` set cts))"
  unfolding pod_level_def milli_cpu_def Let_def by (rule fold_larger)

lemma pod_level_range: "pod_level env b n cts \<in> {0, 1, 2, 3}"
proof -
  have "pod_level env b n cts \<in> insert 0 ((\<lambda>ct. hiceLevel env (milli_cpu env (ct_Requests ct)) (milli_cpu env (ct_Limits ct)) b n) ` set cts)"
    unfolding pod_level_Max by (rule Max_in) simp_all
  moreover have "\<dots> \<subseteq> {0, 1, 2, 3}" using hiceLevel_range by fast
  ultimately show ?thesis by (rule subsetD [rotated])
qed

lemma pod_level_fast_node: "f64_le b n \<Longrightarrow> pod_level env b n cts = 0"
proof -
  assume "f64_le b n"
  then have "insert 0 ((\<lambda>ct. hiceLevel env (milli_cpu env (ct_Requests ct)) (milli_cpu env (ct_Limits ct)) b n) ` set cts) = {0}"
    by (auto simp: hiceLevel_fast_node)
  then show ?thesis by (simp only: pod_level_Max Max_singleton)
qed

text \<open>
  C22: scores of the plugin are legal and ordered by level. For performance labels from the normal
  float64 range the score lies in 0..100: a node that needs no more cores for any request or limit
  gets 51 to 100, one where only limits need more gets 1 to 50, one where a request needs more
  gets 0, and a node at least as fast as the reference node gets 100.
\<close>

theorem Score_levels:
  assumes "nodeInfos nodeName = Inr ni" and "ni_node ni = Some node" and "gomap_get (pod_Labels pod) ''hice.kb'' = Some s"
    and "hice_factor (pod_Labels pod) ''hice.kb'' = F64_Fin False b" and "hice_factor (node_Labels node) ''hice.kj'' = F64_Fin False n"
    and "pow2 (-1022) \<le> n" and "b \<le> pow2 1000"
  shows "\<exists>sc. Score env nodeInfos pod nodeName = Returns (sc, None) \<and>
    (case pod_level env (F64_Fin False b) (F64_Fin False n) (pod_Containers pod) of lvl \<Rightarrow>
       (lvl = 0 \<and> sc = 100) \<or> (lvl = 1 \<and> sc \<in> {51..100}) \<or> (lvl = 2 \<and> sc \<in> {1..50}) \<or> (lvl = 3 \<and> sc = 0))"
proof -
  define lvl where "lvl = pod_level env (F64_Fin False b) (F64_Fin False n) (pod_Containers pod)"
  have range: "lvl \<in> {0, 1, 2, 3}" unfolding lvl_def by (rule pod_level_range)
  have slow: "n < b" if "lvl \<noteq> 0"
    using pod_level_fast_node [of "F64_Fin False b" "F64_Fin False n" env "pod_Containers pod"] that
    by (force simp: lvl_def f64_le_def)
  have score: "Score env nodeInfos pod nodeName = Returns (if lvl = 0 then 100
      else if lvl = 1 then perf_score env 51 (F64_Fin False n) (F64_Fin False b)
      else if lvl = 2 then perf_score env 1 (F64_Fin False n) (F64_Fin False b) else 0, None)"
    using assms(1-5) by (simp add: Score_def Let_def lvl_def)
  have bounds: "base \<le> perf_score env base (F64_Fin False n) (F64_Fin False b)
      \<and> perf_score env base (F64_Fin False n) (F64_Fin False b) \<le> base + 49"
    if "lvl \<noteq> 0" "base = 1 \<or> base = 51" for base
    by (rule perf_score_bounds [OF assms(6) slow [OF that(1)] assms(7) that(2)])
  consider "lvl = 0" | "lvl = 1" | "lvl = 2" | "lvl = 3" using range by blast
  then show ?thesis
    using bounds [of 51] bounds [of 1] score unfolding lvl_def [symmetric] by cases simp_all
qed

lemma hice_factors: "hice_factor (pod_Labels hice_web) ''hice.kb'' = F64_Fin False 2"
  "hice_factor (node_Labels hice_node) ''hice.kj'' = F64_Fin False (3 / 2)"
  by code_simp+

theorem Score_levels_witness:
  "\<exists>sc. Score example_env (\<lambda>_. Inr hice_ni) hice_web ''n1'' = Returns (sc, None) \<and>
    (case pod_level example_env (F64_Fin False 2) (F64_Fin False (3 / 2)) (pod_Containers hice_web) of lvl \<Rightarrow>
       (lvl = 0 \<and> sc = 100) \<or> (lvl = 1 \<and> sc \<in> {51..100}) \<or> (lvl = 2 \<and> sc \<in> {1..50}) \<or> (lvl = 3 \<and> sc = 0))"
proof (rule Score_levels [OF refl hice_ni_node _ hice_factors])
  show "gomap_get (pod_Labels hice_web) ''hice.kb'' = Some ''2.0''" by (simp add: hice_web_def)
  have "pow2 (-1022) \<le> pow2 0" "pow2 1 \<le> pow2 1000" by (simp_all only: pow2_le_iff)
  then show "pow2 (-1022) \<le> 3 / 2" "2 \<le> pow2 1000" by (simp_all add: pow2_def)
qed

section \<open>Where Filter, Bind and Score disagree\<close>

text \<open>A pod with two containers, a node with a given CPU capacity, and the total a bound pod asks for.\<close>

definition two_containers :: "string \<Rightarrow> int \<Rightarrow> int \<Rightarrow> Pod" where
  "two_containers kb a b =
     (example_pod ''p'' ''u'' [example_container ''c'' ''web'' a, example_container ''d'' ''web'' b])
       \<lparr>pod_Labels := [(''hice.kb'', kb)]\<rparr>"

definition capacity_node :: "string \<Rightarrow> int \<Rightarrow> NodeInfo" where
  "capacity_node kj cpu = snd (SetNode example_env ((example_node ''arm64'')\<lparr>node_Labels := [(''hice.kj'', kj)],
     node_Allocatable := [(ResourceCPU, NewMilliQuantity cpu DecimalSI), (ResourcePods, NewQuantity 10 DecimalSI)]\<rparr>)
     (NewNodeInfo example_env 0 []))"

definition bound_cpu :: "runtime_env \<Rightarrow> string \<Rightarrow> Pod \<Rightarrow> int option" where
  "bound_cpu env kj pod =
     (case ConvertPodCpu env (hice_factor (pod_Labels pod) ''hice.kb'') (hice_factor [(''hice.kj'', kj)] ''hice.kj'') pod of
        Returns q \<Rightarrow> Some (MilliCPU (computePodResourceRequest env q)) | Panics _ \<Rightarrow> None)"


text \<open>
  Filter checks the core count of the container with the largest request only, so it admits a
  node on which another container needs more cores than on the reference node, the level that
  Score takes for already filtered out.
\<close>

theorem level_3_is_not_filtered:
  "Filter example_env [] [] (two_containers ''1.5'' 1300 900) (capacity_node ''1.0'' 4000) = Returns None
   \<and> Score example_env (\<lambda>_. Inr (capacity_node ''1.0'' 4000)) (two_containers ''1.5'' 1300 900) ''n1'' = Returns (0, None)
   \<and> needs_more_cores 900 (hice_factor [(''hice.kb'', ''1.5'')] ''hice.kb'') (hice_factor [(''hice.kj'', ''1.0'')] ''hice.kj'')"
  by (intro conjI) code_simp+

text \<open>
  Equal performance labels do not make scaling the identity: the float64 product is rounded
  before the division, and truncation then loses a milli-CPU.
\<close>

lemma equal_labels_lose_cpu:
  "scale_cpu example_env 29 (hice_factor [(''hice.kb'', ''0.01'')] ''hice.kb'') (hice_factor [(''hice.kj'', ''0.01'')] ''hice.kj'') = 28"
  by code_simp

end
