(* ===== verification/Heap_Order.thy ===== *)
theory Heap_Order
  imports Go_Prelude
begin

text \<open>
  Binary heaps in a list, as Go's container/heap arranges them: the children of index i are
  2*i+1 and 2*i+2. Sifting up and down is defined on plain lists here, and the locale
  \<open>queue_order\<close> carries the proofs for every comparison that is a strict weak order.
\<close>

definition par :: "nat \<Rightarrow> nat" where
  "par k = (k - 1) div 2"

lemma par_less: "0 < k \<Longrightarrow> par k < k"
  by (simp add: par_def)

lemma par_child: "0 < k \<Longrightarrow> par k = i \<longleftrightarrow> k = 2 * i + 1 \<or> k = 2 * i + 2"
  by (auto simp: par_def)

definition swap :: "'a list \<Rightarrow> nat \<Rightarrow> nat \<Rightarrow> 'a list" where
  "swap xs i j = xs[i := xs ! j, j := xs ! i]"

lemma length_swap [simp]: "length (swap xs i j) = length xs"
  by (simp add: swap_def)

lemma nth_swap: "i < length xs \<Longrightarrow> j < length xs \<Longrightarrow>
    swap xs i j ! k = (if k = i then xs ! j else if k = j then xs ! i else xs ! k)"
  by (auto simp: swap_def nth_list_update)

lemma mset_swap_list [simp]: "i < length xs \<Longrightarrow> j < length xs \<Longrightarrow> mset (swap xs i j) = mset xs"
  using mset_swap [of j xs i] by (simp add: swap_def)

text \<open>The comparison as a parameter: \<open>lt x y\<close> when x goes before y.\<close>

function list_up :: "('a \<Rightarrow> 'a \<Rightarrow> bool) \<Rightarrow> 'a list \<Rightarrow> nat \<Rightarrow> 'a list" where
  "list_up lt xs j =
     (if par j = j \<or> \<not> lt (xs ! j) (xs ! par j) then xs else list_up lt (swap xs (par j) j) (par j))"
  by pat_completeness auto
termination by (relation "measure (\<lambda>(lt, xs, j). j)") (auto simp: par_def)

declare list_up.simps [simp del]

definition min_child :: "('a \<Rightarrow> 'a \<Rightarrow> bool) \<Rightarrow> 'a list \<Rightarrow> nat \<Rightarrow> nat \<Rightarrow> nat" where
  "min_child lt xs i n =
     (if 2 * i + 2 < n \<and> lt (xs ! (2 * i + 2)) (xs ! (2 * i + 1)) then 2 * i + 2 else 2 * i + 1)"

function list_down :: "('a \<Rightarrow> 'a \<Rightarrow> bool) \<Rightarrow> 'a list \<Rightarrow> nat \<Rightarrow> nat \<Rightarrow> 'a list \<times> nat" where
  "list_down lt xs i n =
     (if 2 * i + 1 \<ge> n then (xs, i)
      else let j = min_child lt xs i n
           in if \<not> lt (xs ! j) (xs ! i) then (xs, i) else list_down lt (swap xs i j) j n)"
  by pat_completeness auto
termination by (relation "measure (\<lambda>(lt, xs, i, n). n - i)") (auto simp: min_child_def)

declare list_down.simps [simp del]

lemma list_up_mset [simp]: "j < length xs \<Longrightarrow> mset (list_up lt xs j) = mset xs"
proof (induction lt xs j rule: list_up.induct)
  case (1 lt xs j)
  have "par j < length xs" using 1(2) by (simp add: par_def)
  then show ?case using 1 by (subst list_up.simps) simp
qed

lemma length_list_up [simp]: "j < length xs \<Longrightarrow> length (list_up lt xs j) = length xs"
  by (metis list_up_mset size_mset)

lemma list_up_outside: "j < length xs \<Longrightarrow> j < k \<Longrightarrow> list_up lt xs j ! k = xs ! k"
proof (induction lt xs j rule: list_up.induct)
  case (1 lt xs j)
  have "par j \<le> j" by (simp add: par_def)
  then show ?case using 1 by (subst list_up.simps) (auto simp: nth_swap)
qed

lemma min_child_bounds: "2 * i + 1 < n \<Longrightarrow> min_child lt xs i n < n" "i < min_child lt xs i n"
  "par (min_child lt xs i n) = i"
  by (auto simp: min_child_def par_def)

lemma list_down_inv:
  assumes "n \<le> length xs"
  shows "mset (fst (list_down lt xs i n)) = mset xs \<and> i \<le> snd (list_down lt xs i n)
    \<and> (\<forall>k \<ge> n. fst (list_down lt xs i n) ! k = xs ! k)"
  using assms
proof (induction lt xs i n rule: list_down.induct)
  case (1 lt xs i n)
  define j where "j = min_child lt xs i n"
  show ?case
  proof (cases "2 * i + 1 < n \<and> lt (xs ! j) (xs ! i)")
    case True
    have j: "j < n" "i < j" using True min_child_bounds unfolding j_def by blast+
    have "mset (fst (list_down lt (swap xs i j) j n)) = mset (swap xs i j) \<and> j \<le> snd (list_down lt (swap xs i j) j n)
        \<and> (\<forall>k \<ge> n. fst (list_down lt (swap xs i j) j n) ! k = swap xs i j ! k)"
      by (rule "1.IH") (use True 1(2) in \<open>auto simp: j_def\<close>)
    moreover have "list_down lt xs i n = list_down lt (swap xs i j) j n"
      using True by (subst list_down.simps) (simp add: j_def Let_def)
    ultimately show ?thesis using j 1(2) by (auto simp: nth_swap)
  next
    case False
    then have "list_down lt xs i n = (xs, i)" by (subst list_down.simps) (auto simp: j_def)
    then show ?thesis by simp
  qed
qed

lemma length_list_down [simp]: "n \<le> length xs \<Longrightarrow> length (fst (list_down lt xs i n)) = length xs"
  using list_down_inv by (metis size_mset)

text \<open>Restoring an index, as heap.Fix does: down, and if nothing moved, up.\<close>

definition list_fix :: "('a \<Rightarrow> 'a \<Rightarrow> bool) \<Rightarrow> 'a list \<Rightarrow> nat \<Rightarrow> nat \<Rightarrow> 'a list" where
  "list_fix lt xs i n =
     (let r = list_down lt xs i n in if i < snd r then fst r else list_up lt (fst r) i)"

lemma list_fix_inv:
  assumes "i < n" and "n \<le> length xs"
  shows "mset (list_fix lt xs i n) = mset xs \<and> (\<forall>k \<ge> n. list_fix lt xs i n ! k = xs ! k)"
proof -
  have l: "i < length (fst (list_down lt xs i n))" using assms by simp
  show ?thesis
    using list_down_inv [OF assms(2), of lt i] list_up_mset [OF l] list_up_outside [OF l] assms(1)
    by (auto simp: list_fix_def Let_def)
qed

section \<open>Strict weak orders\<close>

locale queue_order =
  fixes lt :: "'a \<Rightarrow> 'a \<Rightarrow> bool"
  assumes asym: "lt x y \<Longrightarrow> \<not> lt y x"
    and negtrans: "\<not> lt x y \<Longrightarrow> \<not> lt y z \<Longrightarrow> \<not> lt x z"
begin

definition le :: "'a \<Rightarrow> 'a \<Rightarrow> bool" where
  "le x y \<longleftrightarrow> \<not> lt y x"

lemma le_refl [simp]: "le x x"
  using asym [of x x] by (auto simp: le_def)

lemma le_trans [trans]: "le x y \<Longrightarrow> le y z \<Longrightarrow> le x z"
  unfolding le_def by (rule negtrans)

lemma lt_le: "lt x y \<Longrightarrow> le x y"
  unfolding le_def by (rule asym)

lemma le_total: "le x y \<or> le y x"
  unfolding le_def using asym by blast

text \<open>The first \<open>n\<close> elements form a heap; the same except at the edges into, or around, one index.\<close>

definition is_heap :: "nat \<Rightarrow> 'a list \<Rightarrow> bool" where
  "is_heap n xs \<longleftrightarrow> (\<forall>k < n. 0 < k \<longrightarrow> le (xs ! par k) (xs ! k))"

definition heap_above :: "nat \<Rightarrow> 'a list \<Rightarrow> nat \<Rightarrow> bool" where
  "heap_above n xs j \<longleftrightarrow> (\<forall>k < n. 0 < k \<longrightarrow> k \<noteq> j \<longrightarrow> le (xs ! par k) (xs ! k))
     \<and> (\<forall>k < n. 0 < k \<longrightarrow> 0 < j \<longrightarrow> par k = j \<longrightarrow> le (xs ! par j) (xs ! k))"

definition heap_below :: "nat \<Rightarrow> 'a list \<Rightarrow> nat \<Rightarrow> bool" where
  "heap_below n xs i \<longleftrightarrow> (\<forall>k < n. 0 < k \<longrightarrow> par k \<noteq> i \<longrightarrow> le (xs ! par k) (xs ! k))
     \<and> (\<forall>k < n. 0 < k \<longrightarrow> 0 < i \<longrightarrow> par k = i \<longrightarrow> le (xs ! par i) (xs ! k))"

definition heap_around :: "nat \<Rightarrow> 'a list \<Rightarrow> nat \<Rightarrow> bool" where
  "heap_around n xs i \<longleftrightarrow> (\<forall>k < n. 0 < k \<longrightarrow> k \<noteq> i \<longrightarrow> par k \<noteq> i \<longrightarrow> le (xs ! par k) (xs ! k))
     \<and> (\<forall>k < n. 0 < k \<longrightarrow> 0 < i \<longrightarrow> par k = i \<longrightarrow> le (xs ! par i) (xs ! k))"

lemma heap_root_min: "is_heap n xs \<Longrightarrow> k < n \<Longrightarrow> le (xs ! 0) (xs ! k)"
proof (induction k rule: less_induct)
  case (less k)
  show ?case
  proof (cases "k = 0")
    case False
    then have "le (xs ! 0) (xs ! par k)" using less par_less [of k] by simp
    also have "le (xs ! par k) (xs ! k)" using less.prems False by (simp add: is_heap_def)
    finally show ?thesis .
  qed simp
qed

lemma list_up_heap: "heap_above n xs j \<Longrightarrow> j < n \<Longrightarrow> n \<le> length xs \<Longrightarrow> is_heap n (list_up lt xs j)"
proof (induction j arbitrary: xs rule: less_induct)
  case (less j)
  show ?case
  proof (cases "0 < j \<and> lt (xs ! j) (xs ! par j)")
    case False
    then have "list_up lt xs j = xs" by (subst list_up.simps) (auto simp: par_def)
    then show ?thesis using less.prems(1) False by (auto simp: is_heap_def heap_above_def le_def)
  next
    case True
    define i where "i = par j"
    have i: "i < j" "j < length xs" using True par_less [of j] less.prems by (auto simp: i_def)
    then have il: "i < length xs" by simp
    define ys where "ys = swap xs i j"
    have ys: "ys ! k = (if k = i then xs ! j else if k = j then xs ! i else xs ! k)" for k
      using i il by (simp add: ys_def nth_swap)
    have ji: "le (xs ! j) (xs ! i)" using True by (simp add: i_def lt_le)
    have "heap_above n ys i"
      unfolding heap_above_def
    proof (intro conjI allI impI)
      fix k assume k: "k < n" "0 < k" "k \<noteq> i"
      consider "k = j" | "k \<noteq> j" "par k = j" | "k \<noteq> j" "par k = i" | "k \<noteq> j" "par k \<noteq> i" "par k \<noteq> j" by blast
      then show "le (ys ! par k) (ys ! k)"
      proof cases
        case 1
        then show ?thesis using ji i by (simp add: ys i_def [symmetric])
      next
        case 2
        then show ?thesis using k less.prems(1) True i by (auto simp: ys heap_above_def i_def)
      next
        case 3
        then have "le (xs ! i) (xs ! k)" using k less.prems(1) by (auto simp: heap_above_def)
        then show ?thesis using 3 k ji i le_trans by (auto simp: ys)
      next
        case 4
        then show ?thesis using k less.prems(1) by (auto simp: ys heap_above_def)
      qed
    next
      fix k assume k: "k < n" "0 < k" "0 < i" "par k = i"
      have pi: "par i < i" "par i \<noteq> j" using k(3) par_less [of i] i by auto
      have up: "le (xs ! par i) (xs ! i)" using less.prems i k(3) by (auto simp: heap_above_def)
      show "le (ys ! par i) (ys ! k)"
      proof (cases "k = j")
        case True
        then show ?thesis using up pi i by (simp add: ys)
      next
        case False
        then have "le (xs ! i) (xs ! k)" using k less.prems(1) by (auto simp: heap_above_def)
        then show ?thesis using up le_trans False pi k par_less [OF k(2)] by (auto simp: ys)
      qed
    qed
    then have "is_heap n (list_up lt ys i)" using less.IH [of i ys] i less.prems by (simp add: ys_def)
    moreover have "list_up lt xs j = list_up lt ys i"
      using True i by (subst list_up.simps) (auto simp: ys_def i_def)
    ultimately show ?thesis by simp
  qed
qed

lemma list_down_step:
  assumes "2 * i + 1 < n" and "lt (xs ! min_child lt xs i n) (xs ! i)"
  shows "list_down lt xs i n = list_down lt (swap xs i (min_child lt xs i n)) (min_child lt xs i n) n"
  using assms by (subst list_down.simps) (simp add: Let_def)

lemma list_down_stop:
  assumes "\<not> (2 * i + 1 < n \<and> lt (xs ! min_child lt xs i n) (xs ! i))"
  shows "list_down lt xs i n = (xs, i)"
  using assms by (subst list_down.simps) (auto simp: Let_def)

text \<open>The child chosen by a sift down is not above its sibling.\<close>

lemma min_child_le:
  assumes "k < n" and "0 < k" and "par k = i"
  shows "le (xs ! min_child lt xs i n) (xs ! k)"
proof -
  have "k = 2 * i + 1 \<or> k = 2 * i + 2" using assms par_child by simp
  then show ?thesis using assms(1) by (auto simp: min_child_def le_def dest: asym)
qed

lemma children_ok:
  assumes "\<not> (2 * i + 1 < n \<and> lt (xs ! min_child lt xs i n) (xs ! i))" and "k < n" and "0 < k" and "par k = i"
  shows "le (xs ! i) (xs ! k)"
proof -
  have "2 * i + 1 < n" using assms(2) par_child [OF assms(3), of i] assms(4) by linarith
  then have "le (xs ! i) (xs ! min_child lt xs i n)" using assms(1) by (simp add: le_def)
  then show ?thesis using min_child_le [OF assms(2-4)] by (rule le_trans)
qed

text \<open>One step down repairs the edges around an index and leaves only those below the child open.\<close>

lemma heap_below_step:
  assumes "heap_around n xs i" and "n \<le> length xs" and "2 * i + 1 < n" and "lt (xs ! min_child lt xs i n) (xs ! i)"
  shows "heap_below n (swap xs i (min_child lt xs i n)) (min_child lt xs i n)"
proof -
  define j where "j = min_child lt xs i n"
  have j: "j < n" "i < j" "par j = i" unfolding j_def using assms(3) by (simp_all add: min_child_bounds)
  then have j0: "0 < j" by simp
  define ys where "ys = swap xs i j"
  have ys: "ys ! k = (if k = i then xs ! j else if k = j then xs ! i else xs ! k)" for k
    using j assms(2) by (simp add: ys_def nth_swap)
  have around: "k < n \<Longrightarrow> 0 < k \<Longrightarrow> k \<noteq> i \<Longrightarrow> par k \<noteq> i \<Longrightarrow> le (xs ! par k) (xs ! k)"
    "k < n \<Longrightarrow> 0 < k \<Longrightarrow> 0 < i \<Longrightarrow> par k = i \<Longrightarrow> le (xs ! par i) (xs ! k)" for k
    using assms(1) by (auto simp: heap_around_def)
  have "heap_below n ys j"
    unfolding heap_below_def
  proof (intro conjI allI impI)
    fix k assume k: "k < n" "0 < k" "par k \<noteq> j"
    consider "k = j" | "k = i" | "k \<noteq> j" "k \<noteq> i" "par k = i" | "k \<noteq> j" "k \<noteq> i" "par k \<noteq> i" by blast
    then show "le (ys ! par k) (ys ! k)"
    proof cases
      case 1
      then show ?thesis using j assms(4) by (simp add: ys j_def [symmetric] lt_le)
    next
      case 2
      moreover have "par i \<noteq> i" "par i \<noteq> j" using 2 k(2) par_less [of i] j by auto
      ultimately show ?thesis using around(2) [of j] j j0 k by (simp add: ys)
    next
      case 3
      then show ?thesis using min_child_le [OF k(1,2)] by (simp add: ys j_def)
    next
      case 4
      then show ?thesis using around(1) [of k] k by (simp add: ys)
    qed
  next
    fix k assume k: "k < n" "0 < k" "0 < j" "par k = j"
    have "k \<noteq> i" "k \<noteq> j" using par_less [OF k(2)] k(4) j by auto
    then show "le (ys ! par j) (ys ! k)" using around(1) [of k] k j by (simp add: ys)
  qed
  then show ?thesis by (simp add: ys_def j_def)
qed

lemma heap_below_around: "heap_below n xs i \<Longrightarrow> heap_around n xs i"
  by (auto simp: heap_below_def heap_around_def)

lemma list_down_heap:
  assumes "heap_below n xs i" and "n \<le> length xs"
  shows "is_heap n (fst (list_down lt xs i n))"
  using assms
proof (induction "n - i" arbitrary: xs i rule: less_induct)
  case less
  show ?case
  proof (cases "2 * i + 1 < n \<and> lt (xs ! min_child lt xs i n) (xs ! i)")
    case True
    have "heap_below n (swap xs i (min_child lt xs i n)) (min_child lt xs i n)"
      using True less.prems by (intro heap_below_step heap_below_around) simp_all
    moreover have "n - min_child lt xs i n < n - i"
      using min_child_bounds(1) [of i n lt xs] min_child_bounds(2) [of i lt xs n] True by linarith
    ultimately show ?thesis using less.hyps less.prems(2) True by (simp add: list_down_step)
  next
    case False
    have "le (xs ! par k) (xs ! k)" if "k < n" "0 < k" for k
      using children_ok [OF False that] less.prems(1) that by (cases "par k = i") (auto simp: heap_below_def)
    then show ?thesis by (simp add: list_down_stop [OF False] is_heap_def)
  qed
qed

lemma list_fix_heap:
  assumes "heap_around n xs i" and "i < n" and "n \<le> length xs"
  shows "is_heap n (list_fix lt xs i n)"
proof (cases "2 * i + 1 < n \<and> lt (xs ! min_child lt xs i n) (xs ! i)")
  case True
  define j where "j = min_child lt xs i n"
  have "is_heap n (fst (list_down lt (swap xs i j) j n))"
    using heap_below_step [OF assms(1,3)] True assms(3) by (intro list_down_heap) (simp_all add: j_def)
  moreover have "i < snd (list_down lt (swap xs i j) j n)"
    using list_down_inv [of n "swap xs i j" lt j] assms(3) min_child_bounds(2) [of i lt xs n] by (auto simp: j_def)
  ultimately show ?thesis
    using True by (simp add: list_fix_def list_down_step j_def Let_def)
next
  case False
  have "heap_above n xs i"
    using children_ok [OF False] assms(1) by (auto simp: heap_above_def heap_around_def)
  then show ?thesis using list_up_heap assms by (simp add: list_fix_def list_down_stop [OF False])
qed

text \<open>Changing one element, appending one, or moving the last one to an index.\<close>

lemma heap_around_update:
  assumes "is_heap n xs" and "i < n" and "n \<le> length xs" and "\<And>k. k < n \<Longrightarrow> k \<noteq> i \<Longrightarrow> ys ! k = xs ! k"
  shows "heap_around n ys i"
  unfolding heap_around_def
proof (intro conjI allI impI)
  fix k assume k: "k < n" "0 < k" "k \<noteq> i" "par k \<noteq> i"
  then have "ys ! k = xs ! k" "ys ! par k = xs ! par k" using assms(4) [of k] assms(4) [of "par k"] par_less [of k] by auto
  then show "le (ys ! par k) (ys ! k)" using assms(1) k by (simp add: is_heap_def)
next
  fix k assume k: "k < n" "0 < k" "0 < i" "par k = i"
  then have "le (xs ! par i) (xs ! i)" "le (xs ! i) (xs ! k)" using assms(1,2) by (auto simp: is_heap_def)
  then have "le (xs ! par i) (xs ! k)" by (rule le_trans)
  moreover have "ys ! k = xs ! k" "ys ! par i = xs ! par i"
    using k assms(2) assms(4) [of k] assms(4) [of "par i"] par_less [of k] par_less [of i] by auto
  ultimately show "le (ys ! par i) (ys ! k)" by simp
qed

lemma heap_around_root: "heap_around n xs 0 \<Longrightarrow> heap_below n xs 0"
  by (auto simp: heap_around_def heap_below_def)

lemma heap_above_append:
  assumes "is_heap (length xs) xs"
  shows "heap_above (Suc (length xs)) (xs @ [y]) (length xs)"
  unfolding heap_above_def
proof (intro conjI allI impI)
  fix k assume k: "k < Suc (length xs)" "0 < k" "k \<noteq> length xs"
  then have "par k < length xs" using par_less [of k] by simp
  then show "le ((xs @ [y]) ! par k) ((xs @ [y]) ! k)" using assms k by (simp add: is_heap_def nth_append)
next
  fix k assume "k < Suc (length xs)" "0 < k" "par k = length xs"
  then show "le ((xs @ [y]) ! par (length xs)) ((xs @ [y]) ! k)" using par_less [of k] by simp
qed

lemma is_heap_mono: "is_heap n xs \<Longrightarrow> m \<le> n \<Longrightarrow> is_heap m xs"
  by (simp add: is_heap_def)

lemma is_heap_butlast:
  assumes "is_heap (length ys - 1) ys"
  shows "is_heap (length (butlast ys)) (butlast ys)"
  unfolding is_heap_def
proof (intro allI impI)
  fix k assume k: "k < length (butlast ys)" "0 < k"
  then have "par k < length (butlast ys)" using par_less [of k] by simp
  then show "le (butlast ys ! par k) (butlast ys ! k)" using assms k by (simp add: is_heap_def nth_butlast)
qed

end

end
