(* ===== verification/Sched_Heap.thy ===== *)
theory Sched_Heap
  imports Heap_Order
begin

text \<open>
  The keyed heap of the scheduling queue (pkg/scheduler/internal/heap/heap.go) on top of Go's
  container/heap: a slice of keys in heap order and a map from keys to objects with their index
  in the slice. It refines the plain list heaps of Heap_Order; the metric recorder is a counter.
\<close>

section \<open>The heap interface\<close>

record 'a heapItem =
  hi_obj :: 'a
  hi_index :: nat

record 'a data =
  dt_items :: "(string, 'a heapItem) gomap"
  dt_queue :: "string list"

definition data_Less :: "('a \<Rightarrow> 'a \<Rightarrow> bool) \<Rightarrow> 'a data \<Rightarrow> nat \<Rightarrow> nat \<Rightarrow> bool go_run" where
  "data_Less lessFunc h i j =
     (if i > length (dt_queue h) \<or> j > length (dt_queue h) then Returns False
      else if i = length (dt_queue h) then Panics ''index out of range''
      else case gomap_get (dt_items h) (dt_queue h ! i) of None \<Rightarrow> Returns False
           | Some itemi \<Rightarrow>
               if j = length (dt_queue h) then Panics ''index out of range''
               else (case gomap_get (dt_items h) (dt_queue h ! j) of None \<Rightarrow> Returns False
                     | Some itemj \<Rightarrow> Returns (lessFunc (hi_obj itemi) (hi_obj itemj))))"

definition data_Len :: "'a data \<Rightarrow> nat" where
  "data_Len h = length (dt_queue h)"

definition set_index :: "string \<Rightarrow> nat \<Rightarrow> 'a data \<Rightarrow> 'a data go_run" where
  "set_index key i h =
     (case gomap_get (dt_items h) key of None \<Rightarrow> Panics ''nil pointer dereference''
      | Some item \<Rightarrow> Returns (h\<lparr>dt_items := gomap_set (dt_items h) key (item\<lparr>hi_index := i\<rparr>)\<rparr>))"

definition data_Swap :: "'a data \<Rightarrow> nat \<Rightarrow> nat \<Rightarrow> 'a data go_run" where
  "data_Swap h i j =
     (if i \<ge> length (dt_queue h) \<or> j \<ge> length (dt_queue h) then Panics ''index out of range''
      else let q = swap (dt_queue h) i j
           in go_bind (set_index (q ! i) i (h\<lparr>dt_queue := q\<rparr>)) (set_index (q ! j) j))"

definition data_Push :: "'a data \<Rightarrow> string \<Rightarrow> 'a \<Rightarrow> 'a data" where
  "data_Push h key obj =
     h\<lparr>dt_items := gomap_set (dt_items h) key \<lparr>hi_obj = obj, hi_index = length (dt_queue h)\<rparr>,
       dt_queue := dt_queue h @ [key]\<rparr>"

definition data_Pop :: "'a data \<Rightarrow> ('a option \<times> 'a data) go_run" where
  "data_Pop h =
     (if dt_queue h = [] then Panics ''index out of range''
      else let key = last (dt_queue h); h' = h\<lparr>dt_queue := butlast (dt_queue h)\<rparr>
           in case gomap_get (dt_items h) key of None \<Rightarrow> Returns (None, h')
              | Some item \<Rightarrow> Returns (Some (hi_obj item), h'\<lparr>dt_items := gomap_delete (dt_items h) key\<rparr>))"

definition data_Peek :: "'a data \<Rightarrow> 'a option go_run" where
  "data_Peek h =
     (case dt_queue h of [] \<Rightarrow> Returns None
      | key # _ \<Rightarrow> (case gomap_get (dt_items h) key of None \<Rightarrow> Panics ''nil pointer dereference''
                   | Some item \<Rightarrow> Returns (Some (hi_obj item))))"

section \<open>container/heap\<close>

function up :: "('a \<Rightarrow> 'a \<Rightarrow> bool) \<Rightarrow> 'a data \<Rightarrow> nat \<Rightarrow> 'a data go_run" where
  "up lt h j =
     (let i = (j - 1) div 2 in
      if i = j then Returns h
      else go_bind (data_Less lt h j i) (\<lambda>less.
        if \<not> less then Returns h else go_bind (data_Swap h i j) (\<lambda>h'. up lt h' i)))"
  by pat_completeness auto
termination by (relation "measure (\<lambda>(lt, h, j). j)") auto

declare up.simps [simp del]

text \<open>The heap and the index where the element ended.\<close>

function down :: "('a \<Rightarrow> 'a \<Rightarrow> bool) \<Rightarrow> 'a data \<Rightarrow> nat \<Rightarrow> nat \<Rightarrow> ('a data \<times> nat) go_run" where
  "down lt h i n =
     (let j1 = 2 * i + 1; j2 = j1 + 1 in
      if j1 \<ge> n then Returns (h, i)
      else go_bind (if j2 < n then data_Less lt h j2 j1 else Returns False) (\<lambda>right.
        go_bind (data_Less lt h (if right then j2 else j1) i) (\<lambda>less.
          if \<not> less then Returns (h, i)
          else go_bind (data_Swap h i (if right then j2 else j1)) (\<lambda>h'. down lt h' (if right then j2 else j1) n))))"
  by pat_completeness auto
termination by (relation "measure (\<lambda>(lt, h, i, n). n - i)") auto

declare down.simps [simp del]

definition heap_Push :: "('a \<Rightarrow> 'a \<Rightarrow> bool) \<Rightarrow> 'a data \<Rightarrow> string \<Rightarrow> 'a \<Rightarrow> 'a data go_run" where
  "heap_Push lt h key obj = (let h' = data_Push h key obj in up lt h' (data_Len h' - 1))"

definition heap_Pop :: "('a \<Rightarrow> 'a \<Rightarrow> bool) \<Rightarrow> 'a data \<Rightarrow> ('a option \<times> 'a data) go_run" where
  "heap_Pop lt h =
     (if data_Len h = 0 then Panics ''index out of range''
      else let n = data_Len h - 1 in
        go_bind (data_Swap h 0 n) (\<lambda>h1. go_bind (down lt h1 0 n) (\<lambda>(h2, _). data_Pop h2)))"

definition heap_Fix :: "('a \<Rightarrow> 'a \<Rightarrow> bool) \<Rightarrow> 'a data \<Rightarrow> nat \<Rightarrow> nat \<Rightarrow> 'a data go_run" where
  "heap_Fix lt h i n = go_bind (down lt h i n) (\<lambda>(h', i'). if i < i' then Returns h' else up lt h' i)"

definition heap_Remove :: "('a \<Rightarrow> 'a \<Rightarrow> bool) \<Rightarrow> 'a data \<Rightarrow> nat \<Rightarrow> ('a option \<times> 'a data) go_run" where
  "heap_Remove lt h i =
     (if data_Len h = 0 then Panics ''index out of range''
      else let n = data_Len h - 1 in
        go_bind (if n \<noteq> i then go_bind (data_Swap h i n) (\<lambda>h1. heap_Fix lt h1 i n) else Returns h) data_Pop)"

section \<open>The heap\<close>

record 'a Heap =
  heap_data :: "'a data"
  heap_metric :: "int option"

type_synonym 'a keyFunc = "'a \<Rightarrow> string + string"

definition metric_add :: "int \<Rightarrow> 'a Heap \<Rightarrow> 'a Heap" where
  "metric_add d h = h\<lparr>heap_metric := map_option (\<lambda>c. c + d) (heap_metric h)\<rparr>"

text \<open>Every operation returns the error, if any, and the heap; a key error is passed on as it is.\<close>

definition Heap_Add :: "'a keyFunc \<Rightarrow> ('a \<Rightarrow> 'a \<Rightarrow> bool) \<Rightarrow> 'a \<Rightarrow> 'a Heap \<Rightarrow> (string option \<times> 'a Heap) go_run" where
  "Heap_Add keyFunc lt obj h =
     (case keyFunc obj of Inl err \<Rightarrow> Returns (Some err, h)
      | Inr key \<Rightarrow>
        (case gomap_get (dt_items (heap_data h)) key of
           Some item \<Rightarrow>
             (let d = (heap_data h)\<lparr>dt_items := gomap_set (dt_items (heap_data h)) key (item\<lparr>hi_obj := obj\<rparr>)\<rparr>
              in go_bind (heap_Fix lt d (hi_index item) (data_Len d)) (\<lambda>d'. Returns (None, h\<lparr>heap_data := d'\<rparr>)))
         | None \<Rightarrow>
             go_bind (heap_Push lt (heap_data h) key obj) (\<lambda>d'. Returns (None, metric_add 1 (h\<lparr>heap_data := d'\<rparr>)))))"

definition Heap_AddIfNotPresent :: "'a keyFunc \<Rightarrow> ('a \<Rightarrow> 'a \<Rightarrow> bool) \<Rightarrow> 'a \<Rightarrow> 'a Heap \<Rightarrow> (string option \<times> 'a Heap) go_run" where
  "Heap_AddIfNotPresent keyFunc lt obj h =
     (case keyFunc obj of Inl err \<Rightarrow> Returns (Some err, h)
      | Inr key \<Rightarrow>
        (case gomap_get (dt_items (heap_data h)) key of Some _ \<Rightarrow> Returns (None, h)
         | None \<Rightarrow>
             go_bind (heap_Push lt (heap_data h) key obj) (\<lambda>d'. Returns (None, metric_add 1 (h\<lparr>heap_data := d'\<rparr>)))))"

definition Heap_Update :: "'a keyFunc \<Rightarrow> ('a \<Rightarrow> 'a \<Rightarrow> bool) \<Rightarrow> 'a \<Rightarrow> 'a Heap \<Rightarrow> (string option \<times> 'a Heap) go_run" where
  "Heap_Update = Heap_Add"

definition Heap_Delete :: "'a keyFunc \<Rightarrow> ('a \<Rightarrow> 'a \<Rightarrow> bool) \<Rightarrow> 'a \<Rightarrow> 'a Heap \<Rightarrow> (string option \<times> 'a Heap) go_run" where
  "Heap_Delete keyFunc lt obj h =
     (case keyFunc obj of Inl err \<Rightarrow> Returns (Some err, h)
      | Inr key \<Rightarrow>
        (case gomap_get (dt_items (heap_data h)) key of
           Some item \<Rightarrow>
             go_bind (heap_Remove lt (heap_data h) (hi_index item))
               (\<lambda>(_, d'). Returns (None, metric_add (-1) (h\<lparr>heap_data := d'\<rparr>)))
         | None \<Rightarrow> Returns (Some ''object not found'', h)))"

definition Heap_Peek :: "'a Heap \<Rightarrow> 'a option go_run" where
  "Heap_Peek h = data_Peek (heap_data h)"

definition Heap_Pop :: "('a \<Rightarrow> 'a \<Rightarrow> bool) \<Rightarrow> 'a Heap \<Rightarrow> ((string + 'a) \<times> 'a Heap) go_run" where
  "Heap_Pop lt h =
     go_bind (heap_Pop lt (heap_data h)) (\<lambda>(obj, d').
       case obj of Some x \<Rightarrow> Returns (Inr x, metric_add (-1) (h\<lparr>heap_data := d'\<rparr>))
       | None \<Rightarrow> Returns (Inl ''object was removed from heap data'', h\<lparr>heap_data := d'\<rparr>))"

definition Heap_GetByKey :: "string \<Rightarrow> 'a Heap \<Rightarrow> 'a option" where
  "Heap_GetByKey key h = map_option hi_obj (gomap_get (dt_items (heap_data h)) key)"

definition Heap_Get :: "'a keyFunc \<Rightarrow> 'a \<Rightarrow> 'a Heap \<Rightarrow> string + 'a option" where
  "Heap_Get keyFunc obj h =
     (case keyFunc obj of Inl err \<Rightarrow> Inl err | Inr key \<Rightarrow> Inr (Heap_GetByKey key h))"

definition Heap_List :: "'a Heap \<Rightarrow> 'a list" where
  "Heap_List h = map (\<lambda>(_, item). hi_obj item) (dt_items (heap_data h))"

definition Heap_Len :: "'a Heap \<Rightarrow> nat" where
  "Heap_Len h = length (dt_queue (heap_data h))"

definition Heap_New :: "int option \<Rightarrow> 'a Heap" where
  "Heap_New metricRecorder = \<lparr>heap_data = \<lparr>dt_items = [], dt_queue = []\<rparr>, heap_metric = metricRecorder\<rparr>"

section \<open>Refinement of list heaps\<close>

text \<open>
  The structural invariant: the keys of the slice are exactly those of the map, once each, and
  every object knows its index.
\<close>

definition data_inv :: "'a data \<Rightarrow> bool" where
  "data_inv h \<longleftrightarrow> gomap_ok (dt_items h) \<and> distinct (dt_queue h) \<and> set (dt_queue h) = fst ` set (dt_items h)
     \<and> (\<forall>i < length (dt_queue h). map_option hi_index (gomap_get (dt_items h) (dt_queue h ! i)) = Some i)"

definition obj_of :: "'a data \<Rightarrow> string \<Rightarrow> 'a" where
  "obj_of h key = hi_obj (the (gomap_get (dt_items h) key))"

text \<open>The abstraction: keys with their objects, in the order of the slice.\<close>

definition entries :: "'a data \<Rightarrow> (string \<times> 'a) list" where
  "entries h = map (\<lambda>key. (key, obj_of h key)) (dt_queue h)"

definition entry_less :: "('a \<Rightarrow> 'a \<Rightarrow> bool) \<Rightarrow> string \<times> 'a \<Rightarrow> string \<times> 'a \<Rightarrow> bool" where
  "entry_less lt e e' = lt (snd e) (snd e')"

lemma length_entries [simp]: "length (entries h) = length (dt_queue h)"
  by (simp add: entries_def)

lemma data_inv_get:
  assumes "data_inv h" and "i < length (dt_queue h)"
  obtains item where "gomap_get (dt_items h) (dt_queue h ! i) = Some item" "hi_index item = i"
    "snd (entries h ! i) = hi_obj item"
proof -
  obtain item where item: "gomap_get (dt_items h) (dt_queue h ! i) = Some item" "hi_index item = i"
    using assms unfolding data_inv_def by (metis map_option_eq_Some)
  moreover have "snd (entries h ! i) = hi_obj item"
    using assms(2) item(1) by (simp add: entries_def obj_of_def)
  ultimately show ?thesis by (rule that)
qed

lemma data_Less_entries:
  assumes "data_inv h" and "i < length (dt_queue h)" and "j < length (dt_queue h)"
  shows "data_Less lt h i j = Returns (entry_less lt (entries h ! i) (entries h ! j))"
proof -
  obtain a b where "gomap_get (dt_items h) (dt_queue h ! i) = Some a" "snd (entries h ! i) = hi_obj a"
    "gomap_get (dt_items h) (dt_queue h ! j) = Some b" "snd (entries h ! j) = hi_obj b"
    using data_inv_get [OF assms(1,2)] data_inv_get [OF assms(1,3)] by metis
  then show ?thesis using assms by (simp add: data_Less_def entry_less_def)
qed

lemma set_swap [simp]: "i < length xs \<Longrightarrow> j < length xs \<Longrightarrow> set (swap xs i j) = set xs"
  by (metis mset_swap_list set_mset_mset)

lemma distinct_swap [simp]: "i < length xs \<Longrightarrow> j < length xs \<Longrightarrow> distinct (swap xs i j) = distinct xs"
  by (metis mset_swap_list mset_eq_imp_distinct_iff)

lemma data_Swap_entries:
  assumes "data_inv h" and "i < length (dt_queue h)" and "j < length (dt_queue h)"
  obtains h' where "data_Swap h i j = Returns h'" "data_inv h'" "entries h' = swap (entries h) i j"
proof -
  define q where "q = swap (dt_queue h) i j"
  have q: "q ! k = (if k = i then dt_queue h ! j else if k = j then dt_queue h ! i else dt_queue h ! k)" for k
    using assms by (simp add: q_def nth_swap)
  have len: "length q = length (dt_queue h)" and set: "set q = set (dt_queue h)" and dist: "distinct q"
    using assms by (simp_all add: q_def data_inv_def)
  obtain a where a: "gomap_get (dt_items h) (q ! i) = Some a"
    using data_inv_get [OF assms(1,3)] q [of i] by auto
  define m1 where "m1 = gomap_set (dt_items h) (q ! i) (a\<lparr>hi_index := i\<rparr>)"
  obtain b where b: "gomap_get m1 (q ! j) = Some b" "hi_obj b = obj_of h (q ! j)"
  proof -
    have qj: "q ! j = dt_queue h ! i" using q [of j] by simp
    obtain b0 where "gomap_get (dt_items h) (q ! j) = Some b0"
      using data_inv_get [OF assms(1,2)] unfolding qj by blast
    then show ?thesis using that a by (cases "q ! j = q ! i") (auto simp: m1_def obj_of_def)
  qed
  define h' where "h' = h\<lparr>dt_queue := q, dt_items := gomap_set m1 (q ! j) (b\<lparr>hi_index := j\<rparr>)\<rparr>"
  have items: "gomap_get (dt_items h') = (gomap_get (dt_items h))(q ! i \<mapsto> a\<lparr>hi_index := i\<rparr>, q ! j \<mapsto> b\<lparr>hi_index := j\<rparr>)"
    by (simp add: h'_def m1_def)
  have queue: "dt_queue h' = q" by (simp add: h'_def)
  have obj: "obj_of h' = obj_of h"
    using a b(2) by (intro ext) (simp add: obj_of_def items)
  show ?thesis
  proof (rule that)
    show "data_Swap h i j = Returns h'"
      using assms(2,3) a b(1) by (simp add: data_Swap_def set_index_def Let_def h'_def m1_def flip: q_def)
    show "entries h' = swap (entries h) i j"
    proof (rule nth_equalityI)
      fix k assume "k < length (entries h')"
      then have "k < length (dt_queue h)" by (simp add: h'_def len)
      then show "entries h' ! k = swap (entries h) i j ! k"
        using assms(2,3) by (simp add: entries_def queue len q nth_swap obj)
    qed (simp add: h'_def len)
    show "data_inv h'"
      unfolding data_inv_def
    proof (intro conjI allI impI)
      show "gomap_ok (dt_items h')" using assms(1) by (simp add: h'_def m1_def data_inv_def)
      show "distinct (dt_queue h')" by (simp add: h'_def dist)
      have "q ! i \<in> set q" "q ! j \<in> set q" using assms(2,3) len by simp_all
      then show "set (dt_queue h') = fst ` set (dt_items h')"
        using assms(1) set by (auto simp: h'_def m1_def gomap_keys_set data_inv_def)
      fix k assume "k < length (dt_queue h')"
      then have k: "k < length q" by (simp add: h'_def)
      show "map_option hi_index (gomap_get (dt_items h') (dt_queue h' ! k)) = Some k"
      proof (cases "k = i \<or> k = j")
        case True
        then show ?thesis
          using nth_eq_iff_index_eq [OF dist] assms(2,3) len by (auto simp: items queue)
      next
        case False
        then have "q ! k \<noteq> q ! i" "q ! k \<noteq> q ! j"
          using nth_eq_iff_index_eq [OF dist k] assms(2,3) len by auto
        then show ?thesis using False k assms(1) len by (simp add: items queue q data_inv_def)
      qed
    qed
  qed
qed

lemma up_entries:
  assumes "data_inv h" and "j < length (dt_queue h)"
  shows "\<exists>h'. up lt h j = Returns h' \<and> data_inv h' \<and> entries h' = list_up (entry_less lt) (entries h) j"
  using assms
proof (induction j arbitrary: h rule: less_induct)
  case (less j)
  define i where "i = (j - 1) div 2"
  have i: "par j = i" "i < length (dt_queue h)" using less.prems(2) by (simp_all add: i_def par_def)
  have L: "data_Less lt h j i = Returns (entry_less lt (entries h ! j) (entries h ! i))"
    using less.prems i(2) by (rule_tac data_Less_entries) simp_all
  have U: "up lt h j = (if i = j then Returns h else go_bind (data_Less lt h j i) (\<lambda>less.
      if \<not> less then Returns h else go_bind (data_Swap h i j) (\<lambda>h'. up lt h' i)))"
    by (subst up.simps) (simp only: Let_def i_def)
  show ?case
  proof (cases "i = j \<or> \<not> entry_less lt (entries h ! j) (entries h ! i)")
    case True
    then show ?thesis
      using less.prems(1) L by (auto simp: U list_up.simps [of _ _ j] i(1))
  next
    case False
    obtain h1 where h1: "data_Swap h i j = Returns h1" "data_inv h1" "entries h1 = swap (entries h) i j"
      using data_Swap_entries [OF less.prems(1) i(2) less.prems(2)] by metis
    have "length (dt_queue h1) = length (dt_queue h)" using arg_cong [OF h1(3), of length] by simp
    moreover have "i < j" using False by (auto simp: i_def)
    ultimately obtain h' where "up lt h1 i = Returns h'" "data_inv h'"
        "entries h' = list_up (entry_less lt) (entries h1) i"
      using less.IH [OF _ h1(2)] i(2) by auto
    then show ?thesis
      using False L h1 by (simp add: U list_up.simps [of _ _ j] i(1))
  qed
qed

lemma down_entries:
  assumes "data_inv h" and "n \<le> length (dt_queue h)"
  shows "\<exists>h' i'. down lt h i n = Returns (h', i') \<and> data_inv h'
    \<and> (entries h', i') = list_down (entry_less lt) (entries h) i n"
  using assms
proof (induction "n - i" arbitrary: h i rule: less_induct)
  case less
  show ?case
  proof (cases "2 * i + 1 < n")
    case False
    then show ?thesis using less.prems by (simp add: down.simps [of lt h i] list_down.simps [of _ _ i])
  next
    case True
    define j where "j = min_child (entry_less lt) (entries h) i n"
    have j: "j < length (dt_queue h)" "j < n" "i < j" "i < length (dt_queue h)"
      using min_child_bounds(1) [OF True] min_child_bounds(2) [of i] less.prems(2) True
      by (auto simp: j_def intro: less_le_trans)
    define right where "right \<longleftrightarrow> 2 * i + 2 < n \<and> entry_less lt (entries h ! (2 * i + 2)) (entries h ! (2 * i + 1))"
    have jr: "(if right then 2 * i + 2 else 2 * i + 1) = j" by (simp add: right_def j_def min_child_def)
    have R: "(if 2 * i + 2 < n then data_Less lt h (2 * i + 2) (2 * i + 1) else Returns False) = Returns right"
      using less.prems True by (simp add: right_def data_Less_entries)
    have L: "data_Less lt h j i = Returns (entry_less lt (entries h ! j) (entries h ! i))"
      by (rule data_Less_entries [OF less.prems(1) j(1,4)])
    have D: "down lt h i n = (if \<not> entry_less lt (entries h ! j) (entries h ! i) then Returns (h, i)
        else go_bind (data_Swap h i j) (\<lambda>h'. down lt h' j n))"
    proof (cases right)
      case r: True
      then have "2 * i + 2 < n" "data_Less lt h (2 * i + 2) (2 * i + 1) = Returns True" "j = 2 * i + 2"
        using R jr by (simp_all add: right_def)
      then show ?thesis using True L by (subst down.simps) (simp add: Let_def)
    next
      case r: False
      then have "j = 2 * i + 1" using jr by simp
      then show ?thesis using True R L r by (subst down.simps) (auto simp: Let_def split: if_splits)
    qed
    show ?thesis
    proof (cases "entry_less lt (entries h ! j) (entries h ! i)")
      case False
      then show ?thesis using D True less.prems(1) by (simp add: list_down.simps [of _ _ i] j_def Let_def)
    next
      case less': True
      obtain h1 where h1: "data_Swap h i j = Returns h1" "data_inv h1" "entries h1 = swap (entries h) i j"
        using data_Swap_entries [OF less.prems(1) j(4,1)] by metis
      have "length (dt_queue h1) = length (dt_queue h)" using arg_cong [OF h1(3), of length] by simp
      moreover have "n - j < n - i" using j by simp
      ultimately obtain h' i' where "down lt h1 j n = Returns (h', i')" "data_inv h'"
          "(entries h', i') = list_down (entry_less lt) (entries h1) j n"
        using less.hyps [OF _ h1(2)] less.prems(2) by metis
      then show ?thesis
        using D less' True h1 by (simp add: list_down.simps [of _ _ i] Let_def flip: j_def)
    qed
  qed
qed

lemma entries_set: "data_inv h \<Longrightarrow> set (entries h) = {(k, x). map_option hi_obj (gomap_get (dt_items h) k) = Some x}"
proof -
  assume inv: "data_inv h"
  have "k \<in> set (dt_queue h) \<longleftrightarrow> gomap_get (dt_items h) k \<noteq> None" for k
    using inv by (simp add: data_inv_def map_of_eq_None_iff)
  then show ?thesis by (force simp: entries_def obj_of_def)
qed

lemma entries_distinct: "data_inv h \<Longrightarrow> distinct (map fst (entries h))"
  by (simp add: entries_def data_inv_def comp_def)

lemma entries_map: "data_inv h \<Longrightarrow> map_of (entries h) k = map_option hi_obj (gomap_get (dt_items h) k)"
proof -
  assume inv: "data_inv h"
  have "map_of (entries h) k = Some x \<longleftrightarrow> map_option hi_obj (gomap_get (dt_items h) k) = Some x" for x
    using entries_distinct [OF inv] entries_set [OF inv] by simp
  then show ?thesis by (metis option.exhaust)
qed

lemma data_Push_entries:
  assumes "data_inv h" and "k \<notin> set (dt_queue h)"
  shows "data_inv (data_Push h k x)" and "entries (data_Push h k x) = entries h @ [(k, x)]"
proof -
  show "data_inv (data_Push h k x)"
    using assms by (auto simp: data_inv_def data_Push_def gomap_keys_set nth_append less_Suc_eq)
  show "entries (data_Push h k x) = entries h @ [(k, x)]"
    using assms(2) by (auto simp: entries_def data_Push_def obj_of_def)
qed

lemma data_Pop_entries:
  assumes "data_inv h" and "dt_queue h \<noteq> []"
  obtains h' where "data_Pop h = Returns (Some (snd (last (entries h))), h')" "data_inv h'" "entries h' = butlast (entries h)"
proof -
  obtain q k where q: "dt_queue h = q @ [k]" using assms(2) by (metis rev_exhaust)
  have k: "k \<notin> set q" "distinct q" using assms(1) q by (auto simp: data_inv_def)
  have "length q < length (dt_queue h)" by (simp add: q)
  then obtain item where "gomap_get (dt_items h) (dt_queue h ! length q) = Some item" by (rule data_inv_get [OF assms(1)])
  then have item: "gomap_get (dt_items h) k = Some item" "snd (last (entries h)) = hi_obj item"
    by (simp_all add: q entries_def obj_of_def)
  define h' where "h' = h\<lparr>dt_queue := q, dt_items := gomap_delete (dt_items h) k\<rparr>"
  show ?thesis
  proof (rule that [of h'])
    show "data_Pop h = Returns (Some (snd (last (entries h))), h')"
      using q item by (simp add: data_Pop_def h'_def)
    show "entries h' = butlast (entries h)"
      using k by (auto simp: entries_def h'_def q obj_of_def butlast_append)
    have "map_option hi_index (gomap_get (dt_items h') (q ! i)) = Some i" if "i < length q" for i
    proof -
      have "q ! i \<noteq> k" using that k(1) by (metis nth_mem)
      then show ?thesis using assms(1) q that by (auto simp: data_inv_def h'_def nth_append dest: spec [of _ i])
    qed
    then show "data_inv h'"
      using assms(1) q k by (auto simp: data_inv_def h'_def gomap_keys_delete)
  qed
qed

lemma data_set_obj:
  fixes h :: "'a data" and x :: 'a
  assumes "data_inv h" and "gomap_get (dt_items h) k = Some item"
  defines "h' \<equiv> h\<lparr>dt_items := gomap_set (dt_items h) k (item\<lparr>hi_obj := x\<rparr>)\<rparr>"
  shows "hi_index item < length (dt_queue h)" and "data_inv h'" and "entries h' = (entries h)[hi_index item := (k, x)]"
    and "entries h ! hi_index item = (k, hi_obj item)"
proof -
  have "k \<in> fst ` set (dt_items h)" using assms(2) by (metis domI dom_map_of_conv_image_fst)
  then have "k \<in> set (dt_queue h)" using assms(1) by (simp add: data_inv_def)
  then obtain i where i: "i < length (dt_queue h)" "dt_queue h ! i = k" by (metis in_set_conv_nth)
  have index: "hi_index item = i" using data_inv_get [OF assms(1) i(1)] assms(2) i(2) by (metis option.inject)
  show "hi_index item < length (dt_queue h)" by (simp add: index i)
  show "entries h ! hi_index item = (k, hi_obj item)" using i assms(2) by (simp add: index entries_def obj_of_def)
  have get: "gomap_get (dt_items h') = (gomap_get (dt_items h))(k \<mapsto> item\<lparr>hi_obj := x\<rparr>)" by (simp add: h'_def)
  have queue: "dt_queue h' = dt_queue h" by (simp add: h'_def)
  have uniq: "dt_queue h ! j = k \<longleftrightarrow> j = i" if "j < length (dt_queue h)" for j
    using assms(1) i that by (auto simp: data_inv_def nth_eq_iff_index_eq)
  show "entries h' = (entries h)[hi_index item := (k, x)]"
    by (rule nth_equalityI) (use uniq i in \<open>auto simp: entries_def queue obj_of_def get index nth_list_update\<close>)
  have "map_option hi_index (gomap_get (dt_items h') (dt_queue h ! j)) = Some j" if "j < length (dt_queue h)" for j
    using uniq [OF that] index assms(1) that by (cases "j = i") (auto simp: get data_inv_def i)
  moreover have "set (dt_queue h) = fst ` set (dt_items h')"
    using assms(1) \<open>k \<in> set (dt_queue h)\<close> by (auto simp: h'_def gomap_keys_set data_inv_def)
  ultimately show "data_inv h'" using assms(1) by (simp add: data_inv_def queue) (simp add: h'_def)
qed

section \<open>container/heap on entries\<close>

lemma heap_Push_entries:
  assumes "data_inv h" and "k \<notin> set (dt_queue h)"
  obtains h' where "heap_Push lt h k x = Returns h'" "data_inv h'"
    "entries h' = list_up (entry_less lt) (entries h @ [(k, x)]) (length (entries h))"
proof -
  let ?h = "data_Push h k x"
  have "length (dt_queue ?h) = Suc (length (dt_queue h))" by (simp add: data_Push_def)
  then show ?thesis
    using up_entries [OF data_Push_entries(1) [OF assms], of "length (dt_queue h)" x lt] that
    by (auto simp: heap_Push_def data_Len_def data_Push_entries(2) [OF assms])
qed

lemma heap_Fix_entries:
  assumes "data_inv h" and "i < n" and "n \<le> length (dt_queue h)"
  obtains h' where "heap_Fix lt h i n = Returns h'" "data_inv h'"
    "entries h' = list_fix (entry_less lt) (entries h) i n"
proof -
  obtain h1 i' where d: "down lt h i n = Returns (h1, i')" "data_inv h1"
    "(entries h1, i') = list_down (entry_less lt) (entries h) i n"
    using down_entries [OF assms(1,3)] by metis
  have fs: "fst (list_down (entry_less lt) (entries h) i n) = entries h1" "snd (list_down (entry_less lt) (entries h) i n) = i'"
    using d(3) by (metis fst_conv snd_conv)+
  show ?thesis
  proof (cases "i < i'")
    case True
    then show ?thesis using that [of h1] d(1,2) by (simp add: heap_Fix_def list_fix_def Let_def fs)
  next
    case False
    have "length (dt_queue h1) = length (dt_queue h)"
      using length_list_down [of n "entries h" "entry_less lt" i] assms(3) by (simp add: fs)
    then have "i < length (dt_queue h1)" using assms by simp
    then obtain h2 where "up lt h1 i = Returns h2" "data_inv h2" "entries h2 = list_up (entry_less lt) (entries h1) i"
      using up_entries [OF d(2)] by metis
    then show ?thesis using that [of h2] False d(1) by (simp add: heap_Fix_def list_fix_def Let_def fs)
  qed
qed

lemma heap_Pop_entries:
  assumes "data_inv h" and "dt_queue h \<noteq> []"
  defines "n \<equiv> length (entries h) - 1"
  obtains h' where "heap_Pop lt h = Returns (Some (snd (entries h ! 0)), h')" "data_inv h'"
    "entries h' = butlast (fst (list_down (entry_less lt) (swap (entries h) 0 n) 0 n))"
    "last (fst (list_down (entry_less lt) (swap (entries h) 0 n) 0 n)) = entries h ! 0"
proof -
  have n: "0 < length (dt_queue h)" "n < length (dt_queue h)" "n = length (dt_queue h) - 1" using assms(2) by (simp_all add: n_def)
  obtain h1 where h1: "data_Swap h 0 n = Returns h1" "data_inv h1" "entries h1 = swap (entries h) 0 n"
    using data_Swap_entries [OF assms(1) n(1,2)] by metis
  have len1: "length (dt_queue h1) = length (dt_queue h)" using arg_cong [OF h1(3), of length] by simp
  obtain h2 i where h2: "down lt h1 0 n = Returns (h2, i)" "data_inv h2"
    "(entries h2, i) = list_down (entry_less lt) (entries h1) 0 n"
    using down_entries [OF h1(2), of n lt 0] len1 n by auto
  define ys where "ys = fst (list_down (entry_less lt) (swap (entries h) 0 n) 0 n)"
  have ys: "entries h2 = ys" using h2(3) h1(3) by (metis fst_conv ys_def)
  have "length ys = length (dt_queue h)" unfolding ys_def using n by simp
  moreover from this have "ys \<noteq> []" "dt_queue h2 \<noteq> []" using n(1) ys length_entries [of h2] by force+
  ultimately have "last ys = ys ! n" "dt_queue h2 \<noteq> []" by (simp_all add: last_conv_nth n(3))
  moreover have "ys ! n = entries h ! 0"
    using list_down_inv [of n "swap (entries h) 0 n" "entry_less lt" 0] n by (auto simp: ys_def nth_swap)
  ultimately have last: "last ys = entries h ! 0" "dt_queue h2 \<noteq> []" by simp_all
  obtain h3 where "data_Pop h2 = Returns (Some (snd (last (entries h2))), h3)" "data_inv h3" "entries h3 = butlast (entries h2)"
    using data_Pop_entries [OF h2(2) last(2)] by metis
  then show ?thesis
    using that [of h3] h1(1) h2(1) n last(1) by (simp add: heap_Pop_def data_Len_def ys ys_def)
qed

lemma heap_Remove_entries:
  fixes h :: "'a data" and lt :: "'a \<Rightarrow> 'a \<Rightarrow> bool"
  assumes "data_inv h" and "i < length (dt_queue h)"
  defines "n \<equiv> length (entries h) - 1"
  defines "ys \<equiv> (if n \<noteq> i then list_fix (entry_less lt) (swap (entries h) i n) i n else entries h)"
  obtains h' where "heap_Remove lt h i = Returns (Some (snd (entries h ! i)), h')" "data_inv h'"
    "entries h' = butlast ys" "last ys = entries h ! i" "mset ys = mset (entries h)"
proof -
  have n: "n < length (dt_queue h)" "n = length (dt_queue h) - 1" using assms(2) by (simp_all add: n_def)
  obtain h1 where h1: "(if n \<noteq> i then go_bind (data_Swap h i n) (\<lambda>h1. heap_Fix lt h1 i n) else Returns h) = Returns h1"
    "data_inv h1" "entries h1 = ys"
  proof (cases "n = i")
    case True
    then show ?thesis using that [of h] assms(1) by (simp add: ys_def)
  next
    case False
    obtain h1 where h1: "data_Swap h i n = Returns h1" "data_inv h1" "entries h1 = swap (entries h) i n"
      using data_Swap_entries [OF assms(1,2) n(1)] by metis
    have "length (dt_queue h1) = length (dt_queue h)" using arg_cong [OF h1(3), of length] by simp
    then have "i < n" "n \<le> length (dt_queue h1)" using False n assms(2) by simp_all
    then obtain h2 where "heap_Fix lt h1 i n = Returns h2" "data_inv h2" "entries h2 = list_fix (entry_less lt) (entries h1) i n"
      using heap_Fix_entries [OF h1(2)] by metis
    then show ?thesis using that [of h2] False h1 by (simp add: ys_def)
  qed
  have ys: "mset ys = mset (entries h) \<and> ys ! n = entries h ! i"
    using list_fix_inv [of i n "swap (entries h) i n" "entry_less lt"] n assms(2) by (auto simp: ys_def nth_swap)
  then have len: "length ys = length (dt_queue h)" by (metis length_entries size_mset)
  then have "ys \<noteq> []" using n(1) by auto
  then have last: "last ys = entries h ! i" using ys n(2) len by (simp add: last_conv_nth)
  have "dt_queue h1 \<noteq> []" using len n h1(3) length_entries [of h1] by auto
  then obtain h2 where "data_Pop h1 = Returns (Some (snd (last (entries h1))), h2)" "data_inv h2" "entries h2 = butlast (entries h1)"
    using data_Pop_entries [OF h1(2)] by metis
  moreover have "data_Len h - 1 = n" "data_Len h \<noteq> 0" using n by (auto simp: data_Len_def)
  ultimately show ?thesis
    using that [of h2] h1 last ys by (simp add: heap_Remove_def)
qed

section \<open>The heap as a priority queue\<close>

text \<open>
  What a client of the heap relies on: a finite map from keys to objects, where adding replaces,
  and popping returns an object no other goes before.
\<close>

locale priority_queue =
  fixes key :: "'a \<Rightarrow> string" and lt :: "'a \<Rightarrow> 'a \<Rightarrow> bool"
    and inv :: "'q \<Rightarrow> bool" and lookup :: "'q \<Rightarrow> string \<Rightarrow> 'a option"
    and add :: "'a \<Rightarrow> 'q \<Rightarrow> (string option \<times> 'q) go_run"
    and delete :: "'a \<Rightarrow> 'q \<Rightarrow> (string option \<times> 'q) go_run"
    and pop :: "'q \<Rightarrow> ((string + 'a) \<times> 'q) go_run"
    and peek :: "'q \<Rightarrow> 'a option go_run"
  assumes lookup_finite: "inv q \<Longrightarrow> finite (dom (lookup q))"
    and lookup_key: "inv q \<Longrightarrow> lookup q k = Some x \<Longrightarrow> key x = k"
    and add_law: "inv q \<Longrightarrow> \<exists>q'. add x q = Returns (None, q') \<and> inv q' \<and> lookup q' = (lookup q)(key x \<mapsto> x)"
    and delete_law: "inv q \<Longrightarrow> \<exists>r q'. delete x q = Returns (r, q') \<and> inv q' \<and> lookup q' = (lookup q)(key x := None)
      \<and> (r = None \<longleftrightarrow> lookup q (key x) \<noteq> None)"
    and pop_law: "inv q \<Longrightarrow> lookup q \<noteq> Map.empty \<Longrightarrow> \<exists>x q'. pop q = Returns (Inr x, q') \<and> inv q'
      \<and> lookup q (key x) = Some x \<and> (\<forall>y \<in> ran (lookup q). \<not> lt y x) \<and> lookup q' = (lookup q)(key x := None)"
    and peek_law: "inv q \<Longrightarrow> pop q = Returns (Inr x, q') \<Longrightarrow> peek q = Returns (Some x)"
    and peek_empty: "inv q \<Longrightarrow> lookup q = Map.empty \<Longrightarrow> peek q = Returns None"

text \<open>The invariant of the scheduler's heap: structure, heap order, keys, and the metric.\<close>

definition heap_inv :: "('a \<Rightarrow> string) \<Rightarrow> ('a \<Rightarrow> 'a \<Rightarrow> bool) \<Rightarrow> 'a Heap \<Rightarrow> bool" where
  "heap_inv key lt h \<longleftrightarrow> data_inv (heap_data h)
     \<and> (\<forall>k < Heap_Len h. 0 < k \<longrightarrow> \<not> lt (snd (entries (heap_data h) ! k)) (snd (entries (heap_data h) ! par k)))
     \<and> (\<forall>(k, x) \<in> set (entries (heap_data h)). key x = k)
     \<and> (\<forall>c. heap_metric h = Some c \<longrightarrow> c = int (Heap_Len h))"

definition heap_lookup :: "'a Heap \<Rightarrow> string \<Rightarrow> 'a option" where
  "heap_lookup h k = Heap_GetByKey k h"

lemma heap_lookup_entries: "data_inv (heap_data h) \<Longrightarrow> heap_lookup h = map_of (entries (heap_data h))"
  by (intro ext) (simp add: heap_lookup_def Heap_GetByKey_def entries_map)

text \<open>Maps of entries are determined by the multiset of entries.\<close>

lemma map_of_add_entry:
  assumes "distinct (map fst ys)" and "mset ys = add_mset (k, x) (mset xs)"
  shows "map_of ys = (map_of xs)(k \<mapsto> x)" and "map_of xs = (map_of ys)(k := None)" and "distinct (map fst xs)"
proof -
  have set: "set ys = set ((k, x) # xs)" using assms(2) by (metis mset.simps(2) set_mset_mset)
  have "mset (map fst ys) = mset (map fst ((k, x) # xs))" using assms(2) by simp
  then have dist: "distinct (map fst ((k, x) # xs))" using assms(1) by (metis mset_eq_imp_distinct_iff)
  show eq: "map_of ys = (map_of xs)(k \<mapsto> x)" using map_of_inject_set [OF assms(1) dist] set by simp
  have "map_of xs k = None" using dist by (simp add: map_of_eq_None_iff)
  then show "map_of xs = (map_of ys)(k := None)" unfolding eq by (simp add: fun_upd_idem)
  show "distinct (map fst xs)" using dist by simp
qed

lemma mset_update_add: "i < length xs \<Longrightarrow> add_mset (xs ! i) (mset (xs[i := y])) = add_mset y (mset xs)"
  by (simp add: mset_update)

lemma mset_butlast_last: "ys \<noteq> [] \<Longrightarrow> mset ys = add_mset (last ys) (mset (butlast ys))"
  by (metis append_butlast_last_id mset_append union_mset_add_mset_right add.right_neutral mset.simps)

section \<open>Orders on keyed objects\<close>

locale keyed_order = queue_order lt for lt :: "'a \<Rightarrow> 'a \<Rightarrow> bool" +
  fixes key :: "'a \<Rightarrow> string"

sublocale keyed_order \<subseteq> entry: queue_order "entry_less lt"
  by unfold_locales (auto simp: entry_less_def dest: asym negtrans)

context keyed_order
begin

lemma entry_le: "entry.le e e' \<longleftrightarrow> \<not> lt (snd e') (snd e)"
  by (simp add: entry.le_def entry_less_def)

lemma heap_inv_entries:
  "heap_inv key lt h \<longleftrightarrow> data_inv (heap_data h) \<and> entry.is_heap (length (entries (heap_data h))) (entries (heap_data h))
     \<and> (\<forall>(k, x) \<in> set (entries (heap_data h)). key x = k)
     \<and> (\<forall>c. heap_metric h = Some c \<longrightarrow> c = int (length (entries (heap_data h))))"
  by (auto simp: heap_inv_def entry.is_heap_def entry_le Heap_Len_def)

lemma heap_New_inv: "c = None \<or> c = Some 0 \<Longrightarrow> heap_inv key lt (Heap_New c)"
  by (auto simp: heap_inv_def Heap_New_def data_inv_def Heap_Len_def entries_def)

lemma push_law:
  assumes "heap_inv key lt h" and "heap_lookup h (key x) = None"
  shows "\<exists>d. heap_Push lt (heap_data h) (key x) x = Returns d \<and> heap_inv key lt (metric_add 1 (h\<lparr>heap_data := d\<rparr>))
    \<and> heap_lookup (metric_add 1 (h\<lparr>heap_data := d\<rparr>)) = (heap_lookup h)(key x \<mapsto> x)"
proof -
  let ?d = "heap_data h"
  have inv: "data_inv ?d" "entry.is_heap (length (entries ?d)) (entries ?d)" "\<forall>(k, x) \<in> set (entries ?d). key x = k"
    using assms(1) by (simp_all add: heap_inv_entries)
  have "key x \<notin> set (dt_queue ?d)"
    using assms(2) inv(1) by (simp add: heap_lookup_def Heap_GetByKey_def data_inv_def map_of_eq_None_iff)
  then obtain d where d: "heap_Push lt ?d (key x) x = Returns d" "data_inv d"
    "entries d = list_up (entry_less lt) (entries ?d @ [(key x, x)]) (length (entries ?d))"
    using heap_Push_entries [OF inv(1)] by metis
  have heap: "entry.is_heap (Suc (length (entries ?d))) (entries d)"
    unfolding d(3) using entry.heap_above_append [OF inv(2)] by (intro entry.list_up_heap) simp_all
  have mset: "mset (entries d) = add_mset (key x, x) (mset (entries ?d))" by (simp add: d(3))
  then have len: "length (entries d) = Suc (length (entries ?d))" by (metis size_mset size_add_mset)
  have set: "set (entries d) = insert (key x, x) (set (entries ?d))"
    using mset by (metis set_mset_add_mset_insert set_mset_mset)
  have "heap_inv key lt (metric_add 1 (h\<lparr>heap_data := d\<rparr>))"
    using d(2) heap len set inv(3) assms(1) by (auto simp: heap_inv_entries metric_add_def simp del: length_entries)
  moreover have "heap_lookup (metric_add 1 (h\<lparr>heap_data := d\<rparr>)) = map_of (entries d)"
    by (subst heap_lookup_entries) (simp_all add: metric_add_def d(2))
  then have "heap_lookup (metric_add 1 (h\<lparr>heap_data := d\<rparr>)) = (heap_lookup h)(key x \<mapsto> x)"
    using map_of_add_entry(1) [OF entries_distinct [OF d(2)] mset] by (simp add: heap_lookup_entries [OF inv(1)])
  ultimately show ?thesis using d(1) by blast
qed

text \<open>A changed multiset of entries changes the map and keeps the invariant.\<close>

lemma shrink_law:
  assumes "heap_inv key lt h" and "data_inv d" and "entry.is_heap (length (entries d)) (entries d)"
    and "mset (entries (heap_data h)) = add_mset (k, x) (mset (entries d))"
  shows "heap_inv key lt (metric_add (-1) (h\<lparr>heap_data := d\<rparr>))"
    and "heap_lookup (metric_add (-1) (h\<lparr>heap_data := d\<rparr>)) = (heap_lookup h)(k := None)"
proof -
  have inv: "data_inv (heap_data h)" using assms(1) by (simp add: heap_inv_entries)
  have len: "length (entries (heap_data h)) = Suc (length (entries d))"
    using assms(4) by (metis size_mset size_add_mset)
  have set: "set (entries d) \<subseteq> set (entries (heap_data h))"
    using assms(4) by (metis set_mset_mset set_mset_add_mset_insert subset_insertI)
  show "heap_inv key lt (metric_add (-1) (h\<lparr>heap_data := d\<rparr>))"
    using assms(1-3) len set by (auto simp: heap_inv_entries metric_add_def simp del: length_entries)
  have "heap_lookup (metric_add (-1) (h\<lparr>heap_data := d\<rparr>)) = map_of (entries d)"
    by (subst heap_lookup_entries) (simp_all add: metric_add_def assms(2))
  then show "heap_lookup (metric_add (-1) (h\<lparr>heap_data := d\<rparr>)) = (heap_lookup h)(k := None)"
    using map_of_add_entry(2) [OF entries_distinct [OF inv] assms(4)] by (simp add: heap_lookup_entries [OF inv])
qed

lemma update_law:
  assumes "heap_inv key lt h" and item: "gomap_get (dt_items (heap_data h)) (key x) = Some item"
  defines "d \<equiv> (heap_data h)\<lparr>dt_items := gomap_set (dt_items (heap_data h)) (key x) (item\<lparr>hi_obj := x\<rparr>)\<rparr>"
  shows "\<exists>d'. heap_Fix lt d (hi_index item) (data_Len d) = Returns d' \<and> heap_inv key lt (h\<lparr>heap_data := d'\<rparr>)
    \<and> heap_lookup (h\<lparr>heap_data := d'\<rparr>) = (heap_lookup h)(key x \<mapsto> x)"
proof -
  let ?es = "entries (heap_data h)" and ?i = "hi_index item"
  have inv: "data_inv (heap_data h)" "entry.is_heap (length ?es) ?es" "\<forall>(k, x) \<in> set ?es. key x = k"
    using assms(1) by (simp_all add: heap_inv_entries)
  have i: "?i < length (dt_queue (heap_data h))" and d: "data_inv d" "entries d = ?es[?i := (key x, x)]"
    and old: "?es ! ?i = (key x, hi_obj item)"
    using data_set_obj [OF inv(1) item] by (simp_all add: d_def)
  have n: "data_Len d = length ?es" "dt_queue d = dt_queue (heap_data h)" by (simp_all add: d_def data_Len_def)
  obtain d' where d': "heap_Fix lt d ?i (data_Len d) = Returns d'" "data_inv d'"
    "entries d' = list_fix (entry_less lt) (entries d) ?i (data_Len d)"
    using heap_Fix_entries [OF d(1), of ?i "data_Len d"] i n by auto
  have "entry.heap_around (length ?es) (entries d) ?i"
    by (rule entry.heap_around_update [OF inv(2)]) (use i d(2) in simp_all)
  then have heap: "entry.is_heap (length ?es) (entries d')"
    unfolding d'(3) n(1) by (rule entry.list_fix_heap) (use i d(2) in simp_all)
  have "mset (entries d') = mset (entries d)"
    using list_fix_inv [of ?i "length ?es" "entries d" "entry_less lt"] i d(2) n(1) by (simp add: d'(3))
  then have mset: "add_mset (?es ! ?i) (mset (entries d')) = add_mset (key x, x) (mset ?es)"
    using mset_update_add [of ?i ?es "(key x, x)"] i by (simp add: d(2))
  then have len: "length (entries d') = length ?es" by (metis add_left_cancel size_mset size_add_mset nat.inject)
  have set: "set (entries d') \<subseteq> insert (key x, x) (set ?es)"
    using mset by (metis set_mset_mset set_mset_add_mset_insert subset_insertI)
  obtain rest where rest: "mset ?es = add_mset (key x, hi_obj item) (mset rest)"
    using i old by (metis ex_mset insert_DiffM length_entries nth_mem_mset)
  then have rest': "mset (entries d') = add_mset (key x, x) (mset rest)" using mset old by simp
  have "heap_inv key lt (h\<lparr>heap_data := d'\<rparr>)"
    using assms(1) d'(2) heap len set by (auto simp: heap_inv_entries simp del: length_entries)
  moreover have "heap_lookup (h\<lparr>heap_data := d'\<rparr>) = map_of (entries d')"
    by (subst heap_lookup_entries) (simp_all add: d'(2))
  then have "heap_lookup (h\<lparr>heap_data := d'\<rparr>) = (heap_lookup h)(key x \<mapsto> x)"
    using map_of_add_entry(1) [OF entries_distinct [OF d'(2)] rest'] map_of_add_entry(1) [OF entries_distinct [OF inv(1)] rest]
    by (simp add: heap_lookup_entries [OF inv(1)])
  ultimately show ?thesis using d'(1) by blast
qed

lemma pop_law:
  assumes "heap_inv key lt h" and "heap_lookup h \<noteq> Map.empty"
  shows "\<exists>x h'. Heap_Pop lt h = Returns (Inr x, h') \<and> heap_inv key lt h' \<and> heap_lookup h (key x) = Some x
    \<and> (\<forall>y \<in> ran (heap_lookup h). \<not> lt y x) \<and> heap_lookup h' = (heap_lookup h)(key x := None)"
proof -
  let ?es = "entries (heap_data h)"
  have inv: "data_inv (heap_data h)" "entry.is_heap (length ?es) ?es" "\<forall>(k, x) \<in> set ?es. key x = k"
    using assms(1) by (simp_all add: heap_inv_entries)
  have lookup: "heap_lookup h = map_of ?es" by (rule heap_lookup_entries [OF inv(1)])
  then have ne: "?es \<noteq> []" "dt_queue (heap_data h) \<noteq> []" using assms(2) by (auto simp: entries_def)
  define n where "n = length ?es - 1"
  define ys where "ys = fst (list_down (entry_less lt) (swap ?es 0 n) 0 n)"
  have n: "n < length ?es" "0 < length ?es" using ne by (simp_all add: n_def)
  obtain d where d: "heap_Pop lt (heap_data h) = Returns (Some (snd (?es ! 0)), d)" "data_inv d" "entries d = butlast ys"
    "last ys = ?es ! 0"
    using heap_Pop_entries [OF inv(1) ne(2), of lt] unfolding ys_def n_def by metis
  have ys: "mset ys = mset ?es" "length ys = length ?es"
    using list_down_inv [of n "swap ?es 0 n" "entry_less lt" 0] n by (auto simp: ys_def)
  have "entry.is_heap n ys"
  proof (cases "n = 0")
    case False
    have "entry.heap_around n (swap ?es 0 n) 0"
      by (rule entry.heap_around_update [OF entry.is_heap_mono [OF inv(2)]]) (use n False in \<open>auto simp: nth_swap\<close>)
    then show ?thesis unfolding ys_def using n by (intro entry.list_down_heap entry.heap_around_root) simp_all
  qed (simp add: entry.is_heap_def)
  then have heap: "entry.is_heap (length (entries d)) (entries d)"
    unfolding d(3) using ys(2) by (intro entry.is_heap_butlast) (simp add: n_def)
  obtain k x where kx: "?es ! 0 = (k, x)" by fastforce
  have kx': "(k, x) \<in> set ?es" "key x = k" using n kx inv(3) by (metis nth_mem, metis nth_mem case_prodD)
  have "ys \<noteq> []" using ys(2) n by auto
  then have "mset ?es = add_mset (k, x) (mset (entries d))"
    using mset_butlast_last [of ys] ys(1) by (simp add: d(3,4) kx)
  note shrink = shrink_law [OF assms(1) d(2) heap this]
  have "Heap_Pop lt h = Returns (Inr x, metric_add (-1) (h\<lparr>heap_data := d\<rparr>))"
    using d(1) by (simp add: Heap_Pop_def kx)
  moreover have "heap_lookup h (key x) = Some x"
    using kx' entries_distinct [OF inv(1)] by (simp add: lookup)
  moreover have "\<not> lt y x" if y: "y \<in> ran (heap_lookup h)" for y
  proof -
    obtain k' where "map_of ?es k' = Some y" using y by (auto simp: ran_def lookup)
    then have "(k', y) \<in> set ?es" by (rule map_of_SomeD)
    then obtain i where "i < length ?es" "?es ! i = (k', y)" by (metis in_set_conv_nth)
    then show ?thesis using entry.heap_root_min [OF inv(2)] kx entry_le by (metis snd_conv)
  qed
  ultimately show ?thesis using shrink kx'(2) by blast
qed

lemma remove_law:
  assumes "heap_inv key lt h" and item: "gomap_get (dt_items (heap_data h)) k = Some item"
  shows "\<exists>o' d. heap_Remove lt (heap_data h) (hi_index item) = Returns (o', d)
    \<and> heap_inv key lt (metric_add (-1) (h\<lparr>heap_data := d\<rparr>))
    \<and> heap_lookup (metric_add (-1) (h\<lparr>heap_data := d\<rparr>)) = (heap_lookup h)(k := None)"
proof -
  let ?es = "entries (heap_data h)" and ?i = "hi_index item"
  have inv: "data_inv (heap_data h)" "entry.is_heap (length ?es) ?es" using assms(1) by (simp_all add: heap_inv_entries)
  have i: "?i < length (dt_queue (heap_data h))" and old: "?es ! ?i = (k, hi_obj item)"
    using data_set_obj [OF inv(1) item] by simp_all
  define n where "n = length ?es - 1"
  define ys where "ys = (if n \<noteq> ?i then list_fix (entry_less lt) (swap ?es ?i n) ?i n else ?es)"
  obtain d where d: "heap_Remove lt (heap_data h) ?i = Returns (Some (snd (?es ! ?i)), d)" "data_inv d" "entries d = butlast ys"
    "last ys = ?es ! ?i" "mset ys = mset ?es"
    using heap_Remove_entries [OF inv(1) i, of lt] unfolding ys_def n_def by metis
  have len: "length ys = length ?es" using d(5) by (metis size_mset)
  have "entry.is_heap n ys"
  proof (cases "n = ?i")
    case False
    have n: "?i < n" "n < length ?es" using False i by (simp_all add: n_def)
    have "entry.heap_around n (swap ?es ?i n) ?i"
      by (rule entry.heap_around_update [OF entry.is_heap_mono [OF inv(2)]]) (use n in \<open>auto simp: nth_swap\<close>)
    then show ?thesis unfolding ys_def using n by (simp add: entry.list_fix_heap)
  qed (use entry.is_heap_mono [OF inv(2)] in \<open>simp add: ys_def n_def\<close>)
  then have heap: "entry.is_heap (length (entries d)) (entries d)"
    unfolding d(3) using len by (intro entry.is_heap_butlast) (simp add: n_def)
  have "ys \<noteq> []" using len i by auto
  then have "mset ?es = add_mset (k, hi_obj item) (mset (entries d))"
    using mset_butlast_last [of ys] by (simp add: d(3-5) old)
  from shrink_law [OF assms(1) d(2) heap this] d(1) show ?thesis by blast
qed

lemma peek_law:
  assumes "heap_inv key lt h" and "Heap_Pop lt h = Returns (Inr x, h')"
  shows "Heap_Peek h = Returns (Some x)"
proof -
  let ?es = "entries (heap_data h)"
  have inv: "data_inv (heap_data h)" using assms(1) by (simp add: heap_inv_entries)
  have ne: "0 < length (dt_queue (heap_data h))"
    using assms(2) by (auto simp: Heap_Pop_def heap_Pop_def data_Len_def)
  obtain d where "heap_Pop lt (heap_data h) = Returns (Some (snd (?es ! 0)), d)"
    using heap_Pop_entries [OF inv, of lt] ne by blast
  then have "x = snd (?es ! 0)" using assms(2) by (simp add: Heap_Pop_def)
  moreover obtain item where "gomap_get (dt_items (heap_data h)) (dt_queue (heap_data h) ! 0) = Some item"
      "snd (?es ! 0) = hi_obj item"
    by (rule data_inv_get [OF inv ne])
  ultimately show "Heap_Peek h = Returns (Some x)"
    using ne by (cases "dt_queue (heap_data h)") (simp_all add: Heap_Peek_def data_Peek_def)
qed

lemma Heap_Len_card: "heap_inv key lt h \<Longrightarrow> Heap_Len h = card (dom (heap_lookup h))"
proof -
  assume "heap_inv key lt h"
  then have inv: "data_inv (heap_data h)" by (simp add: heap_inv_entries)
  have "dom (heap_lookup h) = set (dt_queue (heap_data h))"
    unfolding heap_lookup_entries [OF inv] dom_map_of_conv_image_fst by (simp add: entries_def image_image)
  moreover have "distinct (dt_queue (heap_data h))" using inv by (simp add: data_inv_def)
  ultimately show ?thesis by (simp only: Heap_Len_def distinct_card)
qed

lemma lookup_None_iff: "heap_lookup h k = None \<longleftrightarrow> gomap_get (dt_items (heap_data h)) k = None"
  by (simp add: heap_lookup_def Heap_GetByKey_def)

end

text \<open>The heap with a total key function is a priority queue for every strict weak order.\<close>

sublocale keyed_order \<subseteq> pq: priority_queue key lt "heap_inv key lt" heap_lookup "Heap_Add (\<lambda>x. Inr (key x)) lt"
  "Heap_Delete (\<lambda>x. Inr (key x)) lt" "Heap_Pop lt" Heap_Peek
proof
  fix h :: "'a Heap" and x :: 'a and k
  assume inv: "heap_inv key lt h"
  have d: "data_inv (heap_data h)" "\<forall>(k, x) \<in> set (entries (heap_data h)). key x = k"
    using inv by (simp_all add: heap_inv_entries)
  note lookup = heap_lookup_entries [OF d(1)]
  show "finite (dom (heap_lookup h))" by (simp add: lookup finite_dom_map_of)
  show "key x = k" if "heap_lookup h k = Some x"
    using that d(2) by (auto simp: lookup dest: map_of_SomeD)
  show "\<exists>h'. Heap_Add (\<lambda>x. Inr (key x)) lt x h = Returns (None, h') \<and> heap_inv key lt h' \<and> heap_lookup h' = (heap_lookup h)(key x \<mapsto> x)"
    using push_law [OF inv, of x] update_law [OF inv, of x]
    by (cases "gomap_get (dt_items (heap_data h)) (key x)") (auto simp: Heap_Add_def lookup_None_iff)
  show "\<exists>r h'. Heap_Delete (\<lambda>x. Inr (key x)) lt x h = Returns (r, h') \<and> heap_inv key lt h'
      \<and> heap_lookup h' = (heap_lookup h)(key x := None) \<and> (r = None \<longleftrightarrow> heap_lookup h (key x) \<noteq> None)"
  proof (cases "gomap_get (dt_items (heap_data h)) (key x)")
    case None
    then show ?thesis using inv lookup_None_iff [of h "key x"] by (simp add: Heap_Delete_def fun_upd_idem)
  next
    case (Some item)
    then show ?thesis using remove_law [OF inv Some] lookup_None_iff [of h "key x"] by (auto simp: Heap_Delete_def)
  qed
  show "Heap_Peek h = Returns None" if "heap_lookup h = Map.empty"
    using that by (simp add: lookup Heap_Peek_def data_Peek_def entries_def split: list.splits)
qed (fact pop_law peek_law)+

end
