(* ===== verification/Sched_Queue.thy ===== *)
theory Sched_Queue
  imports Node_Info Sched_Heap
begin

text \<open>
  The scheduling queue (pkg/scheduler/internal/queue/scheduling_queue.go): the active heap, the
  backoff heap and the map of unschedulable pods, the nominator, and every operation that moves
  pods between them. Each operation runs under the queue's lock and is one step here. Time is an
  integer of nanoseconds, read once per operation; queued pods are values, which agrees with the
  shared pointers of the code as long as an update keeps a pod's namespace, name and UID. The
  counters of incoming pods and the condition variable carry no state and are left out.
\<close>

unbundle bit_operations_syntax

section \<open>Queued pods\<close>

record QueuedPodInfo =
  qp_PodInfo :: PodInfo
  qp_Timestamp :: int
  qp_Attempts :: int
  qp_InitialAttemptTimestamp :: int
  qp_UnschedulablePlugins :: "string list"

abbreviation qp_Pod :: "QueuedPodInfo \<Rightarrow> Pod" where
  "qp_Pod q \<equiv> pi_Pod (qp_PodInfo q)"

definition MetaNamespaceKeyFunc :: "Pod \<Rightarrow> string" where
  "MetaNamespaceKeyFunc pod =
     (if pod_Namespace pod \<noteq> [] then pod_Namespace pod @ ''/'' @ pod_Name pod else pod_Name pod)"

definition qp_key :: "QueuedPodInfo \<Rightarrow> string" where
  "qp_key q = MetaNamespaceKeyFunc (qp_Pod q)"

definition podInfoKeyFunc :: "QueuedPodInfo keyFunc" where
  "podInfoKeyFunc = (\<lambda>obj. Inr (qp_key obj))"

definition GetPodFullName :: "Pod \<Rightarrow> string" where
  "GetPodFullName pod = pod_Name pod @ ''_'' @ pod_Namespace pod"

definition NominatedNodeName :: "Pod \<Rightarrow> string" where
  "NominatedNodeName pod = pod_NominatedNodeName pod"

definition newQueuedPodInfoForLookup :: "Pod \<Rightarrow> string list \<Rightarrow> QueuedPodInfo" where
  "newQueuedPodInfoForLookup pod plugins =
     \<lparr>qp_PodInfo = \<lparr>pi_Pod = pod\<rparr>, qp_Timestamp = 0, qp_Attempts = 0, qp_InitialAttemptTimestamp = 0,
      qp_UnschedulablePlugins = remdups plugins\<rparr>"

definition newQueuedPodInfo :: "int \<Rightarrow> Pod \<Rightarrow> string list \<Rightarrow> QueuedPodInfo" where
  "newQueuedPodInfo now pod plugins =
     \<lparr>qp_PodInfo = NewPodInfo pod, qp_Timestamp = now, qp_Attempts = 0, qp_InitialAttemptTimestamp = now,
      qp_UnschedulablePlugins = remdups plugins\<rparr>"

definition updatePod :: "QueuedPodInfo \<Rightarrow> Pod \<Rightarrow> QueuedPodInfo" where
  "updatePod oldPodInfo newPod = oldPodInfo\<lparr>qp_PodInfo := (qp_PodInfo oldPodInfo)\<lparr>pi_Pod := newPod\<rparr>\<rparr>"

text \<open>Dropping what an update may change without making the pod schedulable.\<close>

definition strip_pod :: "Pod \<Rightarrow> Pod" where
  "strip_pod pod = pod\<lparr>pod_ResourceVersion := [], pod_Generation := 0, pod_Conditions := [], pod_NominatedNodeName := []\<rparr>"

definition isPodUpdated :: "Pod \<Rightarrow> Pod \<Rightarrow> bool" where
  "isPodUpdated oldPod newPod \<longleftrightarrow> strip_pod oldPod \<noteq> strip_pod newPod"

section \<open>Cluster events\<close>

record ClusterEvent =
  ce_Resource :: string
  ce_ActionType :: int
  ce_Label :: string

abbreviation ActionType_All :: int where "ActionType_All \<equiv> 63"
abbreviation ActionType_Update :: int where "ActionType_Update \<equiv> 60"

definition IsWildCard :: "ClusterEvent \<Rightarrow> bool" where
  "IsWildCard ce \<longleftrightarrow> ce_Resource ce = ''*'' \<and> ce_ActionType ce = ActionType_All"

definition AssignedPodAdd :: ClusterEvent where
  "AssignedPodAdd = \<lparr>ce_Resource = ''Pod'', ce_ActionType = 1, ce_Label = ''AssignedPodAdd''\<rparr>"

definition AssignedPodUpdate :: ClusterEvent where
  "AssignedPodUpdate = \<lparr>ce_Resource = ''Pod'', ce_ActionType = ActionType_Update, ce_Label = ''AssignedPodUpdate''\<rparr>"

definition UnschedulableTimeout :: ClusterEvent where
  "UnschedulableTimeout = \<lparr>ce_Resource = ''*'', ce_ActionType = ActionType_All, ce_Label = ''UnschedulableTimeout''\<rparr>"

definition intersect :: "string list \<Rightarrow> string list \<Rightarrow> bool" where
  "intersect x y =
     (case (if length x > length y then (y, x) else (x, y)) of (a, b) \<Rightarrow> \<exists>v \<in> set a. v \<in> set b)"

text \<open>
  What the queue is created with: the order of the active heap, the two backoff durations, the
  events registered by the plugins, which pods the lister still has, and whether a pod matches
  one of the required affinity terms of a queued pod.
\<close>

record queue_config =
  qc_less :: "QueuedPodInfo \<Rightarrow> QueuedPodInfo \<Rightarrow> bool"
  qc_podInitialBackoffDuration :: int
  qc_podMaxBackoffDuration :: int
  qc_clusterEventMap :: "(ClusterEvent, string list) gomap"
  qc_alive :: "Pod \<Rightarrow> bool"
  qc_affinity_matches :: "QueuedPodInfo \<Rightarrow> Pod \<Rightarrow> bool"

definition podMatchesEvent :: "queue_config \<Rightarrow> QueuedPodInfo \<Rightarrow> ClusterEvent \<Rightarrow> bool" where
  "podMatchesEvent cfg podInfo clusterEvent \<longleftrightarrow>
     IsWildCard clusterEvent \<or>
     (\<exists>(evt, nameSet) \<in> set (qc_clusterEventMap cfg).
        (IsWildCard evt \<or> (ce_Resource evt = ce_Resource clusterEvent
           \<and> ce_ActionType evt AND ce_ActionType clusterEvent \<noteq> 0))
        \<and> intersect nameSet (qp_UnschedulablePlugins podInfo))"

section \<open>Backoff\<close>

text \<open>The loop doubles the duration once per attempt after the first and returns at the maximum.\<close>

fun backoff_loop :: "int \<Rightarrow> nat \<Rightarrow> int \<Rightarrow> int" where
  "backoff_loop mx 0 duration = duration"
| "backoff_loop mx (Suc n) duration =
     (let d = wrap64 (duration * 2) in if d > mx then mx else backoff_loop mx n d)"

definition calculateBackoffDuration :: "queue_config \<Rightarrow> QueuedPodInfo \<Rightarrow> int" where
  "calculateBackoffDuration cfg podInfo =
     backoff_loop (qc_podMaxBackoffDuration cfg) (nat (qp_Attempts podInfo - 1)) (qc_podInitialBackoffDuration cfg)"

definition getBackoffTime :: "queue_config \<Rightarrow> QueuedPodInfo \<Rightarrow> int" where
  "getBackoffTime cfg podInfo = qp_Timestamp podInfo + calculateBackoffDuration cfg podInfo"

definition isPodBackingoff :: "queue_config \<Rightarrow> int \<Rightarrow> QueuedPodInfo \<Rightarrow> bool" where
  "isPodBackingoff cfg now podInfo \<longleftrightarrow> getBackoffTime cfg podInfo > now"

definition podsCompareBackoffCompleted :: "queue_config \<Rightarrow> QueuedPodInfo \<Rightarrow> QueuedPodInfo \<Rightarrow> bool" where
  "podsCompareBackoffCompleted cfg podInfo1 podInfo2 \<longleftrightarrow> getBackoffTime cfg podInfo1 < getBackoffTime cfg podInfo2"

section \<open>Unschedulable pods\<close>

record UnschedulablePodsMap =
  upm_podInfoMap :: "(string, QueuedPodInfo) gomap"
  upm_metric :: "int option"

definition upm_addOrUpdate :: "QueuedPodInfo \<Rightarrow> UnschedulablePodsMap \<Rightarrow> UnschedulablePodsMap" where
  "upm_addOrUpdate pInfo u =
     (let podID = GetPodFullName (qp_Pod pInfo) in
      u\<lparr>upm_metric := (if gomap_get (upm_podInfoMap u) podID = None then map_option (\<lambda>c. c + 1) (upm_metric u) else upm_metric u),
        upm_podInfoMap := gomap_set (upm_podInfoMap u) podID pInfo\<rparr>)"

definition upm_delete :: "Pod \<Rightarrow> UnschedulablePodsMap \<Rightarrow> UnschedulablePodsMap" where
  "upm_delete pod u =
     (let podID = GetPodFullName pod in
      u\<lparr>upm_metric := (if gomap_get (upm_podInfoMap u) podID \<noteq> None then map_option (\<lambda>c. c - 1) (upm_metric u) else upm_metric u),
        upm_podInfoMap := gomap_delete (upm_podInfoMap u) podID\<rparr>)"

definition upm_get :: "Pod \<Rightarrow> UnschedulablePodsMap \<Rightarrow> QueuedPodInfo option" where
  "upm_get pod u = gomap_get (upm_podInfoMap u) (GetPodFullName pod)"

definition upm_clear :: "UnschedulablePodsMap \<Rightarrow> UnschedulablePodsMap" where
  "upm_clear u = u\<lparr>upm_podInfoMap := [], upm_metric := map_option (\<lambda>_. 0) (upm_metric u)\<rparr>"

definition newUnschedulablePodsMap :: "int option \<Rightarrow> UnschedulablePodsMap" where
  "newUnschedulablePodsMap metricRecorder = \<lparr>upm_podInfoMap = [], upm_metric = metricRecorder\<rparr>"

section \<open>The nominator\<close>

record nominator =
  npm_nominatedPods :: "(string, PodInfo list) gomap"
  npm_nominatedPodToNode :: "(string, string) gomap"

fun remove_uid :: "string \<Rightarrow> PodInfo list \<Rightarrow> PodInfo list" where
  "remove_uid uid [] = []"
| "remove_uid uid (np # nps) = (if pod_UID (pi_Pod np) = uid then nps else np # remove_uid uid nps)"

definition npm_delete :: "Pod \<Rightarrow> nominator \<Rightarrow> nominator" where
  "npm_delete p npm =
     (case gomap_get (npm_nominatedPodToNode npm) (pod_UID p) of None \<Rightarrow> npm
      | Some nnn \<Rightarrow>
        (let l = get_or [] (npm_nominatedPods npm) nnn; l' = remove_uid (pod_UID p) l
         in npm\<lparr>npm_nominatedPods :=
                  (if \<exists>np \<in> set l. pod_UID (pi_Pod np) = pod_UID p
                   then if l' = [] then gomap_delete (npm_nominatedPods npm) nnn else gomap_set (npm_nominatedPods npm) nnn l'
                   else npm_nominatedPods npm),
                npm_nominatedPodToNode := gomap_delete (npm_nominatedPodToNode npm) (pod_UID p)\<rparr>))"

definition npm_add :: "(Pod \<Rightarrow> bool) \<Rightarrow> PodInfo \<Rightarrow> string \<Rightarrow> nominator \<Rightarrow> nominator" where
  "npm_add alive pinf nodeName npm0 =
     (let npm = npm_delete (pi_Pod pinf) npm0;
          nnn = (if nodeName = [] then NominatedNodeName (pi_Pod pinf) else nodeName)
      in if nnn = [] then npm
         else if \<not> alive (pi_Pod pinf) then npm
         else
           let npm' = npm\<lparr>npm_nominatedPodToNode := gomap_set (npm_nominatedPodToNode npm) (pod_UID (pi_Pod pinf)) nnn\<rparr>;
               l = get_or [] (npm_nominatedPods npm) nnn
           in if \<exists>npi \<in> set l. pod_UID (pi_Pod npi) = pod_UID (pi_Pod pinf) then npm'
              else npm'\<lparr>npm_nominatedPods := gomap_set (npm_nominatedPods npm) nnn (l @ [pinf])\<rparr>)"

definition UpdateNominatedPod :: "(Pod \<Rightarrow> bool) \<Rightarrow> Pod \<Rightarrow> PodInfo \<Rightarrow> nominator \<Rightarrow> nominator" where
  "UpdateNominatedPod alive oldPod newPodInfo npm =
     (let nodeName = (if NominatedNodeName oldPod = [] \<and> NominatedNodeName (pi_Pod newPodInfo) = []
                      then get_or [] (npm_nominatedPodToNode npm) (pod_UID oldPod) else [])
      in npm_add alive newPodInfo nodeName (npm_delete oldPod npm))"

definition NominatedPodsForNode :: "string \<Rightarrow> nominator \<Rightarrow> PodInfo list" where
  "NominatedPodsForNode nodeName npm = get_or [] (npm_nominatedPods npm) nodeName"

definition NewPodNominator :: nominator where
  "NewPodNominator = \<lparr>npm_nominatedPods = [], npm_nominatedPodToNode = []\<rparr>"

section \<open>The priority queue\<close>

record PriorityQueue =
  pq_nominator :: nominator
  pq_activeQ :: "QueuedPodInfo Heap"
  pq_podBackoffQ :: "QueuedPodInfo Heap"
  pq_unschedulableQ :: UnschedulablePodsMap
  pq_schedulingCycle :: int
  pq_moveRequestCycle :: int
  pq_closed :: bool

definition NewPriorityQueue :: PriorityQueue where
  "NewPriorityQueue =
     \<lparr>pq_nominator = NewPodNominator, pq_activeQ = Heap_New (Some 0), pq_podBackoffQ = Heap_New (Some 0),
      pq_unschedulableQ = newUnschedulablePodsMap (Some 0), pq_schedulingCycle = 0, pq_moveRequestCycle = -1,
      pq_closed = False\<rparr>"

text \<open>Adding to and deleting from one of the heaps, with the error of the heap.\<close>

definition active_Add :: "queue_config \<Rightarrow> QueuedPodInfo \<Rightarrow> PriorityQueue \<Rightarrow> (string option \<times> PriorityQueue) go_run" where
  "active_Add cfg pInfo p =
     go_bind (Heap_Add podInfoKeyFunc (qc_less cfg) pInfo (pq_activeQ p)) (\<lambda>(err, h). Returns (err, p\<lparr>pq_activeQ := h\<rparr>))"

definition backoff_Add :: "queue_config \<Rightarrow> QueuedPodInfo \<Rightarrow> PriorityQueue \<Rightarrow> (string option \<times> PriorityQueue) go_run" where
  "backoff_Add cfg pInfo p =
     go_bind (Heap_Add podInfoKeyFunc (podsCompareBackoffCompleted cfg) pInfo (pq_podBackoffQ p))
       (\<lambda>(err, h). Returns (err, p\<lparr>pq_podBackoffQ := h\<rparr>))"

definition active_Delete :: "queue_config \<Rightarrow> QueuedPodInfo \<Rightarrow> PriorityQueue \<Rightarrow> (string option \<times> PriorityQueue) go_run" where
  "active_Delete cfg pInfo p =
     go_bind (Heap_Delete podInfoKeyFunc (qc_less cfg) pInfo (pq_activeQ p)) (\<lambda>(err, h). Returns (err, p\<lparr>pq_activeQ := h\<rparr>))"

definition backoff_Delete :: "queue_config \<Rightarrow> QueuedPodInfo \<Rightarrow> PriorityQueue \<Rightarrow> (string option \<times> PriorityQueue) go_run" where
  "backoff_Delete cfg pInfo p =
     go_bind (Heap_Delete podInfoKeyFunc (podsCompareBackoffCompleted cfg) pInfo (pq_podBackoffQ p))
       (\<lambda>(err, h). Returns (err, p\<lparr>pq_podBackoffQ := h\<rparr>))"

definition unsched_delete :: "Pod \<Rightarrow> PriorityQueue \<Rightarrow> PriorityQueue" where
  "unsched_delete pod p = p\<lparr>pq_unschedulableQ := upm_delete pod (pq_unschedulableQ p)\<rparr>"

definition nominate :: "queue_config \<Rightarrow> QueuedPodInfo \<Rightarrow> PriorityQueue \<Rightarrow> PriorityQueue" where
  "nominate cfg pInfo p = p\<lparr>pq_nominator := npm_add (qc_alive cfg) (qp_PodInfo pInfo) [] (pq_nominator p)\<rparr>"

definition PQ_Add :: "queue_config \<Rightarrow> int \<Rightarrow> Pod \<Rightarrow> PriorityQueue \<Rightarrow> (string option \<times> PriorityQueue) go_run" where
  "PQ_Add cfg now pod p =
     (let pInfo = newQueuedPodInfo now pod [] in
      go_bind (active_Add cfg pInfo p) (\<lambda>(err, p1).
        case err of Some e \<Rightarrow> Returns (Some e, p1)
        | None \<Rightarrow>
          (let p2 = (if upm_get pod (pq_unschedulableQ p1) \<noteq> None then unsched_delete pod p1 else p1)
           in go_bind (backoff_Delete cfg pInfo p2) (\<lambda>(_, p3). Returns (None, nominate cfg pInfo p3)))))"

definition PQ_activate :: "queue_config \<Rightarrow> Pod \<Rightarrow> PriorityQueue \<Rightarrow> (bool \<times> PriorityQueue) go_run" where
  "PQ_activate cfg pod p =
     (case Heap_Get podInfoKeyFunc (newQueuedPodInfoForLookup pod []) (pq_activeQ p) of
        Inr (Some _) \<Rightarrow> Returns (False, p)
      | _ \<Rightarrow>
        (case (case upm_get pod (pq_unschedulableQ p) of Some pInfo \<Rightarrow> Some pInfo
               | None \<Rightarrow> (case Heap_Get podInfoKeyFunc (newQueuedPodInfoForLookup pod []) (pq_podBackoffQ p) of
                     Inr (Some obj) \<Rightarrow> Some obj | _ \<Rightarrow> None)) of
           None \<Rightarrow> Returns (False, p)
         | Some pInfo \<Rightarrow>
             go_bind (active_Add cfg pInfo p) (\<lambda>(err, p1).
               case err of Some _ \<Rightarrow> Returns (False, p1)
               | None \<Rightarrow> go_bind (backoff_Delete cfg pInfo (unsched_delete pod p1)) (\<lambda>(_, p2).
                           Returns (True, nominate cfg pInfo p2)))))"

fun PQ_Activate :: "queue_config \<Rightarrow> Pod list \<Rightarrow> PriorityQueue \<Rightarrow> PriorityQueue go_run" where
  "PQ_Activate cfg [] p = Returns p"
| "PQ_Activate cfg (pod # pods) p = go_bind (PQ_activate cfg pod p) (\<lambda>(_, p'). PQ_Activate cfg pods p')"

abbreviation KObj :: "Pod \<Rightarrow> string" where
  "KObj pod \<equiv> MetaNamespaceKeyFunc pod"

definition PQ_AddUnschedulableIfNotPresent ::
  "queue_config \<Rightarrow> int \<Rightarrow> QueuedPodInfo \<Rightarrow> int \<Rightarrow> PriorityQueue \<Rightarrow> (string option \<times> PriorityQueue) go_run" where
  "PQ_AddUnschedulableIfNotPresent cfg now pInfo podSchedulingCycle p =
     (let pod = qp_Pod pInfo in
      if upm_get pod (pq_unschedulableQ p) \<noteq> None
      then Returns (Some (''Pod '' @ KObj pod @ '' is already present in unschedulable queue''), p)
      else if (case Heap_Get podInfoKeyFunc pInfo (pq_activeQ p) of Inr (Some _) \<Rightarrow> True | _ \<Rightarrow> False)
      then Returns (Some (''Pod '' @ KObj pod @ '' is already present in the active queue''), p)
      else if (case Heap_Get podInfoKeyFunc pInfo (pq_podBackoffQ p) of Inr (Some _) \<Rightarrow> True | _ \<Rightarrow> False)
      then Returns (Some (''Pod '' @ KObj pod @ '' is already present in the backoff queue''), p)
      else
        let pInfo' = pInfo\<lparr>qp_Timestamp := now\<rparr> in
        if pq_moveRequestCycle p \<ge> podSchedulingCycle
        then go_bind (backoff_Add cfg pInfo' p) (\<lambda>(err, p1).
               case err of Some e \<Rightarrow> Returns (Some (''error adding pod '' @ pod_Name pod @ '' to the backoff queue: '' @ e), p1)
               | None \<Rightarrow> Returns (None, nominate cfg pInfo' p1))
        else Returns (None, nominate cfg pInfo' (p\<lparr>pq_unschedulableQ := upm_addOrUpdate pInfo' (pq_unschedulableQ p)\<rparr>)))"

text \<open>The loop of \<^verbatim>\<open>flushBackoffQCompleted\<close>; None is running out of fuel.\<close>

fun flush_loop :: "nat \<Rightarrow> queue_config \<Rightarrow> int \<Rightarrow> PriorityQueue \<Rightarrow> PriorityQueue option go_run" where
  "flush_loop 0 cfg now p = Returns None"
| "flush_loop (Suc fuel) cfg now p =
     go_bind (Heap_Peek (pq_podBackoffQ p)) (\<lambda>raw.
       case raw of None \<Rightarrow> Returns (Some p)
       | Some pInfo \<Rightarrow>
           if getBackoffTime cfg pInfo > now then Returns (Some p)
           else go_bind (Heap_Pop (podsCompareBackoffCompleted cfg) (pq_podBackoffQ p)) (\<lambda>(res, h).
             case res of Inl _ \<Rightarrow> Returns (Some (p\<lparr>pq_podBackoffQ := h\<rparr>))
             | Inr _ \<Rightarrow> go_bind (active_Add cfg pInfo (p\<lparr>pq_podBackoffQ := h\<rparr>)) (\<lambda>(_, p'). flush_loop fuel cfg now p')))"

definition flushBackoffQCompleted :: "queue_config \<Rightarrow> int \<Rightarrow> PriorityQueue \<Rightarrow> PriorityQueue option go_run" where
  "flushBackoffQCompleted cfg now p = flush_loop (Suc (Heap_Len (pq_podBackoffQ p))) cfg now p"

definition move_pod :: "queue_config \<Rightarrow> int \<Rightarrow> ClusterEvent \<Rightarrow> QueuedPodInfo \<Rightarrow> PriorityQueue \<Rightarrow> PriorityQueue go_run" where
  "move_pod cfg now event pInfo p =
     (if qp_UnschedulablePlugins pInfo \<noteq> [] \<and> \<not> podMatchesEvent cfg pInfo event then Returns p
      else go_bind (if isPodBackingoff cfg now pInfo then backoff_Add cfg pInfo p else active_Add cfg pInfo p)
             (\<lambda>(err, p'). Returns (if err = None then unsched_delete (qp_Pod pInfo) p' else p')))"

fun move_pods :: "queue_config \<Rightarrow> int \<Rightarrow> ClusterEvent \<Rightarrow> QueuedPodInfo list \<Rightarrow> PriorityQueue \<Rightarrow> PriorityQueue go_run" where
  "move_pods cfg now event [] p = Returns p"
| "move_pods cfg now event (pInfo # pInfos) p =
     go_bind (move_pod cfg now event pInfo p) (move_pods cfg now event pInfos)"

definition movePodsToActiveOrBackoffQueue ::
  "queue_config \<Rightarrow> int \<Rightarrow> QueuedPodInfo list \<Rightarrow> ClusterEvent \<Rightarrow> PriorityQueue \<Rightarrow> PriorityQueue go_run" where
  "movePodsToActiveOrBackoffQueue cfg now podInfoList event p =
     go_bind (move_pods cfg now event podInfoList p)
       (\<lambda>p'. Returns (p'\<lparr>pq_moveRequestCycle := pq_schedulingCycle p'\<rparr>))"

definition unschedulableQTimeInterval :: int where
  "unschedulableQTimeInterval = 60000000000"

definition flushUnschedulableQLeftover :: "queue_config \<Rightarrow> int \<Rightarrow> PriorityQueue \<Rightarrow> PriorityQueue go_run" where
  "flushUnschedulableQLeftover cfg now p =
     (let podsToMove = filter (\<lambda>pInfo. now - qp_Timestamp pInfo > unschedulableQTimeInterval)
            (map snd (upm_podInfoMap (pq_unschedulableQ p)))
      in if podsToMove \<noteq> [] then movePodsToActiveOrBackoffQueue cfg now podsToMove UnschedulableTimeout p
         else Returns p)"

definition MoveAllToActiveOrBackoffQueue ::
  "queue_config \<Rightarrow> int \<Rightarrow> ClusterEvent \<Rightarrow> (Pod \<Rightarrow> bool) option \<Rightarrow> PriorityQueue \<Rightarrow> PriorityQueue go_run" where
  "MoveAllToActiveOrBackoffQueue cfg now event preCheck p =
     movePodsToActiveOrBackoffQueue cfg now
       (filter (\<lambda>pInfo. case preCheck of None \<Rightarrow> True | Some f \<Rightarrow> f (qp_Pod pInfo))
          (map snd (upm_podInfoMap (pq_unschedulableQ p)))) event p"

definition getUnschedulablePodsWithMatchingAffinityTerm :: "queue_config \<Rightarrow> Pod \<Rightarrow> PriorityQueue \<Rightarrow> QueuedPodInfo list" where
  "getUnschedulablePodsWithMatchingAffinityTerm cfg pod p =
     filter (\<lambda>pInfo. qc_affinity_matches cfg pInfo pod) (map snd (upm_podInfoMap (pq_unschedulableQ p)))"

definition AssignedPodAdded :: "queue_config \<Rightarrow> int \<Rightarrow> Pod \<Rightarrow> PriorityQueue \<Rightarrow> PriorityQueue go_run" where
  "AssignedPodAdded cfg now pod p =
     movePodsToActiveOrBackoffQueue cfg now (getUnschedulablePodsWithMatchingAffinityTerm cfg pod p) AssignedPodAdd p"

definition AssignedPodUpdated :: "queue_config \<Rightarrow> int \<Rightarrow> Pod \<Rightarrow> PriorityQueue \<Rightarrow> PriorityQueue go_run" where
  "AssignedPodUpdated cfg now pod p =
     movePodsToActiveOrBackoffQueue cfg now (getUnschedulablePodsWithMatchingAffinityTerm cfg pod p) AssignedPodUpdate p"

text \<open>\<^verbatim>\<open>Pop\<close>: None when the call waits for a pod, the closed error, or the popped pod.\<close>

definition PQ_Pop :: "queue_config \<Rightarrow> PriorityQueue \<Rightarrow> ((string + QueuedPodInfo) option \<times> PriorityQueue) go_run" where
  "PQ_Pop cfg p =
     (if Heap_Len (pq_activeQ p) = 0
      then Returns (if pq_closed p then Some (Inl ''scheduling queue is closed'') else None, p)
      else go_bind (Heap_Pop (qc_less cfg) (pq_activeQ p)) (\<lambda>(res, h).
        case res of Inl err \<Rightarrow> Returns (Some (Inl err), p\<lparr>pq_activeQ := h\<rparr>)
        | Inr pInfo \<Rightarrow>
            Returns (Some (Inr (pInfo\<lparr>qp_Attempts := wrap64 (qp_Attempts pInfo + 1)\<rparr>)),
              p\<lparr>pq_activeQ := h, pq_schedulingCycle := wrap64 (pq_schedulingCycle p + 1)\<rparr>)))"

definition PQ_Update :: "queue_config \<Rightarrow> int \<Rightarrow> Pod option \<Rightarrow> Pod \<Rightarrow> PriorityQueue \<Rightarrow> (string option \<times> PriorityQueue) go_run" where
  "PQ_Update cfg now oldPod newPod p =
     (let inActive = (case oldPod of None \<Rightarrow> None
                | Some old \<Rightarrow> (case Heap_Get podInfoKeyFunc (newQueuedPodInfoForLookup old []) (pq_activeQ p) of
                      Inr r \<Rightarrow> r | Inl _ \<Rightarrow> None));
          inBackoff = (case oldPod of None \<Rightarrow> None
                | Some old \<Rightarrow> (case Heap_Get podInfoKeyFunc (newQueuedPodInfoForLookup old []) (pq_podBackoffQ p) of
                      Inr r \<Rightarrow> r | Inl _ \<Rightarrow> None));
          renominate = (\<lambda>old pInfo. p\<lparr>pq_nominator := UpdateNominatedPod (qc_alive cfg) old (qp_PodInfo pInfo) (pq_nominator p)\<rparr>)
      in case (oldPod, inActive) of
           (Some old, Some info) \<Rightarrow>
             (let pInfo = updatePod info newPod in active_Add cfg pInfo (renominate old pInfo))
         | _ \<Rightarrow>
           (case (oldPod, inBackoff) of
              (Some old, Some info) \<Rightarrow>
                (let pInfo = updatePod info newPod in backoff_Add cfg pInfo (renominate old pInfo))
            | _ \<Rightarrow>
              (case upm_get newPod (pq_unschedulableQ p) of
                 Some usPodInfo \<Rightarrow>
                   (case oldPod of None \<Rightarrow> Panics ''nil pointer dereference''
                    | Some old \<Rightarrow>
                      (let pInfo = updatePod usPodInfo newPod; p1 = renominate old pInfo in
                       if isPodUpdated old newPod then
                         go_bind (if isPodBackingoff cfg now pInfo then backoff_Add cfg pInfo p1 else active_Add cfg pInfo p1)
                           (\<lambda>(err, p2). case err of Some e \<Rightarrow> Returns (Some e, p2)
                              | None \<Rightarrow> Returns (None, unsched_delete (qp_Pod pInfo) p2))
                       else Returns (None, p1\<lparr>pq_unschedulableQ := upm_addOrUpdate pInfo (pq_unschedulableQ p1)\<rparr>)))
               | None \<Rightarrow>
                   (let pInfo = newQueuedPodInfo now newPod [] in
                    go_bind (active_Add cfg pInfo p) (\<lambda>(err, p1).
                      case err of Some e \<Rightarrow> Returns (Some e, p1) | None \<Rightarrow> Returns (None, nominate cfg pInfo p1))))))"

definition PQ_Delete :: "queue_config \<Rightarrow> Pod \<Rightarrow> PriorityQueue \<Rightarrow> PriorityQueue go_run" where
  "PQ_Delete cfg pod p =
     (let p1 = p\<lparr>pq_nominator := npm_delete pod (pq_nominator p)\<rparr> in
      go_bind (active_Delete cfg (newQueuedPodInfoForLookup pod []) p1) (\<lambda>(err, p2).
        if err \<noteq> None
        then go_bind (backoff_Delete cfg (newQueuedPodInfoForLookup pod []) p2) (\<lambda>(_, p3). Returns (unsched_delete pod p3))
        else Returns p2))"

definition PendingPods :: "PriorityQueue \<Rightarrow> Pod list" where
  "PendingPods p = map qp_Pod (Heap_List (pq_activeQ p)) @ map qp_Pod (Heap_List (pq_podBackoffQ p))
     @ map qp_Pod (map snd (upm_podInfoMap (pq_unschedulableQ p)))"

text \<open>Closing the stop channel twice panics.\<close>

definition PQ_Close :: "PriorityQueue \<Rightarrow> PriorityQueue go_run" where
  "PQ_Close p = (if pq_closed p then Panics ''close of closed channel'' else Returns (p\<lparr>pq_closed := True\<rparr>))"

definition NumUnschedulablePods :: "PriorityQueue \<Rightarrow> nat" where
  "NumUnschedulablePods p = length (upm_podInfoMap (pq_unschedulableQ p))"

definition MakeNextPodFunc :: "queue_config \<Rightarrow> PriorityQueue \<Rightarrow> (QueuedPodInfo option option \<times> PriorityQueue) go_run" where
  "MakeNextPodFunc cfg p =
     go_bind (PQ_Pop cfg p) (\<lambda>(res, p'). Returns (map_option (\<lambda>r. case r of Inr x \<Rightarrow> Some x | Inl _ \<Rightarrow> None) res, p'))"

section \<open>Priority order\<close>

definition PodPriority :: "Pod \<Rightarrow> int" where
  "PodPriority pod = (case pod_Priority pod of Some v \<Rightarrow> v | None \<Rightarrow> 0)"

definition PrioritySort_Less :: "QueuedPodInfo \<Rightarrow> QueuedPodInfo \<Rightarrow> bool" where
  "PrioritySort_Less pInfo1 pInfo2 \<longleftrightarrow>
     PodPriority (qp_Pod pInfo1) > PodPriority (qp_Pod pInfo2)
     \<or> (PodPriority (qp_Pod pInfo1) = PodPriority (qp_Pod pInfo2) \<and> qp_Timestamp pInfo1 < qp_Timestamp pInfo2)"

section \<open>Keys\<close>

text \<open>
  Pod names the API server admits: a namespace, no slash in it, and no underscore in the name
  (DNS subdomains). On these both keys of the queue identify a pod by namespace and name.
\<close>

definition pod_valid :: "Pod \<Rightarrow> bool" where
  "pod_valid pod \<longleftrightarrow> pod_Namespace pod \<noteq> [] \<and> CHR ''/'' \<notin> set (pod_Namespace pod) \<and> CHR ''_'' \<notin> set (pod_Name pod)"

lemma split_at_first: "a @ c # b = a' @ c # b' \<Longrightarrow> c \<notin> set a \<Longrightarrow> c \<notin> set a' \<Longrightarrow> a = a' \<and> b = b'"
proof (induction a arbitrary: a')
  case Nil
  then show ?case by (cases a') auto
next
  case (Cons x a)
  then show ?case by (cases a') auto
qed

lemma MetaNamespaceKeyFunc_eq:
  assumes "pod_valid p" and "pod_valid q"
  shows "MetaNamespaceKeyFunc p = MetaNamespaceKeyFunc q \<longleftrightarrow> pod_Namespace p = pod_Namespace q \<and> pod_Name p = pod_Name q"
  using assms split_at_first [of "pod_Namespace p" "CHR ''/''" "pod_Name p"]
  by (auto simp: MetaNamespaceKeyFunc_def pod_valid_def)

lemma GetPodFullName_eq:
  assumes "pod_valid p" and "pod_valid q"
  shows "GetPodFullName p = GetPodFullName q \<longleftrightarrow> pod_Namespace p = pod_Namespace q \<and> pod_Name p = pod_Name q"
  using assms split_at_first [of "pod_Name p" "CHR ''_''" "pod_Namespace p"]
  by (auto simp: GetPodFullName_def pod_valid_def)

lemma keys_agree:
  "pod_valid p \<Longrightarrow> pod_valid q \<Longrightarrow> GetPodFullName p = GetPodFullName q \<longleftrightarrow> MetaNamespaceKeyFunc p = MetaNamespaceKeyFunc q"
  by (simp add: MetaNamespaceKeyFunc_eq GetPodFullName_eq)

section \<open>The map of unschedulable pods\<close>

definition upm_inv :: "UnschedulablePodsMap \<Rightarrow> bool" where
  "upm_inv u \<longleftrightarrow> gomap_ok (upm_podInfoMap u)
     \<and> (\<forall>(k, x) \<in> set (upm_podInfoMap u). k = GetPodFullName (qp_Pod x) \<and> pod_valid (qp_Pod x))
     \<and> (\<forall>c. upm_metric u = Some c \<longrightarrow> c = int (length (upm_podInfoMap u)))"

definition upm_lookup :: "UnschedulablePodsMap \<Rightarrow> string \<Rightarrow> QueuedPodInfo option" where
  "upm_lookup u = map_of (map (\<lambda>(_, x). (qp_key x, x)) (upm_podInfoMap u))"

lemma upm_lookup_values:
  assumes "upm_inv u"
  shows "distinct (map qp_key (map snd (upm_podInfoMap u)))"
    and "upm_lookup u k = Some x \<longleftrightarrow> x \<in> snd ` set (upm_podInfoMap u) \<and> qp_key x = k"
proof -
  let ?m = "upm_podInfoMap u"
  have ok: "gomap_ok ?m" and key: "\<And>k x. (k, x) \<in> set ?m \<Longrightarrow> k = GetPodFullName (qp_Pod x) \<and> pod_valid (qp_Pod x)"
    using assms by (auto simp: upm_inv_def)
  have inj: "inj_on (\<lambda>e. qp_key (snd e)) (set ?m)"
  proof (rule inj_onI, clarsimp)
    fix a x b y assume ab: "(a, x) \<in> set ?m" "(b, y) \<in> set ?m" "qp_key x = qp_key y"
    then have "a = b" using key [OF ab(1)] key [OF ab(2)] by (simp add: qp_key_def keys_agree)
    then show "a = b \<and> x = y" using ok ab eq_key_imp_eq_value [of ?m a x y] by (simp add: gomap_ok_def)
  qed
  have "distinct ?m" using ok by (simp add: gomap_ok_def distinct_map)
  then show dist: "distinct (map qp_key (map snd ?m))"
    using inj by (simp add: comp_def distinct_map)
  then have "distinct (map fst (map (\<lambda>(_, x). (qp_key x, x)) ?m))" by (simp add: comp_def case_prod_beta')
  then show "upm_lookup u k = Some x \<longleftrightarrow> x \<in> snd ` set ?m \<and> qp_key x = k"
    unfolding upm_lookup_def by (simp only: map_of_eq_Some_iff) force
qed

lemma upm_lookup_iff:
  assumes "upm_inv u"
  shows "upm_lookup u k = Some x \<longleftrightarrow> gomap_get (upm_podInfoMap u) (GetPodFullName (qp_Pod x)) = Some x \<and> qp_key x = k"
proof -
  have "x \<in> snd ` set (upm_podInfoMap u) \<longleftrightarrow> (GetPodFullName (qp_Pod x), x) \<in> set (upm_podInfoMap u)"
    using assms by (force simp: upm_inv_def)
  then show ?thesis
    using upm_lookup_values(2) [OF assms] assms by (simp add: upm_inv_def gomap_get_in)
qed

lemma upm_lookup_key: "upm_inv u \<Longrightarrow> upm_lookup u k = Some x \<Longrightarrow> qp_key x = k"
  by (simp add: upm_lookup_iff)

lemma upm_lookup_valid: "upm_inv u \<Longrightarrow> upm_lookup u k = Some x \<Longrightarrow> pod_valid (qp_Pod x)"
  by (auto simp: upm_lookup_iff upm_inv_def dest: map_of_SomeD)

lemma upm_get_lookup:
  assumes "upm_inv u" and "pod_valid pod"
  shows "upm_get pod u = upm_lookup u (MetaNamespaceKeyFunc pod)"
proof -
  have "upm_get pod u = Some x \<longleftrightarrow> upm_lookup u (MetaNamespaceKeyFunc pod) = Some x" for x
  proof -
    have ok: "gomap_ok (upm_podInfoMap u)" using assms(1) by (simp add: upm_inv_def)
    have "(k, x) \<in> set (upm_podInfoMap u) \<Longrightarrow> k = GetPodFullName (qp_Pod x) \<and> pod_valid (qp_Pod x)" for k
      using assms(1) by (auto simp: upm_inv_def)
    then show ?thesis
      unfolding upm_lookup_iff [OF assms(1)] upm_get_def qp_key_def gomap_get_in [OF ok]
      using keys_agree [OF assms(2), of "qp_Pod x"] by metis
  qed
  then show ?thesis by (metis option.exhaust)
qed

lemma upm_addOrUpdate_law:
  assumes "upm_inv u" and "pod_valid (qp_Pod x)"
  shows "upm_inv (upm_addOrUpdate x u)" and "upm_lookup (upm_addOrUpdate x u) = (upm_lookup u)(qp_key x \<mapsto> x)"
proof -
  let ?m = "upm_podInfoMap u"
  have ok: "gomap_ok ?m" using assms(1) by (simp add: upm_inv_def)
  have m': "upm_podInfoMap (upm_addOrUpdate x u) = gomap_set ?m (GetPodFullName (qp_Pod x)) x"
    by (simp add: upm_addOrUpdate_def Let_def)
  show inv: "upm_inv (upm_addOrUpdate x u)"
    unfolding upm_inv_def m'
  proof (intro conjI)
    show "gomap_ok (gomap_set ?m (GetPodFullName (qp_Pod x)) x)" by (simp add: ok)
    show "\<forall>(k, y) \<in> set (gomap_set ?m (GetPodFullName (qp_Pod x)) x). k = GetPodFullName (qp_Pod y) \<and> pod_valid (qp_Pod y)"
      using gomap_set_subset [of ?m "GetPodFullName (qp_Pod x)" x] assms by (auto simp: upm_inv_def)
    show "\<forall>c. upm_metric (upm_addOrUpdate x u) = Some c \<longrightarrow> c = int (length (gomap_set ?m (GetPodFullName (qp_Pod x)) x))"
      using assms(1) by (auto simp: upm_addOrUpdate_def Let_def upm_inv_def gomap_length_set)
  qed
  have "upm_lookup (upm_addOrUpdate x u) k = Some y \<longleftrightarrow> ((upm_lookup u)(qp_key x \<mapsto> x)) k = Some y" for k y
  proof (cases "k = qp_key x")
    case True
    have "GetPodFullName (qp_Pod y) = GetPodFullName (qp_Pod x)" if "gomap_get ?m (GetPodFullName (qp_Pod y)) = Some y" "qp_key y = qp_key x"
    proof -
      have "pod_valid (qp_Pod y)" using that(1) assms(1) by (auto simp: upm_inv_def dest: map_of_SomeD)
      then show ?thesis using that(2) assms(2) by (simp add: qp_key_def keys_agree)
    qed
    then show ?thesis using True by (auto simp: upm_lookup_iff [OF inv] m')
  next
    case False
    then have "GetPodFullName (qp_Pod y) \<noteq> GetPodFullName (qp_Pod x)" if "upm_lookup u k = Some y"
      using upm_lookup_key [OF assms(1) that] upm_lookup_valid [OF assms(1) that] assms(2)
      by (auto simp: qp_key_def keys_agree)
    then show ?thesis
      using False upm_lookup_iff [OF assms(1), of k y] by (auto simp: upm_lookup_iff [OF inv] m' split: if_splits)
  qed
  then show "upm_lookup (upm_addOrUpdate x u) = (upm_lookup u)(qp_key x \<mapsto> x)" by (intro ext) (metis option.exhaust)
qed

lemma upm_delete_law:
  assumes "upm_inv u" and "pod_valid pod"
  shows "upm_inv (upm_delete pod u)" and "upm_lookup (upm_delete pod u) = (upm_lookup u)(MetaNamespaceKeyFunc pod := None)"
proof -
  let ?m = "upm_podInfoMap u"
  have ok: "gomap_ok ?m" using assms(1) by (simp add: upm_inv_def)
  have m': "upm_podInfoMap (upm_delete pod u) = gomap_delete ?m (GetPodFullName pod)"
    by (simp add: upm_delete_def Let_def)
  have pos: "0 < length ?m" if "gomap_get ?m k = Some y" for k y using that by (cases ?m) auto
  show inv: "upm_inv (upm_delete pod u)"
    unfolding upm_inv_def m'
  proof (intro conjI)
    show "gomap_ok (gomap_delete ?m (GetPodFullName pod))" by (simp add: ok)
    show "\<forall>(k, y) \<in> set (gomap_delete ?m (GetPodFullName pod)). k = GetPodFullName (qp_Pod y) \<and> pod_valid (qp_Pod y)"
      using gomap_delete_subset [of ?m "GetPodFullName pod"] assms(1) by (auto simp: upm_inv_def)
    show "\<forall>c. upm_metric (upm_delete pod u) = Some c \<longrightarrow> c = int (length (gomap_delete ?m (GetPodFullName pod)))"
      using assms(1) pos by (auto simp: upm_delete_def Let_def upm_inv_def gomap_length_delete of_nat_diff Suc_leI)
  qed
  have "upm_lookup (upm_delete pod u) k = Some y \<longleftrightarrow> ((upm_lookup u)(MetaNamespaceKeyFunc pod := None)) k = Some y" for k y
    unfolding upm_lookup_iff [OF inv] m'
    using upm_lookup_iff [OF assms(1), of k y] upm_lookup_valid [OF assms(1), of k y] keys_agree [OF assms(2), of "qp_Pod y"]
    by (auto simp: qp_key_def)
  then show "upm_lookup (upm_delete pod u) = (upm_lookup u)(MetaNamespaceKeyFunc pod := None)" by (intro ext) (metis option.exhaust)
qed

section \<open>The queue as a map from pods to places\<close>

datatype place = InActive | InBackoff | InUnschedulable

type_synonym pod_map = "string \<Rightarrow> QueuedPodInfo option"

definition place_map :: "pod_map \<Rightarrow> pod_map \<Rightarrow> pod_map \<Rightarrow> string \<Rightarrow> (place \<times> QueuedPodInfo) option" where
  "place_map A B U k =
     (case A k of Some x \<Rightarrow> Some (InActive, x)
      | None \<Rightarrow> (case B k of Some x \<Rightarrow> Some (InBackoff, x) | None \<Rightarrow> map_option (Pair InUnschedulable) (U k)))"

definition separate :: "pod_map \<Rightarrow> pod_map \<Rightarrow> pod_map \<Rightarrow> bool" where
  "separate A B U \<longleftrightarrow> dom A \<inter> dom B = {} \<and> dom A \<inter> dom U = {} \<and> dom B \<inter> dom U = {}"

text \<open>The abstraction of a queue: where each pod is, and its queued information.\<close>

definition pq_abs :: "PriorityQueue \<Rightarrow> string \<Rightarrow> (place \<times> QueuedPodInfo) option" where
  "pq_abs p = place_map (heap_lookup (pq_activeQ p)) (heap_lookup (pq_podBackoffQ p)) (upm_lookup (pq_unschedulableQ p))"

definition pq_struct :: "queue_config \<Rightarrow> PriorityQueue \<Rightarrow> bool" where
  "pq_struct cfg p \<longleftrightarrow> heap_inv qp_key (qc_less cfg) (pq_activeQ p)
     \<and> heap_inv qp_key (podsCompareBackoffCompleted cfg) (pq_podBackoffQ p) \<and> upm_inv (pq_unschedulableQ p)"

text \<open>The invariant: sound heaps and map, every pod in at most one of them, valid names only.\<close>

definition pq_inv :: "queue_config \<Rightarrow> PriorityQueue \<Rightarrow> bool" where
  "pq_inv cfg p \<longleftrightarrow> pq_struct cfg p
     \<and> separate (heap_lookup (pq_activeQ p)) (heap_lookup (pq_podBackoffQ p)) (upm_lookup (pq_unschedulableQ p))
     \<and> (\<forall>x \<in> ran (heap_lookup (pq_activeQ p)) \<union> ran (heap_lookup (pq_podBackoffQ p)). pod_valid (qp_Pod x))"

lemma place_map_put:
  "place_map (A(k \<mapsto> x)) (B(k := None)) (U(k := None)) = (place_map A B U)(k \<mapsto> (InActive, x))"
  "place_map (A(k := None)) (B(k \<mapsto> x)) (U(k := None)) = (place_map A B U)(k \<mapsto> (InBackoff, x))"
  "place_map (A(k := None)) (B(k := None)) (U(k \<mapsto> x)) = (place_map A B U)(k \<mapsto> (InUnschedulable, x))"
  "place_map (A(k := None)) (B(k := None)) (U(k := None)) = (place_map A B U)(k := None)"
  by (auto simp: place_map_def fun_eq_iff split: option.split)

lemma separate_put:
  assumes "separate A B U"
  shows "separate (A(k \<mapsto> x)) (B(k := None)) (U(k := None))" "separate (A(k := None)) (B(k \<mapsto> x)) (U(k := None))"
    "separate (A(k := None)) (B(k := None)) (U(k \<mapsto> x))" "separate (A(k := None)) (B(k := None)) (U(k := None))"
  using assms by (auto simp: separate_def)

lemma place_map_cases:
  assumes "separate A B U"
  shows "place_map A B U k = Some (InActive, x) \<longleftrightarrow> A k = Some x"
    and "place_map A B U k = Some (InBackoff, x) \<longleftrightarrow> B k = Some x"
    and "place_map A B U k = Some (InUnschedulable, x) \<longleftrightarrow> U k = Some x"
    and "place_map A B U k = None \<longleftrightarrow> A k = None \<and> B k = None \<and> U k = None"
  using assms by (auto simp: place_map_def separate_def dom_def split: option.splits)

lemma separate_None:
  assumes "separate A B U"
  shows "A k = Some x \<Longrightarrow> B k = None \<and> U k = None" "B k = Some x \<Longrightarrow> A k = None \<and> U k = None"
    "U k = Some x \<Longrightarrow> A k = None \<and> B k = None"
  using assms by (auto simp: separate_def dom_def)

text \<open>
  A pod put in one place and removed from the others. The maps before and after are those of
  the three queues.
\<close>

definition moved :: "place \<Rightarrow> string \<Rightarrow> QueuedPodInfo \<Rightarrow> PriorityQueue \<Rightarrow> PriorityQueue \<Rightarrow> bool" where
  "moved pl k x p p' \<longleftrightarrow>
     heap_lookup (pq_activeQ p') = (heap_lookup (pq_activeQ p))(k := (if pl = InActive then Some x else None))
     \<and> heap_lookup (pq_podBackoffQ p') = (heap_lookup (pq_podBackoffQ p))(k := (if pl = InBackoff then Some x else None))
     \<and> upm_lookup (pq_unschedulableQ p') = (upm_lookup (pq_unschedulableQ p))(k := (if pl = InUnschedulable then Some x else None))"

lemma moved_inv:
  assumes "pq_inv cfg p" and "pq_struct cfg p'" and "moved pl k x p p'" and "pod_valid (qp_Pod x)"
  shows "pq_inv cfg p' \<and> pq_abs p' = (pq_abs p)(k \<mapsto> (pl, x))"
proof -
  have sep: "separate (heap_lookup (pq_activeQ p)) (heap_lookup (pq_podBackoffQ p)) (upm_lookup (pq_unschedulableQ p))"
    and val: "\<forall>x \<in> ran (heap_lookup (pq_activeQ p)) \<union> ran (heap_lookup (pq_podBackoffQ p)). pod_valid (qp_Pod x)"
    using assms(1) by (simp_all add: pq_inv_def)
  have ran: "y \<in> ran (f(k := o')) \<Longrightarrow> y \<in> ran f \<or> o' = Some y" for f :: pod_map and o' y
    by (auto simp: ran_def split: if_splits)
  have "pod_valid (qp_Pod y)" if y: "y \<in> ran (heap_lookup (pq_activeQ p')) \<union> ran (heap_lookup (pq_podBackoffQ p'))" for y
  proof -
    have "y \<in> ran (heap_lookup (pq_activeQ p)) \<union> ran (heap_lookup (pq_podBackoffQ p)) \<or> y = x"
      using y assms(3) ran [of y "heap_lookup (pq_activeQ p)"] ran [of y "heap_lookup (pq_podBackoffQ p)"]
      by (cases pl) (auto simp: moved_def)
    then show ?thesis using val assms(4) by blast
  qed
  then show ?thesis
    using sep assms(2,3) separate_put [OF sep] unfolding pq_inv_def pq_abs_def moved_def
    by (cases pl) (auto simp: place_map_put)
qed

lemma removed_inv:
  assumes "pq_inv cfg p" and "pq_struct cfg p'"
    and maps: "heap_lookup (pq_activeQ p') = (heap_lookup (pq_activeQ p))(k := None)"
    "heap_lookup (pq_podBackoffQ p') = (heap_lookup (pq_podBackoffQ p))(k := None)"
    "upm_lookup (pq_unschedulableQ p') = (upm_lookup (pq_unschedulableQ p))(k := None)"
  shows "pq_inv cfg p' \<and> pq_abs p' = (pq_abs p)(k := None)"
proof -
  have sep: "separate (heap_lookup (pq_activeQ p)) (heap_lookup (pq_podBackoffQ p)) (upm_lookup (pq_unschedulableQ p))"
    using assms(1) by (simp add: pq_inv_def)
  have "ran (f(k := None)) \<subseteq> ran f" for f :: pod_map by (auto simp: ran_def)
  then have "ran (heap_lookup (pq_activeQ p')) \<union> ran (heap_lookup (pq_podBackoffQ p'))
      \<subseteq> ran (heap_lookup (pq_activeQ p)) \<union> ran (heap_lookup (pq_podBackoffQ p))"
    unfolding maps by (intro Un_mono)
  then have "pq_inv cfg p'"
    using assms(1,2) separate_put(4) [OF sep, of k] unfolding pq_inv_def maps [symmetric] by blast
  moreover have "pq_abs p' = (pq_abs p)(k := None)" unfolding pq_abs_def maps by (rule place_map_put(4))
  ultimately show ?thesis by blast
qed

section \<open>Operations on places\<close>

interpretation backoff_order: keyed_order "podsCompareBackoffCompleted cfg" qp_key for cfg
  by unfold_locales (auto simp: podsCompareBackoffCompleted_def)

lemma keyFunc_key: "podInfoKeyFunc = (\<lambda>x. Inr (qp_key x))"
  by (simp add: podInfoKeyFunc_def)

lemma Heap_Get_lookup: "Heap_Get podInfoKeyFunc x h = Inr (heap_lookup h (qp_key x))"
  by (simp add: Heap_Get_def podInfoKeyFunc_def heap_lookup_def)

lemma qp_key_new [simp]: "qp_key (newQueuedPodInfo now pod pl) = MetaNamespaceKeyFunc pod"
  "qp_key (newQueuedPodInfoForLookup pod pl) = MetaNamespaceKeyFunc pod"
  "qp_Pod (newQueuedPodInfo now pod pl) = pod" "qp_Pod (updatePod x pod) = pod"
  "qp_key (updatePod x pod) = MetaNamespaceKeyFunc pod" "qp_key (x\<lparr>qp_Timestamp := now\<rparr>) = qp_key x"
  by (simp_all add: qp_key_def newQueuedPodInfo_def newQueuedPodInfoForLookup_def NewPodInfo_def updatePod_def)

text \<open>The nominator changes none of the queues.\<close>

lemma nominate_queues [simp]:
  "pq_activeQ (nominate cfg x p) = pq_activeQ p" "pq_podBackoffQ (nominate cfg x p) = pq_podBackoffQ p"
  "pq_unschedulableQ (nominate cfg x p) = pq_unschedulableQ p"
  by (simp_all add: nominate_def)

lemma backoff_Add_law:
  assumes "pq_struct cfg p"
  obtains h where "backoff_Add cfg x p = Returns (None, p\<lparr>pq_podBackoffQ := h\<rparr>)" "pq_struct cfg (p\<lparr>pq_podBackoffQ := h\<rparr>)"
    "heap_lookup h = (heap_lookup (pq_podBackoffQ p))(qp_key x \<mapsto> x)"
  using backoff_order.pq.add_law [of cfg "pq_podBackoffQ p" x] assms
  by (auto simp: pq_struct_def backoff_Add_def keyFunc_key)

lemma backoff_Delete_law:
  assumes "pq_struct cfg p"
  obtains r h where "backoff_Delete cfg x p = Returns (r, p\<lparr>pq_podBackoffQ := h\<rparr>)" "pq_struct cfg (p\<lparr>pq_podBackoffQ := h\<rparr>)"
    "heap_lookup h = (heap_lookup (pq_podBackoffQ p))(qp_key x := None)"
  using backoff_order.pq.delete_law [of cfg "pq_podBackoffQ p" x] assms
  by (auto simp: pq_struct_def backoff_Delete_def keyFunc_key)

lemma unsched_delete_law:
  assumes "pq_struct cfg p" and "pod_valid pod"
  shows "pq_struct cfg (unsched_delete pod p)"
    and "upm_lookup (pq_unschedulableQ (unsched_delete pod p)) = (upm_lookup (pq_unschedulableQ p))(MetaNamespaceKeyFunc pod := None)"
    and "pq_activeQ (unsched_delete pod p) = pq_activeQ p" "pq_podBackoffQ (unsched_delete pod p) = pq_podBackoffQ p"
  using assms upm_delete_law [of "pq_unschedulableQ p" pod] by (simp_all add: pq_struct_def unsched_delete_def)

lemma pq_inv_struct: "pq_inv cfg p \<Longrightarrow> pq_struct cfg p"
  by (simp add: pq_inv_def)

lemma pq_inv_separate:
  "pq_inv cfg p \<Longrightarrow> separate (heap_lookup (pq_activeQ p)) (heap_lookup (pq_podBackoffQ p)) (upm_lookup (pq_unschedulableQ p))"
  by (simp add: pq_inv_def)

lemma pq_struct_parts: "pq_struct cfg p \<Longrightarrow> upm_inv (pq_unschedulableQ p)"
  by (simp add: pq_struct_def)

lemma pq_abs_cases:
  assumes "pq_inv cfg p"
  shows "pq_abs p k = Some (InActive, x) \<longleftrightarrow> heap_lookup (pq_activeQ p) k = Some x"
    and "pq_abs p k = Some (InBackoff, x) \<longleftrightarrow> heap_lookup (pq_podBackoffQ p) k = Some x"
    and "pq_abs p k = Some (InUnschedulable, x) \<longleftrightarrow> upm_lookup (pq_unschedulableQ p) k = Some x"
    and "pq_abs p k = None \<longleftrightarrow> heap_lookup (pq_activeQ p) k = None \<and> heap_lookup (pq_podBackoffQ p) k = None
      \<and> upm_lookup (pq_unschedulableQ p) k = None"
  using place_map_cases assms by (simp_all add: pq_inv_def pq_abs_def)

locale sched_queue = keyed_order "qc_less cfg" qp_key for cfg :: queue_config

context sched_queue
begin

lemma active_Add_law:
  assumes "pq_struct cfg p"
  obtains h where "active_Add cfg x p = Returns (None, p\<lparr>pq_activeQ := h\<rparr>)" "pq_struct cfg (p\<lparr>pq_activeQ := h\<rparr>)"
    "heap_lookup h = (heap_lookup (pq_activeQ p))(qp_key x \<mapsto> x)"
  using pq.add_law [of "pq_activeQ p" x] assms by (auto simp: pq_struct_def active_Add_def keyFunc_key)

lemma active_Delete_law:
  assumes "pq_struct cfg p"
  obtains r h where "active_Delete cfg x p = Returns (r, p\<lparr>pq_activeQ := h\<rparr>)" "pq_struct cfg (p\<lparr>pq_activeQ := h\<rparr>)"
    "heap_lookup h = (heap_lookup (pq_activeQ p))(qp_key x := None)"
    "r = None \<longleftrightarrow> heap_lookup (pq_activeQ p) (qp_key x) \<noteq> None"
  using pq.delete_law [of "pq_activeQ p" x] assms by (auto simp: pq_struct_def active_Delete_def keyFunc_key)

lemma abs_key: "pq_inv cfg p \<Longrightarrow> pq_abs p k = Some (pl, x) \<Longrightarrow> qp_key x = k \<and> pod_valid (qp_Pod x)"
  using pq_abs_cases(1-3) [of cfg p k x] pq.lookup_key [of "pq_activeQ p" k x]
    backoff_order.pq.lookup_key [of cfg "pq_podBackoffQ p" k x] upm_lookup_key [of "pq_unschedulableQ p" k x]
    upm_lookup_valid [of "pq_unschedulableQ p" k x]
  by (cases pl) (auto simp: pq_inv_def pq_struct_def ran_def)

lemma Add_law:
  assumes "pq_inv cfg p" and "pod_valid pod"
  shows "\<exists>p'. PQ_Add cfg now pod p = Returns (None, p') \<and> pq_inv cfg p'
    \<and> pq_abs p' = (pq_abs p)(MetaNamespaceKeyFunc pod \<mapsto> (InActive, newQueuedPodInfo now pod []))"
proof -
  let ?x = "newQueuedPodInfo now pod []"
  obtain h where h: "active_Add cfg ?x p = Returns (None, p\<lparr>pq_activeQ := h\<rparr>)" "pq_struct cfg (p\<lparr>pq_activeQ := h\<rparr>)"
    "heap_lookup h = (heap_lookup (pq_activeQ p))(MetaNamespaceKeyFunc pod \<mapsto> ?x)"
    using active_Add_law [OF pq_inv_struct [OF assms(1)], of ?x] by auto
  define p1 where "p1 = p\<lparr>pq_activeQ := h\<rparr>"
  define p2 where "p2 = (if upm_get pod (pq_unschedulableQ p1) \<noteq> None then unsched_delete pod p1 else p1)"
  have p2: "pq_struct cfg p2" "pq_activeQ p2 = h" "pq_podBackoffQ p2 = pq_podBackoffQ p"
    "upm_lookup (pq_unschedulableQ p2) = (upm_lookup (pq_unschedulableQ p))(MetaNamespaceKeyFunc pod := None)"
  proof -
    have s1: "pq_struct cfg p1" using h(2) by (simp add: p1_def)
    have g: "upm_get pod (pq_unschedulableQ p1) = upm_lookup (pq_unschedulableQ p) (MetaNamespaceKeyFunc pod)"
      using upm_get_lookup [OF pq_struct_parts [OF s1] assms(2)] by (simp add: p1_def)
    show "pq_struct cfg p2" "pq_activeQ p2 = h" "pq_podBackoffQ p2 = pq_podBackoffQ p"
      "upm_lookup (pq_unschedulableQ p2) = (upm_lookup (pq_unschedulableQ p))(MetaNamespaceKeyFunc pod := None)"
      using s1 g unsched_delete_law [OF s1 assms(2)] by (auto simp: p2_def p1_def fun_upd_None_idem)
  qed
  obtain r b where b: "backoff_Delete cfg ?x p2 = Returns (r, p2\<lparr>pq_podBackoffQ := b\<rparr>)" "pq_struct cfg (p2\<lparr>pq_podBackoffQ := b\<rparr>)"
    "heap_lookup b = (heap_lookup (pq_podBackoffQ p))(MetaNamespaceKeyFunc pod := None)"
    using backoff_Delete_law [OF p2(1), of ?x] p2(3) by auto
  define p' where "p' = nominate cfg ?x (p2\<lparr>pq_podBackoffQ := b\<rparr>)"
  have "PQ_Add cfg now pod p = Returns (None, p')"
    by (simp only: PQ_Add_def Let_def h(1) go_bind.simps prod.case option.case p1_def [symmetric] p2_def [symmetric] b(1) p'_def)
  moreover have "pq_struct cfg p'" using b(2) by (simp add: p'_def pq_struct_def)
  then have "pq_inv cfg p' \<and> pq_abs p' = (pq_abs p)(MetaNamespaceKeyFunc pod \<mapsto> (InActive, ?x))"
    by (rule moved_inv [OF assms(1)]) (use h(3) p2 b(3) assms(2) in \<open>simp_all add: moved_def p'_def\<close>)
  ultimately show ?thesis by blast
qed

end

context sched_queue
begin

lemma activate_law:
  assumes "pq_inv cfg p" and "pod_valid pod"
  defines "k \<equiv> MetaNamespaceKeyFunc pod"
  shows "\<exists>b p'. PQ_activate cfg pod p = Returns (b, p') \<and> pq_inv cfg p'
    \<and> pq_abs p' = (case pq_abs p k of Some (_, x) \<Rightarrow> (pq_abs p)(k \<mapsto> (InActive, x)) | None \<Rightarrow> pq_abs p)
    \<and> (b \<longleftrightarrow> (\<exists>x. pq_abs p k = Some (InBackoff, x) \<or> pq_abs p k = Some (InUnschedulable, x)))"
proof -
  have st: "pq_struct cfg p" using assms(1) by (rule pq_inv_struct)
  note cases = pq_abs_cases [OF assms(1), of k]
  have get: "upm_get pod (pq_unschedulableQ p) = upm_lookup (pq_unschedulableQ p) k"
    unfolding k_def by (rule upm_get_lookup [OF pq_struct_parts [OF st] assms(2)])
  define x where "x = (case upm_lookup (pq_unschedulableQ p) k of Some y \<Rightarrow> Some y | None \<Rightarrow> heap_lookup (pq_podBackoffQ p) k)"
  have op: "PQ_activate cfg pod p = (if heap_lookup (pq_activeQ p) k \<noteq> None then Returns (False, p)
      else case x of None \<Rightarrow> Returns (False, p)
        | Some pInfo \<Rightarrow> go_bind (active_Add cfg pInfo p) (\<lambda>(err, p1).
               case err of Some _ \<Rightarrow> Returns (False, p1)
               | None \<Rightarrow> go_bind (backoff_Delete cfg pInfo (unsched_delete pod p1)) (\<lambda>(_, p2).
                           Returns (True, nominate cfg pInfo p2))))"
    unfolding PQ_activate_def Heap_Get_lookup get x_def qp_key_new k_def [symmetric]
    by (simp split: option.splits)
  show ?thesis
  proof (cases "pq_abs p k")
    case None
    then have "x = None" "heap_lookup (pq_activeQ p) k = None" using cases(4) by (simp_all add: x_def)
    then show ?thesis using None assms(1) op by auto
  next
    case (Some e)
    obtain pl y where e: "e = (pl, y)" by fastforce
    have y: "qp_key y = k" "pod_valid (qp_Pod y)" using abs_key [OF assms(1)] Some e by auto
    show ?thesis
    proof (cases "pl = InActive")
      case True
      then have "heap_lookup (pq_activeQ p) k = Some y" using cases(1) [of y] Some e by simp
      moreover have "(pq_abs p)(k \<mapsto> (InActive, y)) = pq_abs p" using Some e True by (simp add: fun_upd_idem)
      ultimately show ?thesis using Some e True assms(1) op by auto
    next
      case False
      note sep = pq_inv_separate [OF assms(1)]
      have x: "x = Some y \<and> heap_lookup (pq_activeQ p) k = None"
      proof (cases pl)
        case InBackoff
        then have "heap_lookup (pq_podBackoffQ p) k = Some y" using cases(2) [of y] Some e by simp
        then show ?thesis using separate_None(2) [OF sep] by (simp add: x_def)
      next
        case InUnschedulable
        then have "upm_lookup (pq_unschedulableQ p) k = Some y" using cases(3) [of y] Some e by simp
        then show ?thesis using separate_None(3) [OF sep] by (simp add: x_def)
      qed (use False in simp)
      obtain h where h: "active_Add cfg y p = Returns (None, p\<lparr>pq_activeQ := h\<rparr>)" "pq_struct cfg (p\<lparr>pq_activeQ := h\<rparr>)"
        "heap_lookup h = (heap_lookup (pq_activeQ p))(k \<mapsto> y)"
        using active_Add_law [OF st, of y] y(1) by auto
      define p1 where "p1 = unsched_delete pod (p\<lparr>pq_activeQ := h\<rparr>)"
      note p1 = unsched_delete_law [OF h(2) assms(2), folded p1_def k_def, simplified]
      obtain r b where b: "backoff_Delete cfg y p1 = Returns (r, p1\<lparr>pq_podBackoffQ := b\<rparr>)" "pq_struct cfg (p1\<lparr>pq_podBackoffQ := b\<rparr>)"
        "heap_lookup b = (heap_lookup (pq_podBackoffQ p))(k := None)"
        using backoff_Delete_law [OF p1(1), of y] p1(4) y(1) by auto
      define p' where "p' = nominate cfg y (p1\<lparr>pq_podBackoffQ := b\<rparr>)"
      have "PQ_activate cfg pod p = Returns (True, p')"
        using op x h(1) b(1) by (simp add: p'_def p1_def)
      moreover have "pq_struct cfg p'" using b(2) by (simp add: p'_def pq_struct_def)
      then have "pq_inv cfg p' \<and> pq_abs p' = (pq_abs p)(k \<mapsto> (InActive, y))"
        by (rule moved_inv [OF assms(1)]) (use h(3) p1 b(3) y in \<open>simp_all add: moved_def p'_def\<close>)
      ultimately show ?thesis using Some e False by (cases pl) auto
    qed
  qed
qed

lemma AddUnschedulable_law:
  assumes "pq_inv cfg p" and "pod_valid (qp_Pod x)"
  shows "\<exists>r p'. PQ_AddUnschedulableIfNotPresent cfg now x c p = Returns (r, p') \<and> pq_inv cfg p'
    \<and> (case pq_abs p (qp_key x) of Some _ \<Rightarrow> r \<noteq> None \<and> p' = p
       | None \<Rightarrow> r = None \<and> pq_abs p' = (pq_abs p)(qp_key x \<mapsto>
           (if c \<le> pq_moveRequestCycle p then InBackoff else InUnschedulable, x\<lparr>qp_Timestamp := now\<rparr>)))"
proof -
  let ?k = "qp_key x" and ?x = "x\<lparr>qp_Timestamp := now\<rparr>"
  have st: "pq_struct cfg p" using assms(1) by (rule pq_inv_struct)
  note cases = pq_abs_cases [OF assms(1), of ?k]
  have get: "upm_get (qp_Pod x) (pq_unschedulableQ p) = upm_lookup (pq_unschedulableQ p) ?k"
    using upm_get_lookup [OF pq_struct_parts [OF st] assms(2)] by (simp add: qp_key_def)
  show ?thesis
  proof (cases "pq_abs p ?k")
    case (Some e)
    then have "\<exists>r. r \<noteq> None \<and> PQ_AddUnschedulableIfNotPresent cfg now x c p = Returns (r, p)"
      using cases(4) get by (auto simp: PQ_AddUnschedulableIfNotPresent_def Heap_Get_lookup Let_def)
    then show ?thesis using Some assms(1) by auto
  next
    case None
    then have none: "heap_lookup (pq_activeQ p) ?k = None" "heap_lookup (pq_podBackoffQ p) ?k = None"
      "upm_lookup (pq_unschedulableQ p) ?k = None" using cases(4) by auto
    have key: "qp_key ?x = ?k" "pod_valid (qp_Pod ?x)" using assms(2) by simp_all
    show ?thesis
    proof (cases "c \<le> pq_moveRequestCycle p")
      case True
      obtain b where b: "backoff_Add cfg ?x p = Returns (None, p\<lparr>pq_podBackoffQ := b\<rparr>)" "pq_struct cfg (p\<lparr>pq_podBackoffQ := b\<rparr>)"
        "heap_lookup b = (heap_lookup (pq_podBackoffQ p))(?k \<mapsto> ?x)"
        using backoff_Add_law [OF st, of ?x] key(1) by auto
      define p' where "p' = nominate cfg ?x (p\<lparr>pq_podBackoffQ := b\<rparr>)"
      have "PQ_AddUnschedulableIfNotPresent cfg now x c p = Returns (None, p')"
        using none get True b(1) by (simp add: PQ_AddUnschedulableIfNotPresent_def Heap_Get_lookup Let_def p'_def)
      moreover have "pq_struct cfg p'" using b(2) by (simp add: p'_def pq_struct_def)
      then have "pq_inv cfg p' \<and> pq_abs p' = (pq_abs p)(?k \<mapsto> (InBackoff, ?x))"
        by (rule moved_inv [OF assms(1)]) (use none b(3) key in \<open>simp_all add: moved_def p'_def fun_upd_None_idem\<close>)
      ultimately show ?thesis using None True by auto
    next
      case False
      define p' where "p' = nominate cfg ?x (p\<lparr>pq_unschedulableQ := upm_addOrUpdate ?x (pq_unschedulableQ p)\<rparr>)"
      note u = upm_addOrUpdate_law [OF pq_struct_parts [OF st] key(2), unfolded key(1)]
      have "PQ_AddUnschedulableIfNotPresent cfg now x c p = Returns (None, p')"
        using none get False by (simp add: PQ_AddUnschedulableIfNotPresent_def Heap_Get_lookup Let_def p'_def)
      moreover have "pq_struct cfg p'" using st u(1) by (simp add: p'_def pq_struct_def)
      then have "pq_inv cfg p' \<and> pq_abs p' = (pq_abs p)(?k \<mapsto> (InUnschedulable, ?x))"
        by (rule moved_inv [OF assms(1)]) (use none u(2) key in \<open>simp_all add: moved_def p'_def fun_upd_None_idem\<close>)
      ultimately show ?thesis using None False by auto
    qed
  qed
qed

end

text \<open>What a flush, and a move of unschedulable pods, do to the places of pods.\<close>

definition flushed :: "queue_config \<Rightarrow> int \<Rightarrow> (string \<Rightarrow> (place \<times> QueuedPodInfo) option) \<Rightarrow> string \<Rightarrow> (place \<times> QueuedPodInfo) option" where
  "flushed cfg now f k =
     (case f k of Some (InBackoff, x) \<Rightarrow> if isPodBackingoff cfg now x then Some (InBackoff, x) else Some (InActive, x)
      | r \<Rightarrow> r)"

definition moved_place :: "queue_config \<Rightarrow> int \<Rightarrow> ClusterEvent \<Rightarrow> QueuedPodInfo \<Rightarrow> place" where
  "moved_place cfg now event x =
     (if qp_UnschedulablePlugins x \<noteq> [] \<and> \<not> podMatchesEvent cfg x event then InUnschedulable
      else if isPodBackingoff cfg now x then InBackoff else InActive)"

definition moved_pods :: "queue_config \<Rightarrow> int \<Rightarrow> ClusterEvent \<Rightarrow> QueuedPodInfo set
    \<Rightarrow> (string \<Rightarrow> (place \<times> QueuedPodInfo) option) \<Rightarrow> string \<Rightarrow> (place \<times> QueuedPodInfo) option" where
  "moved_pods cfg now event xs f k =
     (case f k of Some (InUnschedulable, x) \<Rightarrow>
        if x \<in> xs then Some (moved_place cfg now event x, x) else Some (InUnschedulable, x)
      | r \<Rightarrow> r)"

lemma flushed_step:
  assumes "f k = Some (InBackoff, x)" and "\<not> isPodBackingoff cfg now x"
  shows "flushed cfg now (f(k \<mapsto> (InActive, x))) = flushed cfg now f"
  using assms by (intro ext) (simp add: flushed_def)

lemma flushed_idle:
  assumes "\<And>k x. f k = Some (InBackoff, x) \<Longrightarrow> isPodBackingoff cfg now x"
  shows "flushed cfg now f = f"
proof
  fix k
  show "flushed cfg now f k = f k"
    using assms [of k] by (auto simp: flushed_def split: option.splits place.splits)
qed

context sched_queue
begin

lemma flush_loop_law:
  assumes "pq_inv cfg p" and "card (dom (heap_lookup (pq_podBackoffQ p))) < fuel"
  shows "\<exists>p'. flush_loop fuel cfg now p = Returns (Some p') \<and> pq_inv cfg p' \<and> pq_abs p' = flushed cfg now (pq_abs p)
    \<and> pq_unschedulableQ p' = pq_unschedulableQ p"
  using assms
proof (induction fuel arbitrary: p)
  case (Suc fuel)
  let ?B = "pq_podBackoffQ p"
  have st: "pq_struct cfg p" using Suc.prems(1) by (rule pq_inv_struct)
  have inv: "heap_inv qp_key (podsCompareBackoffCompleted cfg) ?B" using st by (simp add: pq_struct_def)
  note cases = pq_abs_cases [OF Suc.prems(1)]
  show ?case
  proof (cases "heap_lookup ?B = Map.empty")
    case True
    then have "flushed cfg now (pq_abs p) = pq_abs p" using cases(2) by (intro flushed_idle) simp
    then show ?thesis using backoff_order.pq.peek_empty [OF inv True] Suc.prems(1) by simp
  next
    case False
    obtain x h where x: "Heap_Pop (podsCompareBackoffCompleted cfg) ?B = Returns (Inr x, h)"
      "heap_inv qp_key (podsCompareBackoffCompleted cfg) h" "heap_lookup ?B (qp_key x) = Some x"
      "\<forall>y \<in> ran (heap_lookup ?B). \<not> podsCompareBackoffCompleted cfg y x" "heap_lookup h = (heap_lookup ?B)(qp_key x := None)"
      using backoff_order.pq.pop_law [OF inv False] by blast
    have peek: "Heap_Peek ?B = Returns (Some x)" by (rule backoff_order.pq.peek_law [OF inv x(1)])
    show ?thesis
    proof (cases "getBackoffTime cfg x > now")
      case True
      have "isPodBackingoff cfg now y" if "pq_abs p k = Some (InBackoff, y)" for k y
        using that cases(2) x(4) True by (fastforce simp: ran_def podsCompareBackoffCompleted_def isPodBackingoff_def)
      then have "flushed cfg now (pq_abs p) = pq_abs p" by (rule flushed_idle)
      then show ?thesis using peek True Suc.prems(1) by simp
    next
      case False
      define p1 where "p1 = p\<lparr>pq_podBackoffQ := h\<rparr>"
      have st1: "pq_struct cfg p1" using st x(2) by (simp add: pq_struct_def p1_def)
      obtain a where a: "active_Add cfg x p1 = Returns (None, p1\<lparr>pq_activeQ := a\<rparr>)" "pq_struct cfg (p1\<lparr>pq_activeQ := a\<rparr>)"
        "heap_lookup a = (heap_lookup (pq_activeQ p))(qp_key x \<mapsto> x)"
        using active_Add_law [OF st1, of x] by (auto simp: p1_def)
      define p2 where "p2 = p1\<lparr>pq_activeQ := a\<rparr>"
      have abs: "pq_abs p (qp_key x) = Some (InBackoff, x)" using cases(2) x(3) by simp
      then have valid: "pod_valid (qp_Pod x)" using abs_key [OF Suc.prems(1)] by blast
      have "upm_lookup (pq_unschedulableQ p) (qp_key x) = None"
        using separate_None(2) [OF pq_inv_separate [OF Suc.prems(1)] x(3)] by simp
      then have p2: "pq_inv cfg p2 \<and> pq_abs p2 = (pq_abs p)(qp_key x \<mapsto> (InActive, x))"
        by (intro moved_inv [OF Suc.prems(1)])
          (use a x(5) valid in \<open>simp_all add: p2_def p1_def moved_def fun_upd_None_idem\<close>)
      have "dom (heap_lookup (pq_podBackoffQ p2)) = dom (heap_lookup ?B) - {qp_key x}"
        by (simp add: p2_def p1_def x(5))
      then have "card (dom (heap_lookup (pq_podBackoffQ p2))) < fuel"
        using Suc.prems(2) backoff_order.pq.lookup_finite [OF inv] x(3)
        by (simp add: card_Diff_singleton domI) (metis Suc_lessD Suc_pred card_gt_0_iff domI empty_iff less_Suc_eq)
      then obtain p' where "flush_loop fuel cfg now p2 = Returns (Some p')" "pq_inv cfg p'"
          "pq_abs p' = flushed cfg now (pq_abs p2)" "pq_unschedulableQ p' = pq_unschedulableQ p2"
        using Suc.IH [of p2] p2 by blast
      moreover have "flushed cfg now (pq_abs p2) = flushed cfg now (pq_abs p)"
        using p2 flushed_step [of "pq_abs p" "qp_key x" x] abs False by (simp add: isPodBackingoff_def)
      ultimately show ?thesis
        using peek x(1) a(1) False by (simp add: p2_def p1_def)
    qed
  qed
qed simp

end

lemma moved_pods_Nil [simp]: "moved_pods cfg now event {} f = f"
  by (intro ext) (auto simp: moved_pods_def split: option.splits place.splits)

lemma moved_pods_insert:
  assumes "f k = Some (InUnschedulable, x)" and "x \<notin> xs" and "\<And>j. f j = Some (InUnschedulable, x) \<Longrightarrow> j = k"
  shows "moved_pods cfg now event xs (f(k \<mapsto> (moved_place cfg now event x, x))) = moved_pods cfg now event (insert x xs) f"
proof
  fix j
  show "moved_pods cfg now event xs (f(k \<mapsto> (moved_place cfg now event x, x))) j = moved_pods cfg now event (insert x xs) f j"
  proof (cases "j = k")
    case True
    then show ?thesis using assms(1,2) by (cases "moved_place cfg now event x") (simp_all add: moved_pods_def)
  next
    case False
    then show ?thesis using assms(3) [of j] by (auto simp: moved_pods_def split: option.split prod.split place.split)
  qed
qed

context sched_queue
begin

lemma move_pod_law:
  assumes "pq_inv cfg p" and abs: "pq_abs p (qp_key x) = Some (InUnschedulable, x)"
  shows "\<exists>p'. move_pod cfg now event x p = Returns p' \<and> pq_inv cfg p'
    \<and> pq_abs p' = (pq_abs p)(qp_key x \<mapsto> (moved_place cfg now event x, x))"
proof -
  let ?k = "qp_key x"
  have st: "pq_struct cfg p" using assms(1) by (rule pq_inv_struct)
  have valid: "pod_valid (qp_Pod x)" using abs_key [OF assms] by blast
  have k: "MetaNamespaceKeyFunc (qp_Pod x) = ?k" by (simp add: qp_key_def)
  have none: "heap_lookup (pq_activeQ p) ?k = None" "heap_lookup (pq_podBackoffQ p) ?k = None"
    using separate_None(3) [OF pq_inv_separate [OF assms(1)]] pq_abs_cases(3) [OF assms(1)] abs by auto
  consider (stay) "moved_place cfg now event x = InUnschedulable" "qp_UnschedulablePlugins x \<noteq> [] \<and> \<not> podMatchesEvent cfg x event"
    | (backoff) "moved_place cfg now event x = InBackoff" "\<not> (qp_UnschedulablePlugins x \<noteq> [] \<and> \<not> podMatchesEvent cfg x event)" "isPodBackingoff cfg now x"
    | (active) "moved_place cfg now event x = InActive" "\<not> (qp_UnschedulablePlugins x \<noteq> [] \<and> \<not> podMatchesEvent cfg x event)" "\<not> isPodBackingoff cfg now x"
    by (auto simp: moved_place_def split: if_splits)
  then show ?thesis
  proof cases
    case stay
    then show ?thesis using assms by (simp add: move_pod_def fun_upd_idem)
  next
    case backoff
    obtain b where b: "backoff_Add cfg x p = Returns (None, p\<lparr>pq_podBackoffQ := b\<rparr>)" "pq_struct cfg (p\<lparr>pq_podBackoffQ := b\<rparr>)"
      "heap_lookup b = (heap_lookup (pq_podBackoffQ p))(?k \<mapsto> x)"
      using backoff_Add_law [OF st, of x] by auto
    define p' where "p' = unsched_delete (qp_Pod x) (p\<lparr>pq_podBackoffQ := b\<rparr>)"
    note p' = unsched_delete_law [OF b(2) valid, folded p'_def, unfolded k, simplified]
    have "move_pod cfg now event x p = Returns p'" using backoff(2,3) b(1) by (auto simp: move_pod_def p'_def)
    moreover have "pq_inv cfg p' \<and> pq_abs p' = (pq_abs p)(?k \<mapsto> (InBackoff, x))"
      by (rule moved_inv [OF assms(1) p'(1)]) (use b(3) p' none valid in \<open>simp_all add: moved_def fun_upd_None_idem\<close>)
    ultimately show ?thesis using backoff(1) by auto
  next
    case active
    obtain a where a: "active_Add cfg x p = Returns (None, p\<lparr>pq_activeQ := a\<rparr>)" "pq_struct cfg (p\<lparr>pq_activeQ := a\<rparr>)"
      "heap_lookup a = (heap_lookup (pq_activeQ p))(?k \<mapsto> x)"
      using active_Add_law [OF st, of x] by auto
    define p' where "p' = unsched_delete (qp_Pod x) (p\<lparr>pq_activeQ := a\<rparr>)"
    note p' = unsched_delete_law [OF a(2) valid, folded p'_def, unfolded k, simplified]
    have "move_pod cfg now event x p = Returns p'" using active(2,3) a(1) by (auto simp: move_pod_def p'_def)
    moreover have "pq_inv cfg p' \<and> pq_abs p' = (pq_abs p)(?k \<mapsto> (InActive, x))"
      by (rule moved_inv [OF assms(1) p'(1)]) (use a(3) p' none valid in \<open>simp_all add: moved_def fun_upd_None_idem\<close>)
    ultimately show ?thesis using active(1) by auto
  qed
qed

lemma move_pods_law:
  assumes "pq_inv cfg p" and "\<And>x. x \<in> set xs \<Longrightarrow> pq_abs p (qp_key x) = Some (InUnschedulable, x)" and "distinct (map qp_key xs)"
  shows "\<exists>p'. move_pods cfg now event xs p = Returns p' \<and> pq_inv cfg p' \<and> pq_abs p' = moved_pods cfg now event (set xs) (pq_abs p)"
  using assms
proof (induction xs arbitrary: p)
  case (Cons x xs)
  have x: "pq_abs p (qp_key x) = Some (InUnschedulable, x)" using Cons.prems(2) by simp
  obtain p1 where p1: "move_pod cfg now event x p = Returns p1" "pq_inv cfg p1"
    "pq_abs p1 = (pq_abs p)(qp_key x \<mapsto> (moved_place cfg now event x, x))"
    using move_pod_law [OF Cons.prems(1) x] by blast
  have "pq_abs p1 (qp_key y) = Some (InUnschedulable, y)" if "y \<in> set xs" for y
  proof -
    have "qp_key y \<noteq> qp_key x" using Cons.prems(3) that by (metis distinct.simps(2) image_eqI list.simps(9) set_map)
    then show ?thesis using Cons.prems(2) [of y] that p1(3) by simp
  qed
  then obtain p' where p': "move_pods cfg now event xs p1 = Returns p'" "pq_inv cfg p'"
      "pq_abs p' = moved_pods cfg now event (set xs) (pq_abs p1)"
    using Cons.IH [OF p1(2)] Cons.prems(3) by auto
  have "moved_pods cfg now event (set xs) (pq_abs p1) = moved_pods cfg now event (insert x (set xs)) (pq_abs p)"
    unfolding p1(3)
  proof (rule moved_pods_insert)
    show "pq_abs p (qp_key x) = Some (InUnschedulable, x)" by (rule x)
    show "x \<notin> set xs" using Cons.prems(3) by auto
    show "j = qp_key x" if "pq_abs p j = Some (InUnschedulable, x)" for j
      using abs_key [OF Cons.prems(1) that] by simp
  qed
  then show ?case using p1(1) p' by simp
qed simp

lemma filter_unschedulable:
  assumes "pq_inv cfg p"
  shows "\<And>x. x \<in> set (filter P (map snd (upm_podInfoMap (pq_unschedulableQ p)))) \<Longrightarrow> pq_abs p (qp_key x) = Some (InUnschedulable, x)"
    and "distinct (map qp_key (filter P (map snd (upm_podInfoMap (pq_unschedulableQ p)))))"
proof -
  note u = upm_lookup_values [OF pq_struct_parts [OF pq_inv_struct [OF assms]]]
  show "pq_abs p (qp_key x) = Some (InUnschedulable, x)" if "x \<in> set (filter P (map snd (upm_podInfoMap (pq_unschedulableQ p))))" for x
    using that u(2) pq_abs_cases(3) [OF assms] by auto
  show "distinct (map qp_key (filter P (map snd (upm_podInfoMap (pq_unschedulableQ p)))))"
    using u(1) by (rule distinct_map_filter)
qed

text \<open>Moving a selection of the unschedulable pods, as four operations of the queue do.\<close>

lemma move_filtered_law:
  fixes P :: "QueuedPodInfo \<Rightarrow> bool"
  assumes "pq_inv cfg p"
  defines "xs \<equiv> filter P (map snd (upm_podInfoMap (pq_unschedulableQ p)))"
  shows "\<exists>p'. movePodsToActiveOrBackoffQueue cfg now xs event p = Returns p' \<and> pq_inv cfg p'
    \<and> pq_abs p' = moved_pods cfg now event (Collect P) (pq_abs p) \<and> pq_moveRequestCycle p' = pq_schedulingCycle p'"
proof -
  obtain p1 where p1: "move_pods cfg now event xs p = Returns p1" "pq_inv cfg p1"
    "pq_abs p1 = moved_pods cfg now event (set xs) (pq_abs p)"
    using move_pods_law [OF assms(1)] filter_unschedulable [OF assms(1), where P = P] unfolding xs_def by blast
  have "pq_abs p k = Some (InUnschedulable, x) \<Longrightarrow> x \<in> set xs \<longleftrightarrow> P x" for k x
    using upm_lookup_values(2) [OF pq_struct_parts [OF pq_inv_struct [OF assms(1)]]] pq_abs_cases(3) [OF assms(1)]
    by (auto simp: xs_def)
  then have "moved_pods cfg now event (set xs) (pq_abs p) = moved_pods cfg now event (Collect P) (pq_abs p)"
    by (intro ext) (auto simp: moved_pods_def split: option.splits place.splits)
  then show ?thesis
    using p1 by (simp add: movePodsToActiveOrBackoffQueue_def pq_inv_def pq_struct_def pq_abs_def)
qed

end

text \<open>The place and information of a pod after an update.\<close>

definition updated_place :: "queue_config \<Rightarrow> int \<Rightarrow> Pod \<Rightarrow> Pod \<Rightarrow> (place \<times> QueuedPodInfo) option \<Rightarrow> place \<times> QueuedPodInfo" where
  "updated_place cfg now old new e =
     (case e of None \<Rightarrow> (InActive, newQueuedPodInfo now new [])
      | Some (pl, x) \<Rightarrow>
          (if pl = InUnschedulable \<and> isPodUpdated old new
           then if isPodBackingoff cfg now (updatePod x new) then InBackoff else InActive
           else pl, updatePod x new))"

lemma renominate_queues [simp]:
  "pq_struct cfg (p\<lparr>pq_nominator := n\<rparr>) = pq_struct cfg p"
  "pq_activeQ (p\<lparr>pq_nominator := n\<rparr>) = pq_activeQ p" "pq_podBackoffQ (p\<lparr>pq_nominator := n\<rparr>) = pq_podBackoffQ p"
  "pq_unschedulableQ (p\<lparr>pq_nominator := n\<rparr>) = pq_unschedulableQ p"
  by (simp_all add: pq_struct_def)

lemma nominate_struct [simp]: "pq_struct cfg (nominate cfg' x p) = pq_struct cfg p"
  by (simp add: pq_struct_def)

context sched_queue
begin

lemma Pop_law:
  assumes "pq_inv cfg p"
  shows "if \<exists>k x. pq_abs p k = Some (InActive, x)
    then \<exists>x p'. PQ_Pop cfg p = Returns (Some (Inr (x\<lparr>qp_Attempts := wrap64 (qp_Attempts x + 1)\<rparr>)), p') \<and> pq_inv cfg p'
      \<and> pq_abs p (qp_key x) = Some (InActive, x) \<and> pq_abs p' = (pq_abs p)(qp_key x := None)
      \<and> (\<forall>k y. pq_abs p k = Some (InActive, y) \<longrightarrow> \<not> qc_less cfg y x)
      \<and> pq_schedulingCycle p' = wrap64 (pq_schedulingCycle p + 1)
    else PQ_Pop cfg p = Returns (if pq_closed p then Some (Inl ''scheduling queue is closed'') else None, p)"
proof -
  let ?A = "pq_activeQ p"
  have st: "pq_struct cfg p" using assms by (rule pq_inv_struct)
  then have inv: "heap_inv qp_key (qc_less cfg) ?A" by (simp add: pq_struct_def)
  have empty: "(\<exists>k x. pq_abs p k = Some (InActive, x)) \<longleftrightarrow> heap_lookup ?A \<noteq> Map.empty"
    using pq_abs_cases(1) [OF assms] by (auto simp: fun_eq_iff)
  have len: "Heap_Len ?A = 0 \<longleftrightarrow> heap_lookup ?A = Map.empty"
    using Heap_Len_card [OF inv] pq.lookup_finite [OF inv] by simp
  show ?thesis
  proof (cases "heap_lookup ?A = Map.empty")
    case True
    then show ?thesis using empty len by (simp add: PQ_Pop_def)
  next
    case False
    obtain x h where x: "Heap_Pop (qc_less cfg) ?A = Returns (Inr x, h)" "heap_inv qp_key (qc_less cfg) h"
      "heap_lookup ?A (qp_key x) = Some x" "\<forall>y \<in> ran (heap_lookup ?A). \<not> qc_less cfg y x"
      "heap_lookup h = (heap_lookup ?A)(qp_key x := None)"
      using pq.pop_law [OF inv False] by blast
    define p' where "p' = p\<lparr>pq_activeQ := h, pq_schedulingCycle := wrap64 (pq_schedulingCycle p + 1)\<rparr>"
    note sep = pq_inv_separate [OF assms]
    note none = separate_None(1) [OF sep x(3)]
    have maps: "heap_lookup (pq_podBackoffQ p') = (heap_lookup (pq_podBackoffQ p))(qp_key x := None)"
      "upm_lookup (pq_unschedulableQ p') = (upm_lookup (pq_unschedulableQ p))(qp_key x := None)"
      "heap_lookup (pq_activeQ p') = (heap_lookup ?A)(qp_key x := None)"
      using none x(5) by (simp_all add: p'_def fun_upd_None_idem)
    have "pq_struct cfg p'" using st x(2) by (simp add: pq_struct_def p'_def)
    then have "pq_inv cfg p' \<and> pq_abs p' = (pq_abs p)(qp_key x := None)"
      by (rule removed_inv [OF assms _ maps(3,1,2)])
    moreover have "PQ_Pop cfg p = Returns (Some (Inr (x\<lparr>qp_Attempts := wrap64 (qp_Attempts x + 1)\<rparr>)), p')"
      using x(1) len False by (simp add: PQ_Pop_def p'_def)
    moreover have "\<forall>k y. pq_abs p k = Some (InActive, y) \<longrightarrow> \<not> qc_less cfg y x"
      using x(4) pq_abs_cases(1) [OF assms] by (auto simp: ran_def)
    moreover have "pq_abs p (qp_key x) = Some (InActive, x)" using pq_abs_cases(1) [OF assms] x(3) by simp
    moreover have "pq_schedulingCycle p' = wrap64 (pq_schedulingCycle p + 1)" by (simp add: p'_def)
    ultimately show ?thesis using empty False by auto
  qed
qed

lemma Delete_law:
  assumes "pq_inv cfg p" and "pod_valid pod"
  shows "\<exists>p'. PQ_Delete cfg pod p = Returns p' \<and> pq_inv cfg p' \<and> pq_abs p' = (pq_abs p)(MetaNamespaceKeyFunc pod := None)"
proof -
  let ?k = "MetaNamespaceKeyFunc pod" and ?x = "newQueuedPodInfoForLookup pod []"
  define p1 where "p1 = p\<lparr>pq_nominator := npm_delete pod (pq_nominator p)\<rparr>"
  have st1: "pq_struct cfg p1" using assms(1) by (simp add: p1_def pq_inv_def)
  obtain r a where a: "active_Delete cfg ?x p1 = Returns (r, p1\<lparr>pq_activeQ := a\<rparr>)" "pq_struct cfg (p1\<lparr>pq_activeQ := a\<rparr>)"
    "heap_lookup a = (heap_lookup (pq_activeQ p))(?k := None)" "r = None \<longleftrightarrow> heap_lookup (pq_activeQ p) ?k \<noteq> None"
    using active_Delete_law [OF st1, of ?x] by (auto simp: p1_def)
  obtain r' b where b: "backoff_Delete cfg ?x (p1\<lparr>pq_activeQ := a\<rparr>) = Returns (r', p1\<lparr>pq_activeQ := a, pq_podBackoffQ := b\<rparr>)"
    "pq_struct cfg (p1\<lparr>pq_activeQ := a, pq_podBackoffQ := b\<rparr>)"
    "heap_lookup b = (heap_lookup (pq_podBackoffQ p))(?k := None)"
    using backoff_Delete_law [OF a(2), of ?x] by (auto simp: p1_def)
  note u = unsched_delete_law [OF b(2) assms(2), simplified]
  define p' where "p' = (if r = None then p1\<lparr>pq_activeQ := a\<rparr> else unsched_delete pod (p1\<lparr>pq_activeQ := a, pq_podBackoffQ := b\<rparr>))"
  have op: "PQ_Delete cfg pod p = Returns p'"
    using a(1) b(1) by (simp add: PQ_Delete_def p1_def p'_def)
  have st: "pq_struct cfg p'" using a(2) u(1) by (simp add: p'_def)
  note sep = pq_inv_separate [OF assms(1)]
  have maps: "heap_lookup (pq_activeQ p') = (heap_lookup (pq_activeQ p))(?k := None)"
    "heap_lookup (pq_podBackoffQ p') = (heap_lookup (pq_podBackoffQ p))(?k := None)"
    "upm_lookup (pq_unschedulableQ p') = (upm_lookup (pq_unschedulableQ p))(?k := None)"
    using a(3,4) b(3) u(2-4) separate_None(1) [OF sep, of ?k] by (auto simp: p'_def p1_def fun_upd_None_idem)
  have "pq_inv cfg p' \<and> pq_abs p' = (pq_abs p)(?k := None)" by (rule removed_inv [OF assms(1) st maps])
  with op show ?thesis by blast
qed

end

context sched_queue
begin

lemma Update_law:
  assumes "pq_inv cfg p" and "pod_valid new" and "MetaNamespaceKeyFunc old = MetaNamespaceKeyFunc new"
  defines "k \<equiv> MetaNamespaceKeyFunc new"
  shows "\<exists>p'. PQ_Update cfg now (Some old) new p = Returns (None, p') \<and> pq_inv cfg p'
    \<and> pq_abs p' = (pq_abs p)(k \<mapsto> updated_place cfg now old new (pq_abs p k))"
proof -
  have st: "pq_struct cfg p" using assms(1) by (rule pq_inv_struct)
  note cases = pq_abs_cases [OF assms(1), of k] and none = separate_None [OF pq_inv_separate [OF assms(1)], of k]
  have get: "upm_get new (pq_unschedulableQ p) = upm_lookup (pq_unschedulableQ p) k"
    unfolding k_def by (rule upm_get_lookup [OF pq_struct_parts [OF st] assms(2)])
  have look: "heap_lookup h (MetaNamespaceKeyFunc old) = heap_lookup h k" for h :: "QueuedPodInfo Heap"
    using assms(3) by (simp add: k_def)
  have result: "pq_inv cfg p' \<and> pq_abs p' = (pq_abs p)(k \<mapsto> (pl, y))"
    if "pq_struct cfg p'" "moved pl k y p p'" "qp_Pod y = new" for p' pl y
    by (rule moved_inv [OF assms(1) that(1,2)]) (simp add: that(3) assms(2))
  define q where "q y = p\<lparr>pq_nominator := UpdateNominatedPod (qc_alive cfg) old (qp_PodInfo y) (pq_nominator p)\<rparr>" for y :: QueuedPodInfo
  have q: "pq_struct cfg (q y)" "pq_activeQ (q y) = pq_activeQ p" "pq_podBackoffQ (q y) = pq_podBackoffQ p"
    "pq_unschedulableQ (q y) = pq_unschedulableQ p" for y using st by (simp_all add: q_def)
  note defs = PQ_Update_def Let_def Heap_Get_lookup qp_key_new look get q_def [symmetric]
  show ?thesis
  proof (cases "pq_abs p k")
    case None
    let ?y = "newQueuedPodInfo now new []"
    obtain a where a: "active_Add cfg ?y p = Returns (None, p\<lparr>pq_activeQ := a\<rparr>)" "pq_struct cfg (p\<lparr>pq_activeQ := a\<rparr>)"
      "heap_lookup a = (heap_lookup (pq_activeQ p))(k \<mapsto> ?y)"
      using active_Add_law [OF st, of ?y] by (auto simp: k_def)
    have "PQ_Update cfg now (Some old) new p = Returns (None, nominate cfg ?y (p\<lparr>pq_activeQ := a\<rparr>))"
      using None cases(4) a(1) by (simp add: defs)
    then show ?thesis
      using result [of "nominate cfg ?y (p\<lparr>pq_activeQ := a\<rparr>)" InActive ?y] a(2,3) None cases(4)
      by (simp add: moved_def fun_upd_None_idem updated_place_def)
  next
    case (Some e)
    obtain pl x where e: "e = (pl, x)" by fastforce
    let ?y = "updatePod x new"
    obtain a where a: "active_Add cfg ?y (q ?y) = Returns (None, (q ?y)\<lparr>pq_activeQ := a\<rparr>)" "pq_struct cfg ((q ?y)\<lparr>pq_activeQ := a\<rparr>)"
      "heap_lookup a = (heap_lookup (pq_activeQ p))(k \<mapsto> ?y)"
      using active_Add_law [OF q(1), of ?y ?y] q(2) by (auto simp: k_def)
    obtain b where b: "backoff_Add cfg ?y (q ?y) = Returns (None, (q ?y)\<lparr>pq_podBackoffQ := b\<rparr>)" "pq_struct cfg ((q ?y)\<lparr>pq_podBackoffQ := b\<rparr>)"
      "heap_lookup b = (heap_lookup (pq_podBackoffQ p))(k \<mapsto> ?y)"
      using backoff_Add_law [OF q(1), of ?y ?y] q(3) by (auto simp: k_def)
    show ?thesis
    proof (cases pl)
      case InActive
      then have x: "heap_lookup (pq_activeQ p) k = Some x" using cases(1) [of x] Some e by simp
      have "PQ_Update cfg now (Some old) new p = Returns (None, (q ?y)\<lparr>pq_activeQ := a\<rparr>)"
        using x a(1) by (simp add: defs)
      then show ?thesis
        using result [of "(q ?y)\<lparr>pq_activeQ := a\<rparr>" InActive ?y] a(2,3) none(1) [OF x] Some e InActive q
        by (simp add: moved_def fun_upd_None_idem updated_place_def)
    next
      case InBackoff
      then have x: "heap_lookup (pq_podBackoffQ p) k = Some x" using cases(2) [of x] Some e by simp
      have "PQ_Update cfg now (Some old) new p = Returns (None, (q ?y)\<lparr>pq_podBackoffQ := b\<rparr>)"
        using x none(2) [OF x] b(1) by (simp add: defs)
      then show ?thesis
        using result [of "(q ?y)\<lparr>pq_podBackoffQ := b\<rparr>" InBackoff ?y] b(2,3) none(2) [OF x] Some e InBackoff q
        by (simp add: moved_def fun_upd_None_idem updated_place_def)
    next
      case InUnschedulable
      then have x: "upm_lookup (pq_unschedulableQ p) k = Some x" using cases(3) [of x] Some e by simp
      note nn = none(3) [OF x]
      note ua = unsched_delete_law [OF a(2) assms(2), folded k_def, simplified] and ub = unsched_delete_law [OF b(2) assms(2), folded k_def, simplified]
      consider "isPodUpdated old new" "isPodBackingoff cfg now ?y" | "isPodUpdated old new" "\<not> isPodBackingoff cfg now ?y"
        | "\<not> isPodUpdated old new" by blast
      then show ?thesis
      proof cases
        case 1
        have "PQ_Update cfg now (Some old) new p = Returns (None, unsched_delete new ((q ?y)\<lparr>pq_podBackoffQ := b\<rparr>))"
          using x nn b(1) 1 by (simp add: defs)
        then show ?thesis
          using result [of "unsched_delete new ((q ?y)\<lparr>pq_podBackoffQ := b\<rparr>)" InBackoff ?y] b(3) ub nn Some e InUnschedulable q 1
          by (simp add: moved_def fun_upd_None_idem updated_place_def)
      next
        case 2
        have "PQ_Update cfg now (Some old) new p = Returns (None, unsched_delete new ((q ?y)\<lparr>pq_activeQ := a\<rparr>))"
          using x nn a(1) 2 by (simp add: defs)
        then show ?thesis
          using result [of "unsched_delete new ((q ?y)\<lparr>pq_activeQ := a\<rparr>)" InActive ?y] a(3) ua nn Some e InUnschedulable q 2
          by (simp add: moved_def fun_upd_None_idem updated_place_def)
      next
        case 3
        define p' where "p' = (q ?y)\<lparr>pq_unschedulableQ := upm_addOrUpdate ?y (pq_unschedulableQ p)\<rparr>"
        have "pod_valid (qp_Pod ?y)" "qp_key ?y = k" using assms(2) by (simp_all add: k_def)
        note u = upm_addOrUpdate_law [OF pq_struct_parts [OF st] this(1), unfolded this(2)]
        have "PQ_Update cfg now (Some old) new p = Returns (None, p')"
          using x nn 3 q by (simp add: defs p'_def)
        moreover have "pq_struct cfg p'" using q(1) [of ?y] u(1) by (simp add: pq_struct_def p'_def)
        ultimately show ?thesis
          using result [of p' InUnschedulable ?y] u(2) nn Some e InUnschedulable q 3
          by (simp add: moved_def fun_upd_None_idem updated_place_def p'_def)
      qed
    qed
  qed
qed

end

section \<open>Histories of the queue\<close>

text \<open>The operations of the queue, one call at a time; the label is the key of a pod that leaves the queue.\<close>

inductive queue_step :: "queue_config \<Rightarrow> string option \<Rightarrow> PriorityQueue \<Rightarrow> PriorityQueue \<Rightarrow> bool" for cfg where
  Add: "pod_valid pod \<Longrightarrow> PQ_Add cfg now pod p = Returns (r, p') \<Longrightarrow> queue_step cfg None p p'"
| Activate: "pod_valid pod \<Longrightarrow> PQ_activate cfg pod p = Returns (b, p') \<Longrightarrow> queue_step cfg None p p'"
| AddUnschedulable: "pod_valid (qp_Pod x) \<Longrightarrow> PQ_AddUnschedulableIfNotPresent cfg now x c p = Returns (r, p')
    \<Longrightarrow> queue_step cfg None p p'"
| FlushBackoff: "flushBackoffQCompleted cfg now p = Returns (Some p') \<Longrightarrow> queue_step cfg None p p'"
| FlushUnschedulable: "flushUnschedulableQLeftover cfg now p = Returns p' \<Longrightarrow> queue_step cfg None p p'"
| MoveAll: "MoveAllToActiveOrBackoffQueue cfg now event preCheck p = Returns p' \<Longrightarrow> queue_step cfg None p p'"
| AssignedAdd: "AssignedPodAdded cfg now pod p = Returns p' \<Longrightarrow> queue_step cfg None p p'"
| AssignedUpdate: "AssignedPodUpdated cfg now pod p = Returns p' \<Longrightarrow> queue_step cfg None p p'"
| Update: "pod_valid new \<Longrightarrow> MetaNamespaceKeyFunc old = MetaNamespaceKeyFunc new
    \<Longrightarrow> PQ_Update cfg now (Some old) new p = Returns (r, p') \<Longrightarrow> queue_step cfg None p p'"
| Pop: "PQ_Pop cfg p = Returns (Some (Inr x), p') \<Longrightarrow> queue_step cfg (Some (qp_key x)) p p'"
| Delete: "pod_valid pod \<Longrightarrow> PQ_Delete cfg pod p = Returns p' \<Longrightarrow> queue_step cfg (Some (MetaNamespaceKeyFunc pod)) p p'"
| Close: "PQ_Close p = Returns p' \<Longrightarrow> queue_step cfg None p p'"

inductive queue_reach :: "queue_config \<Rightarrow> PriorityQueue \<Rightarrow> bool" for cfg where
  New: "queue_reach cfg NewPriorityQueue"
| Step: "queue_reach cfg p \<Longrightarrow> queue_step cfg l p p' \<Longrightarrow> queue_reach cfg p'"

lemma moved_pods_dom: "dom (moved_pods cfg now event xs f) = dom f"
  by (auto simp: moved_pods_def dom_def split: option.splits place.splits if_splits)

lemma flushed_dom: "dom (flushed cfg now f) = dom f"
  by (auto simp: flushed_def dom_def split: option.splits place.splits if_splits)

context sched_queue
begin

lemma New_inv: "pq_inv cfg NewPriorityQueue"
proof -
  have "pq_struct cfg NewPriorityQueue"
    using heap_New_inv [of "Some 0"] backoff_order.heap_New_inv [of "Some 0" cfg]
    by (simp add: pq_struct_def NewPriorityQueue_def upm_inv_def newUnschedulablePodsMap_def)
  then show ?thesis
    by (simp add: pq_inv_def separate_def NewPriorityQueue_def fun_eq_iff heap_lookup_def Heap_GetByKey_def Heap_New_def
        upm_lookup_def newUnschedulablePodsMap_def ran_def)
qed

lemma flushBackoff_law:
  assumes "pq_inv cfg p"
  shows "\<exists>p'. flushBackoffQCompleted cfg now p = Returns (Some p') \<and> pq_inv cfg p' \<and> pq_abs p' = flushed cfg now (pq_abs p)"
proof -
  have "heap_inv qp_key (podsCompareBackoffCompleted cfg) (pq_podBackoffQ p)"
    using assms by (simp add: pq_inv_def pq_struct_def)
  then have "card (dom (heap_lookup (pq_podBackoffQ p))) < Suc (Heap_Len (pq_podBackoffQ p))"
    by (simp add: backoff_order.Heap_Len_card)
  from flush_loop_law [OF assms this] show ?thesis unfolding flushBackoffQCompleted_def by blast
qed

lemma move_dom:
  assumes "pq_inv cfg p" and "movePodsToActiveOrBackoffQueue cfg now (filter P (map snd (upm_podInfoMap (pq_unschedulableQ p)))) event p = Returns p'"
  shows "pq_inv cfg p' \<and> dom (pq_abs p') = dom (pq_abs p)"
  using move_filtered_law [OF assms(1), of now P event] assms(2) by (auto simp: moved_pods_dom)

text \<open>A step keeps the invariant and loses no pod except the one it names.\<close>

lemma step_law:
  assumes "queue_step cfg l p p'" and "pq_inv cfg p"
  shows "pq_inv cfg p' \<and> dom (pq_abs p) - set_option l \<subseteq> dom (pq_abs p')"
  using assms(1)
proof cases
  case (Add pod now r)
  then show ?thesis using Add_law [OF assms(2), of pod now] by auto
next
  case (Activate pod b)
  then show ?thesis using activate_law [OF assms(2), of pod] by (auto split: option.splits)
next
  case (AddUnschedulable x now c r)
  then show ?thesis using AddUnschedulable_law [OF assms(2), of x now c] by (auto split: option.splits)
next
  case (FlushBackoff now)
  then show ?thesis using flushBackoff_law [OF assms(2), of now] by (auto simp: flushed_dom)
next
  case (FlushUnschedulable now)
  then show ?thesis
    using move_dom [OF assms(2), of now "\<lambda>x. unschedulableQTimeInterval < now - qp_Timestamp x" UnschedulableTimeout p'] assms(2)
    by (auto simp: flushUnschedulableQLeftover_def Let_def split: if_splits)
next
  case (MoveAll now event preCheck)
  then show ?thesis
    using move_dom [OF assms(2), of now "\<lambda>x. case preCheck of None \<Rightarrow> True | Some f \<Rightarrow> f (qp_Pod x)" event p']
    by (auto simp: MoveAllToActiveOrBackoffQueue_def)
next
  case (AssignedAdd now pod)
  then show ?thesis
    using move_dom [OF assms(2), of now "\<lambda>x. qc_affinity_matches cfg x pod" AssignedPodAdd p']
    by (auto simp: AssignedPodAdded_def getUnschedulablePodsWithMatchingAffinityTerm_def)
next
  case (AssignedUpdate now pod)
  then show ?thesis
    using move_dom [OF assms(2), of now "\<lambda>x. qc_affinity_matches cfg x pod" AssignedPodUpdate p']
    by (auto simp: AssignedPodUpdated_def getUnschedulablePodsWithMatchingAffinityTerm_def)
next
  case (Update new old now r)
  then show ?thesis using Update_law [OF assms(2), of new old now] by auto
next
  case (Pop x)
  have "qp_key (y\<lparr>qp_Attempts := n\<rparr>) = qp_key y" for y :: QueuedPodInfo and n by (simp add: qp_key_def)
  then show ?thesis using Pop_law [OF assms(2)] Pop by (auto split: if_splits)
next
  case (Delete pod)
  then show ?thesis using Delete_law [OF assms(2), of pod] by auto
next
  case Close
  then show ?thesis using assms(2)
    by (auto simp: PQ_Close_def pq_inv_def pq_struct_def pq_abs_def split: if_splits)
qed

lemma reach_inv: "queue_reach cfg p \<Longrightarrow> pq_inv cfg p"
  by (induction rule: queue_reach.induct) (use New_inv step_law in blast)+

end

end
