(* ===== verification/MHice.thy ===== *)
theory MHice
  imports Framework_Status Hice_Factors Sched_Queue
begin

text \<open>
  The microservice plugin (pkg/scheduler/framework/plugins/mhice/mhice.go): a graph of API calls
  between services decides which pod of an application may be deployed next (PreFilter), in which
  order waiting pods are popped (Less), and how near a node is to the services a pod talks to
  (Score). Printing is left out.
\<close>

section \<open>The service graph and the network\<close>

text \<open>
  A \<^verbatim>\<open>[100][100]T\<close> array is a function on its indices; reading or writing outside of them
  panics.
\<close>

type_synonym 'a matrix = "int \<Rightarrow> int \<Rightarrow> 'a"

definition in_matrix :: "int \<Rightarrow> int \<Rightarrow> bool" where
  "in_matrix i j \<longleftrightarrow> 0 \<le> i \<and> i < 100 \<and> 0 \<le> j \<and> j < 100"

definition matrix_at :: "'a matrix \<Rightarrow> int \<Rightarrow> int \<Rightarrow> 'a go_run" where
  "matrix_at m i j = (if in_matrix i j then Returns (m i j) else Panics ''index out of range'')"

definition matrix_set :: "int \<Rightarrow> int \<Rightarrow> 'a \<Rightarrow> 'a matrix \<Rightarrow> 'a matrix go_run" where
  "matrix_set i j v m =
     (if in_matrix i j then Returns (m(i := (m i)(j := v))) else Panics ''index out of range'')"

record MicroServiceGraph =
  sg_Edge :: "int matrix"
  sg_Vertex :: "(string, int) gomap"
  sg_Num :: int

record NetworkToplogy =
  nt_Bandwidth :: "float64 matrix"
  nt_Latency :: "float64 matrix"
  nt_Node :: "(string, int) gomap"

record MHice =
  mh_ServiceGraph :: MicroServiceGraph
  mh_Toplogy :: NetworkToplogy

text \<open>\<open>for i := 0; i < n; i++\<close>\<close>

definition upto_int :: "int \<Rightarrow> int list" where
  "upto_int n = [0..n - 1]"

definition SetAPICall :: "string \<Rightarrow> string \<Rightarrow> int \<Rightarrow> MicroServiceGraph \<Rightarrow> MicroServiceGraph go_run" where
  "SetAPICall src dst v g =
     go_bind (matrix_set (get_or 0 (sg_Vertex g) src) (get_or 0 (sg_Vertex g) dst) v (sg_Edge g))
       (\<lambda>e. Returns (g\<lparr>sg_Edge := e\<rparr>))"

definition service_vertices :: "(string, int) gomap" where
  "service_vertices =
     [(''adservice'', 0), (''cartservice'', 1), (''checkoutservice'', 2), (''currencyservice'', 3),
      (''emailservice'', 4), (''frontend'', 5), (''paymentservice'', 6), (''productcatalogservice'', 7),
      (''recommendationservice'', 8), (''redis-cart'', 9), (''shippingservice'', 10)]"

definition api_calls :: "(string \<times> string \<times> int) list" where
  "api_calls =
     [(''frontend'', ''cartservice'', 1), (''frontend'', ''recommendationservice'', 1),
      (''frontend'', ''productcatalogservice'', 100), (''frontend'', ''shippingservice'', 1),
      (''frontend'', ''checkoutservice'', 1), (''frontend'', ''adservice'', 1),
      (''cartservice'', ''redis-cart'', 1),
      (''recommendationservice'', ''productcatalogservice'', 10),
      (''checkoutservice'', ''productcatalogservice'', 10), (''checkoutservice'', ''currencyservice'', 1),
      (''checkoutservice'', ''shippingservice'', 1), (''checkoutservice'', ''paymentservice'', 1),
      (''checkoutservice'', ''emailservice'', 1), (''checkoutservice'', ''cartservice'', 1),
      (''checkoutservice'', ''cartservice'', 1)]"

definition GenerateServiceGraph :: "MicroServiceGraph go_run" where
  "GenerateServiceGraph =
     go_bind (go_fold (\<lambda>i. go_fold (\<lambda>j. matrix_set i j (-1)) (upto_int 11)) (upto_int 11) (\<lambda>_ _. 0))
       (\<lambda>e. go_fold (\<lambda>(src, dst, v). SetAPICall src dst v) api_calls
              \<lparr>sg_Edge = e, sg_Vertex = service_vertices, sg_Num = 11\<rparr>)"

definition topology_nodes :: "(string, int) gomap" where
  "topology_nodes =
     [(''cloud-master'', 0), (''cloud-worker1'', 1), (''cloud-worker3'', 2), (''ubuntu'', 3),
      (''edge-arm64-1'', 4), (''edge3-amd64-1'', 5)]"

definition topology_bandwidth :: "int list list" where
  "topology_bandwidth =
     [[70000, 40000, 40000, 1000, 1000, 1000],
      [40000, 70000, 40000, 1000, 1000, 1000],
      [40000, 40000, 70000, 1000, 1000, 1000],
      [1000, 1000, 1000, 6000, 1000, 1000],
      [1000, 1000, 1000, 1000, 6000, 1000],
      [1000, 1000, 1000, 1000, 1000, 60000]]"

definition f64_zero :: float64 where
  "f64_zero = F64_Fin False 0"

definition GenerateNetworkToplogy :: "NetworkToplogy go_run" where
  "GenerateNetworkToplogy =
     go_bind (go_fold (\<lambda>i. go_fold (\<lambda>j. matrix_set i j (f64_of_int (topology_bandwidth ! nat i ! nat j)))
                (upto_int 6)) (upto_int 6) (\<lambda>_ _. f64_zero))
       (\<lambda>b. go_bind (go_fold (\<lambda>i. go_fold (\<lambda>j. matrix_set i j f64_zero) (upto_int 6)) (upto_int 6) (\<lambda>_ _. f64_zero))
         (\<lambda>l. Returns \<lparr>nt_Bandwidth = b, nt_Latency = l, nt_Node = topology_nodes\<rparr>))"

definition MHice_New :: "MHice go_run" where
  "MHice_New =
     go_bind GenerateServiceGraph (\<lambda>g. go_bind GenerateNetworkToplogy (\<lambda>t.
       Returns \<lparr>mh_ServiceGraph = g, mh_Toplogy = t\<rparr>))"

section \<open>Edges of a pod\<close>

text \<open>
  A slice that is only appended to is nil exactly when it is empty, so the empty list stands for
  the nil that the callers test for.
\<close>

definition neighbor_step :: "MicroServiceGraph \<Rightarrow> int \<Rightarrow> int \<Rightarrow> int list \<Rightarrow> int list go_run" where
  "neighbor_step g pIndex v edges =
     go_bind (matrix_at (sg_Edge g) v pIndex) (\<lambda>e_in.
       if e_in \<ge> 0 then Returns (edges @ [e_in])
       else go_bind (matrix_at (sg_Edge g) pIndex v) (\<lambda>e_out.
         Returns (if e_out \<ge> 0 then edges @ [e_out] else edges)))"

definition neighborEdgeWeight :: "Pod \<Rightarrow> MicroServiceGraph \<Rightarrow> int list go_run" where
  "neighborEdgeWeight p g =
     (case gomap_get (pod_Labels p) ''app'' of None \<Rightarrow> Returns []
      | Some pSvc \<Rightarrow>
        (case gomap_get (sg_Vertex g) pSvc of None \<Rightarrow> Returns []
         | Some pIndex \<Rightarrow> go_fold (neighbor_step g pIndex) (map snd (sg_Vertex g)) []))"

definition existed_step :: "MicroServiceGraph \<Rightarrow> int \<Rightarrow> PodInfo \<Rightarrow> int list \<Rightarrow> int list go_run" where
  "existed_step g pIndex ep edges =
     (case gomap_get (pod_Labels (pi_Pod ep)) ''app'' of None \<Rightarrow> Returns edges
      | Some svc \<Rightarrow>
        (let v = get_or 0 (sg_Vertex g) svc
         in go_bind (matrix_at (sg_Edge g) pIndex v) (\<lambda>e_out.
            go_bind (matrix_at (sg_Edge g) v pIndex) (\<lambda>e_in.
              Returns (edges @ (if e_in \<ge> 0 then [e_in] else []) @ (if e_out \<ge> 0 then [e_out] else []))))))"

text \<open>The nodes and the error that the lister of the scheduling cycle's snapshot returns.\<close>

type_synonym node_listing = "NodeInfo list \<times> string option"

definition neighborExistedServiceEdgeWeight :: "node_listing \<Rightarrow> QueuedPodInfo \<Rightarrow> MicroServiceGraph \<Rightarrow> int list go_run" where
  "neighborExistedServiceEdgeWeight listing p g =
     (case listing of (nodes, err) \<Rightarrow>
      if err \<noteq> None then Returns []
      else case gomap_get (pod_Labels (qp_Pod p)) ''app'' of None \<Rightarrow> Returns []
      | Some pSvc \<Rightarrow>
        (case gomap_get (sg_Vertex g) pSvc of None \<Rightarrow> Returns []
         | Some pIndex \<Rightarrow> go_fold (\<lambda>node. go_fold (existed_step g pIndex) (ni_Pods node)) nodes []))"

section \<open>Less\<close>

definition max_from :: "int \<Rightarrow> int list \<Rightarrow> int" where
  "max_from m es = fold (\<lambda>e mx. if mx < e then e else mx) es m"

definition wrapped_sum :: "int list \<Rightarrow> int" where
  "wrapped_sum es = fold (\<lambda>e s. wrap64 (s + e)) es 0"

definition MHice_Less :: "MHice \<Rightarrow> node_listing \<Rightarrow> QueuedPodInfo \<Rightarrow> QueuedPodInfo \<Rightarrow> bool go_run" where
  "MHice_Less pl listing pInfo1 pInfo2 =
     go_bind (neighborExistedServiceEdgeWeight listing pInfo1 (mh_ServiceGraph pl)) (\<lambda>w1.
     go_bind (neighborExistedServiceEdgeWeight listing pInfo2 (mh_ServiceGraph pl)) (\<lambda>w2.
       if w1 = [] \<and> w2 \<noteq> [] then Returns True
       else if w1 \<noteq> [] \<and> w2 = [] then Returns False
       else if w1 \<noteq> [] \<and> w2 \<noteq> [] then Returns (\<not> max_from 0 w1 > max_from 0 w2)
       else go_bind (neighborEdgeWeight (qp_Pod pInfo1) (mh_ServiceGraph pl)) (\<lambda>n1.
            go_bind (neighborEdgeWeight (qp_Pod pInfo2) (mh_ServiceGraph pl)) (\<lambda>n2.
              Returns (wrapped_sum n1 < wrapped_sum n2)))))"

section \<open>PreFilter\<close>

text \<open>The largest edge between the pod and a deployed service, and the deployed services.\<close>

definition deployed_step :: "MicroServiceGraph \<Rightarrow> int \<Rightarrow> PodInfo \<Rightarrow> int \<times> (int, int) gomap \<Rightarrow> (int \<times> (int, int) gomap) go_run" where
  "deployed_step g podIndex np acc =
     (case acc of (maxEdge, deployedSvc) \<Rightarrow>
      case gomap_get (sg_Vertex g) (get_or [] (pod_Labels (pi_Pod np)) ''app'') of None \<Rightarrow> Returns acc
      | Some vb \<Rightarrow>
        go_bind (matrix_at (sg_Edge g) podIndex vb) (\<lambda>va2vb.
        go_bind (matrix_at (sg_Edge g) vb podIndex) (\<lambda>vb2va.
          Returns (max_from maxEdge [va2vb, vb2va], gomap_set deployedSvc vb vb))))"

text \<open>The largest edge between a deployed and a missing service.\<close>

definition cut_step :: "MicroServiceGraph \<Rightarrow> (int, int) gomap \<Rightarrow> int \<Rightarrow> int \<Rightarrow> int \<Rightarrow> int go_run" where
  "cut_step g deployedSvc k i mx =
     (if gomap_get deployedSvc i \<noteq> None then Returns mx
      else go_bind (matrix_at (sg_Edge g) k i) (\<lambda>edge.
        if edge > mx then Returns edge
        else go_bind (matrix_at (sg_Edge g) i k) (\<lambda>edge'.
          Returns (if edge' > mx then edge' else mx))))"

definition cut_max :: "MicroServiceGraph \<Rightarrow> (int, int) gomap \<Rightarrow> int go_run" where
  "cut_max g deployedSvc =
     go_fold (\<lambda>k. go_fold (cut_step g deployedSvc k) (upto_int (sg_Num g))) (map fst deployedSvc) (-1)"

text \<open>The largest sum of edges of one service; the outer loop repeats the same search.\<close>

definition call_sums :: "MicroServiceGraph \<Rightarrow> int \<Rightarrow> (int \<times> int) go_run" where
  "call_sums g iCall =
     go_fold (\<lambda>j (s, t).
         go_bind (matrix_at (sg_Edge g) iCall j) (\<lambda>e_out.
         go_bind (matrix_at (sg_Edge g) j iCall) (\<lambda>e_in.
           Returns (if e_out \<noteq> -1 then wrap64 (s + e_out) else s, if e_in \<noteq> -1 then wrap64 (t + e_in) else t))))
       (upto_int (sg_Num g)) (0, 0)"

definition neighbor_max :: "MicroServiceGraph \<Rightarrow> int go_run" where
  "neighbor_max g =
     go_fold (\<lambda>i. go_fold (\<lambda>iCall mx. go_bind (call_sums g iCall) (\<lambda>(s, t).
         Returns (if wrap64 (s + t) > mx then wrap64 (s + t) else mx))) (upto_int (sg_Num g)))
       (upto_int (sg_Num g)) (-1)"

definition not_yet :: "Pod \<Rightarrow> string \<Rightarrow> Status" where
  "not_yet pod tail = NewStatus Error
     [''pod'' @ pod_Name pod @ '' svc:'' @ get_or [] (pod_Labels pod) ''app''
       @ '' should not schedule until other svc created!'' @ tail]"

definition MHice_PreFilter :: "MHice \<Rightarrow> node_listing \<Rightarrow> Pod \<Rightarrow> Status option go_run" where
  "MHice_PreFilter pl listing pod =
     (let g = mh_ServiceGraph pl in
      go_bind (neighborEdgeWeight pod g) (\<lambda>callSvc.
        case gomap_get (sg_Vertex g) (get_or [] (pod_Labels pod) ''app'') of None \<Rightarrow> Returns None
        | Some podIndex \<Rightarrow>
          go_bind (go_fold (\<lambda>node. go_fold (deployed_step g podIndex) (ni_Pods node)) (fst listing) (-1, []))
            (\<lambda>(maxEdge, deployedSvc).
          go_bind (cut_max g deployedSvc) (\<lambda>cut.
            if maxEdge = -1 then
              go_bind (neighbor_max g) (\<lambda>maxNeighborSum.
                Returns (if wrapped_sum callSvc \<noteq> maxNeighborSum then Some (not_yet pod '' '') else None))
            else Returns (if maxEdge \<noteq> cut then Some (not_yet pod []) else None)))))"

section \<open>Score\<close>

definition mhice_PodResourceRequest :: "runtime_env \<Rightarrow> Pod \<Rightarrow> Resource" where
  "mhice_PodResourceRequest env pod =
     fold (\<lambda>ct. SetMaxResource env (ct_Requests ct)) (pod_InitContainers pod)
       (fold (\<lambda>ct. Resource_Add env (ct_Requests ct)) (pod_Containers pod) zero_resource)"

record partners =
  ps_maxEdge :: int
  ps_called :: "(string, PodInfo) gomap"
  ps_calling :: "(string, PodInfo) gomap"

definition partner_step :: "MicroServiceGraph \<Rightarrow> int \<Rightarrow> NodeInfo \<Rightarrow> PodInfo \<Rightarrow> partners \<Rightarrow> partners go_run" where
  "partner_step g podIndex node np ps =
     (case gomap_get (sg_Vertex g) (get_or [] (pod_Labels (pi_Pod np)) ''app'') of None \<Rightarrow> Returns ps
      | Some vb \<Rightarrow>
        go_bind (matrix_at (sg_Edge g) podIndex vb) (\<lambda>va2vb.
        go_bind (matrix_at (sg_Edge g) vb podIndex) (\<lambda>vb2va.
          if ni_node node = None then Panics ''nil pointer dereference''
          else Returns (ps
            \<lparr>ps_maxEdge := max_from (ps_maxEdge ps) [va2vb, vb2va],
             ps_called := (if va2vb \<ge> 0 then gomap_set (ps_called ps) (pod_Name (pi_Pod np)) np else ps_called ps),
             ps_calling := (if vb2va \<ge> 0 then gomap_set (ps_calling ps) (pod_Name (pi_Pod np)) np else ps_calling ps)\<rparr>))))"

text \<open>The CPU requested on the node, pods that were not read back from etcd scaled by their labels.\<close>

definition mhice_pod_cpu :: "runtime_env \<Rightarrow> float64 \<Rightarrow> Pod \<Rightarrow> int" where
  "mhice_pod_cpu env jPerf pod =
     (if pod_SchedulerName pod = ''kubehice-scheduler'' \<and> pod_Annotations pod = None
      then scale_cpu env (MilliCPU (mhice_PodResourceRequest env pod)) (hice_factor (pod_Labels pod) ''hice.kb'') jPerf
      else MilliCPU (mhice_PodResourceRequest env pod))"

definition first_score :: "runtime_env \<Rightarrow> float64 \<Rightarrow> float64 \<Rightarrow> Pod \<Rightarrow> NodeInfo \<Rightarrow> int" where
  "first_score env bPerf jPerf pod nodeInfo =
     (let memReq = wrapped_sum (map (\<lambda>ct. Value (env_oob env) (ResourceList_Memory (ct_Requests ct))) (pod_Containers pod));
          cpuSum = wrapped_sum (map (\<lambda>ct. MilliValue (env_oob env) (ResourceList_Cpu (ct_Requests ct))) (pod_Containers pod));
          cpuReq = scale_cpu env cpuSum bPerf jPerf;
          used = wrapped_sum (map (\<lambda>p. mhice_pod_cpu env jPerf (pi_Pod p)) (ni_Pods nodeInfo));
          ratioCpu = f64_div (f64_of_int cpuReq) (f64_of_int (wrap64 (MilliCPU (ni_Allocatable nodeInfo) - used)));
          ratioMem = f64_div (f64_of_int memReq)
            (f64_of_int (wrap64 (Memory (ni_Allocatable nodeInfo) - Memory (ni_Requested nodeInfo))))
      in wrap64 (100 - f64_to_int64 (env_oob env) (f64_mul (f64_of_int 100) (f64_max ratioCpu ratioMem))))"

text \<open>
  One step of the delay loops: \<open>edge\<close> is the row and column order of the edge, \<open>here\<close> the index
  of the node; the state is the largest delay so far and the node it comes from.
\<close>

definition delay_step :: "MHice \<Rightarrow> (int \<Rightarrow> int go_run) \<Rightarrow> int \<Rightarrow> PodInfo \<Rightarrow> float64 \<times> int \<Rightarrow> (float64 \<times> int) go_run" where
  "delay_step pl edge here v acc =
     (case acc of (mx, nd) \<Rightarrow>
      (let svcIndex = get_or 0 (sg_Vertex (mh_ServiceGraph pl)) (get_or [] (pod_Labels (pi_Pod v)) ''app'');
           svcNodeIndex = get_or 0 (nt_Node (mh_Toplogy pl)) (pod_NodeName (pi_Pod v))
       in go_bind (edge svcIndex) (\<lambda>e.
          go_bind (matrix_at (nt_Bandwidth (mh_Toplogy pl)) svcNodeIndex here) (\<lambda>b.
          go_bind (matrix_at (nt_Latency (mh_Toplogy pl)) svcNodeIndex here) (\<lambda>propagateDelay.
            let dataTransDelay = f64_div (f64_div (f64_of_int e) b) (f64_of_int 100);
                d = f64_add dataTransDelay propagateDelay
            in Returns (f64_max mx d, if f64_lt mx d then svcNodeIndex else nd))))))"

definition delay_score :: "runtime_env \<Rightarrow> MHice \<Rightarrow> int \<Rightarrow> string \<Rightarrow> partners \<Rightarrow> int go_run" where
  "delay_score env pl podIndex nodeName ps =
     (let here = get_or 0 (nt_Node (mh_Toplogy pl)) nodeName; E = sg_Edge (mh_ServiceGraph pl) in
      go_bind (go_fold (delay_step pl (\<lambda>svc. matrix_at E podIndex svc) here) (map snd (ps_called ps)) (f64_zero, here))
        (\<lambda>(callDelay, callNode).
      go_bind (go_fold (delay_step pl (\<lambda>svc. matrix_at E svc podIndex) here) (map snd (ps_calling ps)) (f64_zero, here))
        (\<lambda>(calledDelay, calledNode).
          let maxCallDelay = f64_add callDelay calledDelay
          in Returns (if f64_lt (f64_of_int 10) maxCallDelay then 0
               else if callNode = here \<and> here = calledNode then 100
               else wrap64 (100 - f64_to_int64 (env_oob env)
                      (f64_mul (f64_div maxCallDelay (f64_of_int 10)) (f64_of_int 100)))))))"

definition MHice_Score :: "runtime_env \<Rightarrow> MHice \<Rightarrow> node_listing \<Rightarrow> (string \<Rightarrow> string + NodeInfo) \<Rightarrow> Pod \<Rightarrow> string
    \<Rightarrow> (int \<times> Status option) go_run" where
  "MHice_Score env pl listing nodeInfos pod nodeName =
     (let g = mh_ServiceGraph pl in
      case gomap_get (sg_Vertex g) (get_or [] (pod_Labels pod) ''app'') of None \<Rightarrow> Returns (100, None)
      | Some podIndex \<Rightarrow>
        go_bind (go_fold (\<lambda>node. go_fold (partner_step g podIndex node) (ni_Pods node)) (fst listing)
            \<lparr>ps_maxEdge = -1, ps_called = [], ps_calling = []\<rparr>) (\<lambda>ps.
          case nodeInfos nodeName of
            Inl err \<Rightarrow> Returns (0, Some (NewStatus Error
              [''getting node '' @ [CHR 0x22] @ nodeName @ [CHR 0x22] @ '' from Snapshot: '' @ err]))
          | Inr nodeInfo \<Rightarrow>
            (case ni_node nodeInfo of None \<Rightarrow> Panics ''nil pointer dereference''
             | Some node \<Rightarrow>
               (let jPerf = hice_factor (node_Labels node) ''hice.kj''; bPerf = hice_factor (pod_Labels pod) ''hice.kb''
                in if ps_maxEdge ps = -1 then Returns (first_score env bPerf jPerf pod nodeInfo, None)
                   else go_bind (delay_score env pl podIndex nodeName ps) (\<lambda>s. Returns (s, None))))))"

section \<open>What the graph means\<close>

text \<open>
  A graph as PreFilter needs it: the vertices are numbered without gaps, no two services call
  each other, and the weights are small enough for their sums.
\<close>

definition graph_ok :: "MicroServiceGraph \<Rightarrow> bool" where
  "graph_ok g \<longleftrightarrow>
     0 \<le> sg_Num g \<and> sg_Num g \<le> 100 \<and> distinct (map snd (sg_Vertex g))
     \<and> set (map snd (sg_Vertex g)) = {0..<sg_Num g}
     \<and> (\<forall>i\<in>{0..<sg_Num g}. \<forall>j\<in>{0..<sg_Num g}.
          -1 \<le> sg_Edge g i j \<and> sg_Edge g i j \<le> 2 ^ 53 \<and> (sg_Edge g i j = -1 \<or> sg_Edge g j i = -1))"

text \<open>The weight between two services, and the services that run on the listed nodes.\<close>

definition link :: "MicroServiceGraph \<Rightarrow> int \<Rightarrow> int \<Rightarrow> int" where
  "link g i j = max (sg_Edge g i j) (sg_Edge g j i)"

definition pod_service :: "MicroServiceGraph \<Rightarrow> Pod \<Rightarrow> int option" where
  "pod_service g pod = gomap_get (sg_Vertex g) (get_or [] (pod_Labels pod) ''app'')"

definition deployed :: "MicroServiceGraph \<Rightarrow> NodeInfo list \<Rightarrow> int set" where
  "deployed g nodes = {v. \<exists>node\<in>set nodes. \<exists>p\<in>set (ni_Pods node). pod_service g (pi_Pod p) = Some v}"

definition attach_weight :: "MicroServiceGraph \<Rightarrow> int set \<Rightarrow> int \<Rightarrow> int" where
  "attach_weight g D p = Max (insert (-1) (link g p ` D))"

definition cut_weight :: "MicroServiceGraph \<Rightarrow> int set \<Rightarrow> int" where
  "cut_weight g D = Max (insert (-1) ((\<lambda>(k, i). link g k i) ` (D \<times> ({0..<sg_Num g} - D))))"

definition total_weight :: "MicroServiceGraph \<Rightarrow> int \<Rightarrow> int" where
  "total_weight g p = (\<Sum>j\<in>{0..<sg_Num g}. max 0 (link g p j))"

lemma set_upto_int [simp]: "set (upto_int n) = {0..<n}"
  by (auto simp: upto_int_def)

lemma max_from_Max: "max_from m es = Max (insert m (set es))"
proof -
  have "(\<lambda>e mx. if mx < e then e else mx) = (\<lambda>(e::int) mx. max mx (id e))" by (intro ext) (auto simp: max_def)
  then show ?thesis unfolding max_from_def by (simp only: fold_Max image_id) simp
qed

lemma graph_ok_index:
  assumes "graph_ok g" and "gomap_get (sg_Vertex g) s = Some v"
  shows "v \<in> {0..<sg_Num g}"
proof -
  have "v \<in> set (map snd (sg_Vertex g))" using map_of_SomeD [OF assms(2)] by force
  then show ?thesis using assms(1) unfolding graph_ok_def by blast
qed

lemma graph_ok_at:
  assumes "graph_ok g" and "i \<in> {0..<sg_Num g}" and "j \<in> {0..<sg_Num g}"
  shows "matrix_at (sg_Edge g) i j = Returns (sg_Edge g i j)"
  using assms by (simp add: graph_ok_def matrix_at_def in_matrix_def)

lemma graph_ok_edge:
  assumes "graph_ok g" and "i \<in> {0..<sg_Num g}" and "j \<in> {0..<sg_Num g}"
  shows "-1 \<le> sg_Edge g i j" and "sg_Edge g i j \<le> 2 ^ 53" and "sg_Edge g i j = -1 \<or> sg_Edge g j i = -1"
  using assms unfolding graph_ok_def by blast+

lemma link_commute: "link g i j = link g j i"
  by (simp add: link_def max.commute)

lemma deployed_index: "graph_ok g \<Longrightarrow> v \<in> deployed g nodes \<Longrightarrow> v \<in> {0..<sg_Num g}"
  using graph_ok_index by (auto simp: deployed_def pod_service_def)

section \<open>The loops compute it\<close>

lemma deployed_step_ok:
  assumes "graph_ok g" and "podIndex \<in> {0..<sg_Num g}"
  shows "deployed_step g podIndex np (mx, dep) =
     Returns (case pod_service g (pi_Pod np) of None \<Rightarrow> (mx, dep)
       | Some vb \<Rightarrow> (max mx (link g podIndex vb), gomap_set dep vb vb))"
proof (cases "pod_service g (pi_Pod np)")
  case None
  then show ?thesis by (simp add: deployed_step_def pod_service_def)
next
  case (Some vb)
  then have "gomap_get (sg_Vertex g) (get_or [] (pod_Labels (pi_Pod np)) ''app'') = Some vb"
    by (simp add: pod_service_def)
  moreover from this have "vb \<in> {0..<sg_Num g}" by (rule graph_ok_index [OF assms(1)])
  moreover have "max_from mx [a, b] = max mx (max a b)" for a b
    by (simp add: max_from_def max_def)
  ultimately show ?thesis
    using Some assms by (simp add: deployed_step_def graph_ok_at link_def)
qed

text \<open>The services of a list of pods, and the largest edge to one of them.\<close>

definition services :: "MicroServiceGraph \<Rightarrow> PodInfo list \<Rightarrow> int set" where
  "services g qs = {v. \<exists>p\<in>set qs. pod_service g (pi_Pod p) = Some v}"

definition max_link :: "MicroServiceGraph \<Rightarrow> int \<Rightarrow> PodInfo \<Rightarrow> int \<Rightarrow> int" where
  "max_link g q np m = (case pod_service g (pi_Pod np) of None \<Rightarrow> m | Some v \<Rightarrow> max m (link g q v))"

lemma services_Nil [simp]: "services g [] = {}"
  by (simp add: services_def)

lemma services_Cons:
  "services g (p # qs) = (case pod_service g (pi_Pod p) of None \<Rightarrow> services g qs | Some v \<Rightarrow> insert v (services g qs))"
  by (auto simp: services_def split: option.split)

lemma finite_services [simp]: "finite (services g qs)"
  by (induction qs) (simp_all add: services_Cons split: option.split)

lemma deployed_services: "deployed g nodes = services g (concat (map ni_Pods nodes))"
  by (auto simp: deployed_def services_def)

lemma finite_deployed [simp]: "finite (deployed g nodes)"
  by (simp add: deployed_services)

lemma fold_max_link: "fold (max_link g q) qs m = Max (insert m (link g q ` services g qs))"
proof (induction qs arbitrary: m)
  case (Cons p qs)
  have "Max (insert (max m x) (link g q ` services g qs)) = Max (insert m (insert x (link g q ` services g qs)))" for x
    by (cases "services g qs = {}") (simp_all add: max.assoc max.commute max.left_commute)
  then show ?case using Cons by (simp add: max_link_def services_Cons split: option.split)
qed simp

lemma deployed_scan:
  assumes "graph_ok g" and "podIndex \<in> {0..<sg_Num g}"
  obtains dep where
    "go_fold (\<lambda>node. go_fold (deployed_step g podIndex) (ni_Pods node)) nodes (-1, []) =
       Returns (attach_weight g (deployed g nodes) podIndex, dep)"
    "fst ` set dep = deployed g nodes"
proof -
  define upd where "upd np dep = (case pod_service g (pi_Pod np) of None \<Rightarrow> dep | Some vb \<Rightarrow> gomap_set dep vb vb)"
    for np :: PodInfo and dep :: "(int, int) gomap"
  have run: "go_fold (deployed_step g podIndex) ps (m, dep) = Returns (fold (max_link g podIndex) ps m, fold upd ps dep)"
    for ps m dep
    by (induction ps arbitrary: m dep)
      (simp_all add: deployed_step_ok [OF assms] max_link_def upd_def split: option.split)
  have dep: "fst ` set (fold upd qs dep) = fst ` set dep \<union> services g qs" for qs dep
    by (induction qs arbitrary: dep) (auto simp: upd_def services_Cons gomap_keys_set split: option.split)
  show ?thesis
    using that run [of "concat (map ni_Pods nodes)" "-1" "[]"] dep [of "concat (map ni_Pods nodes)" "[]"]
    by (simp add: go_fold_concat fold_max_link attach_weight_def deployed_services)
qed

lemma cut_step_ok:
  assumes "graph_ok g" and "k \<in> {0..<sg_Num g}" and "i \<in> {0..<sg_Num g}" and "-1 \<le> mx"
  shows "cut_step g dep k i mx = Returns (if i \<in> fst ` set dep then mx else max mx (link g k i))"
proof -
  have dep: "gomap_get dep i = None \<longleftrightarrow> i \<notin> fst ` set dep" by (rule map_of_eq_None_iff)
  have "sg_Edge g k i = -1 \<or> sg_Edge g i k = -1" by (rule graph_ok_edge(3) [OF assms(1-3)])
  with assms show ?thesis
    by (cases "i \<in> fst ` set dep") (auto simp only: cut_step_def dep graph_ok_at [OF assms(1-3)]
        graph_ok_at [OF assms(1,3,2)] link_def go_bind.simps max_def split: if_splits)
qed

lemma cut_max_ok:
  assumes g: "graph_ok g" and D: "fst ` set dep \<subseteq> {0..<sg_Num g}"
  shows "cut_max g dep = Returns (cut_weight g (fst ` set dep))"
proof -
  define f where "f = (\<lambda>(k, i) mx. if i \<in> fst ` set dep then mx else max mx (link g k i))"
  define ps where "ps = List.product (map fst dep) (upto_int (sg_Num g))"
  have "go_fold (\<lambda>(k, i). cut_step g dep k i) ps (-1) = Returns (fold f ps (-1)) \<and> -1 \<le> fold f ps (-1)"
  proof (rule go_fold_inv)
    fix x and s :: int assume x: "x \<in> set ps" and s: "-1 \<le> s"
    obtain k i where ki: "x = (k, i)" by (cases x)
    with x D have "k \<in> {0..<sg_Num g}" "i \<in> {0..<sg_Num g}" by (auto simp: ps_def)
    then show "(case x of (k, i) \<Rightarrow> cut_step g dep k i) s = Returns (f x s) \<and> -1 \<le> f x s"
      using cut_step_ok [OF g _ _ s] s by (auto simp: ki f_def)
  qed simp
  moreover have "fold f ps (-1) = fold (\<lambda>x m. max m (case x of (k, i) \<Rightarrow> link g k i))
      (filter (\<lambda>(k, i). i \<notin> fst ` set dep) ps) (-1)"
    unfolding fold_filter by (rule arg_cong [where f = "\<lambda>h. fold h ps (-1)"]) (auto simp: f_def fun_eq_iff)
  moreover have "set (filter (\<lambda>(k, i). i \<notin> fst ` set dep) ps) = fst ` set dep \<times> ({0..<sg_Num g} - fst ` set dep)"
    by (auto simp: ps_def)
  ultimately show ?thesis
    unfolding cut_max_def go_fold_product ps_def [symmetric] cut_weight_def by (simp add: fold_Max)
qed

lemma wrapped_sum_exact:
  assumes "\<forall>e\<in>set es. 0 \<le> e" and "sum_list es < 2 ^ 63"
  shows "wrapped_sum es = sum_list es"
proof -
  have "fold (\<lambda>e s. wrap64 (s + e)) es s = s + sum_list es"
    if "0 \<le> s" "\<forall>e\<in>set es. 0 \<le> e" "s + sum_list es < 2 ^ 63" for es s
    using that
  proof (induction es arbitrary: s)
    case (Cons e es)
    have "0 \<le> sum_list es" using Cons.prems by (intro sum_list_nonneg) simp
    then have "wrap64 (s + e) = s + e" using Cons.prems by (intro wrap64_id) (simp add: in_int64_def)
    then show ?case using Cons by simp
  qed simp
  from this [of 0 es] show ?thesis using assms by (simp add: wrapped_sum_def)
qed

lemma total_weight_bounds:
  assumes "graph_ok g" and "p \<in> {0..<sg_Num g}"
  shows "0 \<le> total_weight g p" and "total_weight g p \<le> 100 * 2 ^ 53"
proof -
  show "0 \<le> total_weight g p" by (simp add: total_weight_def sum_nonneg)
  have "max 0 (link g p j) \<le> 2 ^ 53" if "j \<in> {0..<sg_Num g}" for j
    using graph_ok_edge(2) [OF assms(1,2) that] graph_ok_edge(2) [OF assms(1) that assms(2)] by (simp add: link_def)
  then have "total_weight g p \<le> of_nat (card {0..<sg_Num g}) * 2 ^ 53"
    unfolding total_weight_def by (rule sum_bounded_above)
  also have "\<dots> \<le> 100 * 2 ^ 53" using assms(1) by (simp add: graph_ok_def)
  finally show "total_weight g p \<le> 100 * 2 ^ 53" .
qed

lemma neighborEdgeWeight_ok:
  assumes g: "graph_ok g" and "gomap_get (pod_Labels pod) ''app'' = Some svc" and v: "gomap_get (sg_Vertex g) svc = Some p"
  obtains es where "neighborEdgeWeight pod g = Returns es" and "wrapped_sum es = total_weight g p"
proof -
  define f where "f v es = es @ (if link g p v \<ge> 0 then [link g p v] else [])" for v and es :: "int list"
  have p: "p \<in> {0..<sg_Num g}" by (rule graph_ok_index [OF g v])
  have vs: "set (map snd (sg_Vertex g)) = {0..<sg_Num g}" "distinct (map snd (sg_Vertex g))"
    using g by (simp_all add: graph_ok_def)
  have run: "go_fold (neighbor_step g p) (map snd (sg_Vertex g)) [] = Returns (fold f (map snd (sg_Vertex g)) [])"
  proof (rule go_fold_total)
    fix x es assume "x \<in> set (map snd (sg_Vertex g))"
    then have x: "x \<in> {0..<sg_Num g}" using vs(1) by blast
    have a: "sg_Edge g x p = -1 \<or> sg_Edge g p x = -1" by (rule graph_ok_edge(3) [OF g x p])
    show "neighbor_step g p x es = Returns (f x es)"
      using a graph_ok_edge(1) [OF g x p] graph_ok_edge(1) [OF g p x]
      by (auto simp: neighbor_step_def f_def graph_ok_at [OF g x p] graph_ok_at [OF g p x] link_def)
  qed
  have es: "fold f xs acc = acc @ filter (\<lambda>w. 0 \<le> w) (map (link g p) xs)" for xs acc
    by (induction xs arbitrary: acc) (simp_all add: f_def)
  define es where "es = filter (\<lambda>w. 0 \<le> w) (map (link g p) (map snd (sg_Vertex g)))"
  have "sum_list (filter (\<lambda>w. 0 \<le> w) (map h xs)) = sum_list (map (\<lambda>x. max 0 (h x)) xs)" for h :: "int \<Rightarrow> int" and xs
    by (induction xs) auto
  then have "sum_list es = sum_list (map (\<lambda>v. max 0 (link g p v)) (map snd (sg_Vertex g)))"
    unfolding es_def by blast
  also have "\<dots> = total_weight g p"
    using vs by (simp only: sum_list_distinct_conv_sum_set total_weight_def)
  finally have "sum_list es = total_weight g p" .
  moreover from this have "wrapped_sum es = sum_list es"
    using total_weight_bounds(2) [OF g p] by (intro wrapped_sum_exact) (auto simp: es_def)
  moreover have "neighborEdgeWeight pod g = Returns es"
    unfolding neighborEdgeWeight_def using assms(2) v run by (simp add: es es_def)
  ultimately show ?thesis using that by simp
qed

lemma filtered_sum:
  assumes "distinct xs" and "\<And>x. x \<in> set xs \<Longrightarrow> -1 \<le> h x" and "(\<Sum>x\<in>set xs. max 0 (h x)) < 2 ^ 63"
  shows "wrapped_sum (filter (\<lambda>e. e \<noteq> -1) (map h xs)) = (\<Sum>x\<in>set xs. max 0 (h x))"
proof -
  have "sum_list (filter (\<lambda>e. e \<noteq> -1) (map h xs)) = sum_list (map (\<lambda>x. max 0 (h x)) xs)"
    using assms(2)
  proof (induction xs)
    case (Cons x xs)
    then have "-1 \<le> h x" by simp
    then have "h x \<noteq> -1 \<Longrightarrow> 0 \<le> h x" by simp
    with Cons show ?case by auto
  qed simp
  also have "\<dots> = (\<Sum>x\<in>set xs. max 0 (h x))" by (rule sum_list_distinct_conv_sum_set [OF assms(1)])
  finally have s: "sum_list (filter (\<lambda>e. e \<noteq> -1) (map h xs)) = (\<Sum>x\<in>set xs. max 0 (h x))" .
  have "\<forall>e\<in>set (filter (\<lambda>e. e \<noteq> -1) (map h xs)). 0 \<le> e"
  proof
    fix e assume "e \<in> set (filter (\<lambda>e. e \<noteq> -1) (map h xs))"
    then have "e \<noteq> -1" "-1 \<le> e" using assms(2) by auto
    then show "0 \<le> e" by simp
  qed
  with s assms(3) show ?thesis by (simp add: wrapped_sum_exact)
qed

lemma call_sums_ok:
  assumes g: "graph_ok g" and i: "i \<in> {0..<sg_Num g}"
  obtains s t where "call_sums g i = Returns (s, t)" and "wrap64 (s + t) = total_weight g i"
proof -
  let ?V = "upto_int (sg_Num g)"
  define row where "row j s = (if sg_Edge g i j \<noteq> -1 then wrap64 (s + sg_Edge g i j) else s)" for j s
  define col where "col j s = (if sg_Edge g j i \<noteq> -1 then wrap64 (s + sg_Edge g j i) else s)" for j s
  have run: "call_sums g i = Returns (fold (\<lambda>j (s, t). (row j s, col j t)) ?V (0, 0))"
    unfolding call_sums_def
  proof (rule go_fold_total)
    fix j and st :: "int \<times> int" assume "j \<in> set ?V"
    then have j: "j \<in> {0..<sg_Num g}" by simp
    show "(case st of (s, t) \<Rightarrow> go_bind (matrix_at (sg_Edge g) i j) (\<lambda>e_out. go_bind (matrix_at (sg_Edge g) j i)
        (\<lambda>e_in. Returns (if e_out \<noteq> -1 then wrap64 (s + e_out) else s, if e_in \<noteq> -1 then wrap64 (t + e_in) else t)))) =
      Returns (case st of (s, t) \<Rightarrow> (row j s, col j t))"
      by (simp add: graph_ok_at [OF g i j] graph_ok_at [OF g j i] row_def col_def split: prod.split)
  qed
  have pair: "fold (\<lambda>j (s, t). (row j s, col j t)) xs (s, t) = (fold row xs s, fold col xs t)" for xs s t
    by (induction xs arbitrary: s t) simp_all
  have sums: "fold row xs s = fold (\<lambda>e s. wrap64 (s + e)) (filter (\<lambda>e. e \<noteq> -1) (map (sg_Edge g i) xs)) s"
    "fold col xs s = fold (\<lambda>e s. wrap64 (s + e)) (filter (\<lambda>e. e \<noteq> -1) (map (\<lambda>j. sg_Edge g j i) xs)) s" for xs s
    by (induction xs arbitrary: s) (simp_all add: row_def col_def)
  have split: "max 0 (link g i j) = max 0 (sg_Edge g i j) + max 0 (sg_Edge g j i)" if "j \<in> {0..<sg_Num g}" for j
    using graph_ok_edge(3) [OF g i that] by (auto simp: link_def max_def)
  then have total: "total_weight g i = (\<Sum>j\<in>set ?V. max 0 (sg_Edge g i j)) + (\<Sum>j\<in>set ?V. max 0 (sg_Edge g j i))"
    by (simp add: total_weight_def sum.distrib)
  have nonneg: "0 \<le> (\<Sum>j\<in>set ?V. max 0 (sg_Edge g i j))" "0 \<le> (\<Sum>j\<in>set ?V. max 0 (sg_Edge g j i))"
    by (simp_all add: sum_nonneg)
  have bound: "total_weight g i < 2 ^ 63" using total_weight_bounds(2) [OF g i] by simp
  have d: "distinct ?V" by (simp add: upto_int_def)
  have "fold row ?V 0 = (\<Sum>j\<in>set ?V. max 0 (sg_Edge g i j))"
    unfolding sums wrapped_sum_def [symmetric]
    using graph_ok_edge(1) [OF g i] total nonneg bound by (intro filtered_sum [OF d]) (simp, linarith)
  moreover have "fold col ?V 0 = (\<Sum>j\<in>set ?V. max 0 (sg_Edge g j i))"
    unfolding sums wrapped_sum_def [symmetric]
    using graph_ok_edge(1) [OF g _ i] total nonneg bound by (intro filtered_sum [OF d]) (simp, linarith)
  ultimately have st: "fold row ?V 0 + fold col ?V 0 = total_weight g i" using total by linarith
  have "wrap64 (total_weight g i) = total_weight g i"
    using bound total_weight_bounds(1) [OF g i] by (intro wrap64_id) (simp add: in_int64_def)
  then show ?thesis using that [of "fold row ?V 0" "fold col ?V 0"] run pair st by simp
qed

definition max_weight :: "MicroServiceGraph \<Rightarrow> int" where
  "max_weight g = Max (insert (-1) (total_weight g ` {0..<sg_Num g}))"

lemma neighbor_max_ok:
  assumes g: "graph_ok g"
  shows "neighbor_max g = Returns (max_weight g)"
proof -
  let ?V = "upto_int (sg_Num g)"
  have "neighbor_max g = Returns (fold (\<lambda>x m. max m (total_weight g (snd x))) (List.product ?V ?V) (-1))"
    unfolding neighbor_max_def go_fold_product
  proof (rule go_fold_total)
    fix x and mx :: int assume "x \<in> set (List.product ?V ?V)"
    then have "snd x \<in> {0..<sg_Num g}" by auto
    then obtain s t where st: "call_sums g (snd x) = Returns (s, t)" "wrap64 (s + t) = total_weight g (snd x)"
      by (rule call_sums_ok [OF g])
    then show "(case x of (i, iCall) \<Rightarrow> \<lambda>mx. go_bind (call_sums g iCall) (\<lambda>(s, t).
        Returns (if wrap64 (s + t) > mx then wrap64 (s + t) else mx))) mx = Returns (max mx (total_weight g (snd x)))"
      by (auto simp: max_def split: prod.split)
  qed
  moreover have "(\<lambda>x. total_weight g (snd x)) ` set (List.product ?V ?V) = total_weight g ` {0..<sg_Num g}"
    by force
  ultimately show ?thesis by (simp add: fold_Max max_weight_def)
qed

section \<open>The order of deployment\<close>

lemma PreFilter_ok:
  assumes g: "graph_ok (mh_ServiceGraph pl)" and app: "gomap_get (pod_Labels pod) ''app'' = Some svc"
    and v: "gomap_get (sg_Vertex (mh_ServiceGraph pl)) svc = Some p"
  shows "MHice_PreFilter pl listing pod =
     (let G = mh_ServiceGraph pl; D = deployed G (fst listing) in
      Returns (if attach_weight G D p = -1
         then if total_weight G p = max_weight G then None else Some (not_yet pod '' '')
         else if attach_weight G D p = cut_weight G D then None else Some (not_yet pod [])))"
proof -
  let ?G = "mh_ServiceGraph pl"
  obtain es where es: "neighborEdgeWeight pod ?G = Returns es" "wrapped_sum es = total_weight ?G p"
    by (rule neighborEdgeWeight_ok [OF g app v])
  obtain dep where dep: "go_fold (\<lambda>node. go_fold (deployed_step ?G p) (ni_Pods node)) (fst listing) (-1, []) =
      Returns (attach_weight ?G (deployed ?G (fst listing)) p, dep)" "fst ` set dep = deployed ?G (fst listing)"
    by (rule deployed_scan [OF g graph_ok_index [OF g v]])
  have "fst ` set dep \<subseteq> {0..<sg_Num ?G}" using deployed_index [OF g] dep(2) by blast
  then have cut: "cut_max ?G dep = Returns (cut_weight ?G (deployed ?G (fst listing)))"
    using cut_max_ok [OF g] dep(2) by simp
  have a: "get_or [] (pod_Labels pod) ''app'' = svc" using app by (simp add: get_or_def)
  show ?thesis
    unfolding MHice_PreFilter_def Let_def es(1) go_bind.simps a v option.case dep(1) prod.case cut neighbor_max_ok [OF g] es(2)
    by simp
qed

lemma attach_weight_ge: "finite D \<Longrightarrow> k \<in> D \<Longrightarrow> link g p k \<le> attach_weight g D p"
  by (simp add: attach_weight_def)

lemma cut_weight_ge:
  "finite D \<Longrightarrow> k \<in> D \<Longrightarrow> i \<in> {0..<sg_Num g} \<Longrightarrow> i \<notin> D \<Longrightarrow> link g k i \<le> cut_weight g D"
  unfolding cut_weight_def by (rule Max_ge) (auto intro!: image_eqI [of _ _ "(k, i)"])

lemma attach_weight_le_cut:
  assumes "finite D" and "i \<in> {0..<sg_Num g}" and "i \<notin> D"
  shows "attach_weight g D i \<le> cut_weight g D"
  unfolding attach_weight_def
proof (rule Max.boundedI)
  fix a assume "a \<in> insert (-1) (link g i ` D)"
  moreover have "-1 \<le> cut_weight g D" using assms(1) by (simp add: cut_weight_def)
  ultimately show "a \<le> cut_weight g D"
    using cut_weight_ge [OF assms(1) _ assms(2,3)] by (auto simp: link_commute [of g i])
qed (use assms in simp_all)

text \<open>When an edge leaves the deployed services, the service at the end of the heaviest one attains the cut.\<close>

lemma light_service:
  assumes "finite D" and "-1 < cut_weight g D"
  obtains i where "i \<in> {0..<sg_Num g}" and "i \<notin> D" and "attach_weight g D i = cut_weight g D"
proof -
  have "cut_weight g D \<in> insert (-1) ((\<lambda>(k, i). link g k i) ` (D \<times> ({0..<sg_Num g} - D)))"
    unfolding cut_weight_def using assms(1) by (intro Max_in) simp_all
  then obtain k i where ki: "k \<in> D" "i \<in> {0..<sg_Num g}" "i \<notin> D" "cut_weight g D = link g k i"
    using assms(2) by auto
  then have "attach_weight g D i = cut_weight g D"
    using attach_weight_le_cut [OF assms(1) ki(2,3)] attach_weight_ge [OF assms(1) ki(1), of g i]
    by (simp add: link_commute [of g k])
  then show ?thesis using that ki by blast
qed

lemma heaviest_service:
  assumes "graph_ok g" and "0 < sg_Num g"
  obtains i where "i \<in> {0..<sg_Num g}" and "total_weight g i = max_weight g"
proof -
  have "max_weight g \<in> insert (-1) (total_weight g ` {0..<sg_Num g})"
    unfolding max_weight_def by (intro Max_in) simp_all
  moreover have "total_weight g 0 \<le> max_weight g" unfolding max_weight_def using assms(2) by (intro Max_ge) auto
  moreover have "0 \<le> total_weight g 0" using total_weight_bounds(1) [OF assms(1)] assms(2) by simp
  ultimately show ?thesis using that by auto
qed

lemma vertex_name:
  assumes "graph_ok g" and "gomap_ok (sg_Vertex g)" and "i \<in> {0..<sg_Num g}"
  obtains svc where "gomap_get (sg_Vertex g) svc = Some i"
proof -
  have "i \<in> set (map snd (sg_Vertex g))" using assms(1,3) unfolding graph_ok_def by blast
  then obtain svc where "(svc, i) \<in> set (sg_Vertex g)" by auto
  then show ?thesis using that assms(2) by (metis gomap_ok_def map_of_eq_Some_iff)
qed

section \<open>The shipped graph\<close>

definition boutique_ok :: "MicroServiceGraph \<Rightarrow> bool" where
  "boutique_ok g \<longleftrightarrow> graph_ok g \<and> gomap_ok (sg_Vertex g) \<and> sg_Num g = 11
     \<and> (\<forall>(i, j)\<in>set [(5, 1), (5, 8), (5, 7), (5, 10), (5, 2), (5, 0), (1, 9), (2, 3), (2, 6), (2, 4)].
          0 \<le> sg_Edge g i j)"

lemma matrix_fill:
  assumes "n \<le> 100"
  shows "go_fold (\<lambda>i. go_fold (\<lambda>j. matrix_set i j (v i j)) (upto_int n)) (upto_int n) m =
     Returns (\<lambda>i j. if i \<in> {0..<n} \<and> j \<in> {0..<n} then v i j else m i j)"
proof -
  define f where "f x m = m(fst x := (m (fst x))(snd x := v (fst x) (snd x)))" for x :: "int \<times> int" and m :: "'a matrix"
  have "go_fold (\<lambda>(i, j). matrix_set i j (v i j)) (List.product (upto_int n) (upto_int n)) m =
      Returns (fold f (List.product (upto_int n) (upto_int n)) m)"
    by (rule go_fold_total) (use assms in \<open>auto simp: matrix_set_def in_matrix_def f_def\<close>)
  moreover have "fold f xs m = (\<lambda>i j. if (i, j) \<in> set xs then v i j else m i j)" for xs m
    by (induction xs arbitrary: m) (auto simp: f_def fun_eq_iff)
  ultimately show ?thesis unfolding go_fold_product by simp
qed

lemma SetAPICall_ok:
  assumes "gomap_get (sg_Vertex g) src = Some i" and "gomap_get (sg_Vertex g) dst = Some j" and "in_matrix i j"
  shows "SetAPICall src dst v g = Returns (g\<lparr>sg_Edge := (sg_Edge g)(i := (sg_Edge g i)(j := v))\<rparr>)"
  using assms by (simp add: SetAPICall_def matrix_set_def get_or_def)

text \<open>The calls by vertex number.\<close>

definition call_table :: "((int \<times> int) \<times> int) list" where
  "call_table =
     [((5, 1), 1), ((5, 8), 1), ((5, 7), 100), ((5, 10), 1), ((5, 2), 1), ((5, 0), 1), ((1, 9), 1), ((8, 7), 10),
      ((2, 7), 10), ((2, 3), 1), ((2, 10), 1), ((2, 6), 1), ((2, 4), 1), ((2, 1), 1)]"

definition call_weight :: "int \<Rightarrow> int \<Rightarrow> int" where
  "call_weight i j = (case map_of call_table (i, j) of Some w \<Rightarrow> w | None \<Rightarrow> if i \<in> {0..<11} \<and> j \<in> {0..<11} then -1 else 0)"

definition boutique_graph :: MicroServiceGraph where
  "boutique_graph = \<lparr>sg_Edge = call_weight, sg_Vertex = service_vertices, sg_Num = 11\<rparr>"

lemma GenerateServiceGraph_eq: "GenerateServiceGraph = Returns boutique_graph"
proof -
  let ?blank = "\<lambda>i j. if i \<in> {0..<11} \<and> j \<in> {0..<11} then -1 else (0::int)"
  define upd where "upd = (\<lambda>(src, dst, v::int) e. let i = get_or 0 service_vertices src; j = get_or 0 service_vertices dst
    in e(i := (e i)(j := v)))"
  have run: "go_fold (\<lambda>(src, dst, v). SetAPICall src dst v) cs \<lparr>sg_Edge = e, sg_Vertex = service_vertices, sg_Num = 11\<rparr> =
      Returns \<lparr>sg_Edge = fold upd cs e, sg_Vertex = service_vertices, sg_Num = 11\<rparr>"
    if "\<forall>(src, dst, v)\<in>set cs. in_matrix (get_or 0 service_vertices src) (get_or 0 service_vertices dst)" for cs e
    using that by (induction cs arbitrary: e) (auto simp: SetAPICall_def matrix_set_def upd_def Let_def)
  have "\<forall>(src, dst, v)\<in>set api_calls. in_matrix (get_or 0 service_vertices src) (get_or 0 service_vertices dst)"
    by (simp add: api_calls_def service_vertices_def get_or_def in_matrix_def)
  note run = run [OF this]
  have "fold upd api_calls ?blank = call_weight"
    by (simp add: upd_def api_calls_def service_vertices_def get_or_def Let_def call_weight_def call_table_def fun_eq_iff)
  then show ?thesis
    unfolding GenerateServiceGraph_def matrix_fill [where n = 11, simplified] by (simp add: run boutique_graph_def)
qed

lemma eleven: "{0..<11} = {0, 1, 2, 3, 4, 5, 6, 7, 8, 9, 10 :: int}"
  by (rule set_eqI) (simp, presburger)

lemma boutique: "boutique_ok boutique_graph"
proof -
  have "\<forall>i\<in>{0..<11}. \<forall>j\<in>{0..<11}. -1 \<le> call_weight i j \<and> call_weight i j \<le> 2 ^ 53
      \<and> (call_weight i j = -1 \<or> call_weight j i = -1)"
    unfolding eleven by (simp add: call_weight_def call_table_def)
  moreover have "set (map snd service_vertices) = {0..<11}" "distinct (map snd service_vertices)" "gomap_ok service_vertices"
    unfolding eleven by (auto simp: service_vertices_def gomap_ok_def)
  moreover have "\<forall>(i, j)\<in>set [(5, 1), (5, 8), (5, 7), (5, 10), (5, 2), (5, 0), (1, 9), (2, 3), (2, 6), (2, 4)].
      0 \<le> call_weight i j"
    by (simp add: call_weight_def call_table_def)
  ultimately show ?thesis by (simp add: boutique_ok_def graph_ok_def boutique_graph_def)
qed

text \<open>The shipped graph hangs together: an edge leaves every part of it.\<close>

lemma boutique_connected:
  assumes g: "boutique_ok g" and D: "D \<subseteq> {0..<11}" "D \<noteq> {}" "D \<noteq> {0..<11}"
  shows "-1 < cut_weight g D"
proof (rule ccontr)
  assume low: "\<not> -1 < cut_weight g D"
  have fin: "finite D" using D(1) by (rule finite_subset) simp
  have same: "i \<in> D \<longleftrightarrow> j \<in> D" if "0 \<le> sg_Edge g i j" "i \<in> {0..<11}" "j \<in> {0..<11}" for i j
  proof (rule ccontr)
    assume "(i \<in> D) \<noteq> (j \<in> D)"
    then have "link g i j \<le> cut_weight g D"
      using cut_weight_ge [OF fin, of i j g] cut_weight_ge [OF fin, of j i g] that g
      by (auto simp: link_commute [of g j] boutique_ok_def)
    then show False using that(1) low by (simp add: link_def)
  qed
  have "5 \<in> D \<longleftrightarrow> 1 \<in> D" "5 \<in> D \<longleftrightarrow> 8 \<in> D" "5 \<in> D \<longleftrightarrow> 7 \<in> D" "5 \<in> D \<longleftrightarrow> 10 \<in> D" "5 \<in> D \<longleftrightarrow> 2 \<in> D"
    "5 \<in> D \<longleftrightarrow> 0 \<in> D" "1 \<in> D \<longleftrightarrow> 9 \<in> D" "2 \<in> D \<longleftrightarrow> 3 \<in> D" "2 \<in> D \<longleftrightarrow> 6 \<in> D" "2 \<in> D \<longleftrightarrow> 4 \<in> D"
    using g by (intro same; simp add: boutique_ok_def)+
  then have "{0..<11} \<subseteq> D \<or> D \<inter> {0..<11} = {}" unfolding eleven by (cases "5 \<in> D") simp_all
  then show False using D by auto
qed

lemma boutique_progress:
  assumes ok: "boutique_ok (mh_ServiceGraph pl)" and D: "deployed (mh_ServiceGraph pl) (fst listing) \<noteq> {0..<11}"
  obtains svc v where "gomap_get (sg_Vertex (mh_ServiceGraph pl)) svc = Some v"
    and "v \<notin> deployed (mh_ServiceGraph pl) (fst listing)"
    and "\<And>pod. gomap_get (pod_Labels pod) ''app'' = Some svc \<Longrightarrow> MHice_PreFilter pl listing pod = Returns None"
proof -
  let ?G = "mh_ServiceGraph pl" let ?D = "deployed ?G (fst listing)"
  have g: "graph_ok ?G" "gomap_ok (sg_Vertex ?G)" "sg_Num ?G = 11" using ok by (simp_all add: boutique_ok_def)
  have sub: "?D \<subseteq> {0..<11}" using deployed_index [OF g(1)] g(3) by auto
  obtain v where v: "v \<in> {0..<sg_Num ?G}" "v \<notin> ?D"
    "if attach_weight ?G ?D v = -1 then total_weight ?G v = max_weight ?G else attach_weight ?G ?D v = cut_weight ?G ?D"
  proof (cases "?D = {}")
    case True
    obtain i where "i \<in> {0..<sg_Num ?G}" "total_weight ?G i = max_weight ?G"
      using heaviest_service [OF g(1)] g(3) by auto
    then show ?thesis using that [of i] True by (simp add: attach_weight_def)
  next
    case False
    then have "-1 < cut_weight ?G ?D" using boutique_connected [OF ok sub _ D] by simp
    then show ?thesis using light_service [of ?D ?G] that by (metis finite_deployed less_irrefl)
  qed
  obtain svc where svc: "gomap_get (sg_Vertex ?G) svc = Some v" by (rule vertex_name [OF g(1,2) v(1)])
  show ?thesis
    by (rule that [OF svc v(2)]) (use v(3) in \<open>simp add: PreFilter_ok [OF g(1) _ svc] Let_def split: if_splits\<close>)
qed

lemma attach_weight_none:
  assumes "finite D" and "\<And>k. k \<in> D \<Longrightarrow> -1 \<le> link g p k"
  shows "attach_weight g D p = -1 \<longleftrightarrow> (\<forall>k\<in>D. link g p k = -1)"
proof
  assume "attach_weight g D p = -1"
  then show "\<forall>k\<in>D. link g p k = -1"
    using attach_weight_ge [OF assms(1)] assms(2) by (metis order_antisym)
next
  assume "\<forall>k\<in>D. link g p k = -1"
  then have "insert (-1) (link g p ` D) = {-1}" by auto
  then show "attach_weight g D p = -1" unfolding attach_weight_def by (simp only: Max_singleton)
qed

lemma attach_weight_light:
  assumes "finite D" and "p \<in> {0..<sg_Num g}" and "p \<notin> D" and "-1 < attach_weight g D p"
  shows "attach_weight g D p = cut_weight g D \<longleftrightarrow>
    (\<exists>k\<in>D. \<forall>k'\<in>D. \<forall>i\<in>{0..<sg_Num g} - D. link g k' i \<le> link g p k)"
proof -
  have "attach_weight g D p \<in> insert (-1) (link g p ` D)"
    unfolding attach_weight_def using assms(1) by (intro Max_in) simp_all
  then obtain k where k: "k \<in> D" "attach_weight g D p = link g p k" using assms(4) by auto
  show ?thesis
  proof
    assume "attach_weight g D p = cut_weight g D"
    then show "\<exists>k\<in>D. \<forall>k'\<in>D. \<forall>i\<in>{0..<sg_Num g} - D. link g k' i \<le> link g p k"
      using k cut_weight_ge [OF assms(1)] by (intro bexI [OF _ k(1)]) simp
  next
    assume "\<exists>k\<in>D. \<forall>k'\<in>D. \<forall>i\<in>{0..<sg_Num g} - D. link g k' i \<le> link g p k"
    then obtain l where l: "l \<in> D" "\<And>k' i. k' \<in> D \<Longrightarrow> i \<in> {0..<sg_Num g} - D \<Longrightarrow> link g k' i \<le> link g p l" by blast
    have up: "link g p l \<le> attach_weight g D p" by (rule attach_weight_ge [OF assms(1) l(1)])
    have "cut_weight g D \<le> attach_weight g D p"
      unfolding cut_weight_def
    proof (rule Max.boundedI)
      fix a assume "a \<in> insert (-1) ((\<lambda>(k, i). link g k i) ` (D \<times> ({0..<sg_Num g} - D)))"
      then consider "a = -1" | k' i where "k' \<in> D" "i \<in> {0..<sg_Num g} - D" "a = link g k' i" by auto
      then show "a \<le> attach_weight g D p" using l(2) up assms(4) by cases (simp, metis order_trans)
    qed (use assms(1) in simp_all)
    then show "attach_weight g D p = cut_weight g D" using attach_weight_le_cut [OF assms(1-3)] by simp
  qed
qed

lemma max_weight_attained:
  assumes "graph_ok g" and "p \<in> {0..<sg_Num g}"
  shows "total_weight g p = max_weight g \<longleftrightarrow> (\<forall>i\<in>{0..<sg_Num g}. total_weight g i \<le> total_weight g p)"
proof
  assume "total_weight g p = max_weight g"
  then show "\<forall>i\<in>{0..<sg_Num g}. total_weight g i \<le> total_weight g p"
    unfolding max_weight_def by (metis Max_ge finite.insertI finite_atLeastLessThan_int finite_imageI image_eqI insertI2)
next
  assume "\<forall>i\<in>{0..<sg_Num g}. total_weight g i \<le> total_weight g p"
  then show "total_weight g p = max_weight g"
    unfolding max_weight_def using assms(2) total_weight_bounds(1) [OF assms]
    by (intro Max_eqI [symmetric]) auto
qed


section \<open>Scores of the shipped configuration\<close>

definition partner_upd :: "MicroServiceGraph \<Rightarrow> int \<Rightarrow> PodInfo \<Rightarrow> partners \<Rightarrow> partners" where
  "partner_upd g p np ps =
     (case pod_service g (pi_Pod np) of None \<Rightarrow> ps
      | Some v \<Rightarrow> ps
          \<lparr>ps_maxEdge := max (ps_maxEdge ps) (link g p v),
           ps_called := (if sg_Edge g p v \<ge> 0 then gomap_set (ps_called ps) (pod_Name (pi_Pod np)) np else ps_called ps),
           ps_calling := (if sg_Edge g v p \<ge> 0 then gomap_set (ps_calling ps) (pod_Name (pi_Pod np)) np else ps_calling ps)\<rparr>)"

lemma partner_step_ok:
  assumes "graph_ok g" and "p \<in> {0..<sg_Num g}" and "ni_node node \<noteq> None"
  shows "partner_step g p node np ps = Returns (partner_upd g p np ps)"
proof (cases "pod_service g (pi_Pod np)")
  case None
  then show ?thesis by (simp add: partner_step_def partner_upd_def pod_service_def)
next
  case (Some v)
  then have v: "gomap_get (sg_Vertex g) (get_or [] (pod_Labels (pi_Pod np)) ''app'') = Some v"
    by (simp add: pod_service_def)
  then have "v \<in> {0..<sg_Num g}" by (rule graph_ok_index [OF assms(1)])
  moreover have "max_from mx [a, b] = max mx (max a b)" for mx a b by (simp add: max_from_def max_def)
  ultimately show ?thesis
    using Some v assms by (simp add: partner_step_def partner_upd_def graph_ok_at link_def)
qed

lemma gomap_set_values: "snd ` set (gomap_set m k v) \<subseteq> insert v (snd ` set m)"
  by (induction m k v rule: gomap_set.induct) auto

definition partners_ok :: "MicroServiceGraph \<Rightarrow> int \<Rightarrow> partners \<Rightarrow> bool" where
  "partners_ok g p ps \<longleftrightarrow>
     (\<forall>np\<in>snd ` set (ps_called ps). \<exists>v. pod_service g (pi_Pod np) = Some v \<and> 0 \<le> sg_Edge g p v)
     \<and> (\<forall>np\<in>snd ` set (ps_calling ps). \<exists>v. pod_service g (pi_Pod np) = Some v \<and> 0 \<le> sg_Edge g v p)"

lemma partner_upd_ok:
  assumes "partners_ok g p ps"
  shows "partners_ok g p (partner_upd g p np ps)"
proof (cases "pod_service g (pi_Pod np)")
  case None
  then show ?thesis using assms by (simp add: partner_upd_def)
next
  case (Some v)
  show ?thesis unfolding partners_ok_def
  proof (intro conjI ballI)
    fix q assume "q \<in> snd ` set (ps_called (partner_upd g p np ps))"
    then have "q \<in> snd ` set (ps_called ps) \<or> q = np \<and> 0 \<le> sg_Edge g p v"
      using gomap_set_values [of "ps_called ps" "pod_Name (pi_Pod np)" np] Some
      by (auto simp: partner_upd_def split: if_splits)
    then show "\<exists>v. pod_service g (pi_Pod q) = Some v \<and> 0 \<le> sg_Edge g p v"
      using assms Some unfolding partners_ok_def by blast
  next
    fix q assume "q \<in> snd ` set (ps_calling (partner_upd g p np ps))"
    then have "q \<in> snd ` set (ps_calling ps) \<or> q = np \<and> 0 \<le> sg_Edge g v p"
      using gomap_set_values [of "ps_calling ps" "pod_Name (pi_Pod np)" np] Some
      by (auto simp: partner_upd_def split: if_splits)
    then show "\<exists>v. pod_service g (pi_Pod q) = Some v \<and> 0 \<le> sg_Edge g v p"
      using assms Some unfolding partners_ok_def by blast
  qed
qed

lemma partner_scan:
  assumes g: "graph_ok g" and p: "p \<in> {0..<sg_Num g}" and nodes: "\<And>node. node \<in> set nodes \<Longrightarrow> ni_node node \<noteq> None"
  obtains ps where
    "go_fold (\<lambda>node. go_fold (partner_step g p node) (ni_Pods node)) nodes \<lparr>ps_maxEdge = -1, ps_called = [], ps_calling = []\<rparr> =
       Returns ps"
    "ps_maxEdge ps = attach_weight g (deployed g nodes) p" "partners_ok g p ps"
proof -
  define ps0 :: partners where "ps0 = \<lparr>ps_maxEdge = -1, ps_called = [], ps_calling = []\<rparr>"
  define ps where "ps = fold (partner_upd g p) (concat (map ni_Pods nodes)) ps0"
  have run: "go_fold (\<lambda>node. go_fold (partner_step g p node) (ni_Pods node)) nodes ps0 =
      Returns (fold (\<lambda>node. fold (partner_upd g p) (ni_Pods node)) nodes ps0)"
    by (intro go_fold_total partner_step_ok [OF g p nodes])
  have flat: "fold (\<lambda>node. fold (partner_upd g p) (ni_Pods node)) ns q =
      fold (partner_upd g p) (concat (map ni_Pods ns)) q" for ns q
    by (induction ns arbitrary: q) simp_all
  have mx: "ps_maxEdge (fold (partner_upd g p) qs q) = fold (max_link g p) qs (ps_maxEdge q)" for qs q
    by (induction qs arbitrary: q) (simp_all add: partner_upd_def max_link_def split: option.split)
  have ok: "partners_ok g p q \<Longrightarrow> partners_ok g p (fold (partner_upd g p) qs q)" for qs q
    by (induction qs arbitrary: q) (simp_all add: partner_upd_ok)
  show ?thesis
  proof (rule that [of ps])
    show "go_fold (\<lambda>node. go_fold (partner_step g p node) (ni_Pods node)) nodes
        \<lparr>ps_maxEdge = -1, ps_called = [], ps_calling = []\<rparr> = Returns ps"
      using run unfolding flat ps_def ps0_def .
    show "ps_maxEdge ps = attach_weight g (deployed g nodes) p"
      unfolding ps_def mx fold_max_link by (simp add: ps0_def attach_weight_def deployed_services)
    show "partners_ok g p ps" unfolding ps_def by (rule ok) (simp add: partners_ok_def ps0_def)
  qed
qed

text \<open>Floats in an interval from zero.\<close>

definition f64_within :: "rat \<Rightarrow> float64 \<Rightarrow> bool" where
  "f64_within b x \<longleftrightarrow> (\<exists>m. x = F64_Fin False m \<and> 0 \<le> m \<and> m \<le> b)"

lemma f64_within_round:
  assumes "0 \<le> m" and "m \<le> of_int k * pow2 j" and "0 \<le> k" "k \<le> 1000" "-1000 \<le> j" "j \<le> 0"
  shows "f64_within (of_int k * pow2 j) (f64_round False m)"
proof -
  have le: "round_mag m \<le> of_int k * pow2 j"
    using round_mag_mono [OF assms(1,2)] round_mag_exact [of k j] assms by simp
  have "pow2 j \<le> pow2 0" using assms(6) by (subst pow2_le_iff) simp
  then have "of_int k * pow2 j \<le> 1000 * 1" using assms(3,4) by (intro mult_mono) simp_all
  then have "m \<le> 1000" using assms(2) by simp
  also have "\<dots> \<le> pow2 1023" using pow2_le_iff [of 10 1023] by (simp add: pow2_def)
  finally show ?thesis
    using f64_round_finite [OF assms(1)] round_mag_nonneg [OF assms(1)] le by (auto simp: f64_within_def)
qed

lemma f64_within_of_int: "0 \<le> i \<Longrightarrow> i \<le> 1000 \<Longrightarrow> f64_of_int i = F64_Fin False (of_int i)"
  by (subst f64_of_int_exact) simp_all

lemma f64_within_div:
  assumes "f64_within b x" and "0 < n" and "b / n \<le> of_int k * pow2 j" and "0 \<le> k" "k \<le> 1000" "-1000 \<le> j" "j \<le> 0"
  shows "f64_within (of_int k * pow2 j) (f64_div x (F64_Fin False n))"
proof -
  obtain m where m: "x = F64_Fin False m" "0 \<le> m" "m \<le> b" using assms(1) by (auto simp: f64_within_def)
  have "m / n \<le> b / n" using m(3) assms(2) by (simp add: divide_right_mono)
  then have "m / n \<le> of_int k * pow2 j" using assms(3) by (rule order_trans)
  moreover have "0 \<le> m / n" using m(2) assms(2) by simp
  ultimately have "f64_within (of_int k * pow2 j) (f64_round False (m / n))"
    using assms(4-7) by (intro f64_within_round)
  then show ?thesis using m(1) assms(2) by simp
qed

lemma f64_within_mul:
  assumes "f64_within b x" and "0 \<le> n" and "b * n \<le> of_int k * pow2 j" and "0 \<le> k" "k \<le> 1000" "-1000 \<le> j" "j \<le> 0"
  shows "f64_within (of_int k * pow2 j) (f64_mul x (F64_Fin False n))"
proof -
  obtain m where m: "x = F64_Fin False m" "0 \<le> m" "m \<le> b" using assms(1) by (auto simp: f64_within_def)
  have "m * n \<le> b * n" using m(3) assms(2) by (simp add: mult_right_mono)
  then have "m * n \<le> of_int k * pow2 j" using assms(3) by (rule order_trans)
  moreover have "0 \<le> m * n" using m(2) assms(2) by simp
  ultimately have "f64_within (of_int k * pow2 j) (f64_round False (m * n))"
    using assms(4-7) by (intro f64_within_round)
  then show ?thesis using m(1) by simp
qed

lemma f64_within_add:
  assumes "f64_within b x" and "f64_within c y" and "b + c \<le> of_int k * pow2 j" and "0 \<le> k" "k \<le> 1000" "-1000 \<le> j" "j \<le> 0"
  shows "f64_within (of_int k * pow2 j) (f64_add x y)"
proof -
  obtain m where m: "x = F64_Fin False m" "0 \<le> m" "m \<le> b" using assms(1) by (auto simp: f64_within_def)
  obtain n where n: "y = F64_Fin False n" "0 \<le> n" "n \<le> c" using assms(2) by (auto simp: f64_within_def)
  have le: "m + n \<le> of_int k * pow2 j" using m n assms(3) by linarith
  have "f64_within (of_int k * pow2 j) (f64_round False (m + n))"
    by (rule f64_within_round) (use m n le assms in simp_all)
  moreover have "f64_within (of_int k * pow2 j) (F64_Fin False 0)"
    using m(2) n(2) le by (auto simp: f64_within_def)
  ultimately show ?thesis using m(2) n(2) by (simp add: m(1) n(1) Let_def f64_of_rat_def)
qed

lemma f64_within_max: "f64_within b x \<Longrightarrow> f64_within b y \<Longrightarrow> f64_within b (f64_max x y)"
  by (auto simp: f64_within_def f64_max_def)

definition shipped_network :: "NetworkToplogy \<Rightarrow> bool" where
  "shipped_network t \<longleftrightarrow>
     (\<forall>i\<in>{0..<6}. \<forall>j\<in>{0..<6}. (\<exists>w\<ge>1000. nt_Bandwidth t i j = F64_Fin False w) \<and> nt_Latency t i j = f64_zero)
     \<and> (\<forall>n. get_or 0 (nt_Node t) n \<in> {0..<6})"

lemma GenerateNetworkToplogy_ok:
  obtains t where "GenerateNetworkToplogy = Returns t" and "shipped_network t"
proof -
  have fill: "go_fold (\<lambda>i. go_fold (\<lambda>j. matrix_set i j (w i j)) (upto_int 6)) (upto_int 6) m =
      Returns (\<lambda>i j. if i \<in> {0..<6} \<and> j \<in> {0..<6} then w i j else m i j)" for w and m :: "float64 matrix"
    by (rule matrix_fill) simp
  have six: "{0..<6} = {0, 1, 2, 3, 4, 5 :: int}" by (rule set_eqI) (simp, presburger)
  have range: "\<forall>i\<in>{0..<6}. \<forall>j\<in>{0..<6}. 1000 \<le> topology_bandwidth ! nat i ! nat j \<and> topology_bandwidth ! nat i ! nat j \<le> 70000"
    unfolding six by (simp add: topology_bandwidth_def)
  have band: "\<exists>w\<ge>1000. f64_of_int (topology_bandwidth ! nat i ! nat j) = F64_Fin False w"
    if "i \<in> {0..<6}" "j \<in> {0..<6}" for i j
  proof -
    let ?b = "topology_bandwidth ! nat i ! nat j"
    have b: "1000 \<le> ?b" "?b \<le> 70000" using that range by blast+
    have "f64_of_int ?b = F64_Fin (?b < 0) (of_int \<bar>?b\<bar>)" using b by (intro f64_of_int_exact) simp
    moreover have "(1000::rat) \<le> of_int ?b" using of_int_le_iff [where 'a = rat, of 1000 ?b] b(1) by simp
    ultimately show ?thesis using b by simp
  qed
  have node: "get_or 0 topology_nodes n \<in> {0..<6}" for n
    by (simp add: get_or_def topology_nodes_def)
  define t where "t = \<lparr>nt_Bandwidth = \<lambda>i j. if i \<in> {0..<6} \<and> j \<in> {0..<6} then f64_of_int (topology_bandwidth ! nat i ! nat j) else f64_zero,
    nt_Latency = \<lambda>i j. if i \<in> {0..<6} \<and> j \<in> {0..<6} then f64_zero else f64_zero, nt_Node = topology_nodes\<rparr>"
  show ?thesis
  proof (rule that [of t])
    show "GenerateNetworkToplogy = Returns t"
      unfolding GenerateNetworkToplogy_def fill go_bind.simps t_def ..
    show "shipped_network t"
      unfolding shipped_network_def t_def NetworkToplogy.simps
      using band node by (intro conjI ballI allI; simp only: if_True simp_thms if_cancel)
  qed
qed

lemma delay_step_ok:
  assumes t: "shipped_network (mh_Toplogy pl)" and here: "here \<in> {0..<6}"
    and e: "edge (get_or 0 (sg_Vertex (mh_ServiceGraph pl)) (get_or [] (pod_Labels (pi_Pod v)) ''app'')) = Returns e" "0 \<le> e" "e \<le> 100"
    and mx: "f64_within (1 / 64) mx"
  shows "\<exists>mx' nd'. delay_step pl edge here v (mx, nd) = Returns (mx', nd') \<and> f64_within (1 / 64) mx'"
proof -
  define svc where "svc = get_or 0 (nt_Node (mh_Toplogy pl)) (pod_NodeName (pi_Pod v))"
  have svc: "svc \<in> {0..<6}" using t by (simp add: shipped_network_def svc_def)
  obtain w where w: "1000 \<le> w" "nt_Bandwidth (mh_Toplogy pl) svc here = F64_Fin False w"
    using t svc here unfolding shipped_network_def by blast
  have at: "matrix_at m svc here = Returns (m svc here)" for m :: "float64 matrix"
    using svc here by (simp add: matrix_at_def in_matrix_def)
  have lat: "nt_Latency (mh_Toplogy pl) svc here = f64_zero" using t svc here unfolding shipped_network_def by blast
  define d1 where "d1 = f64_div (f64_of_int e) (F64_Fin False w)"
  define d2 where "d2 = f64_div d1 (f64_of_int 100)"
  define d3 where "d3 = f64_add d2 f64_zero"
  have "f64_within 100 (f64_of_int e)" using e by (simp add: f64_within_of_int f64_within_def)
  moreover have "100 / w \<le> 100 / 1000" using w(1) by (intro divide_left_mono) simp_all
  ultimately have "f64_within (of_int 1 * pow2 0) d1"
    unfolding d1_def using w(1) by (intro f64_within_div [of 100]) simp_all
  then have "f64_within (of_int 1 * pow2 (-6)) d2"
    unfolding d2_def f64_within_of_int [of 100, simplified] by (rule f64_within_div) (simp_all add: pow2_def)
  moreover have "f64_within 0 f64_zero" by (simp add: f64_within_def f64_zero_def)
  ultimately have "f64_within (of_int 1 * pow2 (-6)) d3"
    unfolding d3_def by (rule f64_within_add) simp_all
  then have d3: "f64_within (1 / 64) d3" by (simp add: pow2_def)
  have "delay_step pl edge here v (mx, nd) = Returns (f64_max mx d3, if f64_lt mx d3 then svc else nd)"
    unfolding delay_step_def Let_def prod.case e(1) go_bind.simps svc_def [symmetric] at w(2) lat d3_def d2_def d1_def ..
  then show ?thesis using f64_within_max [OF mx d3] by blast
qed

lemma delay_loop_ok:
  assumes t: "shipped_network (mh_Toplogy pl)" and here: "here \<in> {0..<6}"
    and e: "\<And>v. v \<in> set vs \<Longrightarrow> \<exists>e. edge (get_or 0 (sg_Vertex (mh_ServiceGraph pl))
      (get_or [] (pod_Labels (pi_Pod v)) ''app'')) = Returns e \<and> 0 \<le> e \<and> e \<le> 100"
    and mx: "f64_within (1 / 64) mx"
  shows "\<exists>mx' nd'. go_fold (delay_step pl edge here) vs (mx, nd) = Returns (mx', nd') \<and> f64_within (1 / 64) mx'"
  using e mx
proof (induction vs arbitrary: mx nd)
  case (Cons v vs)
  obtain e where "edge (get_or 0 (sg_Vertex (mh_ServiceGraph pl)) (get_or [] (pod_Labels (pi_Pod v)) ''app'')) = Returns e"
    "0 \<le> e" "e \<le> 100"
    using Cons.prems(1) by auto
  then obtain mx' nd' where s: "delay_step pl edge here v (mx, nd) = Returns (mx', nd')" "f64_within (1 / 64) mx'"
    using delay_step_ok [OF t here _ _ _ Cons.prems(2)] by blast
  show ?case using Cons.IH [OF Cons.prems(1) s(2)] s(1) by simp
qed simp

lemma MHice_New_returns:
  obtains t where "MHice_New = Returns \<lparr>mh_ServiceGraph = boutique_graph, mh_Toplogy = t\<rparr>" and "shipped_network t"
proof -
  obtain t where t: "GenerateNetworkToplogy = Returns t" "shipped_network t" by (rule GenerateNetworkToplogy_ok)
  show ?thesis by (rule that [OF _ t(2)]) (simp add: MHice_New_def GenerateServiceGraph_eq t(1))
qed

lemma MHice_New_shipped:
  assumes "MHice_New = Returns pl"
  shows "boutique_ok (mh_ServiceGraph pl)" and "shipped_network (mh_Toplogy pl)" and "sg_Edge (mh_ServiceGraph pl) i j \<le> 100"
proof -
  obtain t where t: "MHice_New = Returns \<lparr>mh_ServiceGraph = boutique_graph, mh_Toplogy = t\<rparr>" "shipped_network t"
    by (rule MHice_New_returns)
  have pl: "pl = \<lparr>mh_ServiceGraph = boutique_graph, mh_Toplogy = t\<rparr>" using trans [OF assms [symmetric] t(1)] by simp
  show "boutique_ok (mh_ServiceGraph pl)" using boutique by (simp add: pl)
  show "shipped_network (mh_Toplogy pl)" using t(2) by (simp add: pl)
  have "call_weight i j \<le> 100"
  proof (cases "map_of call_table (i, j)")
    case (Some w)
    then have "w \<in> snd ` set call_table" using map_of_SomeD [OF Some] by force
    then show ?thesis using Some by (auto simp: call_table_def call_weight_def)
  qed (simp add: call_weight_def)
  then show "sg_Edge (mh_ServiceGraph pl) i j \<le> 100" by (simp add: pl boutique_graph_def)
qed

text \<open>
  C15: On the shipped graph the deployment order never gets stuck: whatever runs on the nodes, as
  long as one of the eleven services is missing there is a missing service whose pods PreFilter
  admits.
\<close>

theorem PreFilter_progress:
  assumes "MHice_New = Returns pl" and "deployed (mh_ServiceGraph pl) nodes \<noteq> {0..<11}"
  shows "\<exists>svc v. gomap_get (sg_Vertex (mh_ServiceGraph pl)) svc = Some v \<and> v \<notin> deployed (mh_ServiceGraph pl) nodes
    \<and> (\<forall>pod. gomap_get (pod_Labels pod) ''app'' = Some svc \<longrightarrow> MHice_PreFilter pl (nodes, err) pod = Returns None)"
proof -
  have "boutique_ok (mh_ServiceGraph pl)" by (rule MHice_New_shipped [OF assms(1)])
  moreover have "deployed (mh_ServiceGraph pl) (fst (nodes, err)) \<noteq> {0..<11}" using assms(2) by simp
  ultimately obtain svc v where "gomap_get (sg_Vertex (mh_ServiceGraph pl)) svc = Some v"
    "v \<notin> deployed (mh_ServiceGraph pl) (fst (nodes, err))"
    "\<And>pod. gomap_get (pod_Labels pod) ''app'' = Some svc \<Longrightarrow> MHice_PreFilter pl (nodes, err) pod = Returns None"
    by (rule boutique_progress) blast
  then show ?thesis by auto
qed

lemma delay_score_shipped:
  assumes new: "MHice_New = Returns pl" and ps: "partners_ok (mh_ServiceGraph pl) p ps"
    and p: "p \<in> {0..<sg_Num (mh_ServiceGraph pl)}"
  shows "delay_score env pl p nodeName ps = Returns 100"
proof -
  let ?G = "mh_ServiceGraph pl"
  define here where "here = get_or 0 (nt_Node (mh_Toplogy pl)) nodeName"
  have g: "graph_ok ?G" using MHice_New_shipped(1) [OF new] by (simp add: boutique_ok_def)
  have t: "shipped_network (mh_Toplogy pl)" by (rule MHice_New_shipped(2) [OF new])
  have here: "here \<in> {0..<6}" using t by (simp add: here_def shipped_network_def)
  have zero: "f64_within (1 / 64) f64_zero" by (simp add: f64_within_def f64_zero_def)
  have idx: "get_or 0 (sg_Vertex ?G) (get_or [] (pod_Labels (pi_Pod v)) ''app'') = w" "w \<in> {0..<sg_Num ?G}"
    if "pod_service ?G (pi_Pod v) = Some w" for v w
    using that graph_ok_index [OF g] by (simp_all add: pod_service_def get_or_def)
  obtain d1 n1 where one: "go_fold (delay_step pl (\<lambda>svc. matrix_at (sg_Edge ?G) p svc) here) (map snd (ps_called ps))
      (f64_zero, here) = Returns (d1, n1)" "f64_within (1 / 64) d1"
  proof -
    have "\<exists>e. matrix_at (sg_Edge ?G) p (get_or 0 (sg_Vertex ?G) (get_or [] (pod_Labels (pi_Pod v)) ''app'')) = Returns e
        \<and> 0 \<le> e \<and> e \<le> 100" if mem: "v \<in> set (map snd (ps_called ps))" for v
    proof -
      obtain w where w: "pod_service ?G (pi_Pod v) = Some w" "0 \<le> sg_Edge ?G p w"
        using ps mem unfolding partners_ok_def by auto
      show ?thesis unfolding idx(1) [OF w(1)] graph_ok_at [OF g p idx(2) [OF w(1)]] using w(2) MHice_New_shipped(3) [OF new] by simp
    qed
    from delay_loop_ok [where edge = "\<lambda>svc. matrix_at (sg_Edge ?G) p svc", OF t here this zero] show ?thesis using that by blast
  qed
  obtain d2 n2 where two: "go_fold (delay_step pl (\<lambda>svc. matrix_at (sg_Edge ?G) svc p) here) (map snd (ps_calling ps))
      (f64_zero, here) = Returns (d2, n2)" "f64_within (1 / 64) d2"
  proof -
    have "\<exists>e. matrix_at (sg_Edge ?G) (get_or 0 (sg_Vertex ?G) (get_or [] (pod_Labels (pi_Pod v)) ''app'')) p = Returns e
        \<and> 0 \<le> e \<and> e \<le> 100" if mem: "v \<in> set (map snd (ps_calling ps))" for v
    proof -
      obtain w where w: "pod_service ?G (pi_Pod v) = Some w" "0 \<le> sg_Edge ?G w p"
        using ps mem unfolding partners_ok_def by auto
      show ?thesis unfolding idx(1) [OF w(1)] graph_ok_at [OF g idx(2) [OF w(1)] p] using w(2) MHice_New_shipped(3) [OF new] by simp
    qed
    from delay_loop_ok [where edge = "\<lambda>svc. matrix_at (sg_Edge ?G) svc p", OF t here this zero] show ?thesis using that by blast
  qed
  define d where "d = f64_add d1 d2"
  have "f64_within (of_int 1 * pow2 (-5)) d"
    unfolding d_def by (rule f64_within_add [OF one(2) two(2)]) (simp_all add: pow2_def)
  then have d: "f64_within (1 / 32) d" by (simp add: pow2_def)
  then have lt: "\<not> f64_lt (f64_of_int 10) d" by (auto simp: f64_within_def f64_within_of_int)
  have "f64_within (of_int 1 * pow2 (-8)) (f64_div d (f64_of_int 10))"
    unfolding f64_within_of_int [of 10, simplified] by (rule f64_within_div [OF d]) (simp_all add: pow2_def)
  then have "f64_within (of_int 1 * pow2 (-1)) (f64_mul (f64_div d (f64_of_int 10)) (f64_of_int 100))"
    unfolding f64_within_of_int [of 100, simplified] by (rule f64_within_mul) (simp_all add: pow2_def)
  then obtain m where m: "f64_mul (f64_div d (f64_of_int 10)) (f64_of_int 100) = F64_Fin False m" "0 \<le> m" "m \<le> 1 / 2"
    by (auto simp: f64_within_def pow2_def)
  have "\<lfloor>m\<rfloor> = 0" using m by (simp add: floor_eq_iff)
  then have "f64_to_int64 (env_oob env) (f64_mul (f64_div d (f64_of_int 10)) (f64_of_int 100)) = 0"
    using f64_to_int64_Fin [of m] m by simp
  moreover have "wrap64 100 = 100" by (simp add: wrap64_id in_int64_def)
  ultimately show ?thesis
    using lt unfolding delay_score_def Let_def here_def [symmetric] one(1) two(1) go_bind.simps prod.case d_def by simp
qed

text \<open>
  C24: In the shipped configuration Score does not tell nodes apart once a partner of the pod is
  deployed: the expected delays are below a hundredth, the percentage taken of them truncates to
  zero, and every node gets 100.
\<close>

theorem Score_shipped_constant:
  assumes new: "MHice_New = Returns pl" and v: "pod_service (mh_ServiceGraph pl) pod = Some p"
    and nodes: "\<forall>node\<in>set nodes. ni_node node \<noteq> None" and ni: "nodeInfos nodeName = Inr nodeInfo" "ni_node nodeInfo = Some nd"
    and k: "k \<in> deployed (mh_ServiceGraph pl) nodes" "0 \<le> link (mh_ServiceGraph pl) p k"
  shows "MHice_Score env pl (nodes, err) nodeInfos pod nodeName = Returns (100, None)"
proof -
  let ?G = "mh_ServiceGraph pl"
  have g: "graph_ok ?G" using MHice_New_shipped(1) [OF new] by (simp add: boutique_ok_def)
  have v': "gomap_get (sg_Vertex ?G) (get_or [] (pod_Labels pod) ''app'') = Some p" using v by (simp add: pod_service_def)
  have p: "p \<in> {0..<sg_Num ?G}" by (rule graph_ok_index [OF g v'])
  have nz: "\<And>node. node \<in> set nodes \<Longrightarrow> ni_node node \<noteq> None" using nodes by blast
  obtain ps where ps: "go_fold (\<lambda>node. go_fold (partner_step ?G p node) (ni_Pods node)) nodes
      \<lparr>ps_maxEdge = -1, ps_called = [], ps_calling = []\<rparr> = Returns ps"
    "ps_maxEdge ps = attach_weight ?G (deployed ?G nodes) p" "partners_ok ?G p ps"
    using partner_scan [OF g p nz] by blast
  have "ps_maxEdge ps \<noteq> -1" using attach_weight_ge [OF finite_deployed k(1), of ?G p] k(2) ps(2) by linarith
  then show ?thesis
    unfolding MHice_Score_def Let_def v' option.case fst_conv ps(1) go_bind.simps ni sum.case
    by (simp add: delay_score_shipped [OF new ps(3) p])
qed

section \<open>The order of the queue\<close>

definition edges_between :: "MicroServiceGraph \<Rightarrow> int \<Rightarrow> PodInfo \<Rightarrow> int list" where
  "edges_between g p ep =
     (case pod_service g (pi_Pod ep) of None \<Rightarrow> []
      | Some v \<Rightarrow> (if sg_Edge g v p \<ge> 0 then [sg_Edge g v p] else []) @ (if sg_Edge g p v \<ge> 0 then [sg_Edge g p v] else []))"

text \<open>Every pod on the nodes is labelled with a service of the graph.\<close>

definition known_services :: "MicroServiceGraph \<Rightarrow> NodeInfo list \<Rightarrow> bool" where
  "known_services g nodes \<longleftrightarrow>
     (\<forall>node\<in>set nodes. \<forall>ep\<in>set (ni_Pods node).
        (\<exists>svc. gomap_get (pod_Labels (pi_Pod ep)) ''app'' = Some svc \<and> gomap_get (sg_Vertex g) svc \<noteq> None))"

lemma existed_weights:
  assumes g: "graph_ok g" and known: "known_services g nodes"
    and app: "gomap_get (pod_Labels (qp_Pod q)) ''app'' = Some svc" and v: "gomap_get (sg_Vertex g) svc = Some p"
  shows "neighborExistedServiceEdgeWeight (nodes, None) q g = Returns (concat (map (edges_between g p) (concat (map ni_Pods nodes))))"
proof -
  have p: "p \<in> {0..<sg_Num g}" by (rule graph_ok_index [OF g v])
  have step: "existed_step g p ep es = Returns (es @ edges_between g p ep)" if mem: "ep \<in> set (concat (map ni_Pods nodes))" for ep es
  proof -
    obtain s w where s: "gomap_get (pod_Labels (pi_Pod ep)) ''app'' = Some s" "gomap_get (sg_Vertex g) s = Some w"
    proof -
      obtain node where "node \<in> set nodes" "ep \<in> set (ni_Pods node)" using mem by auto
      then obtain s where "gomap_get (pod_Labels (pi_Pod ep)) ''app'' = Some s" "gomap_get (sg_Vertex g) s \<noteq> None"
        using known unfolding known_services_def by blast
      then show ?thesis using that by blast
    qed
    have w: "w \<in> {0..<sg_Num g}" by (rule graph_ok_index [OF g s(2)])
    have "pod_service g (pi_Pod ep) = Some w" using s by (simp add: pod_service_def get_or_def)
    then show ?thesis
      using s graph_ok_at [OF g p w] graph_ok_at [OF g w p]
      by (simp add: existed_step_def edges_between_def get_or_def Let_def)
  qed
  have "go_fold (existed_step g p) (concat (map ni_Pods nodes)) [] =
      Returns (fold (\<lambda>ep es. es @ edges_between g p ep) (concat (map ni_Pods nodes)) [])"
    by (rule go_fold_total) (rule step)
  moreover have "fold (\<lambda>ep es. es @ edges_between g p ep) xs es = es @ concat (map (edges_between g p) xs)" for xs es
    by (induction xs arbitrary: es) simp_all
  ultimately show ?thesis
    unfolding neighborExistedServiceEdgeWeight_def using app v by (simp add: go_fold_concat)
qed

lemma no_weights:
  assumes "graph_ok g" and "p \<in> {0..<sg_Num g}"
  shows "concat (map (edges_between g p) (concat (map ni_Pods nodes))) = [] \<longleftrightarrow> (\<forall>k\<in>deployed g nodes. link g p k = -1)"
proof -
  have one: "edges_between g p ep = [] \<longleftrightarrow> (\<forall>v. pod_service g (pi_Pod ep) = Some v \<longrightarrow> link g p v = -1)" for ep
  proof (cases "pod_service g (pi_Pod ep)")
    case None
    then show ?thesis by (simp add: edges_between_def)
  next
    case (Some v)
    then have "v \<in> {0..<sg_Num g}" using graph_ok_index [OF assms(1)] by (simp add: pod_service_def)
    then have "-1 \<le> sg_Edge g v p" "-1 \<le> sg_Edge g p v" using graph_ok_edge(1) [OF assms(1)] assms(2) by blast+
    then show ?thesis using Some by (auto simp: edges_between_def link_def max_def)
  qed
  show ?thesis unfolding concat_eq_Nil_conv by (auto simp: one deployed_services services_def)
qed

text \<open>
  C26: Less is no strict order, and it runs against its description: a pod that talks to a deployed
  service comes before itself, and a pod that talks to none comes before it, so the queue pops
  the pods without deployed partners first.
\<close>

theorem Less_inverted:
  assumes g: "graph_ok (mh_ServiceGraph pl)" and known: "known_services (mh_ServiceGraph pl) nodes"
    and a: "gomap_get (pod_Labels (qp_Pod q)) ''app'' = Some svc" "gomap_get (sg_Vertex (mh_ServiceGraph pl)) svc = Some p"
    and b: "gomap_get (pod_Labels (qp_Pod q')) ''app'' = Some svc'" "gomap_get (sg_Vertex (mh_ServiceGraph pl)) svc' = Some p'"
    and talks: "k \<in> deployed (mh_ServiceGraph pl) nodes" "link (mh_ServiceGraph pl) p k \<noteq> -1"
    and silent: "\<forall>k\<in>deployed (mh_ServiceGraph pl) nodes. link (mh_ServiceGraph pl) p' k = -1"
  shows "MHice_Less pl (nodes, None) q q = Returns True
    \<and> MHice_Less pl (nodes, None) q' q = Returns True \<and> MHice_Less pl (nodes, None) q q' = Returns False"
proof -
  let ?G = "mh_ServiceGraph pl"
  let ?w = "\<lambda>p. concat (map (edges_between ?G p) (concat (map ni_Pods nodes)))"
  note w = existed_weights [OF g known a] existed_weights [OF g known b]
  have "?w p \<noteq> []" "?w p' = []"
    using no_weights [OF g graph_ok_index [OF g a(2)]] no_weights [OF g graph_ok_index [OF g b(2)]] talks silent by blast+
  then show ?thesis unfolding MHice_Less_def w go_bind.simps by simp
qed

section \<open>Examples\<close>

text \<open>A node that runs the product catalogue.\<close>

definition service_pod :: "string \<Rightarrow> Pod" where
  "service_pod svc = (example_pod svc svc [])\<lparr>pod_Labels := [(''app'', svc)]\<rparr>"

definition catalog_node :: NodeInfo where
  "catalog_node = (snd (NewNodeInfo example_env 0 []))
     \<lparr>ni_node := Some \<lparr>node_Name = ''cloud-master'', node_Labels = [], node_Allocatable = [], node_Images = []\<rparr>,
      ni_Pods := [NewPodInfo (service_pod ''productcatalogservice'')]\<rparr>"

lemma service_pod_app [simp]: "gomap_get (pod_Labels (service_pod svc)) ''app'' = Some svc"
  by (simp add: service_pod_def)

lemma catalog_deployed [simp]: "deployed boutique_graph [catalog_node] = {7}"
  by (simp add: deployed_def catalog_node_def pod_service_def NewPodInfo_def service_pod_def get_or_def
      boutique_graph_def service_vertices_def)

lemma boutique_graph_vertices [simp]:
  "gomap_get (sg_Vertex boutique_graph) ''frontend'' = Some 5"
  "gomap_get (sg_Vertex boutique_graph) ''redis-cart'' = Some 9" "sg_Num boutique_graph = 11"
  by (simp_all add: boutique_graph_def service_vertices_def)

lemma boutique_graph_ok [simp]: "graph_ok boutique_graph"
  using boutique by (simp add: boutique_ok_def)

lemmas boutique_link = link_def boutique_graph_def call_weight_def call_table_def

theorem PreFilter_progress_witness:
  "\<exists>pl svc. MHice_New = Returns pl \<and> MHice_PreFilter pl ([], None) (service_pod svc) = Returns None"
proof -
  obtain t where new: "MHice_New = Returns \<lparr>mh_ServiceGraph = boutique_graph, mh_Toplogy = t\<rparr>" by (rule MHice_New_returns)
  have "(0::int) \<in> {0..<11}" by simp
  then have "deployed boutique_graph [] \<noteq> {0..<11}" by (auto simp: deployed_def)
  then show ?thesis using PreFilter_progress [OF new, of "[]" None] new service_pod_app by fastforce
qed


theorem Score_shipped_constant_witness:
  "\<exists>pl. MHice_New = Returns pl \<and> MHice_Score example_env pl ([catalog_node], None) (\<lambda>_. Inr catalog_node)
     (service_pod ''frontend'') ''edge-arm64-1'' = Returns (100, None)"
proof -
  obtain t where new: "MHice_New = Returns \<lparr>mh_ServiceGraph = boutique_graph, mh_Toplogy = t\<rparr>" by (rule MHice_New_returns)
  have "ni_node catalog_node = Some \<lparr>node_Name = ''cloud-master'', node_Labels = [], node_Allocatable = [], node_Images = []\<rparr>"
    by (simp add: catalog_node_def)
  moreover have "pod_service boutique_graph (service_pod ''frontend'') = Some 5" by (simp add: pod_service_def get_or_def)
  moreover have "0 \<le> link boutique_graph 5 7" by (simp add: boutique_link)
  ultimately show ?thesis
    using new Score_shipped_constant [OF new, of "service_pod ''frontend''" 5 "[catalog_node]" "\<lambda>_. Inr catalog_node"
        "''edge-arm64-1''" catalog_node _ 7 example_env None]
    by (intro exI [of _ "\<lparr>mh_ServiceGraph = boutique_graph, mh_Toplogy = t\<rparr>"]) simp
qed

definition service_queued :: "string \<Rightarrow> QueuedPodInfo" where
  "service_queued svc = \<lparr>qp_PodInfo = NewPodInfo (service_pod svc), qp_Timestamp = 0, qp_Attempts = 0,
     qp_InitialAttemptTimestamp = 0, qp_UnschedulablePlugins = []\<rparr>"

theorem Less_inverted_witness:
  "\<exists>pl. MHice_New = Returns pl
     \<and> MHice_Less pl ([catalog_node], None) (service_queued ''frontend'') (service_queued ''frontend'') = Returns True
     \<and> MHice_Less pl ([catalog_node], None) (service_queued ''redis-cart'') (service_queued ''frontend'') = Returns True
     \<and> MHice_Less pl ([catalog_node], None) (service_queued ''frontend'') (service_queued ''redis-cart'') = Returns False"
proof -
  obtain t where new: "MHice_New = Returns \<lparr>mh_ServiceGraph = boutique_graph, mh_Toplogy = t\<rparr>" by (rule MHice_New_returns)
  have "known_services boutique_graph [catalog_node]"
    by (simp add: known_services_def catalog_node_def NewPodInfo_def boutique_graph_def service_vertices_def)
  moreover have "link boutique_graph 5 7 \<noteq> -1" "link boutique_graph 9 7 = -1" by (simp_all add: boutique_link)
  moreover have "qp_Pod (service_queued svc) = service_pod svc" for svc by (simp add: service_queued_def NewPodInfo_def)
  ultimately show ?thesis
    using new Less_inverted [of "\<lparr>mh_ServiceGraph = boutique_graph, mh_Toplogy = t\<rparr>" "[catalog_node]"
        "service_queued ''frontend''" "''frontend''" 5 "service_queued ''redis-cart''" "''redis-cart''" 9 7]
    by (intro exI [of _ "\<lparr>mh_ServiceGraph = boutique_graph, mh_Toplogy = t\<rparr>"]) simp
qed

end
