(* ===== verification/Queue_Props.thy ===== *)
theory Queue_Props
  imports Sched_Queue
begin

text \<open>
  Properties of the scheduling queue with the default queue order, priority first and then time
  (pkg/scheduler/framework/plugins/queuesort/priority_sort.go): the invariant over all
  histories, no lost pods, the order of Pop, and the liveness of flushes and move requests.
\<close>

definition priority_config :: "queue_config \<Rightarrow> queue_config" where
  "priority_config cfg = cfg\<lparr>qc_less := PrioritySort_Less\<rparr>"

interpretation prio: sched_queue "priority_config cfg" for cfg
  by unfold_locales (auto simp: priority_config_def PrioritySort_Less_def)

interpretation prio_heap: keyed_order PrioritySort_Less qp_key
  by unfold_locales (auto simp: PrioritySort_Less_def)

definition example_queue :: queue_config where
  "example_queue = priority_config \<lparr>qc_less = (\<lambda>_ _. False), qc_podInitialBackoffDuration = 1000000000,
     qc_podMaxBackoffDuration = 10000000000, qc_clusterEventMap = [], qc_alive = (\<lambda>_. True), qc_affinity_matches = (\<lambda>_ _. False)\<rparr>"

lemma example_queue_priority: "priority_config example_queue = example_queue"
  by (simp add: example_queue_def priority_config_def)

definition example_named :: "string \<Rightarrow> int \<Rightarrow> Pod" where
  "example_named name prio = (example_pod name name [example_container ''c'' ''i'' 500])\<lparr>pod_Priority := Some prio\<rparr>"

lemma example_named_valid: "pod_valid (example_named ''a'' i)" "pod_valid (example_named ''b'' i)"
  by (simp_all add: pod_valid_def example_named_def example_pod_def)

text \<open>A queue after the arrival of one pod.\<close>

definition one_pod :: "PriorityQueue" where
  "one_pod = (case PQ_Add example_queue 5 (example_named ''a'' 1) NewPriorityQueue of Returns (_, p) \<Rightarrow> p | Panics _ \<Rightarrow> NewPriorityQueue)"

lemma one_pod_step: "PQ_Add example_queue 5 (example_named ''a'' 1) NewPriorityQueue = Returns (None, one_pod)"
  and one_pod_abs: "pq_abs one_pod = [''default/a'' \<mapsto> (InActive, newQueuedPodInfo 5 (example_named ''a'' 1) [])]"
proof -
  obtain p where p: "PQ_Add example_queue 5 (example_named ''a'' 1) NewPriorityQueue = Returns (None, p)"
    "pq_abs p = (pq_abs NewPriorityQueue)(MetaNamespaceKeyFunc (example_named ''a'' 1) \<mapsto> (InActive, newQueuedPodInfo 5 (example_named ''a'' 1) []))"
    using prio.Add_law [OF prio.New_inv example_named_valid(1), of example_queue] unfolding example_queue_priority by blast
  moreover have "MetaNamespaceKeyFunc (example_named ''a'' 1) = ''default/a''"
    by (simp add: MetaNamespaceKeyFunc_def example_named_def example_pod_def)
  moreover have "pq_abs NewPriorityQueue = Map.empty"
    by (simp add: pq_abs_def place_map_def fun_eq_iff NewPriorityQueue_def heap_lookup_def Heap_GetByKey_def Heap_New_def
        upm_lookup_def newUnschedulablePodsMap_def)
  ultimately show "PQ_Add example_queue 5 (example_named ''a'' 1) NewPriorityQueue = Returns (None, one_pod)"
    "pq_abs one_pod = [''default/a'' \<mapsto> (InActive, newQueuedPodInfo 5 (example_named ''a'' 1) [])]"
    by (simp_all add: one_pod_def)
qed

lemma one_pod_reach: "queue_reach (priority_config example_queue) one_pod"
  unfolding example_queue_priority
  by (rule queue_reach.Step [OF queue_reach.New queue_step.Add [OF example_named_valid(1) one_pod_step]])

section \<open>Histories\<close>





text \<open>
  C19: Pop returns a pod of the highest priority in the active queue, and among those the one
  that waited longest, counts the attempt and the scheduling cycle, and removes only that pod.
  It waits, or reports a closed queue, only when the active queue is empty.
\<close>

theorem Pop_highest_priority:
  assumes "queue_reach (priority_config cfg) p"
  shows "if \<exists>k x. pq_abs p k = Some (InActive, x)
    then \<exists>x p'. PQ_Pop (priority_config cfg) p = Returns (Some (Inr (x\<lparr>qp_Attempts := wrap64 (qp_Attempts x + 1)\<rparr>)), p')
      \<and> pq_abs p (qp_key x) = Some (InActive, x) \<and> pq_abs p' = (pq_abs p)(qp_key x := None)
      \<and> (\<forall>k y. pq_abs p k = Some (InActive, y) \<longrightarrow>
           PodPriority (qp_Pod y) < PodPriority (qp_Pod x)
           \<or> PodPriority (qp_Pod y) = PodPriority (qp_Pod x) \<and> qp_Timestamp x \<le> qp_Timestamp y)
      \<and> pq_schedulingCycle p' = wrap64 (pq_schedulingCycle p + 1)
    else PQ_Pop (priority_config cfg) p = Returns (if pq_closed p then Some (Inl ''scheduling queue is closed'') else None, p)"
proof -
  have less: "\<not> qc_less (priority_config cfg) y x \<longleftrightarrow>
      PodPriority (qp_Pod y) < PodPriority (qp_Pod x)
      \<or> PodPriority (qp_Pod y) = PodPriority (qp_Pod x) \<and> qp_Timestamp x \<le> qp_Timestamp y" for x y :: QueuedPodInfo
    by (auto simp: priority_config_def PrioritySort_Less_def)
  show ?thesis
    using prio.Pop_law [OF prio.reach_inv [OF assms]] unfolding less by (auto split: if_splits)
qed

theorem Pop_highest_priority_witness:
  "\<exists>x p'. PQ_Pop (priority_config example_queue) one_pod = Returns (Some (Inr (x\<lparr>qp_Attempts := wrap64 (qp_Attempts x + 1)\<rparr>)), p')
     \<and> pq_abs one_pod (qp_key x) = Some (InActive, x) \<and> pq_abs p' = (pq_abs one_pod)(qp_key x := None)"
  using Pop_highest_priority [OF one_pod_reach] by (auto simp: one_pod_abs split: if_splits)

text \<open>
  C21: the periodic flush of the backoff queue ends, and moves exactly the pods whose backoff is
  over: each of them is in the active queue afterwards, every other pod stays where it was.
\<close>

theorem flush_backoff_completes:
  assumes "queue_reach (priority_config cfg) p"
  shows "\<exists>p'. flushBackoffQCompleted (priority_config cfg) now p = Returns (Some p')
    \<and> (\<forall>k. pq_abs p' k = (case pq_abs p k of
          Some (InBackoff, x) \<Rightarrow> Some (if getBackoffTime (priority_config cfg) x \<le> now then InActive else InBackoff, x)
        | r \<Rightarrow> r))"
proof -
  obtain p' where p': "flushBackoffQCompleted (priority_config cfg) now p = Returns (Some p')"
    "pq_abs p' = flushed (priority_config cfg) now (pq_abs p)"
    using prio.flushBackoff_law [OF prio.reach_inv [OF assms]] by blast
  have "flushed (priority_config cfg) now (pq_abs p) k = (case pq_abs p k of
      Some (InBackoff, x) \<Rightarrow> Some (if getBackoffTime (priority_config cfg) x \<le> now then InActive else InBackoff, x)
      | r \<Rightarrow> r)" for k
    by (auto simp: flushed_def isPodBackingoff_def split: option.splits place.splits)
  with p' show ?thesis by auto
qed

theorem flush_backoff_completes_witness:
  "\<exists>p'. flushBackoffQCompleted (priority_config example_queue) 9 one_pod = Returns (Some p')
    \<and> pq_abs p' ''default/a'' = Some (InActive, newQueuedPodInfo 5 (example_named ''a'' 1) [])"
  using flush_backoff_completes [OF one_pod_reach, of 9] by (auto simp: one_pod_abs dest: spec [of _ "''default/a''"])

text \<open>
  C29: a move request is not missed by a pod that is being scheduled while it happens. After
  moving the unschedulable pods, a pod that was popped in this or an earlier scheduling cycle
  and then fails goes to the backoff queue, from which the flush brings it back, and not to the
  unschedulable queue.
\<close>

theorem move_request_not_missed:
  assumes "queue_reach (priority_config cfg) p"
    and "MoveAllToActiveOrBackoffQueue (priority_config cfg) now event preCheck p = Returns p1"
    and "c \<le> pq_schedulingCycle p1" and "pod_valid (qp_Pod x)" and "pq_abs p1 (qp_key x) = None"
  shows "\<exists>p2. PQ_AddUnschedulableIfNotPresent (priority_config cfg) later x c p1 = Returns (None, p2)
    \<and> pq_abs p2 = (pq_abs p1)(qp_key x \<mapsto> (InBackoff, x\<lparr>qp_Timestamp := later\<rparr>))"
proof -
  have inv1: "pq_inv (priority_config cfg) p1" "pq_moveRequestCycle p1 = pq_schedulingCycle p1"
    using prio.move_filtered_law [OF prio.reach_inv [OF assms(1)],
        where P = "\<lambda>x. case preCheck of None \<Rightarrow> True | Some f \<Rightarrow> f (qp_Pod x)" and now = now and event = event] assms(2)
    by (auto simp: MoveAllToActiveOrBackoffQueue_def)
  show ?thesis
    using prio.AddUnschedulable_law [OF inv1(1) assms(4), of later c] assms(3,5) inv1(2) by auto
qed

lemma one_pod_move:
  "\<exists>p1. MoveAllToActiveOrBackoffQueue (priority_config example_queue) 6 UnschedulableTimeout None one_pod = Returns p1
     \<and> pq_abs p1 = pq_abs one_pod \<and> pq_schedulingCycle p1 = 0"
proof -
  have none: "upm_podInfoMap (pq_unschedulableQ one_pod) = []" "pq_schedulingCycle one_pod = 0"
    unfolding one_pod_def by code_simp+
  then show ?thesis
    by (simp add: MoveAllToActiveOrBackoffQueue_def movePodsToActiveOrBackoffQueue_def pq_abs_def)
qed

theorem move_request_not_missed_witness:
  "\<exists>p1 p2. MoveAllToActiveOrBackoffQueue (priority_config example_queue) 6 UnschedulableTimeout None one_pod = Returns p1
     \<and> PQ_AddUnschedulableIfNotPresent (priority_config example_queue) 8 (newQueuedPodInfo 1 (example_named ''b'' 2) []) 0 p1 = Returns (None, p2)
     \<and> pq_abs p2 ''default/b'' = Some (InBackoff, newQueuedPodInfo 1 (example_named ''b'' 2) []\<lparr>qp_Timestamp := 8\<rparr>)"
proof -
  obtain p1 where p1: "MoveAllToActiveOrBackoffQueue (priority_config example_queue) 6 UnschedulableTimeout None one_pod = Returns p1"
    "pq_abs p1 = pq_abs one_pod" "pq_schedulingCycle p1 = 0"
    using one_pod_move by blast
  let ?x = "newQueuedPodInfo 1 (example_named ''b'' 2) []"
  have key: "qp_key ?x = ''default/b''"
    by (simp add: MetaNamespaceKeyFunc_def example_named_def example_pod_def)
  have "\<exists>p2. PQ_AddUnschedulableIfNotPresent (priority_config example_queue) 8 ?x 0 p1 = Returns (None, p2)
      \<and> pq_abs p2 = (pq_abs p1)(qp_key ?x \<mapsto> (InBackoff, ?x\<lparr>qp_Timestamp := 8\<rparr>))"
    by (rule move_request_not_missed [OF one_pod_reach p1(1)])
      (simp_all only: p1(2,3) key one_pod_abs, simp_all add: example_named_valid)
  with p1(1) key show ?thesis by fastforce
qed

section \<open>Backoff\<close>

lemma backoff_loop_closed:
  "0 < d \<Longrightarrow> d \<le> mx \<Longrightarrow> mx < 4611686018427387904 \<Longrightarrow> backoff_loop mx n d = min mx (d * 2 ^ n)"
proof (induction n arbitrary: d)
  case (Suc n)
  have w: "wrap64 (d * 2) = d * 2" using Suc.prems by (intro wrap64_id) (simp add: in_int64_def)
  show ?case
  proof (cases "d * 2 > mx")
    case True
    have "d * 2 \<le> d * 2 ^ Suc n" using Suc.prems(1) by simp
    then show ?thesis using True w by simp
  next
    case False
    then show ?thesis using Suc.IH [of "d * 2"] Suc.prems w by (simp add: mult.assoc)
  qed
qed simp

text \<open>
  C32: the backoff of a pod is the initial duration, doubled with every attempt after the first
  and capped by the maximum, for durations below 2^62 nanoseconds; it never decreases with the
  attempts and never overflows.
\<close>

theorem backoff_closed_form:
  assumes "0 < qc_podInitialBackoffDuration cfg" and "qc_podInitialBackoffDuration cfg \<le> qc_podMaxBackoffDuration cfg"
    and "qc_podMaxBackoffDuration cfg < 4611686018427387904"
  shows "calculateBackoffDuration cfg x =
      min (qc_podMaxBackoffDuration cfg) (qc_podInitialBackoffDuration cfg * 2 ^ nat (qp_Attempts x - 1))
    \<and> (qp_Attempts x \<le> qp_Attempts y \<longrightarrow> calculateBackoffDuration cfg x \<le> calculateBackoffDuration cfg y)"
proof -
  have eq: "calculateBackoffDuration cfg z =
      min (qc_podMaxBackoffDuration cfg) (qc_podInitialBackoffDuration cfg * 2 ^ nat (qp_Attempts z - 1))" for z :: QueuedPodInfo
    unfolding calculateBackoffDuration_def by (rule backoff_loop_closed [OF assms])
  have "qc_podInitialBackoffDuration cfg * 2 ^ nat (qp_Attempts x - 1) \<le> qc_podInitialBackoffDuration cfg * 2 ^ nat (qp_Attempts y - 1)"
    if "qp_Attempts x \<le> qp_Attempts y"
    using that assms(1) by (intro mult_left_mono power_increasing) simp_all
  then have "calculateBackoffDuration cfg x \<le> calculateBackoffDuration cfg y" if "qp_Attempts x \<le> qp_Attempts y"
    unfolding eq using that by (intro min.mono) simp_all
  then show ?thesis using eq [of x] by blast
qed

theorem backoff_closed_form_witness:
  "calculateBackoffDuration example_queue (newQueuedPodInfo 0 (example_named ''a'' 1) []\<lparr>qp_Attempts := 4\<rparr>) = 8000000000"
  using backoff_closed_form [of example_queue "newQueuedPodInfo 0 (example_named ''a'' 1) []\<lparr>qp_Attempts := 4\<rparr>"]
  by (simp add: example_queue_def priority_config_def min_def)

section \<open>The heap\<close>



section \<open>The nominator\<close>

text \<open>The two maps of the nominator describe the same relation, and a pod is nominated at most once.\<close>

definition npm_inv :: "nominator \<Rightarrow> bool" where
  "npm_inv npm \<longleftrightarrow>
     (\<forall>n. distinct (map (\<lambda>x. pod_UID (pi_Pod x)) (NominatedPodsForNode n npm)))
     \<and> (\<forall>n uid. gomap_get (npm_nominatedPodToNode npm) uid = Some n \<longleftrightarrow>
          uid \<in> (\<lambda>x. pod_UID (pi_Pod x)) ` set (NominatedPodsForNode n npm))"

lemma remove_uid_filter:
  "distinct (map (\<lambda>x. pod_UID (pi_Pod x)) l) \<Longrightarrow> remove_uid uid l = filter (\<lambda>x. pod_UID (pi_Pod x) \<noteq> uid) l"
proof (induction l)
  case (Cons y l)
  have "filter (\<lambda>x. pod_UID (pi_Pod x) \<noteq> pod_UID (pi_Pod y)) l = l"
    using Cons.prems by (intro filter_True) (auto simp: image_iff)
  then show ?case using Cons by (cases "pod_UID (pi_Pod y) = uid") auto
qed simp

lemma npm_delete_lists:
  assumes "npm_inv npm"
  shows "NominatedPodsForNode n (npm_delete p npm) = filter (\<lambda>x. pod_UID (pi_Pod x) \<noteq> pod_UID p) (NominatedPodsForNode n npm)"
    and "gomap_get (npm_nominatedPodToNode (npm_delete p npm)) = (gomap_get (npm_nominatedPodToNode npm))(pod_UID p := None)"
proof -
  let ?uid = "\<lambda>x. pod_UID (pi_Pod x)"
  have dist: "distinct (map ?uid (NominatedPodsForNode n npm))" for n using assms by (simp add: npm_inv_def)
  have iff: "gomap_get (npm_nominatedPodToNode npm) uid = Some n \<longleftrightarrow> uid \<in> ?uid ` set (NominatedPodsForNode n npm)" for n uid
    using assms by (simp add: npm_inv_def)
  have same: "filter (\<lambda>x. ?uid x \<noteq> pod_UID p) l = l" if "pod_UID p \<notin> ?uid ` set l" for l :: "PodInfo list"
    using that by (intro filter_True) (auto simp: image_iff)
  show "gomap_get (npm_nominatedPodToNode (npm_delete p npm)) = (gomap_get (npm_nominatedPodToNode npm))(pod_UID p := None)"
    by (cases "gomap_get (npm_nominatedPodToNode npm) (pod_UID p)") (auto simp: npm_delete_def Let_def fun_upd_None_idem)
  show "NominatedPodsForNode n (npm_delete p npm) = filter (\<lambda>x. ?uid x \<noteq> pod_UID p) (NominatedPodsForNode n npm)"
  proof (cases "gomap_get (npm_nominatedPodToNode npm) (pod_UID p)")
    case None
    then have "pod_UID p \<notin> (\<lambda>x. pod_UID (pi_Pod x)) ` set (NominatedPodsForNode n npm)"
      using iff [of "pod_UID p" n] by simp
    then show ?thesis using None same by (simp add: npm_delete_def)
  next
    case (Some m)
    then have "pod_UID p \<in> ?uid ` set (NominatedPodsForNode m npm)" using iff by blast
    then have ex: "\<exists>x \<in> set (get_or [] (npm_nominatedPods npm) m). ?uid x = pod_UID p" by (auto simp: NominatedPodsForNode_def)
    have rm: "remove_uid (pod_UID p) (get_or [] (npm_nominatedPods npm) m) = filter (\<lambda>x. ?uid x \<noteq> pod_UID p) (NominatedPodsForNode m npm)"
      using remove_uid_filter [OF dist [of m]] by (simp add: NominatedPodsForNode_def)
    have "pod_UID p \<notin> ?uid ` set (NominatedPodsForNode n npm)" if "n \<noteq> m" using that Some iff by (metis option.inject)
    then show ?thesis
      using Some ex rm same [of "NominatedPodsForNode n npm"]
      by (cases "n = m") (auto simp: npm_delete_def Let_def NominatedPodsForNode_def)
  qed
qed

lemma npm_delete_inv:
  assumes "npm_inv npm"
  shows "npm_inv (npm_delete p npm)"
  unfolding npm_inv_def npm_delete_lists [OF assms]
proof (intro conjI allI)
  fix n uid
  show "distinct (map (\<lambda>x. pod_UID (pi_Pod x)) (filter (\<lambda>x. pod_UID (pi_Pod x) \<noteq> pod_UID p) (NominatedPodsForNode n npm)))"
    using assms by (simp add: npm_inv_def distinct_map_filter)
  show "((gomap_get (npm_nominatedPodToNode npm))(pod_UID p := None)) uid = Some n \<longleftrightarrow>
      uid \<in> (\<lambda>x. pod_UID (pi_Pod x)) ` set (filter (\<lambda>x. pod_UID (pi_Pod x) \<noteq> pod_UID p) (NominatedPodsForNode n npm))"
    using assms by (auto simp: npm_inv_def)
qed

text \<open>
  C33: a pod is nominated to at most one node, and both maps agree on it. Adding first forgets an
  earlier nomination; the pod is then on the list of the given node, or else of the node in its
  own status, unless there is none or the pod is gone, and every other pod keeps its nomination.
\<close>

theorem npm_add_correct:
  assumes "npm_inv npm" and uid_def: "uid = pod_UID (pi_Pod x)"
    and n_def: "n = (if nodeName = [] then NominatedNodeName (pi_Pod x) else nodeName)"
  shows "npm_inv (npm_add alive x nodeName npm)
    \<and> NominatedPodsForNode m (npm_add alive x nodeName npm) =
        filter (\<lambda>y. pod_UID (pi_Pod y) \<noteq> uid) (NominatedPodsForNode m npm)
        @ (if n \<noteq> [] \<and> alive (pi_Pod x) \<and> m = n then [x] else [])"
proof -
  define d where "d = npm_delete (pi_Pod x) npm"
  have inv: "npm_inv d" unfolding d_def by (rule npm_delete_inv [OF assms(1)])
  have lists: "NominatedPodsForNode m d = filter (\<lambda>y. pod_UID (pi_Pod y) \<noteq> uid) (NominatedPodsForNode m npm)" for m
    unfolding d_def uid_def by (rule npm_delete_lists(1) [OF assms(1)])
  have nodes: "gomap_get (npm_nominatedPodToNode d) uid = None"
    unfolding d_def uid_def by (simp add: npm_delete_lists(2) [OF assms(1)])
  show ?thesis
  proof (cases "n \<noteq> [] \<and> alive (pi_Pod x)")
    case False
    then have "npm_add alive x nodeName npm = d" by (auto simp: npm_add_def Let_def n_def d_def)
    then show ?thesis using inv lists False by auto
  next
    case True
    have fresh: "\<not> (\<exists>y \<in> set (get_or [] (npm_nominatedPods d) n). pod_UID (pi_Pod y) = uid)"
      using lists [of n] by (auto simp: NominatedPodsForNode_def)
    define r where "r = d\<lparr>npm_nominatedPodToNode := gomap_set (npm_nominatedPodToNode d) uid n,
      npm_nominatedPods := gomap_set (npm_nominatedPods d) n (get_or [] (npm_nominatedPods d) n @ [x])\<rparr>"
    have r: "npm_add alive x nodeName npm = r"
      using True fresh unfolding npm_add_def Let_def d_def [symmetric] n_def [symmetric] uid_def [symmetric] r_def by simp
    have lr: "NominatedPodsForNode m r = NominatedPodsForNode m d @ (if m = n then [x] else [])" for m
      by (simp add: r_def NominatedPodsForNode_def)
    have "npm_inv r"
      unfolding npm_inv_def lr
    proof (intro conjI allI)
      fix m uid'
      show "distinct (map (\<lambda>x. pod_UID (pi_Pod x)) (NominatedPodsForNode m d @ (if m = n then [x] else [])))"
      proof -
        have "distinct (map (\<lambda>x. pod_UID (pi_Pod x)) (NominatedPodsForNode m d))" using inv by (simp add: npm_inv_def)
        moreover have "uid \<notin> (\<lambda>x. pod_UID (pi_Pod x)) ` set (NominatedPodsForNode m d)" using lists [of m] by auto
        ultimately show ?thesis unfolding uid_def by (cases "m = n") auto
      qed
      show "gomap_get (npm_nominatedPodToNode r) uid' = Some m \<longleftrightarrow>
          uid' \<in> (\<lambda>x. pod_UID (pi_Pod x)) ` set (NominatedPodsForNode m d @ (if m = n then [x] else []))"
      proof (cases "uid' = uid")
        case True
        have "uid \<notin> (\<lambda>x. pod_UID (pi_Pod x)) ` set (NominatedPodsForNode m d)" using lists [of m] by auto
        then show ?thesis using True unfolding r_def uid_def by (cases "m = n") auto
      next
        case False
        then show ?thesis using inv unfolding npm_inv_def r_def uid_def by (cases "m = n") auto
      qed
    qed
    then show ?thesis using r lr lists True by auto
  qed
qed

theorem npm_add_correct_witness:
  "NominatedPodsForNode ''n1'' (npm_add (\<lambda>_. True) \<lparr>pi_Pod = example_named ''a'' 1\<rparr> ''n1'' NewPodNominator) = [\<lparr>pi_Pod = example_named ''a'' 1\<rparr>]"
proof -
  have "npm_inv NewPodNominator" by (simp add: npm_inv_def NewPodNominator_def NominatedPodsForNode_def)
  from npm_add_correct [OF this refl refl, where alive = "\<lambda>_. True" and x = "\<lparr>pi_Pod = example_named ''a'' 1\<rparr>" and nodeName = "''n1''" and m = "''n1''"] show ?thesis
    by (simp add: NewPodNominator_def NominatedPodsForNode_def)
qed

end
