(* ===== verification/Node_Tree.thy ===== *)
theory Node_Tree
  imports Node_Info
begin

text \<open>
  The tree of node names by zone (pkg/scheduler/internal/cache/node_tree.go) with the zone key of
  a node (component-helpers/node/topology/helpers.go): the scheduler cache takes from it the order
  in which nodes are tried, one node of every zone in turn.
\<close>

section \<open>Zones\<close>

definition GetZoneKey :: "Node \<Rightarrow> string" where
  "GetZoneKey node =
     (let labels = node_Labels node;
          zone = (case gomap_get labels ''failure-domain.beta.kubernetes.io/zone'' of Some z \<Rightarrow> z
                  | None \<Rightarrow> get_or [] labels ''topology.kubernetes.io/zone'');
          region = (case gomap_get labels ''failure-domain.beta.kubernetes.io/region'' of Some r \<Rightarrow> r
                    | None \<Rightarrow> get_or [] labels ''topology.kubernetes.io/region'')
      in if region = [] \<and> zone = [] then [] else region @ [CHR '':'', CHR 0x00, CHR '':''] @ zone)"

section \<open>The tree\<close>

record nodeTree =
  tr_tree :: "(string, string list) gomap"
  tr_zones :: "string list"
  tr_numNodes :: int

definition addNode :: "Node \<Rightarrow> nodeTree \<Rightarrow> nodeTree" where
  "addNode n nt =
     (let zone = GetZoneKey n in
      case gomap_get (tr_tree nt) zone of
        Some na \<Rightarrow>
          if node_Name n \<in> set na then nt
          else nt\<lparr>tr_tree := gomap_set (tr_tree nt) zone (na @ [node_Name n]), tr_numNodes := tr_numNodes nt + 1\<rparr>
      | None \<Rightarrow>
          nt\<lparr>tr_zones := tr_zones nt @ [zone], tr_tree := gomap_set (tr_tree nt) zone [node_Name n],
             tr_numNodes := tr_numNodes nt + 1\<rparr>)"

definition newNodeTree :: "Node list \<Rightarrow> nodeTree" where
  "newNodeTree nodes = fold addNode nodes \<lparr>tr_tree = [], tr_zones = [], tr_numNodes = 0\<rparr>"

definition removeZone :: "string \<Rightarrow> nodeTree \<Rightarrow> nodeTree" where
  "removeZone zone nt =
     nt\<lparr>tr_tree := gomap_delete (tr_tree nt) zone, tr_zones := remove1 zone (tr_zones nt)\<rparr>"

text \<open>\<^verbatim>\<open>removeNode\<close> cuts the first occurrence of the name out of its zone.\<close>

definition removeNode :: "Node \<Rightarrow> nodeTree \<Rightarrow> string option \<times> nodeTree" where
  "removeNode n nt =
     (let zone = GetZoneKey n;
          err = ''node '' @ go_quote (node_Name n) @ '' in group '' @ go_quote zone @ '' was not found'' in
      case gomap_get (tr_tree nt) zone of None \<Rightarrow> (Some err, nt)
      | Some na \<Rightarrow>
          if node_Name n \<in> set na then
            (let nt1 = nt\<lparr>tr_tree := gomap_set (tr_tree nt) zone (remove1 (node_Name n) na)\<rparr>;
                 nt2 = (if remove1 (node_Name n) na = [] then removeZone zone nt1 else nt1)
             in (None, nt2\<lparr>tr_numNodes := tr_numNodes nt2 - 1\<rparr>))
          else (Some err, nt))"

text \<open>Without an old node the new one must have no zone: the call of \<^verbatim>\<open>removeNode\<close> dereferences the old one.\<close>

definition updateNode :: "Node option \<Rightarrow> Node \<Rightarrow> nodeTree \<Rightarrow> nodeTree go_run" where
  "updateNode old new nt =
     (let oldZone = (case old of None \<Rightarrow> [] | Some o' \<Rightarrow> GetZoneKey o') in
      if oldZone = GetZoneKey new then Returns nt
      else case old of None \<Rightarrow> Panics ''nil pointer dereference''
           | Some o' \<Rightarrow> Returns (addNode new (snd (removeNode o' nt))))"

section \<open>Listing the nodes\<close>

text \<open>One pass over the zones: the next name of every zone that has one, counting zones that just ended.\<close>

definition zone_step :: "nodeTree \<Rightarrow> nat \<Rightarrow> string \<Rightarrow> string list \<times> nat \<Rightarrow> string list \<times> nat" where
  "zone_step nt nodeIndex zone acc =
     (case acc of (nodesList, numExhaustedZones) \<Rightarrow>
      (let na = get_or [] (tr_tree nt) zone in
       if nodeIndex \<ge> length na
       then (nodesList, if nodeIndex = length na then numExhaustedZones + 1 else numExhaustedZones)
       else (nodesList @ [na ! nodeIndex], numExhaustedZones)))"

text \<open>The loop of \<^verbatim>\<open>list\<close>; \<^const>\<open>None\<close> would mean that it does not end.\<close>

partial_function (option) list_loop ::
  "nodeTree \<Rightarrow> nat \<Rightarrow> nat \<Rightarrow> string list \<Rightarrow> (string list \<times> string option) option" where
  [code]: "list_loop nt nodeIndex numExhaustedZones nodesList =
     (if int (length nodesList) < tr_numNodes nt then
        if numExhaustedZones \<ge> length (tr_zones nt)
        then Some (nodesList, Some ''all zones exhausted before reaching count of nodes expected'')
        else case fold (zone_step nt nodeIndex) (tr_zones nt) (nodesList, numExhaustedZones) of
               (nodesList', numExhaustedZones') \<Rightarrow> list_loop nt (nodeIndex + 1) numExhaustedZones' nodesList'
      else Some (nodesList, None))"

definition tree_list :: "nodeTree \<Rightarrow> (string list \<times> string option) go_run option" where
  "tree_list nt =
     (if tr_zones nt = [] then Some (Returns ([], None))
      else if tr_numNodes nt < 0 then Some (Panics ''makeslice: cap out of range'')
      else map_option Returns (list_loop nt 0 0 []))"

section \<open>The tree holds a set of names\<close>

definition zone_nodes :: "nodeTree \<Rightarrow> string \<Rightarrow> string list" where
  "zone_nodes nt zone = get_or [] (tr_tree nt) zone"

definition tree_names :: "nodeTree \<Rightarrow> string list" where
  "tree_names nt = concat (map (zone_nodes nt) (tr_zones nt))"

definition tree_ok :: "nodeTree \<Rightarrow> bool" where
  "tree_ok nt \<longleftrightarrow>
     distinct (tr_zones nt) \<and> set (tr_zones nt) = dom (gomap_get (tr_tree nt))
     \<and> (\<forall>zone \<in> set (tr_zones nt). zone_nodes nt zone \<noteq> [])
     \<and> distinct (tree_names nt) \<and> tr_numNodes nt = int (length (tree_names nt))"

lemma tree_ok_zone: "tree_ok nt \<Longrightarrow> gomap_get (tr_tree nt) zone = Some na \<Longrightarrow> zone \<in> set (tr_zones nt) \<and> zone_nodes nt zone = na"
  by (auto simp: tree_ok_def zone_nodes_def get_or_def)

lemma tree_names_split:
  assumes "zone \<in> set zones" and "distinct zones"
  obtains zs ws where "zones = zs @ zone # ws" and "zone \<notin> set zs" and "zone \<notin> set ws"
  using split_list_first [OF assms(1)] assms(2) by auto

lemma tree_names_update:
  assumes "tr_zones nt = zs @ zone # ws" and "zone \<notin> set zs" and "zone \<notin> set ws"
    and "zone_nodes nt' = (zone_nodes nt)(zone := xs)" and "tr_zones nt' = tr_zones nt"
  shows "tree_names nt' = concat (map (zone_nodes nt) zs) @ xs @ concat (map (zone_nodes nt) ws)"
proof -
  have "map (zone_nodes nt') zs = map (zone_nodes nt) zs" "map (zone_nodes nt') ws = map (zone_nodes nt) ws"
    using assms(2-4) by (auto intro: map_cong)
  then show ?thesis using assms by (simp add: tree_names_def)
qed

lemma addNode_ok:
  assumes ok: "tree_ok nt" and fresh: "node_Name n \<notin> set (tree_names nt)"
  shows "tree_ok (addNode n nt)" and "set (tree_names (addNode n nt)) = insert (node_Name n) (set (tree_names nt))"
    and "node_Name n \<in> set (zone_nodes (addNode n nt) (GetZoneKey n))"
    and "zone \<noteq> GetZoneKey n \<Longrightarrow> zone_nodes (addNode n nt) zone = zone_nodes nt zone"
proof -
  define zone where "zone = GetZoneKey n"
  have "tree_ok (addNode n nt) \<and> set (tree_names (addNode n nt)) = insert (node_Name n) (set (tree_names nt))"
  proof (cases "gomap_get (tr_tree nt) zone")
    case None
    then have z: "zone \<notin> set (tr_zones nt)" using ok by (auto simp: tree_ok_def)
    have names: "tree_names (addNode n nt) = tree_names nt @ [node_Name n]"
      using z None by (auto simp: tree_names_def zone_nodes_def addNode_def zone_def Let_def intro!: arg_cong [where f = concat])
    have "tree_ok (addNode n nt)"
      unfolding tree_ok_def names
    proof (intro conjI)
      show "distinct (tr_zones (addNode n nt))" using z None ok by (simp add: addNode_def zone_def Let_def tree_ok_def)
      show "set (tr_zones (addNode n nt)) = dom (gomap_get (tr_tree (addNode n nt)))"
        using None ok by (auto simp: addNode_def zone_def Let_def tree_ok_def)
      show "\<forall>zone\<in>set (tr_zones (addNode n nt)). zone_nodes (addNode n nt) zone \<noteq> []"
        using None ok z by (auto simp: addNode_def zone_def Let_def tree_ok_def zone_nodes_def)
      show "distinct (tree_names nt @ [node_Name n])" using ok fresh by (simp add: tree_ok_def)
      show "tr_numNodes (addNode n nt) = int (length (tree_names nt @ [node_Name n]))"
        using None ok by (simp add: addNode_def zone_def Let_def tree_ok_def)
    qed
    then show ?thesis by (simp add: names)
  next
    case (Some na)
    then have z: "zone \<in> set (tr_zones nt)" "zone_nodes nt zone = na" using tree_ok_zone [OF ok] by auto
    have na: "node_Name n \<notin> set na" using fresh z by (auto simp: tree_names_def)
    obtain zs ws where zw: "tr_zones nt = zs @ zone # ws" "zone \<notin> set zs" "zone \<notin> set ws"
      using tree_names_split [OF z(1)] ok by (auto simp: tree_ok_def)
    have add: "addNode n nt = nt\<lparr>tr_tree := gomap_set (tr_tree nt) zone (na @ [node_Name n]), tr_numNodes := tr_numNodes nt + 1\<rparr>"
      using Some na by (simp add: addNode_def zone_def [symmetric] Let_def)
    have "zone_nodes (addNode n nt) = (zone_nodes nt)(zone := na @ [node_Name n])"
      by (simp add: add zone_nodes_def fun_eq_iff)
    then have new: "tree_names (addNode n nt) = concat (map (zone_nodes nt) zs) @ (na @ [node_Name n]) @ concat (map (zone_nodes nt) ws)"
      by (rule tree_names_update [OF zw]) (simp add: add)
    have old: "tree_names nt = concat (map (zone_nodes nt) zs) @ na @ concat (map (zone_nodes nt) ws)"
      using zw z(2) by (simp add: tree_names_def)
    have "tree_ok (addNode n nt)"
      unfolding tree_ok_def
    proof (intro conjI)
      show "distinct (tr_zones (addNode n nt))" using ok by (simp add: add tree_ok_def)
      show "set (tr_zones (addNode n nt)) = dom (gomap_get (tr_tree (addNode n nt)))"
        using ok z(1) by (auto simp: add tree_ok_def)
      show "\<forall>zone\<in>set (tr_zones (addNode n nt)). zone_nodes (addNode n nt) zone \<noteq> []"
        using ok by (auto simp: add tree_ok_def zone_nodes_def)
      show "distinct (tree_names (addNode n nt))"
        using ok fresh unfolding tree_ok_def new old by auto
      show "tr_numNodes (addNode n nt) = int (length (tree_names (addNode n nt)))"
        using ok unfolding tree_ok_def new old by (simp add: add)
    qed
    then show ?thesis unfolding new old by auto
  qed
  then show "tree_ok (addNode n nt)" and "set (tree_names (addNode n nt)) = insert (node_Name n) (set (tree_names nt))"
    by blast+
  show "node_Name n \<in> set (zone_nodes (addNode n nt) (GetZoneKey n))"
    by (auto simp: addNode_def Let_def zone_nodes_def get_or_def split: option.splits)
  show "zone \<noteq> GetZoneKey n \<Longrightarrow> zone_nodes (addNode n nt) zone = zone_nodes nt zone" for zone
    by (auto simp: addNode_def Let_def zone_nodes_def split: option.splits)
qed

lemma removeNode_ok:
  assumes ok: "tree_ok nt" and mem: "node_Name n \<in> set (zone_nodes nt (GetZoneKey n))"
  shows "fst (removeNode n nt) = None" and "tree_ok (snd (removeNode n nt))"
    and "set (tree_names (snd (removeNode n nt))) = set (tree_names nt) - {node_Name n}"
    and "zone \<noteq> GetZoneKey n \<Longrightarrow> zone_nodes (snd (removeNode n nt)) zone = zone_nodes nt zone"
proof -
  define zone where "zone = GetZoneKey n"
  define rest where "rest = remove1 (node_Name n) (zone_nodes nt zone)"
  define nt' where "nt' = snd (removeNode n nt)"
  obtain na where na: "gomap_get (tr_tree nt) zone = Some na"
    using mem by (cases "gomap_get (tr_tree nt) zone") (auto simp: zone_def zone_nodes_def get_or_def)
  then have z: "zone \<in> set (tr_zones nt)" "zone_nodes nt zone = na" using tree_ok_zone [OF ok] by auto
  have d: "distinct (tr_zones nt)" using ok by (simp add: tree_ok_def)
  obtain zs ws where zw: "tr_zones nt = zs @ zone # ws" "zone \<notin> set zs" "zone \<notin> set ws"
    by (rule tree_names_split [OF z(1) d])
  have old: "tree_names nt = concat (map (zone_nodes nt) zs) @ na @ concat (map (zone_nodes nt) ws)"
    using zw z(2) by (simp add: tree_names_def)
  have dn: "distinct (tree_names nt)" using ok by (simp add: tree_ok_def)
  then have dna: "distinct na" by (simp add: old)
  have mem': "node_Name n \<in> set na" using mem z(2) by (simp add: zone_def)
  then have len: "length na = Suc (length (remove1 (node_Name n) na))" by (simp add: length_remove1) (metis One_nat_def Suc_pred length_pos_if_in_set)
  have rm: "removeNode n nt = (None, nt')"
    using na mem' unfolding nt'_def removeNode_def Let_def zone_def [symmetric] by simp
  have zn: "zone_nodes nt' = (zone_nodes nt)(zone := rest)"
    using na mem' z(2) unfolding nt'_def removeNode_def Let_def zone_def [symmetric]
    by (auto simp: removeZone_def zone_nodes_def rest_def fun_eq_iff get_or_def)
  have zones: "tr_zones nt' = (if rest = [] then zs @ ws else tr_zones nt)"
    using na mem' z(2) zw unfolding nt'_def removeNode_def Let_def zone_def [symmetric]
    by (simp add: removeZone_def rest_def remove1_append)
  have num: "tr_numNodes nt' = tr_numNodes nt - 1"
    using na mem' unfolding nt'_def removeNode_def Let_def zone_def [symmetric] by (simp add: removeZone_def)
  have domain: "dom (gomap_get (tr_tree nt')) = (if rest = [] then dom (gomap_get (tr_tree nt)) - {zone} else dom (gomap_get (tr_tree nt)))"
    using na mem' z(2) unfolding nt'_def removeNode_def Let_def zone_def [symmetric]
    by (auto simp: removeZone_def rest_def)
  have same: "map (zone_nodes nt') zs = map (zone_nodes nt) zs" "map (zone_nodes nt') ws = map (zone_nodes nt) ws"
    using zw zn by (auto intro: map_cong)
  have new: "tree_names nt' = concat (map (zone_nodes nt) zs) @ rest @ concat (map (zone_nodes nt) ws)"
  proof (cases "rest = []")
    case True
    then have "tree_names nt' = concat (map (zone_nodes nt') zs) @ concat (map (zone_nodes nt') ws)"
      using zones by (simp add: tree_names_def)
    then show ?thesis unfolding same using True by simp
  next
    case False
    then show ?thesis using zones by (intro tree_names_update [OF zw zn]) simp
  qed
  have srest: "set rest = set na - {node_Name n}" using dna z(2) by (simp add: rest_def)
  show "fst (removeNode n nt) = None" by (simp add: rm)
  show "zone \<noteq> GetZoneKey n \<Longrightarrow> zone_nodes (snd (removeNode n nt)) zone = zone_nodes nt zone" for zone
    using zn by (simp add: rm zone_def)
  show "set (tree_names (snd (removeNode n nt))) = set (tree_names nt) - {node_Name n}"
    using dn mem' srest unfolding rm snd_conv new old by auto
  have "tree_ok nt'"
    unfolding tree_ok_def
  proof (intro conjI)
    show "distinct (tr_zones nt')" using d zw by (simp add: zones)
    show "set (tr_zones nt') = dom (gomap_get (tr_tree nt'))"
      using ok zw unfolding domain zones tree_ok_def by auto
    show "\<forall>z\<in>set (tr_zones nt'). zone_nodes nt' z \<noteq> []"
      using ok zw unfolding zones zn tree_ok_def by auto
    show "distinct (tree_names nt')"
      using dn dna srest z(2) unfolding new old by (auto simp: rest_def)
    show "tr_numNodes nt' = int (length (tree_names nt'))"
      using ok z(2) len unfolding tree_ok_def num new old by (simp add: rest_def)
  qed
  then show "tree_ok (snd (removeNode n nt))" by (simp add: rm)
qed

lemma zone_nodes_in_names: "tree_ok nt \<Longrightarrow> x \<in> set (zone_nodes nt zone) \<Longrightarrow> x \<in> set (tree_names nt)"
proof -
  assume ok: "tree_ok nt" and x: "x \<in> set (zone_nodes nt zone)"
  then obtain na where "gomap_get (tr_tree nt) zone = Some na"
    by (cases "gomap_get (tr_tree nt) zone") (auto simp: zone_nodes_def get_or_def)
  then show ?thesis using tree_ok_zone [OF ok] x by (auto simp: tree_names_def)
qed

lemma updateNode_ok:
  assumes ok: "tree_ok nt" and mem: "node_Name old \<in> set (zone_nodes nt (GetZoneKey old))" and name: "node_Name new = node_Name old"
  obtains nt' where "updateNode (Some old) new nt = Returns nt'" and "tree_ok nt'"
    and "set (tree_names nt') = set (tree_names nt)" and "node_Name new \<in> set (zone_nodes nt' (GetZoneKey new))"
proof (cases "GetZoneKey old = GetZoneKey new")
  case True
  then show ?thesis using that [of nt] ok mem name by (simp add: updateNode_def)
next
  case False
  define nt1 where "nt1 = snd (removeNode old nt)"
  have nt1: "tree_ok nt1" "set (tree_names nt1) = set (tree_names nt) - {node_Name new}"
    using removeNode_ok(2,3) [OF ok mem] name by (simp_all add: nt1_def)
  have fresh: "node_Name new \<notin> set (tree_names nt1)" by (simp add: nt1(2))
  have "node_Name new \<in> set (tree_names nt)" using zone_nodes_in_names [OF ok mem] name by simp
  then show ?thesis
    using that [of "addNode new nt1"] False addNode_ok [OF nt1(1) fresh] nt1(2)
    by (auto simp: updateNode_def nt1_def)
qed

text \<open>Other names stay where they are.\<close>

lemma addNode_others: "x \<in> set (zone_nodes nt zone) \<Longrightarrow> x \<in> set (zone_nodes (addNode n nt) zone)"
  by (auto simp: addNode_def Let_def zone_nodes_def get_or_def split: option.splits)

lemma removeNode_others:
  "x \<in> set (zone_nodes nt zone) \<Longrightarrow> x \<noteq> node_Name n \<Longrightarrow> x \<in> set (zone_nodes (snd (removeNode n nt)) zone)"
  by (auto simp: removeNode_def removeZone_def Let_def zone_nodes_def get_or_def set_remove1_eq split: option.splits if_splits)
    (metis empty_iff empty_set in_set_remove1)+

lemma updateNode_others:
  assumes "updateNode (Some old) new nt = Returns nt'" and "x \<in> set (zone_nodes nt zone)" and "x \<noteq> node_Name old"
  shows "x \<in> set (zone_nodes nt' zone)"
  using assms addNode_others removeNode_others by (auto simp: updateNode_def split: if_splits)

section \<open>The listing\<close>

text \<open>The order the listing is meant to have: the first node of every zone, then the second, and so on.\<close>

definition zone_round :: "nodeTree \<Rightarrow> nat \<Rightarrow> string list" where
  "zone_round nt i =
     concat (map (\<lambda>zone. if i < length (zone_nodes nt zone) then [zone_nodes nt zone ! i] else []) (tr_zones nt))"

definition rounds :: "nodeTree \<Rightarrow> nat \<Rightarrow> string list" where
  "rounds nt k = concat (map (zone_round nt) [0..<k])"

definition exhausted :: "nodeTree \<Rightarrow> nat \<Rightarrow> nat" where
  "exhausted nt i = length (filter (\<lambda>zone. length (zone_nodes nt zone) < i) (tr_zones nt))"

lemma zone_fold:
  "fold (zone_step nt i) (tr_zones nt) (rounds nt i, exhausted nt i) = (rounds nt (Suc i), exhausted nt (Suc i))"
proof -
  have "fold (zone_step nt i) zones (acc, ex) =
      (acc @ concat (map (\<lambda>zone. if i < length (zone_nodes nt zone) then [zone_nodes nt zone ! i] else []) zones),
       ex + length (filter (\<lambda>zone. length (zone_nodes nt zone) = i) zones))" for zones acc ex
    by (induction zones arbitrary: acc ex) (auto simp: zone_step_def zone_nodes_def Let_def)
  moreover have "length (filter (\<lambda>zone. length (zone_nodes nt zone) < i) zones)
      + length (filter (\<lambda>zone. length (zone_nodes nt zone) = i) zones)
      = length (filter (\<lambda>zone. length (zone_nodes nt zone) < Suc i) zones)" for zones
    by (induction zones) auto
  ultimately show ?thesis by (simp add: rounds_def zone_round_def exhausted_def)
qed

lemma list_loop_step:
  "list_loop nt i (exhausted nt i) (rounds nt i) =
     (if int (length (rounds nt i)) < tr_numNodes nt then
        if exhausted nt i \<ge> length (tr_zones nt)
        then Some (rounds nt i, Some ''all zones exhausted before reaching count of nodes expected'')
        else list_loop nt (Suc i) (exhausted nt (Suc i)) (rounds nt (Suc i))
      else Some (rounds nt i, None))"
  by (subst list_loop.simps) (simp add: zone_fold)

lemma exhausted_all: "(\<And>zone. zone \<in> set (tr_zones nt) \<Longrightarrow> length (zone_nodes nt zone) < i) \<Longrightarrow> exhausted nt i = length (tr_zones nt)"
  by (simp add: exhausted_def)

lemma list_loop_returns:
  assumes "\<And>zone. zone \<in> set (tr_zones nt) \<Longrightarrow> length (zone_nodes nt zone) < m"
  shows "\<exists>k. list_loop nt i (exhausted nt i) (rounds nt i) \<in> 
      {Some (rounds nt k, None), Some (rounds nt k, Some ''all zones exhausted before reaching count of nodes expected'')}
    \<and> i \<le> k \<and> (int (length (rounds nt k)) < tr_numNodes nt \<longrightarrow> exhausted nt k \<ge> length (tr_zones nt))
    \<and> (\<not> int (length (rounds nt k)) < tr_numNodes nt \<longrightarrow> list_loop nt i (exhausted nt i) (rounds nt i) = Some (rounds nt k, None))"
proof (induction "m - i" arbitrary: i)
  case 0
  then have "m \<le> i" by simp
  then have "exhausted nt i = length (tr_zones nt)" using assms by (intro exhausted_all) (rule less_le_trans)
  then show ?case unfolding list_loop_step [of nt i] by (intro exI [of _ i]) simp
next
  case (Suc d)
  show ?case
  proof (cases "int (length (rounds nt i)) < tr_numNodes nt \<and> exhausted nt i < length (tr_zones nt)")
    case True
    have "d = m - Suc i" using Suc by simp
    with Suc(1) [OF this] show ?thesis using True by (auto simp: list_loop_step [of nt i] intro: Suc_leD)
  next
    case False
    then show ?thesis by (intro exI [of _ i]) (auto simp: list_loop_step [of nt i])
  qed
qed

lemma zone_lengths_bounded: "\<exists>m. \<forall>zone\<in>set (tr_zones nt). length (zone_nodes nt zone) < m"
  by (rule exI [of _ "Suc (Max ((\<lambda>zone. length (zone_nodes nt zone)) ` set (tr_zones nt)))"]) (simp add: less_Suc_eq_le)

text \<open>After \<open>k\<close> rounds the first \<open>k\<close> nodes of every zone are listed.\<close>

lemma rounds_mset: "mset (rounds nt k) = mset (concat (map (\<lambda>zone. take k (zone_nodes nt zone)) (tr_zones nt)))"
proof (induction k)
  case 0
  then show ?case by (simp add: rounds_def)
next
  case (Suc k)
  have "mset (concat (map (\<lambda>zone. take k (zone_nodes nt zone)) zones))
      + mset (concat (map (\<lambda>zone. if k < length (zone_nodes nt zone) then [zone_nodes nt zone ! k] else []) zones))
      = mset (concat (map (\<lambda>zone. take (Suc k) (zone_nodes nt zone)) zones))" for zones
    by (induction zones) (auto simp: take_Suc_conv_app_nth ac_simps)
  then show ?case using Suc by (simp add: rounds_def zone_round_def)
qed

lemma rounds_complete:
  assumes "length (tree_names nt) \<le> length (rounds nt k)"
  shows "mset (rounds nt k) = mset (tree_names nt)"
proof -
  have all: "length (concat (map (\<lambda>zone. take k (zone_nodes nt zone)) zones)) \<ge> length (concat (map (zone_nodes nt) zones)) \<Longrightarrow>
      concat (map (\<lambda>zone. take k (zone_nodes nt zone)) zones) = concat (map (zone_nodes nt) zones)" for zones
  proof (induction zones)
    case (Cons z zones)
    have "length (concat (map (\<lambda>zone. take k (zone_nodes nt zone)) zones)) \<le> length (concat (map (zone_nodes nt) zones))"
      by (induction zones) auto
    then have "length (zone_nodes nt z) \<le> length (take k (zone_nodes nt z))"
      "length (concat (map (zone_nodes nt) zones)) \<le> length (concat (map (\<lambda>zone. take k (zone_nodes nt zone)) zones))"
      using Cons.prems by auto
    then show ?case using Cons.IH by auto
  qed simp
  have "length (rounds nt k) = length (concat (map (\<lambda>zone. take k (zone_nodes nt zone)) (tr_zones nt)))"
    using arg_cong [OF rounds_mset, of size nt k] by (simp only: size_mset)
  then have "concat (map (\<lambda>zone. take k (zone_nodes nt zone)) (tr_zones nt)) = tree_names nt"
    using assms all [of "tr_zones nt"] unfolding tree_names_def by (simp only:)
  then show ?thesis using rounds_mset [of nt k] by (simp only:)
qed

lemma all_exhausted_complete:
  assumes "exhausted nt k \<ge> length (tr_zones nt)"
  shows "length (rounds nt k) = length (tree_names nt)"
proof -
  have "exhausted nt k = length (tr_zones nt)" using assms length_filter_le by (simp add: exhausted_def le_antisym)
  then have "\<forall>zone\<in>set (tr_zones nt). length (zone_nodes nt zone) < k"
    unfolding exhausted_def by (metis (no_types, lifting) length_filter_less less_irrefl)
  then have "map (\<lambda>zone. take k (zone_nodes nt zone)) (tr_zones nt) = map (zone_nodes nt) (tr_zones nt)"
    by (intro map_cong) auto
  moreover have "length (rounds nt k) = length (concat (map (\<lambda>zone. take k (zone_nodes nt zone)) (tr_zones nt)))"
    using arg_cong [OF rounds_mset, of size nt k] by (simp only: size_mset)
  ultimately show ?thesis unfolding tree_names_def by (simp only:)
qed

lemma tree_list_result:
  obtains k where "list_loop nt 0 0 [] \<in> {Some (rounds nt k, None),
      Some (rounds nt k, Some ''all zones exhausted before reaching count of nodes expected'')}"
    and "int (length (rounds nt k)) < tr_numNodes nt \<longrightarrow> exhausted nt k \<ge> length (tr_zones nt)"
    and "\<not> int (length (rounds nt k)) < tr_numNodes nt \<longrightarrow> list_loop nt 0 0 [] = Some (rounds nt k, None)"
proof -
  obtain m where "\<forall>zone\<in>set (tr_zones nt). length (zone_nodes nt zone) < m" using zone_lengths_bounded by blast
  then have m: "\<And>zone. zone \<in> set (tr_zones nt) \<Longrightarrow> length (zone_nodes nt zone) < m" by blast
  have start: "list_loop nt 0 (exhausted nt 0) (rounds nt 0) = list_loop nt 0 0 []"
    by (simp add: exhausted_def rounds_def)
  show ?thesis using that list_loop_returns [OF m, of 0] unfolding start by blast
qed

lemma tree_list_complete:
  assumes ok: "tree_ok nt"
  shows "\<exists>xs k. tree_list nt = Some (Returns (xs, None)) \<and> distinct xs \<and> set xs = set (tree_names nt) \<and> xs = rounds nt k"
proof (cases "tr_zones nt = []")
  case True
  then show ?thesis by (intro exI [of _ "[]"] exI [of _ 0]) (simp add: tree_list_def tree_names_def rounds_def)
next
  case False
  obtain k where k: "int (length (rounds nt k)) < tr_numNodes nt \<longrightarrow> exhausted nt k \<ge> length (tr_zones nt)"
    "\<not> int (length (rounds nt k)) < tr_numNodes nt \<longrightarrow> list_loop nt 0 0 [] = Some (rounds nt k, None)"
    by (rule tree_list_result)
  have n: "tr_numNodes nt = int (length (tree_names nt))" using ok by (simp add: tree_ok_def)
  then have full: "\<not> int (length (rounds nt k)) < tr_numNodes nt" using k(1) all_exhausted_complete [of nt k] by fastforce
  then have "mset (rounds nt k) = mset (tree_names nt)" using n by (intro rounds_complete) simp
  then have "distinct (rounds nt k)" "set (rounds nt k) = set (tree_names nt)"
    using ok by (metis mset_eq_imp_distinct_iff tree_ok_def, metis mset_eq_setD)
  then show ?thesis using k(2) full False n by (auto simp: tree_list_def)
qed

text \<open>
  C20: The listing of the node tree always ends, whatever the tree looks like, and on a consistent
  tree it succeeds and lists every node exactly once, in rounds over the zones.
\<close>

theorem tree_list_terminates:
  "(\<exists>r. tree_list nt = Some r)
   \<and> (tree_ok nt \<longrightarrow> (\<exists>xs k. tree_list nt = Some (Returns (xs, None)) \<and> distinct xs \<and> set xs = set (tree_names nt)
        \<and> xs = rounds nt k))"
proof -
  obtain k where "list_loop nt 0 0 [] \<in> {Some (rounds nt k, None),
      Some (rounds nt k, Some ''all zones exhausted before reaching count of nodes expected'')}"
    by (rule tree_list_result)
  then have "\<exists>r. tree_list nt = Some r" by (auto simp: tree_list_def)
  then show ?thesis using tree_list_complete by blast
qed

definition zoned_node :: "string \<Rightarrow> string \<Rightarrow> Node" where
  "zoned_node name zone = \<lparr>node_Name = name, node_Labels = [(''topology.kubernetes.io/zone'', zone)],
     node_Allocatable = [], node_Images = []\<rparr>"

definition example_tree :: nodeTree where
  "example_tree = newNodeTree [zoned_node ''a1'' ''a'', zoned_node ''a2'' ''a'', zoned_node ''b1'' ''b'']"

theorem tree_list_terminates_witness:
  "tree_ok example_tree \<and> (\<exists>xs. tree_list example_tree = Some (Returns (xs, None)) \<and> set xs = {''a1'', ''a2'', ''b1''})"
proof -
  have t: "example_tree = \<lparr>tr_tree = [('':'' @ [CHR 0x00] @ '':a'', [''a1'', ''a2'']), ('':'' @ [CHR 0x00] @ '':b'', [''b1''])],
      tr_zones = ['':'' @ [CHR 0x00] @ '':a'', '':'' @ [CHR 0x00] @ '':b''], tr_numNodes = 3\<rparr>"
    by code_simp
  have "tree_ok example_tree" by (auto simp: t tree_ok_def tree_names_def zone_nodes_def get_or_def)
  moreover have "set (tree_names example_tree) = {''a1'', ''a2'', ''b1''}"
    by (auto simp: t tree_names_def zone_nodes_def get_or_def)
  ultimately show ?thesis using tree_list_terminates [of example_tree] by auto
qed

end
