(* ===== verification/Sched_Cache.thy ===== *)
theory Sched_Cache
  imports Node_Tree
begin

text \<open>
  The scheduler cache and its snapshot (pkg/scheduler/internal/cache/cache.go, snapshot.go). The
  cache keeps the items of its nodes in a doubly linked list, most recently changed first; a
  snapshot is brought up to date by walking that list until the items are no newer than it. Items
  and the snapshot's NodeInfos are shared by pointer, so both live in a store indexed by
  addresses. Every operation is one step under the cache's lock; logging is left out and
  \<^verbatim>\<open>klog.Fatal\<close> is a panic.
\<close>

section \<open>State\<close>

record nodeInfoListItem =
  it_info :: NodeInfo
  it_next :: "nat option"
  it_prev :: "nat option"

record podState =
  ps_pod :: Pod
  ps_deadline :: "int option"
  ps_bindingFinished :: bool

record imageState =
  is_size :: int
  is_nodes :: "string list"

text \<open>
  \<open>sc_items\<close> and \<open>sc_fresh\<close> are the store of list items, \<open>sc_gen\<close> the generation counter of the
  process; \<open>sc_metrics\<close> are the three values of the cache size metric.
\<close>

record schedulerCache =
  sc_ttl :: int
  sc_assumedPods :: "string list"
  sc_podStates :: "(string, podState) gomap"
  sc_nodes :: "(string, nat) gomap"
  sc_headNode :: "nat option"
  sc_nodeTree :: nodeTree
  sc_imageStates :: "(string, imageState) gomap"
  sc_items :: "nat \<Rightarrow> nodeInfoListItem"
  sc_fresh :: nat
  sc_gen :: int
  sc_metrics :: "int \<times> int \<times> int"

definition blank_info :: NodeInfo where
  "blank_info =
     \<lparr>ni_node = None, ni_Pods = [], ni_PodsWithAffinity = [], ni_PodsWithRequiredAntiAffinity = [], ni_UsedPorts = [],
      ni_Requested = zero_resource, ni_NonZeroRequested = zero_resource, ni_Allocatable = zero_resource,
      ni_ImageStates = [], ni_PVCRefCounts = [], ni_Generation = 0\<rparr>"

definition newNodeInfoListItem :: "NodeInfo \<Rightarrow> nodeInfoListItem" where
  "newNodeInfoListItem ni = \<lparr>it_info = ni, it_next = None, it_prev = None\<rparr>"

definition newSchedulerCache :: "int \<Rightarrow> int \<Rightarrow> schedulerCache" where
  "newSchedulerCache ttl gen =
     \<lparr>sc_ttl = ttl, sc_assumedPods = [], sc_podStates = [], sc_nodes = [], sc_headNode = None,
      sc_nodeTree = newNodeTree [], sc_imageStates = [], sc_items = (\<lambda>_. newNodeInfoListItem blank_info), sc_fresh = 0,
      sc_gen = gen, sc_metrics = (0, 0, 0)\<rparr>"

abbreviation item :: "schedulerCache \<Rightarrow> nat \<Rightarrow> nodeInfoListItem" where
  "item c a \<equiv> sc_items c a"

definition set_next :: "nat \<Rightarrow> nat option \<Rightarrow> schedulerCache \<Rightarrow> schedulerCache" where
  "set_next a v c = c\<lparr>sc_items := (sc_items c)(a := (item c a)\<lparr>it_next := v\<rparr>)\<rparr>"

definition set_prev :: "nat \<Rightarrow> nat option \<Rightarrow> schedulerCache \<Rightarrow> schedulerCache" where
  "set_prev a v c = c\<lparr>sc_items := (sc_items c)(a := (item c a)\<lparr>it_prev := v\<rparr>)\<rparr>"

text \<open>A change of the NodeInfo behind an item, with the generation counter it draws from.\<close>

definition set_info :: "nat \<Rightarrow> int \<times> NodeInfo \<Rightarrow> schedulerCache \<Rightarrow> schedulerCache" where
  "set_info a gn c = c\<lparr>sc_items := (sc_items c)(a := (item c a)\<lparr>it_info := snd gn\<rparr>), sc_gen := fst gn\<rparr>"

definition new_item :: "runtime_env \<Rightarrow> string \<Rightarrow> schedulerCache \<Rightarrow> nat \<times> schedulerCache" where
  "new_item env name c =
     (let a = sc_fresh c; gn = NewNodeInfo env (sc_gen c) [] in
      (a, c\<lparr>sc_nodes := gomap_set (sc_nodes c) name a, sc_items := (sc_items c)(a := newNodeInfoListItem (snd gn)),
            sc_fresh := a + 1, sc_gen := fst gn\<rparr>))"

section \<open>The list of items\<close>

text \<open>\<^verbatim>\<open>if ni.prev != nil { ni.prev.next = ni.next }; if ni.next != nil { ni.next.prev = ni.prev }\<close>\<close>

definition unlink :: "nat \<Rightarrow> schedulerCache \<Rightarrow> schedulerCache" where
  "unlink ni c =
     (let c1 = (case it_prev (item c ni) of None \<Rightarrow> c | Some p \<Rightarrow> set_next p (it_next (item c ni)) c)
      in case it_next (item c1 ni) of None \<Rightarrow> c1 | Some n \<Rightarrow> set_prev n (it_prev (item c1 ni)) c1)"

definition moveNodeInfoToHead :: "string \<Rightarrow> schedulerCache \<Rightarrow> schedulerCache" where
  "moveNodeInfoToHead name c =
     (case gomap_get (sc_nodes c) name of None \<Rightarrow> c
      | Some ni \<Rightarrow>
        if sc_headNode c = Some ni then c
        else
          let c1 = unlink ni c;
              c2 = (case sc_headNode c1 of None \<Rightarrow> c1 | Some h \<Rightarrow> set_prev h (Some ni) c1);
              c3 = set_prev ni None (set_next ni (sc_headNode c2) c2)
          in c3\<lparr>sc_headNode := Some ni\<rparr>)"

definition removeNodeInfoFromList :: "string \<Rightarrow> schedulerCache \<Rightarrow> schedulerCache" where
  "removeNodeInfoFromList name c =
     (case gomap_get (sc_nodes c) name of None \<Rightarrow> c
      | Some ni \<Rightarrow>
        let c1 = unlink ni c;
            c2 = (if sc_headNode c1 = Some ni then c1\<lparr>sc_headNode := it_next (item c1 ni)\<rparr> else c1)
        in c2\<lparr>sc_nodes := gomap_delete (sc_nodes c2) name\<rparr>)"

section \<open>Pods\<close>

definition cache_addPod :: "runtime_env \<Rightarrow> Pod \<Rightarrow> schedulerCache \<Rightarrow> schedulerCache" where
  "cache_addPod env pod c =
     (let (n, c1) = (case gomap_get (sc_nodes c) (pod_NodeName pod) of Some n \<Rightarrow> (n, c)
                     | None \<Rightarrow> new_item env (pod_NodeName pod) c);
          c2 = set_info n (AddPod env pod (sc_gen c1, it_info (item c1 n))) c1
      in moveNodeInfoToHead (pod_NodeName pod) c2)"

definition cache_removePod :: "runtime_env \<Rightarrow> Pod \<Rightarrow> schedulerCache \<Rightarrow> (string option \<times> schedulerCache) go_run" where
  "cache_removePod env pod c =
     (case gomap_get (sc_nodes c) (pod_NodeName pod) of None \<Rightarrow> Returns (None, c)
      | Some n \<Rightarrow>
        go_bind (RemovePod env pod (sc_gen c, it_info (item c n))) (\<lambda>(err, gn).
          let c1 = set_info n gn c in
          if err \<noteq> None then Returns (err, c1)
          else Returns (None,
            if ni_Pods (it_info (item c1 n)) = [] \<and> ni_node (it_info (item c1 n)) = None
            then removeNodeInfoFromList (pod_NodeName pod) c1 else moveNodeInfoToHead (pod_NodeName pod) c1)))"

definition cache_updatePod :: "runtime_env \<Rightarrow> Pod \<Rightarrow> Pod \<Rightarrow> schedulerCache \<Rightarrow> (string option \<times> schedulerCache) go_run" where
  "cache_updatePod env oldPod newPod c =
     go_bind (cache_removePod env oldPod c) (\<lambda>(err, c1).
       Returns (if err \<noteq> None then (err, c1) else (None, cache_addPod env newPod c1)))"

definition put_state :: "string \<Rightarrow> podState \<Rightarrow> schedulerCache \<Rightarrow> schedulerCache" where
  "put_state key ps c = c\<lparr>sc_podStates := gomap_set (sc_podStates c) key ps\<rparr>"

definition drop_state :: "string \<Rightarrow> schedulerCache \<Rightarrow> schedulerCache" where
  "drop_state key c = c\<lparr>sc_podStates := gomap_delete (sc_podStates c) key\<rparr>"

definition set_assumed :: "string list \<Rightarrow> schedulerCache \<Rightarrow> schedulerCache" where
  "set_assumed ks c = c\<lparr>sc_assumedPods := ks\<rparr>"

definition AssumePod :: "runtime_env \<Rightarrow> Pod \<Rightarrow> schedulerCache \<Rightarrow> string option \<times> schedulerCache" where
  "AssumePod env pod c =
     (case GetPodKey pod of Inl err \<Rightarrow> (Some err, c)
      | Inr key \<Rightarrow>
        if gomap_get (sc_podStates c) key \<noteq> None
        then (Some (''pod '' @ key @ '' is in the cache, so can'' @ [CHR 0x27] @ ''t be assumed''), c)
        else
          let c1 = put_state key \<lparr>ps_pod = pod, ps_deadline = None, ps_bindingFinished = False\<rparr> (cache_addPod env pod c)
          in (None, set_assumed (List.insert key (sc_assumedPods c1)) c1))"

definition finishBinding :: "Pod \<Rightarrow> int \<Rightarrow> schedulerCache \<Rightarrow> string option \<times> schedulerCache" where
  "finishBinding pod now c =
     (case GetPodKey pod of Inl err \<Rightarrow> (Some err, c)
      | Inr key \<Rightarrow>
        (None,
         case gomap_get (sc_podStates c) key of None \<Rightarrow> c
         | Some currState \<Rightarrow>
             if key \<in> set (sc_assumedPods c)
             then put_state key (currState\<lparr>ps_bindingFinished := True, ps_deadline := Some (now + sc_ttl c)\<rparr>) c else c))"

definition ForgetPod :: "runtime_env \<Rightarrow> Pod \<Rightarrow> schedulerCache \<Rightarrow> (string option \<times> schedulerCache) go_run" where
  "ForgetPod env pod c =
     (case GetPodKey pod of Inl err \<Rightarrow> Returns (Some err, c)
      | Inr key \<Rightarrow>
        (case gomap_get (sc_podStates c) key of
           None \<Rightarrow> Returns (Some (''pod '' @ key @ '' wasn'' @ [CHR 0x27] @ ''t assumed so cannot be forgotten''), c)
         | Some currState \<Rightarrow>
           if pod_NodeName (ps_pod currState) \<noteq> pod_NodeName pod
           then Returns (Some (''pod '' @ key @ '' was assumed on '' @ pod_NodeName pod @ '' but assigned to ''
                  @ pod_NodeName (ps_pod currState)), c)
           else if key \<in> set (sc_assumedPods c) then
             go_bind (cache_removePod env pod c) (\<lambda>(err, c1).
               Returns (if err \<noteq> None then (err, c1)
                 else (None, drop_state key (set_assumed (removeAll key (sc_assumedPods c1)) c1))))
           else Returns (Some (''pod '' @ key @ '' wasn'' @ [CHR 0x27] @ ''t assumed so cannot be forgotten''), c)))"

definition cache_AddPod :: "runtime_env \<Rightarrow> Pod \<Rightarrow> schedulerCache \<Rightarrow> (string option \<times> schedulerCache) go_run" where
  "cache_AddPod env pod c =
     (case GetPodKey pod of Inl err \<Rightarrow> Returns (Some err, c)
      | Inr key \<Rightarrow>
        (case gomap_get (sc_podStates c) key of
           None \<Rightarrow> Returns (None,
             put_state key \<lparr>ps_pod = pod, ps_deadline = None, ps_bindingFinished = False\<rparr> (cache_addPod env pod c))
         | Some currState \<Rightarrow>
           if key \<in> set (sc_assumedPods c) then
             go_bind (if pod_NodeName (ps_pod currState) \<noteq> pod_NodeName pod
                      then go_bind (cache_removePod env (ps_pod currState) c) (\<lambda>(_, c1). Returns (cache_addPod env pod c1))
                      else Returns c) (\<lambda>c1.
               Returns (None, put_state key (currState\<lparr>ps_deadline := None, ps_pod := pod\<rparr>)
                 (set_assumed (removeAll key (sc_assumedPods c1)) c1)))
           else Returns (Some (''pod '' @ key @ '' was already in added state''), c)))"

definition cache_UpdatePod :: "runtime_env \<Rightarrow> Pod \<Rightarrow> Pod \<Rightarrow> schedulerCache \<Rightarrow> (string option \<times> schedulerCache) go_run" where
  "cache_UpdatePod env oldPod newPod c =
     (case GetPodKey oldPod of Inl err \<Rightarrow> Returns (Some err, c)
      | Inr key \<Rightarrow>
        (case gomap_get (sc_podStates c) key of
           None \<Rightarrow> Returns (Some (''pod '' @ key @ '' is not added to scheduler cache, so cannot be updated''), c)
         | Some currState \<Rightarrow>
           if key \<in> set (sc_assumedPods c)
           then Returns (Some (''pod '' @ key @ '' is not added to scheduler cache, so cannot be updated''), c)
           else if pod_NodeName (ps_pod currState) \<noteq> pod_NodeName newPod
           then Panics ''Schedulercache is corrupted and can badly affect scheduling decisions''
           else go_bind (cache_updatePod env oldPod newPod c) (\<lambda>(err, c1).
             Returns (if err \<noteq> None then (err, c1) else (None, put_state key (currState\<lparr>ps_pod := newPod\<rparr>) c1)))))"

definition cache_RemovePod :: "runtime_env \<Rightarrow> Pod \<Rightarrow> schedulerCache \<Rightarrow> (string option \<times> schedulerCache) go_run" where
  "cache_RemovePod env pod c =
     (case GetPodKey pod of Inl err \<Rightarrow> Returns (Some err, c)
      | Inr key \<Rightarrow>
        (case gomap_get (sc_podStates c) key of
           None \<Rightarrow> Returns (Some (''pod '' @ key @ '' is not found in scheduler cache, so cannot be removed from it''), c)
         | Some currState \<Rightarrow>
           if key \<in> set (sc_assumedPods c)
           then Returns (Some (''pod '' @ key @ '' is not found in scheduler cache, so cannot be removed from it''), c)
           else if pod_NodeName (ps_pod currState) \<noteq> pod_NodeName pod
           then Panics ''Schedulercache is corrupted and can badly affect scheduling decisions''
           else go_bind (cache_removePod env (ps_pod currState) c) (\<lambda>(err, c1).
             Returns (if err \<noteq> None then (err, c1) else (None, drop_state key c1)))))"

definition IsAssumedPod :: "Pod \<Rightarrow> schedulerCache \<Rightarrow> string + bool" where
  "IsAssumedPod pod c = map_sum id (\<lambda>key. key \<in> set (sc_assumedPods c)) (GetPodKey pod)"

definition cache_GetPod :: "Pod \<Rightarrow> schedulerCache \<Rightarrow> string + Pod" where
  "cache_GetPod pod c =
     (case GetPodKey pod of Inl err \<Rightarrow> Inl err
      | Inr key \<Rightarrow>
        (case gomap_get (sc_podStates c) key of
           None \<Rightarrow> Inl (''pod '' @ key @ '' does not exist in scheduler cache'')
         | Some podState \<Rightarrow> Inr (ps_pod podState)))"

definition expirePod :: "runtime_env \<Rightarrow> string \<Rightarrow> podState \<Rightarrow> schedulerCache \<Rightarrow> (string option \<times> schedulerCache) go_run" where
  "expirePod env key ps c =
     go_bind (cache_removePod env (ps_pod ps) c) (\<lambda>(err, c1).
       Returns (if err \<noteq> None then (err, c1)
         else (None, drop_state key (set_assumed (removeAll key (sc_assumedPods c1)) c1))))"

definition cleanup_step :: "runtime_env \<Rightarrow> int \<Rightarrow> string \<Rightarrow> schedulerCache \<Rightarrow> schedulerCache go_run" where
  "cleanup_step env now key c =
     (case gomap_get (sc_podStates c) key of
        None \<Rightarrow> Panics ''Key found in assumed set but not in podStates. Potentially a logical error.''
      | Some ps \<Rightarrow>
        if \<not> ps_bindingFinished ps then Returns c
        else case ps_deadline ps of None \<Rightarrow> Panics ''nil pointer dereference''
             | Some deadline \<Rightarrow>
                 if now > deadline then go_bind (expirePod env key ps c) (\<lambda>(_, c1). Returns c1) else Returns c)"

definition updateMetrics :: "schedulerCache \<Rightarrow> schedulerCache" where
  "updateMetrics c = c\<lparr>sc_metrics :=
     (int (length (sc_assumedPods c)), int (length (sc_podStates c)), int (length (sc_nodes c)))\<rparr>"

text \<open>The loop deletes at most the key it is at, so it visits the keys there were at the start.\<close>

definition cleanupAssumedPods :: "runtime_env \<Rightarrow> int \<Rightarrow> schedulerCache \<Rightarrow> schedulerCache go_run" where
  "cleanupAssumedPods env now c =
     go_bind (go_fold (cleanup_step env now) (sc_assumedPods c) c) (\<lambda>c1. Returns (updateMetrics c1))"

definition NodeCount :: "schedulerCache \<Rightarrow> nat" where
  "NodeCount c = length (sc_nodes c)"

definition PodCount :: "schedulerCache \<Rightarrow> nat" where
  "PodCount c = sum_list (map (\<lambda>(_, n). length (ni_Pods (it_info (item c n)))) (sc_nodes c))"

definition Dump :: "schedulerCache \<Rightarrow> (string, NodeInfo) gomap \<times> string list" where
  "Dump c = (map (\<lambda>(k, v). (k, NodeInfo_Clone (it_info (item c v)))) (sc_nodes c), sc_assumedPods c)"

section \<open>Images\<close>

definition createImageStateSummary :: "imageState \<Rightarrow> ImageStateSummary" where
  "createImageStateSummary state = \<lparr>iss_Size = is_size state, iss_NumNodes = int (length (is_nodes state))\<rparr>"

definition add_image :: "string \<Rightarrow> string \<times> int
    \<Rightarrow> (string, imageState) gomap \<times> (string, ImageStateSummary) gomap
    \<Rightarrow> (string, imageState) gomap \<times> (string, ImageStateSummary) gomap" where
  "add_image nodeName img acc =
     (case (img, acc) of ((name, sz), (imageStates, newSum)) \<Rightarrow>
      (let state = (case gomap_get imageStates name of
                      None \<Rightarrow> \<lparr>is_size = sz, is_nodes = [nodeName]\<rparr>
                    | Some state \<Rightarrow> state\<lparr>is_nodes := List.insert nodeName (is_nodes state)\<rparr>)
       in (gomap_set imageStates name state,
           if gomap_get newSum name = None then gomap_set newSum name (createImageStateSummary state) else newSum)))"

text \<open>Every name of every image of a node, with the size of the image.\<close>

definition node_image_names :: "Node \<Rightarrow> (string \<times> int) list" where
  "node_image_names node = concat (map (\<lambda>(names, sz). map (\<lambda>name. (name, sz)) names) (node_Images node))"

definition addNodeImageStates :: "Node \<Rightarrow> nat \<Rightarrow> schedulerCache \<Rightarrow> schedulerCache" where
  "addNodeImageStates node n c =
     (case fold (add_image (node_Name node)) (node_image_names node) (sc_imageStates c, []) of
        (imageStates, newSum) \<Rightarrow>
          set_info n (sc_gen c, (it_info (item c n))\<lparr>ni_ImageStates := newSum\<rparr>) (c\<lparr>sc_imageStates := imageStates\<rparr>))"

definition remove_image :: "string \<Rightarrow> string \<times> int \<Rightarrow> (string, imageState) gomap \<Rightarrow> (string, imageState) gomap" where
  "remove_image nodeName img imageStates =
     (case gomap_get imageStates (fst img) of None \<Rightarrow> imageStates
      | Some state \<Rightarrow>
        (let nodes = removeAll nodeName (is_nodes state)
         in if nodes = [] then gomap_delete imageStates (fst img)
            else gomap_set imageStates (fst img) (state\<lparr>is_nodes := nodes\<rparr>)))"

definition removeNodeImageStates :: "Node option \<Rightarrow> schedulerCache \<Rightarrow> schedulerCache" where
  "removeNodeImageStates node c =
     (case node of None \<Rightarrow> c
      | Some nd \<Rightarrow> c\<lparr>sc_imageStates := fold (remove_image (node_Name nd)) (node_image_names nd) (sc_imageStates c)\<rparr>)"

section \<open>Nodes\<close>

definition tree_update :: "(nodeTree \<Rightarrow> nodeTree) \<Rightarrow> schedulerCache \<Rightarrow> schedulerCache" where
  "tree_update f c = c\<lparr>sc_nodeTree := f (sc_nodeTree c)\<rparr>"

definition put_node :: "runtime_env \<Rightarrow> Node \<Rightarrow> nat \<Rightarrow> schedulerCache \<Rightarrow> schedulerCache" where
  "put_node env node n c =
     (let c1 = addNodeImageStates node n c in set_info n (SetNode env node (sc_gen c1, it_info (item c1 n))) c1)"

definition cache_AddNode :: "runtime_env \<Rightarrow> Node \<Rightarrow> schedulerCache \<Rightarrow> NodeInfo \<times> schedulerCache" where
  "cache_AddNode env node c =
     (let (n, c1) = (case gomap_get (sc_nodes c) (node_Name node) of
                       None \<Rightarrow> new_item env (node_Name node) c
                     | Some n \<Rightarrow> (n, removeNodeImageStates (ni_node (it_info (item c n))) c));
          c2 = moveNodeInfoToHead (node_Name node) c1;
          c3 = tree_update (addNode node) c2;
          c4 = put_node env node n c3
      in (NodeInfo_Clone (it_info (item c4 n)), c4))"

definition cache_UpdateNode :: "runtime_env \<Rightarrow> Node option \<Rightarrow> Node \<Rightarrow> schedulerCache \<Rightarrow> (NodeInfo \<times> schedulerCache) go_run" where
  "cache_UpdateNode env oldNode newNode c =
     (let (n, c1) = (case gomap_get (sc_nodes c) (node_Name newNode) of
                       None \<Rightarrow> (let (n, c') = new_item env (node_Name newNode) c in (n, tree_update (addNode newNode) c'))
                     | Some n \<Rightarrow> (n, removeNodeImageStates (ni_node (it_info (item c n))) c));
          c2 = moveNodeInfoToHead (node_Name newNode) c1
      in go_bind (updateNode oldNode newNode (sc_nodeTree c2)) (\<lambda>nt.
           let c3 = put_node env newNode n (c2\<lparr>sc_nodeTree := nt\<rparr>)
           in Returns (NodeInfo_Clone (it_info (item c3 n)), c3)))"

definition cache_RemoveNode :: "Node \<Rightarrow> schedulerCache \<Rightarrow> string option \<times> schedulerCache" where
  "cache_RemoveNode node c =
     (case gomap_get (sc_nodes c) (node_Name node) of
        None \<Rightarrow> (Some (''node '' @ node_Name node @ '' is not found''), c)
      | Some n \<Rightarrow>
        (let c1 = set_info n (RemoveNode (sc_gen c, it_info (item c n))) c;
             c2 = (if ni_Pods (it_info (item c1 n)) = [] then removeNodeInfoFromList (node_Name node) c1
                   else moveNodeInfoToHead (node_Name node) c1)
         in case removeNode node (sc_nodeTree c2) of
              (Some err, nt) \<Rightarrow> (Some err, c2\<lparr>sc_nodeTree := nt\<rparr>)
            | (None, nt) \<Rightarrow> (None, removeNodeImageStates (Some node) (c2\<lparr>sc_nodeTree := nt\<rparr>))))"

section \<open>Snapshots\<close>

record Snapshot =
  sn_nodeInfoMap :: "(string, nat) gomap"
  sn_nodeInfoList :: "nat list"
  sn_havePodsWithAffinityNodeInfoList :: "nat list"
  sn_havePodsWithRequiredAntiAffinityNodeInfoList :: "nat list"
  sn_generation :: int
  sn_infos :: "nat \<Rightarrow> NodeInfo"
  sn_fresh :: nat

definition NewEmptySnapshot :: Snapshot where
  "NewEmptySnapshot =
     \<lparr>sn_nodeInfoMap = [], sn_nodeInfoList = [], sn_havePodsWithAffinityNodeInfoList = [],
      sn_havePodsWithRequiredAntiAffinityNodeInfoList = [], sn_generation = 0,
      sn_infos = (\<lambda>_. blank_info), sn_fresh = 0\<rparr>"

record snapshot_flags =
  updateAllLists :: bool
  updateNodesHavePodsWithAffinity :: bool
  updateNodesHavePodsWithRequiredAntiAffinity :: bool

definition snapshot_node :: "NodeInfo \<Rightarrow> Snapshot \<times> snapshot_flags \<Rightarrow> Snapshot \<times> snapshot_flags" where
  "snapshot_node info sf =
     (case sf of (s, f) \<Rightarrow>
      case ni_node info of None \<Rightarrow> (s, f)
      | Some np \<Rightarrow>
        (let (existing, s1, f1) =
               (case gomap_get (sn_nodeInfoMap s) (node_Name np) of Some a \<Rightarrow> (a, s, f)
                | None \<Rightarrow> (sn_fresh s,
                    s\<lparr>sn_nodeInfoMap := gomap_set (sn_nodeInfoMap s) (node_Name np) (sn_fresh s),
                      sn_infos := (sn_infos s)(sn_fresh s := blank_info), sn_fresh := sn_fresh s + 1\<rparr>,
                    f\<lparr>updateAllLists := True\<rparr>));
             old = sn_infos s1 existing; clone = NodeInfo_Clone info;
             f2 = (if (ni_PodsWithAffinity old \<noteq> []) \<noteq> (ni_PodsWithAffinity clone \<noteq> [])
                   then f1\<lparr>updateNodesHavePodsWithAffinity := True\<rparr> else f1);
             f3 = (if (ni_PodsWithRequiredAntiAffinity old \<noteq> []) \<noteq> (ni_PodsWithRequiredAntiAffinity clone \<noteq> [])
                   then f2\<lparr>updateNodesHavePodsWithRequiredAntiAffinity := True\<rparr> else f2)
         in (s1\<lparr>sn_infos := (sn_infos s1)(existing := clone)\<rparr>, f3)))"

text \<open>The walk along the list; \<^const>\<open>None\<close> would mean that it does not end.\<close>

partial_function (option) snapshot_loop ::
  "schedulerCache \<Rightarrow> int \<Rightarrow> nat option \<Rightarrow> Snapshot \<times> snapshot_flags \<Rightarrow> (Snapshot \<times> snapshot_flags) option" where
  [code]: "snapshot_loop c snapshotGeneration node sf =
     (case node of None \<Rightarrow> Some sf
      | Some a \<Rightarrow>
          if ni_Generation (it_info (item c a)) \<le> snapshotGeneration then Some sf
          else snapshot_loop c snapshotGeneration (it_next (item c a)) (snapshot_node (it_info (item c a)) sf))"

definition have_affinity :: "Snapshot \<Rightarrow> nat list \<Rightarrow> nat list" where
  "have_affinity s xs = filter (\<lambda>a. ni_PodsWithAffinity (sn_infos s a) \<noteq> []) xs"

definition have_anti_affinity :: "Snapshot \<Rightarrow> nat list \<Rightarrow> nat list" where
  "have_anti_affinity s xs = filter (\<lambda>a. ni_PodsWithRequiredAntiAffinity (sn_infos s a) \<noteq> []) xs"

definition set_lists :: "nat list \<Rightarrow> Snapshot \<Rightarrow> Snapshot" where
  "set_lists xs s =
     s\<lparr>sn_nodeInfoList := xs, sn_havePodsWithAffinityNodeInfoList := have_affinity s xs,
       sn_havePodsWithRequiredAntiAffinityNodeInfoList := have_anti_affinity s xs\<rparr>"

definition updateNodeInfoSnapshotList :: "schedulerCache \<Rightarrow> Snapshot \<Rightarrow> bool \<Rightarrow> Snapshot go_run option" where
  "updateNodeInfoSnapshotList c s updateAll =
     (if tr_numNodes (sc_nodeTree c) < 0 then Some (Panics ''makeslice: cap out of range'')
      else if updateAll then
        loop_bind (tree_list (sc_nodeTree c)) (\<lambda>(nodesList, _).
          Some (Returns (set_lists (List.map_filter (gomap_get (sn_nodeInfoMap s)) nodesList) s)))
      else Some (Returns (set_lists (sn_nodeInfoList s) s)))"

fun remove_deleted :: "schedulerCache \<Rightarrow> string list \<Rightarrow> int \<Rightarrow> (string, nat) gomap \<Rightarrow> (string, nat) gomap" where
  "remove_deleted c [] toDelete m = m"
| "remove_deleted c (name # names) toDelete m =
     (if toDelete \<le> 0 then m
      else if (case gomap_get (sc_nodes c) name of None \<Rightarrow> True | Some n \<Rightarrow> ni_node (it_info (item c n)) = None)
      then remove_deleted c names (toDelete - 1) (gomap_delete m name)
      else remove_deleted c names toDelete m)"

definition removeDeletedNodesFromSnapshot :: "schedulerCache \<Rightarrow> Snapshot \<Rightarrow> Snapshot" where
  "removeDeletedNodesFromSnapshot c s =
     s\<lparr>sn_nodeInfoMap := remove_deleted c (map fst (sn_nodeInfoMap s))
         (int (length (sn_nodeInfoMap s)) - tr_numNodes (sc_nodeTree c)) (sn_nodeInfoMap s)\<rparr>"

definition inconsistent :: "schedulerCache \<Rightarrow> Snapshot \<Rightarrow> string" where
  "inconsistent c s =
     ''snapshot state is not consistent, length of NodeInfoList='' @ itoa (int (length (sn_nodeInfoList s)))
     @ '' not equal to length of nodes in tree='' @ itoa (tr_numNodes (sc_nodeTree c))
     @ '' , length of NodeInfoMap='' @ itoa (int (length (sn_nodeInfoMap s)))
     @ '', length of nodes in cache='' @ itoa (int (length (sc_nodes c))) @ '', trying to recover''"

definition UpdateSnapshot :: "schedulerCache \<Rightarrow> Snapshot \<Rightarrow> (string option \<times> Snapshot) go_run option" where
  "UpdateSnapshot c s =
     loop_bind (map_option Returns (snapshot_loop c (sn_generation s) (sc_headNode c)
         (s, \<lparr>updateAllLists = False, updateNodesHavePodsWithAffinity = False,
              updateNodesHavePodsWithRequiredAntiAffinity = False\<rparr>)))
       (\<lambda>(s1, f).
         let s2 = (case sc_headNode c of None \<Rightarrow> s1
                   | Some h \<Rightarrow> s1\<lparr>sn_generation := ni_Generation (it_info (item c h))\<rparr>);
             deleted = int (length (sn_nodeInfoMap s2)) > tr_numNodes (sc_nodeTree c);
             s3 = (if deleted then removeDeletedNodesFromSnapshot c s2 else s2);
             all = (updateAllLists f \<or> deleted)
         in loop_bind
              (if all \<or> updateNodesHavePodsWithAffinity f \<or> updateNodesHavePodsWithRequiredAntiAffinity f
               then updateNodeInfoSnapshotList c s3 all else Some (Returns s3))
              (\<lambda>s4.
                if int (length (sn_nodeInfoList s4)) \<noteq> tr_numNodes (sc_nodeTree c)
                then loop_bind (updateNodeInfoSnapshotList c s4 True) (\<lambda>s5. Some (Returns (Some (inconsistent c s4), s5)))
                else Some (Returns (None, s4))))"

definition NumNodes :: "Snapshot \<Rightarrow> nat" where
  "NumNodes s = length (sn_nodeInfoList s)"

definition Snapshot_List :: "Snapshot \<Rightarrow> NodeInfo list \<times> string option" where
  "Snapshot_List s = (map (sn_infos s) (sn_nodeInfoList s), None)"

definition HavePodsWithAffinityList :: "Snapshot \<Rightarrow> NodeInfo list \<times> string option" where
  "HavePodsWithAffinityList s = (map (sn_infos s) (sn_havePodsWithAffinityNodeInfoList s), None)"

definition HavePodsWithRequiredAntiAffinityList :: "Snapshot \<Rightarrow> NodeInfo list \<times> string option" where
  "HavePodsWithRequiredAntiAffinityList s = (map (sn_infos s) (sn_havePodsWithRequiredAntiAffinityNodeInfoList s), None)"

definition Snapshot_Get :: "Snapshot \<Rightarrow> string \<Rightarrow> string + NodeInfo" where
  "Snapshot_Get s nodeName =
     (case gomap_get (sn_nodeInfoMap s) nodeName of
        Some a \<Rightarrow> if ni_node (sn_infos s a) \<noteq> None then Inr (sn_infos s a)
                  else Inl (''nodeinfo not found for node name '' @ go_quote nodeName)
      | None \<Rightarrow> Inl (''nodeinfo not found for node name '' @ go_quote nodeName))"

text \<open>
  A snapshot built from lists of pods and nodes. The map is filled in the order of the pods and
  nodes; a range over it gives the lists in the order of the association list.
\<close>

definition createImageExistenceMap :: "Node list \<Rightarrow> (string, string list) gomap" where
  "createImageExistenceMap nodes =
     fold (\<lambda>node. fold (\<lambda>(name, _) m. gomap_set m name (List.insert (node_Name node) (get_or [] m name)))
       (node_image_names node)) nodes []"

definition getNodeImageStates :: "Node \<Rightarrow> (string, string list) gomap \<Rightarrow> (string, ImageStateSummary) gomap" where
  "getNodeImageStates node imageExistenceMap =
     fold (\<lambda>(name, sz) m. gomap_set m name
         \<lparr>iss_Size = sz, iss_NumNodes = int (length (get_or [] imageExistenceMap name))\<rparr>) (node_image_names node) []"

definition ensure_info :: "runtime_env \<Rightarrow> string \<Rightarrow> int \<times> (string, NodeInfo) gomap \<Rightarrow> int \<times> (string, NodeInfo) gomap" where
  "ensure_info env name gm =
     (case gm of (gen, m) \<Rightarrow>
      if gomap_get m name = None then (case NewNodeInfo env gen [] of (gen', n) \<Rightarrow> (gen', gomap_set m name n)) else gm)"

definition snapshot_pod :: "runtime_env \<Rightarrow> Pod \<Rightarrow> int \<times> (string, NodeInfo) gomap \<Rightarrow> int \<times> (string, NodeInfo) gomap" where
  "snapshot_pod env pod gm =
     (case ensure_info env (pod_NodeName pod) gm of (gen, m) \<Rightarrow>
      case AddPod env pod (gen, get_or blank_info m (pod_NodeName pod)) of (gen', n) \<Rightarrow>
        (gen', gomap_set m (pod_NodeName pod) n))"

definition snapshot_set_node :: "runtime_env \<Rightarrow> (string, string list) gomap \<Rightarrow> Node
    \<Rightarrow> int \<times> (string, NodeInfo) gomap \<Rightarrow> int \<times> (string, NodeInfo) gomap" where
  "snapshot_set_node env images node gm =
     (case ensure_info env (node_Name node) gm of (gen, m) \<Rightarrow>
      case SetNode env node (gen, get_or blank_info m (node_Name node)) of (gen', n) \<Rightarrow>
        (gen', gomap_set m (node_Name node) (n\<lparr>ni_ImageStates := getNodeImageStates node images\<rparr>)))"

definition createNodeInfoMap :: "runtime_env \<Rightarrow> int \<Rightarrow> Pod list \<Rightarrow> Node list \<Rightarrow> int \<times> (string, NodeInfo) gomap" where
  "createNodeInfoMap env gen pods nodes =
     fold (snapshot_set_node env (createImageExistenceMap nodes)) nodes (fold (snapshot_pod env) pods (gen, []))"

definition NewSnapshot :: "runtime_env \<Rightarrow> int \<Rightarrow> Pod list \<Rightarrow> Node list \<Rightarrow> int \<times> Snapshot" where
  "NewSnapshot env gen pods nodes =
     (case createNodeInfoMap env gen pods nodes of (gen', m) \<Rightarrow>
      (let n = length m;
           s = NewEmptySnapshot\<lparr>sn_nodeInfoMap := zip (map fst m) [0..<n],
                 sn_infos := (\<lambda>a. if a < n then snd (m ! a) else blank_info), sn_fresh := n\<rparr>
       in (gen', set_lists [0..<n] s)))"

end
