(* ===== verification/Cache_List.thy ===== *)
theory Cache_List
  imports Sched_Cache
begin

text \<open>
  The doubly linked list of the cache: the pointer operations on its items act on the list of
  addresses they thread together, moving one address to the front or taking it out, and change
  no NodeInfo.
\<close>

section \<open>Linked segments\<close>

text \<open>
  \<open>dseg f p h xs t l\<close>: from the pointer \<open>h\<close> the items \<open>xs\<close> follow each other up to the pointer
  \<open>t\<close>, each pointing back to the one before it; \<open>p\<close> comes before the first, \<open>l\<close> is the last.
\<close>

primrec dseg :: "(nat \<Rightarrow> nodeInfoListItem) \<Rightarrow> nat option \<Rightarrow> nat option \<Rightarrow> nat list \<Rightarrow> nat option \<Rightarrow> nat option \<Rightarrow> bool" where
  "dseg f p h [] t l \<longleftrightarrow> h = t \<and> l = p"
| "dseg f p h (a # as) t l \<longleftrightarrow> h = Some a \<and> it_prev (f a) = p \<and> dseg f (Some a) (it_next (f a)) as t l"

lemma dseg_append: "dseg f p h (xs @ ys) t l \<longleftrightarrow> (\<exists>m k. dseg f p h xs m k \<and> dseg f k m ys t l)"
  by (induction xs arbitrary: p h) auto

lemma dseg_cong:
  "(\<And>x. x \<in> set xs \<Longrightarrow> it_next (f x) = it_next (g x) \<and> it_prev (f x) = it_prev (g x)) \<Longrightarrow>
   dseg f p h xs t l = dseg g p h xs t l"
  by (induction xs arbitrary: p h) auto

lemma dseg_fun_upd [simp]: "a \<notin> set xs \<Longrightarrow> dseg (f(a := i)) p h xs t l = dseg f p h xs t l"
  by (rule dseg_cong) auto

lemma dseg_last: "dseg f p h (xs @ [a]) t l \<Longrightarrow> l = Some a \<and> it_next (f a) = t"
  by (auto simp: dseg_append)

text \<open>Redirecting the last item of a segment, and the first item of one.\<close>

lemma dseg_set_next:
  assumes "dseg f p h (xs @ [a]) t l" and "a \<notin> set xs" and "it_next i = t'" and "it_prev i = it_prev (f a)"
  shows "dseg (f(a := i)) p h (xs @ [a]) t' l"
  using assms by (auto simp: dseg_append)

lemma dseg_set_prev:
  assumes "dseg f p h (b # bs) t l" and "b \<notin> set bs" and "it_prev i = p'" and "it_next i = it_next (f b)"
  shows "dseg (f(b := i)) p' h (b # bs) t l"
  using assms by auto

section \<open>The list of a cache\<close>

definition list_ok :: "schedulerCache \<Rightarrow> nat list \<Rightarrow> bool" where
  "list_ok c xs \<longleftrightarrow> distinct xs \<and> (\<exists>l. dseg (sc_items c) None (sc_headNode c) xs None l)"

text \<open>A change of pointers only.\<close>

definition relinked :: "schedulerCache \<Rightarrow> schedulerCache \<Rightarrow> bool" where
  "relinked c c' \<longleftrightarrow>
     (\<exists>f h. c' = c\<lparr>sc_items := f, sc_headNode := h\<rparr> \<and> (\<forall>x. it_info (f x) = it_info (item c x)))"

lemma relinkedI:
  "c' = c\<lparr>sc_items := f, sc_headNode := h\<rparr> \<Longrightarrow> (\<And>x. it_info (f x) = it_info (item c x)) \<Longrightarrow> relinked c c'"
  unfolding relinked_def by blast

lemma relinked_refl [simp]: "relinked c c"
  by (rule relinkedI [where f = "sc_items c" and h = "sc_headNode c"]) simp_all

lemma relinked_trans:
  assumes "relinked a b" and "relinked b c"
  shows "relinked a c"
proof -
  obtain f h where b: "b = a\<lparr>sc_items := f, sc_headNode := h\<rparr>" "\<forall>x. it_info (f x) = it_info (item a x)"
    using assms(1) by (auto simp: relinked_def)
  obtain f' h' where c: "c = b\<lparr>sc_items := f', sc_headNode := h'\<rparr>" "\<forall>x. it_info (f' x) = it_info (item b x)"
    using assms(2) by (auto simp: relinked_def)
  show ?thesis by (rule relinkedI [where f = f' and h = h']) (use b c in simp_all)
qed

lemma relinked_fields:
  assumes "relinked c c'"
  shows "it_info (item c' x) = it_info (item c x)" "sc_nodes c' = sc_nodes c" "sc_gen c' = sc_gen c"
    "sc_fresh c' = sc_fresh c" "sc_nodeTree c' = sc_nodeTree c" "sc_podStates c' = sc_podStates c"
    "sc_assumedPods c' = sc_assumedPods c" "sc_imageStates c' = sc_imageStates c" "sc_ttl c' = sc_ttl c"
    "sc_metrics c' = sc_metrics c"
  using assms by (auto simp: relinked_def)

lemma relinked_set_next: "relinked c (set_next a v c)"
  by (rule relinkedI [where f = "(sc_items c)(a := (item c a)\<lparr>it_next := v\<rparr>)" and h = "sc_headNode c"]) (simp_all add: set_next_def)

lemma relinked_set_prev: "relinked c (set_prev a v c)"
  by (rule relinkedI [where f = "(sc_items c)(a := (item c a)\<lparr>it_prev := v\<rparr>)" and h = "sc_headNode c"]) (simp_all add: set_prev_def)

lemma relinked_head: "relinked c (c\<lparr>sc_headNode := h\<rparr>)"
  by (rule relinkedI [where f = "sc_items c" and h = h]) simp_all

lemma relinked_unlink: "relinked c (unlink a c)"
proof -
  define c1 where "c1 = (case it_prev (item c a) of None \<Rightarrow> c | Some p \<Rightarrow> set_next p (it_next (item c a)) c)"
  have "relinked c c1" by (simp add: c1_def relinked_set_next split: option.split)
  moreover have "relinked c1 (case it_next (item c1 a) of None \<Rightarrow> c1 | Some n \<Rightarrow> set_prev n (it_prev (item c1 a)) c1)"
    by (simp add: relinked_set_prev split: option.split)
  ultimately show ?thesis unfolding unlink_def Let_def c1_def [symmetric] by (rule relinked_trans)
qed

text \<open>Taking an item out leaves its own pointers as they were.\<close>

lemma unlink_list:
  assumes ok: "list_ok c (xs @ a # ys)"
  shows "\<exists>l. dseg (sc_items (unlink a c)) None (if xs = [] then it_next (item c a) else sc_headNode c) (xs @ ys) None l"
    and "it_next (item (unlink a c) a) = it_next (item c a)" and "sc_headNode (unlink a c) = sc_headNode c"
    and "xs = [] \<longleftrightarrow> sc_headNode c = Some a"
proof -
  have d: "distinct (xs @ a # ys)" using ok by (simp add: list_ok_def)
  obtain p l where xs: "dseg (sc_items c) None (sc_headNode c) xs (Some a) p" and p: "it_prev (item c a) = p"
    and ys: "dseg (sc_items c) (Some a) (it_next (item c a)) ys None l"
    using ok by (auto simp: list_ok_def dseg_append)
  define c1 where "c1 = (case it_prev (item c a) of None \<Rightarrow> c | Some q \<Rightarrow> set_next q (it_next (item c a)) c)"
  define n where "n = it_next (item c a)"
  have c1: "dseg (sc_items c1) None (if xs = [] then n else sc_headNode c) xs n p
      \<and> dseg (sc_items c1) (Some a) n ys None l \<and> item c1 a = item c a \<and> sc_headNode c1 = sc_headNode c"
  proof (cases xs rule: rev_cases)
    case Nil
    then show ?thesis using xs p ys by (simp add: c1_def n_def)
  next
    case (snoc zs q)
    then have q: "p = Some q" using dseg_last [of "sc_items c" None "sc_headNode c" zs q] xs by simp
    have "dseg ((sc_items c)(q := (item c q)\<lparr>it_next := n\<rparr>)) None (sc_headNode c) (zs @ [q]) n p"
      using xs d unfolding snoc by (intro dseg_set_next) auto
    then show ?thesis using d ys p q snoc by (auto simp: c1_def n_def set_next_def)
  qed
  have u: "unlink a c = (case n of None \<Rightarrow> c1 | Some m \<Rightarrow> set_prev m p c1)"
  proof -
    have "item c1 a = item c a" using c1 by blast
    then show ?thesis unfolding unlink_def Let_def c1_def [symmetric] n_def by (simp add: p split: option.split)
  qed
  have "\<exists>l. dseg (sc_items (unlink a c)) None (if xs = [] then n else sc_headNode c) (xs @ ys) None l
      \<and> it_next (item (unlink a c) a) = n \<and> sc_headNode (unlink a c) = sc_headNode c"
  proof (cases ys)
    case Nil
    then have "n = None" using c1 by simp
    then show ?thesis using c1 Nil by (auto simp: u n_def)
  next
    case (Cons m zs)
    then have m: "n = Some m" using c1 by simp
    have "dseg ((sc_items c1)(m := (item c1 m)\<lparr>it_prev := p\<rparr>)) p n (m # zs) None l"
      using c1 d unfolding Cons by (intro dseg_set_prev) auto
    moreover have "m \<notin> set xs" "m \<noteq> a" using d Cons by auto
    ultimately show ?thesis using c1 m Cons
      by (auto simp: u set_prev_def dseg_append n_def intro!: exI [of _ l])
  qed
  then show "\<exists>l. dseg (sc_items (unlink a c)) None (if xs = [] then it_next (item c a) else sc_headNode c) (xs @ ys) None l"
    and "it_next (item (unlink a c) a) = it_next (item c a)" and "sc_headNode (unlink a c) = sc_headNode c"
    by (auto simp: n_def)
  show "xs = [] \<longleftrightarrow> sc_headNode c = Some a" using xs d by (cases xs) auto
qed

lemma moveNodeInfoToHead_relinked: "relinked c (moveNodeInfoToHead name c)"
proof (cases "gomap_get (sc_nodes c) name")
  case None
  then show ?thesis by (simp add: moveNodeInfoToHead_def)
next
  case (Some ni)
  define c1 where "c1 = unlink ni c"
  define c2 where "c2 = (case sc_headNode c1 of None \<Rightarrow> c1 | Some h \<Rightarrow> set_prev h (Some ni) c1)"
  have "relinked c1 c2" by (simp add: c2_def relinked_set_prev split: option.split)
  then have "relinked c c2" using relinked_unlink [of c ni] c1_def relinked_trans by blast
  then have "relinked c ((set_prev ni None (set_next ni (sc_headNode c2) c2))\<lparr>sc_headNode := Some ni\<rparr>)"
    using relinked_trans relinked_set_next relinked_set_prev relinked_head by meson
  then show ?thesis
    unfolding moveNodeInfoToHead_def Let_def Some option.case c1_def [symmetric] c2_def [symmetric] by simp
qed

text \<open>The effect of making an unlinked item the head.\<close>

lemma push_head:
  assumes seg: "dseg (sc_items c) None h xs None l" and "distinct xs" and a: "a \<notin> set xs" and h: "sc_headNode c = h"
  defines "c2 \<equiv> (case sc_headNode c of None \<Rightarrow> c | Some h \<Rightarrow> set_prev h (Some a) c)"
  shows "list_ok ((set_prev a None (set_next a (sc_headNode c2) c2))\<lparr>sc_headNode := Some a\<rparr>) (a # xs)"
proof -
  have "dseg (sc_items c2) (Some a) h xs None (if xs = [] then Some a else l) \<and> sc_headNode c2 = h"
  proof (cases xs)
    case Nil
    then show ?thesis using seg h by (simp add: c2_def)
  next
    case (Cons b bs)
    then have "h = Some b" "b \<notin> set bs" using seg assms(2) by auto
    then show ?thesis using seg h Cons by (auto simp: c2_def set_prev_def)
  qed
  moreover define c3 where "c3 = set_prev a None (set_next a (sc_headNode c2) c2)"
  moreover have "it_next (item c3 a) = sc_headNode c2" "it_prev (item c3 a) = None"
    by (simp_all add: c3_def set_prev_def set_next_def)
  moreover have "dseg (sc_items c3) p q xs t k = dseg (sc_items c2) p q xs t k" for p q t k
    using a by (simp add: c3_def set_prev_def set_next_def)
  ultimately show ?thesis using a assms(2) unfolding list_ok_def by auto
qed

text \<open>An item that is not in the list yet points nowhere.\<close>

definition detached :: "schedulerCache \<Rightarrow> nat \<Rightarrow> bool" where
  "detached c a \<longleftrightarrow> it_next (item c a) = None \<and> it_prev (item c a) = None"

lemma moveNodeInfoToHead_list:
  assumes ok: "list_ok c xs" and a: "gomap_get (sc_nodes c) name = Some a" and "a \<in> set xs \<or> detached c a"
  shows "list_ok (moveNodeInfoToHead name c) (a # remove1 a xs)"
proof (cases "sc_headNode c = Some a")
  case True
  show ?thesis
  proof (cases xs)
    case Nil
    then show ?thesis using ok True by (simp add: list_ok_def)
  next
    case (Cons b bs)
    then have "b = a" using ok True by (auto simp: list_ok_def)
    then show ?thesis using ok a True Cons by (simp add: moveNodeInfoToHead_def)
  qed
next
  case False
  have move: "moveNodeInfoToHead name c = (let c2 = (case sc_headNode (unlink a c) of None \<Rightarrow> unlink a c
        | Some h \<Rightarrow> set_prev h (Some a) (unlink a c))
      in (set_prev a None (set_next a (sc_headNode c2) c2))\<lparr>sc_headNode := Some a\<rparr>)"
    using a False by (simp add: moveNodeInfoToHead_def Let_def)
  have "\<exists>l. dseg (sc_items (unlink a c)) None (sc_headNode (unlink a c)) (remove1 a xs) None l"
  proof (cases "a \<in> set xs")
    case True
    then obtain ys zs where xs: "xs = ys @ a # zs" "a \<notin> set ys" using split_list_first by metis
    have ok': "list_ok c (ys @ a # zs)" using ok xs by simp
    show ?thesis using unlink_list [OF ok'] False xs by (auto simp: remove1_append)
  next
    case False
    then have "unlink a c = c" using assms(3) by (simp add: unlink_def detached_def)
    then show ?thesis using ok False by (auto simp: list_ok_def remove1_idem)
  qed
  then obtain l where "dseg (sc_items (unlink a c)) None (sc_headNode (unlink a c)) (remove1 a xs) None l" by blast
  moreover have "distinct (remove1 a xs)" "a \<notin> set (remove1 a xs)" using ok by (auto simp: list_ok_def)
  ultimately show ?thesis unfolding move Let_def by (rule push_head) simp
qed

lemma removeNodeInfoFromList_list:
  assumes ok: "list_ok c xs" and a: "gomap_get (sc_nodes c) name = Some a" and mem: "a \<in> set xs"
  shows "list_ok (removeNodeInfoFromList name c) (remove1 a xs)"
    and "\<exists>c1. relinked c c1 \<and> removeNodeInfoFromList name c = c1\<lparr>sc_nodes := gomap_delete (sc_nodes c) name\<rparr>"
proof -
  obtain ys zs where xs: "xs = ys @ a # zs" "a \<notin> set ys" using split_list_first [OF mem] by metis
  have ok': "list_ok c (ys @ a # zs)" using ok xs by simp
  note u = unlink_list [OF ok']
  define c2 where "c2 = (if sc_headNode c = Some a then (unlink a c)\<lparr>sc_headNode := it_next (item c a)\<rparr> else unlink a c)"
  have rm: "removeNodeInfoFromList name c = c2\<lparr>sc_nodes := gomap_delete (sc_nodes c) name\<rparr>"
    using a relinked_fields(2) [OF relinked_unlink [of c a]]
    by (simp add: removeNodeInfoFromList_def Let_def c2_def u(2,3))
  have "sc_items c2 = sc_items (unlink a c)" "sc_headNode c2 = (if ys = [] then it_next (item c a) else sc_headNode c)"
    using u(3,4) by (simp_all add: c2_def)
  moreover have "distinct (ys @ zs)" using ok xs by (simp add: list_ok_def)
  ultimately show "list_ok (removeNodeInfoFromList name c) (remove1 a xs)"
    using u(1) xs by (simp add: list_ok_def rm remove1_append)
  have "relinked c c2" unfolding c2_def using relinked_unlink relinked_head relinked_trans by (metis (full_types))
  then show "\<exists>c1. relinked c c1 \<and> removeNodeInfoFromList name c = c1\<lparr>sc_nodes := gomap_delete (sc_nodes c) name\<rparr>"
    using rm by blast
qed

lemma set_info_list [simp]: "list_ok (set_info a gn c) xs = list_ok c xs"
proof -
  have "dseg (sc_items (set_info a gn c)) p h ys t l = dseg (sc_items c) p h ys t l" for p h ys t l
    by (rule dseg_cong) (simp add: set_info_def)
  then show ?thesis by (simp add: list_ok_def) (simp add: set_info_def)
qed

text \<open>Items outside the list are not touched.\<close>

lemma unlink_outside:
  assumes ok: "list_ok c xs" and a: "a \<in> set xs \<or> detached c a" and b: "b \<notin> set xs"
  shows "item (unlink a c) b = item c b"
proof (cases "a \<in> set xs")
  case False
  then show ?thesis using a by (simp add: unlink_def detached_def)
next
  case True
  then obtain ys zs where xs: "xs = ys @ a # zs" "a \<notin> set ys" using split_list_first by metis
  obtain p l where seg: "dseg (sc_items c) None (sc_headNode c) ys (Some a) p" "it_prev (item c a) = p"
    "dseg (sc_items c) (Some a) (it_next (item c a)) zs None l"
    using ok xs by (auto simp: list_ok_def dseg_append)
  have "p = None \<or> (\<exists>q. p = Some q \<and> q \<in> set ys)"
    using seg(1) by (cases ys rule: rev_cases) (auto dest: dseg_last)
  moreover have "it_next (item c a) = None \<or> (\<exists>q. it_next (item c a) = Some q \<and> q \<in> set zs)"
    using seg(3) by (cases zs) auto
  ultimately show ?thesis
    using b xs seg(2) by (auto simp: unlink_def set_next_def set_prev_def split: option.split)
qed

lemma moveNodeInfoToHead_outside:
  assumes ok: "list_ok c xs" and nm: "gomap_get (sc_nodes c) nm = Some a" and a: "a \<in> set xs \<or> detached c a"
    and b: "b \<notin> set xs" "b \<noteq> a"
  shows "item (moveNodeInfoToHead nm c) b = item c b"
proof -
  have u: "item (unlink a c) b = item c b" by (rule unlink_outside [OF ok a b(1)])
  have "sc_headNode (unlink a c) = sc_headNode c"
    by (simp add: unlink_def set_next_def set_prev_def Let_def split: option.split)
  moreover have "sc_headNode c \<noteq> Some b" using ok b(1) by (cases xs) (auto simp: list_ok_def)
  ultimately show ?thesis
    using nm b u by (auto simp: moveNodeInfoToHead_def Let_def set_next_def set_prev_def split: option.split)
qed

end
