(* ===== verification/Cache_Inv.thy ===== *)
theory Cache_Inv
  imports Cache_List
begin

text \<open>
  The invariant of the scheduler cache: the linked list threads exactly the items of the node map,
  generations fall strictly along it, and the node tree holds exactly the nodes that are present.
  The changes of single NodeInfos that all operations are made of keep it.
\<close>

section \<open>Structure\<close>

abbreviation igen :: "schedulerCache \<Rightarrow> nat \<Rightarrow> int" where
  "igen c a \<equiv> ni_Generation (it_info (item c a))"

text \<open>The items of the map are those of the list and, while an operation runs, a detached new one.\<close>

definition cache_struct :: "schedulerCache \<Rightarrow> nat list \<Rightarrow> nat set \<Rightarrow> bool" where
  "cache_struct c xs B \<longleftrightarrow>
     list_ok c xs \<and> gomap_ok (sc_nodes c) \<and> distinct (map snd (sc_nodes c))
     \<and> set (map snd (sc_nodes c)) = set xs \<union> B \<and> set xs \<inter> B = {}
     \<and> (\<forall>a\<in>B. detached c a) \<and> (\<forall>a\<in>set xs \<union> B. a < sc_fresh c)"

definition gens_ok :: "schedulerCache \<Rightarrow> nat list \<Rightarrow> bool" where
  "gens_ok c xs \<longleftrightarrow>
     sorted_wrt (\<lambda>a b. igen c b < igen c a) xs \<and> (\<forall>a\<in>set xs. 1 \<le> igen c a \<and> igen c a \<le> sc_gen c) \<and> 0 \<le> sc_gen c"

text \<open>The NodeInfo of a name.\<close>

definition cinfo :: "schedulerCache \<Rightarrow> string \<Rightarrow> NodeInfo option" where
  "cinfo c nm = map_option (\<lambda>a. it_info (item c a)) (gomap_get (sc_nodes c) nm)"

lemma gomap_get_mem: "gomap_get m k = Some v \<Longrightarrow> v \<in> set (map snd m)"
  using map_of_SomeD by force

lemma gomap_value_inj:
  assumes "distinct (map snd m)" and "gomap_get m k = Some v" and "gomap_get m k' = Some v"
  shows "k = k'"
proof -
  have "(k, v) \<in> set m" "(k', v) \<in> set m" using assms(2,3) by (auto dest: map_of_SomeD)
  then show ?thesis using inj_onD [of snd "set m" "(k, v)" "(k', v)"] assms(1) by (auto simp: distinct_map)
qed

lemma struct_mem:
  "cache_struct c xs B \<Longrightarrow> gomap_get (sc_nodes c) nm = Some a \<Longrightarrow> a \<in> set xs \<union> B \<and> a < sc_fresh c"
  using gomap_get_mem [of "sc_nodes c" nm a] by (simp add: cache_struct_def)

lemma struct_set_info [simp]: "cache_struct (set_info a gn c) xs B = cache_struct c xs B"
proof -
  have "sc_nodes (set_info a gn c) = sc_nodes c" "sc_fresh (set_info a gn c) = sc_fresh c"
    "detached (set_info a gn c) b = detached c b" for b
    by (simp_all add: set_info_def detached_def)
  then show ?thesis by (simp add: cache_struct_def)
qed

lemma cinfo_set_info:
  assumes "cache_struct c xs B" and "gomap_get (sc_nodes c) nm = Some a"
  shows "cinfo (set_info a gn c) = (cinfo c)(nm := Some (snd gn))"
proof
  fix nm'
  have d: "distinct (map snd (sc_nodes c))" using assms(1) by (simp add: cache_struct_def)
  show "cinfo (set_info a gn c) nm' = ((cinfo c)(nm := Some (snd gn))) nm'"
  proof (cases "gomap_get (sc_nodes c) nm'")
    case None
    then show ?thesis using assms(2) by (auto simp: cinfo_def set_info_def)
  next
    case (Some b)
    then show ?thesis using assms(2) gomap_value_inj [OF d Some, of nm] by (auto simp: cinfo_def set_info_def)
  qed
qed

lemma cinfo_relinked: "relinked c c' \<Longrightarrow> cinfo c' = cinfo c"
  by (rule ext) (simp add: cinfo_def relinked_fields)

lemma struct_move:
  assumes s: "cache_struct c xs B" and a: "gomap_get (sc_nodes c) nm = Some a"
  shows "cache_struct (moveNodeInfoToHead nm c) (a # remove1 a xs) (B - {a})"
    and "cinfo (moveNodeInfoToHead nm c) = cinfo c"
proof -
  have ok: "list_ok c xs" and fresh: "\<forall>a\<in>set xs \<union> B. a < sc_fresh c" and mem: "a \<in> set xs \<union> B" "a \<notin> set xs \<or> a \<notin> B"
    and det: "\<forall>a\<in>B. detached c a"
    using s struct_mem [OF s a] by (auto simp: cache_struct_def)
  have r: "relinked c (moveNodeInfoToHead nm c)" by (rule moveNodeInfoToHead_relinked)
  have d: "distinct xs" using ok by (simp add: list_ok_def)
  have here: "a \<in> set xs \<or> detached c a" using mem(1) det by blast
  have B: "detached (moveNodeInfoToHead nm c) b" if "b \<in> B - {a}" for b
  proof -
    have "b \<notin> set xs" "b \<noteq> a" "detached c b" using that s det by (auto simp: cache_struct_def)
    then show ?thesis using moveNodeInfoToHead_outside [OF ok a here, of b] by (simp add: detached_def)
  qed
  show "cache_struct (moveNodeInfoToHead nm c) (a # remove1 a xs) (B - {a})"
    unfolding cache_struct_def relinked_fields(2,4) [OF r]
  proof (intro conjI)
    show "list_ok (moveNodeInfoToHead nm c) (a # remove1 a xs)"
      by (rule moveNodeInfoToHead_list [OF ok a here])
    show "set (map snd (sc_nodes c)) = set (a # remove1 a xs) \<union> (B - {a})"
      using s mem d by (auto simp: cache_struct_def)
    show "set (a # remove1 a xs) \<inter> (B - {a}) = {}" using s d by (auto simp: cache_struct_def)
    show "\<forall>x\<in>set (a # remove1 a xs) \<union> (B - {a}). x < sc_fresh c" using fresh mem d by auto
    show "\<forall>b\<in>B - {a}. detached (moveNodeInfoToHead nm c) b" using B by blast
  qed (use s in \<open>simp_all add: cache_struct_def\<close>)
  show "cinfo (moveNodeInfoToHead nm c) = cinfo c" by (rule cinfo_relinked [OF r])
qed

lemma struct_new_item:
  assumes s: "cache_struct c xs {}" and nm: "gomap_get (sc_nodes c) nm = None" and n: "new_item env nm c = (a, c')"
  shows "cache_struct c' xs {a}" and "gomap_get (sc_nodes c') nm = Some a" and "a \<notin> set xs"
    and "cinfo c' = (cinfo c)(nm := Some (snd (NewNodeInfo env (sc_gen c) [])))"
    and "sc_gen c' = fst (NewNodeInfo env (sc_gen c) [])" and "\<And>x. x \<noteq> a \<Longrightarrow> item c' x = item c x"
    and "it_info (item c' a) = snd (NewNodeInfo env (sc_gen c) [])"
    and "sc_nodeTree c' = sc_nodeTree c" "sc_podStates c' = sc_podStates c" "sc_assumedPods c' = sc_assumedPods c"
proof -
  have a: "a = sc_fresh c" and c': "c' = c\<lparr>sc_nodes := gomap_set (sc_nodes c) nm a,
      sc_items := (sc_items c)(a := newNodeInfoListItem (snd (NewNodeInfo env (sc_gen c) []))),
      sc_fresh := a + 1, sc_gen := fst (NewNodeInfo env (sc_gen c) [])\<rparr>"
    using n by (auto simp: new_item_def Let_def)
  have fresh: "a \<notin> set (map snd (sc_nodes c))" using s a by (auto simp: cache_struct_def)
  then show "a \<notin> set xs" using s by (auto simp: cache_struct_def)
  have nodes: "sc_nodes c' = sc_nodes c @ [(nm, a)]"
  proof -
    have "gomap_get m nm = None \<Longrightarrow> gomap_set m nm a = m @ [(nm, a)]" for m
      by (induction m nm a rule: gomap_set.induct) (auto split: if_splits)
    then show ?thesis using nm by (simp add: c')
  qed
  have "list_ok c' xs"
  proof -
    have "dseg (sc_items c') p h xs t l = dseg (sc_items c) p h xs t l" for p h t l
      using \<open>a \<notin> set xs\<close> by (simp add: c')
    then show ?thesis using s by (simp add: cache_struct_def list_ok_def c')
  qed
  moreover have "gomap_ok (sc_nodes c')" using s by (simp add: cache_struct_def c' gomap_ok_set)
  moreover have "distinct (map snd (sc_nodes c'))" "set (map snd (sc_nodes c')) = set xs \<union> {a}"
    using s fresh unfolding nodes by (auto simp: cache_struct_def)
  moreover have "detached c' a" by (simp add: c' detached_def newNodeInfoListItem_def)
  moreover have "\<forall>x\<in>set xs \<union> {a}. x < sc_fresh c'" using s by (auto simp: cache_struct_def c' a)
  ultimately show "cache_struct c' xs {a}" using \<open>a \<notin> set xs\<close> by (simp add: cache_struct_def)
  show "cinfo c' = (cinfo c)(nm := Some (snd (NewNodeInfo env (sc_gen c) [])))"
  proof
    fix nm'
    show "cinfo c' nm' = ((cinfo c)(nm := Some (snd (NewNodeInfo env (sc_gen c) [])))) nm'"
    proof (cases "nm' = nm")
      case True
      then show ?thesis by (simp add: cinfo_def c' newNodeInfoListItem_def)
    next
      case False
      then have "gomap_get (sc_nodes c') nm' = gomap_get (sc_nodes c) nm'" by (simp add: c')
      moreover have "gomap_get (sc_nodes c) nm' \<noteq> Some a" using fresh gomap_get_mem by metis
      ultimately show ?thesis using False by (cases "gomap_get (sc_nodes c) nm'") (auto simp: cinfo_def c')
    qed
  qed
qed (use n in \<open>auto simp: new_item_def Let_def newNodeInfoListItem_def\<close>)

lemma struct_remove:
  assumes s: "cache_struct c xs {}" and a: "gomap_get (sc_nodes c) nm = Some a"
  shows "cache_struct (removeNodeInfoFromList nm c) (remove1 a xs) {}"
    and "cinfo (removeNodeInfoFromList nm c) = (cinfo c)(nm := None)"
    and "\<And>x. it_info (item (removeNodeInfoFromList nm c) x) = it_info (item c x)"
    and "sc_gen (removeNodeInfoFromList nm c) = sc_gen c" "sc_nodeTree (removeNodeInfoFromList nm c) = sc_nodeTree c"
    "sc_podStates (removeNodeInfoFromList nm c) = sc_podStates c" "sc_assumedPods (removeNodeInfoFromList nm c) = sc_assumedPods c"
proof -
  have ok: "list_ok c xs" and mem: "a \<in> set xs" using s struct_mem [OF s a] by (auto simp: cache_struct_def)
  obtain c1 where r: "relinked c c1" and rm: "removeNodeInfoFromList nm c = c1\<lparr>sc_nodes := gomap_delete (sc_nodes c) nm\<rparr>"
    using removeNodeInfoFromList_list(2) [OF ok a mem] by blast
  note f = relinked_fields [OF r]
  have "list_ok (removeNodeInfoFromList nm c) (remove1 a xs)" by (rule removeNodeInfoFromList_list(1) [OF ok a mem])
  moreover have "gomap_ok (gomap_delete (sc_nodes c) nm)" using s by (simp add: cache_struct_def gomap_ok_delete)
  moreover have d: "distinct (map snd (sc_nodes c))" using s by (simp add: cache_struct_def)
  then have "distinct (map snd (gomap_delete (sc_nodes c) nm))"
    unfolding gomap_delete_def by (rule distinct_map_filter)
  moreover have "set (map snd (gomap_delete (sc_nodes c) nm)) = set xs - {a}"
  proof -
    have "set (map snd (sc_nodes c)) = set xs" using s by (simp add: cache_struct_def)
    moreover have "(nm, a) \<in> set (sc_nodes c)" using a by (rule map_of_SomeD)
    moreover have "inj_on snd (set (sc_nodes c))" using d by (simp add: distinct_map)
    moreover have "gomap_ok (sc_nodes c)" using s by (simp add: cache_struct_def)
    ultimately show ?thesis
      unfolding gomap_delete_def gomap_ok_def by (fastforce simp: inj_on_def distinct_map)
  qed
  moreover have "distinct xs" using ok by (simp add: list_ok_def)
  ultimately show "cache_struct (removeNodeInfoFromList nm c) (remove1 a xs) {}"
    using s unfolding cache_struct_def by (simp add: rm f)
  show "cinfo (removeNodeInfoFromList nm c) = (cinfo c)(nm := None)"
    by (rule ext) (simp add: rm f cinfo_def)
  show "it_info (item (removeNodeInfoFromList nm c) x) = it_info (item c x)" for x by (simp add: rm f)
  show "sc_gen (removeNodeInfoFromList nm c) = sc_gen c" "sc_nodeTree (removeNodeInfoFromList nm c) = sc_nodeTree c"
    "sc_podStates (removeNodeInfoFromList nm c) = sc_podStates c" "sc_assumedPods (removeNodeInfoFromList nm c) = sc_assumedPods c"
    by (simp_all add: rm f)
qed

lemma sorted_wrt_remove1: "sorted_wrt R xs \<Longrightarrow> sorted_wrt R (remove1 a xs)"
  by (induction xs) (auto dest: notin_set_remove1)

lemma gens_touch:
  assumes g: "gens_ok c xs" and d: "distinct xs" and new: "igen c' a = sc_gen c'" "sc_gen c < sc_gen c'"
    and same: "\<And>x. x \<in> set xs \<Longrightarrow> x \<noteq> a \<Longrightarrow> igen c' x = igen c x"
  shows "gens_ok c' (a # remove1 a xs)"
proof -
  have "sorted_wrt (\<lambda>a b. igen c b < igen c a) (remove1 a xs)"
    using g by (simp add: gens_ok_def sorted_wrt_remove1)
  then have "sorted_wrt (\<lambda>a b. igen c' b < igen c' a) (remove1 a xs)"
    by (rule sorted_wrt_mono_rel [rotated]) (use d same in auto)
  moreover have "igen c' x < sc_gen c' \<and> 1 \<le> igen c' x" if "x \<in> set (remove1 a xs)" for x
    using g d new same [of x] that by (fastforce simp: gens_ok_def)
  ultimately show ?thesis using g new unfolding gens_ok_def by (auto simp: less_imp_le)
qed

lemma gens_remove:
  assumes "gens_ok c xs" and "\<And>x. x \<in> set (remove1 a xs) \<Longrightarrow> igen c' x = igen c x" and "sc_gen c \<le> sc_gen c'"
  shows "gens_ok c' (remove1 a xs)"
proof -
  have "sorted_wrt (\<lambda>a b. igen c b < igen c a) (remove1 a xs)"
    using assms(1) by (simp add: gens_ok_def sorted_wrt_remove1)
  then have "sorted_wrt (\<lambda>a b. igen c' b < igen c' a) (remove1 a xs)"
    by (rule sorted_wrt_mono_rel [rotated]) (use assms(2) in auto)
  then show ?thesis using assms set_remove1_subset [of a xs] by (fastforce simp: gens_ok_def)
qed

section \<open>Nodes and pods\<close>

definition present :: "schedulerCache \<Rightarrow> string \<Rightarrow> bool" where
  "present c nm \<longleftrightarrow> (\<exists>info. cinfo c nm = Some info \<and> ni_node info \<noteq> None)"

text \<open>The node tree holds the names of the present nodes, each in the zone of its node.\<close>

definition tree_inv :: "schedulerCache \<Rightarrow> bool" where
  "tree_inv c \<longleftrightarrow>
     tree_ok (sc_nodeTree c) \<and> set (tree_names (sc_nodeTree c)) = {nm. present c nm}
     \<and> (\<forall>nm info nd. cinfo c nm = Some info \<longrightarrow> ni_node info = Some nd \<longrightarrow>
          node_Name nd = nm \<and> nm \<in> set (zone_nodes (sc_nodeTree c) (GetZoneKey nd)))"

definition base_inv :: "schedulerCache \<Rightarrow> bool" where
  "base_inv c \<longleftrightarrow> (\<exists>xs. cache_struct c xs {} \<and> gens_ok c xs) \<and> tree_inv c"

text \<open>What a change of the cache may do to NodeInfos that a snapshot has copied.\<close>

definition evolves :: "schedulerCache \<Rightarrow> schedulerCache \<Rightarrow> bool" where
  "evolves c c' \<longleftrightarrow>
     sc_gen c \<le> sc_gen c' \<and>
     (\<forall>nm info. cinfo c' nm = Some info \<longrightarrow> cinfo c nm = Some info \<or> sc_gen c < ni_Generation info)"

lemma evolves_refl [simp]: "evolves c c"
  by (simp add: evolves_def)

lemma evolves_trans:
  assumes "evolves a b" and "evolves b c"
  shows "evolves a c"
  unfolding evolves_def
proof (intro conjI allI impI)
  show "sc_gen a \<le> sc_gen c" using assms by (simp add: evolves_def)
  fix nm info assume "cinfo c nm = Some info"
  then consider "cinfo b nm = Some info" | "sc_gen b < ni_Generation info" using assms(2) unfolding evolves_def by blast
  then show "cinfo a nm = Some info \<or> sc_gen a < ni_Generation info"
    using assms(1) unfolding evolves_def by cases (blast, linarith)
qed

text \<open>The keys of the pods on a node.\<close>

definition uids :: "schedulerCache \<Rightarrow> string \<Rightarrow> string list" where
  "uids c nm = (case cinfo c nm of None \<Rightarrow> [] | Some info \<Rightarrow> map (pod_UID \<circ> pi_Pod) (ni_Pods info))"

lemma frame [simp]:
  "cache_struct (c\<lparr>sc_nodeTree := t\<rparr>) xs B = cache_struct c xs B" "cinfo (c\<lparr>sc_nodeTree := t\<rparr>) = cinfo c"
  "cache_struct (c\<lparr>sc_imageStates := is\<rparr>) xs B = cache_struct c xs B" "cinfo (c\<lparr>sc_imageStates := is\<rparr>) = cinfo c"
  "cache_struct (c\<lparr>sc_podStates := ps\<rparr>) xs B = cache_struct c xs B" "cinfo (c\<lparr>sc_podStates := ps\<rparr>) = cinfo c"
  "cache_struct (c\<lparr>sc_assumedPods := ks\<rparr>) xs B = cache_struct c xs B" "cinfo (c\<lparr>sc_assumedPods := ks\<rparr>) = cinfo c"
  "cache_struct (c\<lparr>sc_metrics := m\<rparr>) xs B = cache_struct c xs B" "cinfo (c\<lparr>sc_metrics := m\<rparr>) = cinfo c"
  by (simp_all add: cache_struct_def list_ok_def detached_def cinfo_def fun_eq_iff)

lemma gens_frame [simp]:
  "gens_ok (c\<lparr>sc_nodeTree := t\<rparr>) xs = gens_ok c xs" "gens_ok (c\<lparr>sc_imageStates := is\<rparr>) xs = gens_ok c xs"
  "gens_ok (c\<lparr>sc_podStates := ps\<rparr>) xs = gens_ok c xs" "gens_ok (c\<lparr>sc_assumedPods := ks\<rparr>) xs = gens_ok c xs"
  "gens_ok (c\<lparr>sc_metrics := m\<rparr>) xs = gens_ok c xs"
  by (simp_all add: gens_ok_def)

text \<open>Changes of the pod states, the assumed set and the metrics do not matter here.\<close>

lemma base_frame [simp]:
  "base_inv (c\<lparr>sc_podStates := ps\<rparr>) = base_inv c" "base_inv (c\<lparr>sc_assumedPods := ks\<rparr>) = base_inv c"
  "base_inv (c\<lparr>sc_metrics := m\<rparr>) = base_inv c" "base_inv (c\<lparr>sc_imageStates := is\<rparr>) = base_inv c"
  by (simp_all add: base_inv_def tree_inv_def present_def)

lemma evolves_frame [simp]:
  "evolves c (c'\<lparr>sc_podStates := ps\<rparr>) = evolves c c'" "evolves c (c'\<lparr>sc_assumedPods := ks\<rparr>) = evolves c c'"
  "evolves c (c'\<lparr>sc_metrics := m\<rparr>) = evolves c c'" "evolves c (c'\<lparr>sc_imageStates := is\<rparr>) = evolves c c'"
  "evolves c (c'\<lparr>sc_nodeTree := t\<rparr>) = evolves c c'"
  by (simp_all add: evolves_def)

lemma uids_frame [simp]:
  "uids (c\<lparr>sc_podStates := ps\<rparr>) = uids c" "uids (c\<lparr>sc_assumedPods := ks\<rparr>) = uids c"
  "uids (c\<lparr>sc_metrics := m\<rparr>) = uids c" "uids (c\<lparr>sc_imageStates := is\<rparr>) = uids c" "uids (c\<lparr>sc_nodeTree := t\<rparr>) = uids c"
  by (simp_all add: uids_def fun_eq_iff)

text \<open>Room for the generations that one operation draws.\<close>

definition room :: "int \<Rightarrow> schedulerCache \<Rightarrow> bool" where
  "room k c \<longleftrightarrow> sc_gen c + k < 9223372036854775808"

lemma nextGeneration_room: "0 \<le> g \<Longrightarrow> g + 1 < 9223372036854775808 \<Longrightarrow> nextGeneration g = g + 1"
  unfolding nextGeneration_def by (rule wrap64_id) (simp add: in_int64_def)

lemma tree_inv_cong:
  assumes "tree_inv c" and "sc_nodeTree c' = sc_nodeTree c"
    and "\<And>nm. map_option ni_node (cinfo c' nm) = map_option ni_node (cinfo c nm) \<or>
      (map_option ni_node (cinfo c nm) \<in> {None, Some None} \<and> map_option ni_node (cinfo c' nm) \<in> {None, Some None})"
  shows "tree_inv c'"
proof -
  have some: "(\<exists>info. cinfo c' nm = Some info \<and> ni_node info = Some nd) \<longleftrightarrow> (\<exists>info. cinfo c nm = Some info \<and> ni_node info = Some nd)" for nm nd
    using assms(3) [of nm] by (cases "cinfo c nm"; cases "cinfo c' nm") auto
  have "present c' = present c"
    unfolding present_def not_None_eq by (rule ext) (use some in blast)
  moreover have "node_Name nd = nm \<and> nm \<in> set (zone_nodes (sc_nodeTree c) (GetZoneKey nd))"
    if i: "cinfo c' nm = Some info" "ni_node info = Some nd" for nm info nd
  proof -
    have "\<exists>info. cinfo c' nm = Some info \<and> ni_node info = Some nd" using i by blast
    then obtain info' where "cinfo c nm = Some info'" "ni_node info' = Some nd" unfolding some [of nm nd] by blast
    then show ?thesis using assms(1) unfolding tree_inv_def by blast
  qed
  ultimately show ?thesis using assms(1,2) unfolding tree_inv_def by simp
qed

text \<open>An item gets a new NodeInfo and becomes the head.\<close>

lemma touch_law:
  assumes s: "cache_struct c1 xs B" and B: "B \<subseteq> {a}" and a: "gomap_get (sc_nodes c1) nm = Some a"
    and old: "gens_ok c xs" "\<And>x. x \<in> set xs \<Longrightarrow> x \<noteq> a \<Longrightarrow> it_info (item c1 x) = it_info (item c x)"
      "\<And>nm'. nm' \<noteq> nm \<Longrightarrow> cinfo c1 nm' = cinfo c nm'"
    and new: "ni_Generation info = g" "sc_gen c < g"
  defines "c' \<equiv> moveNodeInfoToHead nm (set_info a (g, info) c1)"
  shows "cache_struct c' (a # remove1 a xs) {}" and "gens_ok c' (a # remove1 a xs)"
    and "cinfo c' = (cinfo c)(nm := Some info)" and "evolves c c'" and "sc_gen c' = g"
    and "sc_nodeTree c' = sc_nodeTree c1" "sc_podStates c' = sc_podStates c1" "sc_assumedPods c' = sc_assumedPods c1"
proof -
  define c2 where "c2 = set_info a (g, info) c1"
  have s2: "cache_struct c2 xs B" using s by (simp add: c2_def)
  have a2: "gomap_get (sc_nodes c2) nm = Some a" using a by (simp add: c2_def set_info_def)
  have r: "relinked c2 c'" unfolding c'_def c2_def [symmetric] by (rule moveNodeInfoToHead_relinked)
  note f = relinked_fields [OF r]
  have B0: "B - {a} = {}" using B by blast
  show "cache_struct c' (a # remove1 a xs) {}"
    using struct_move(1) [OF s2 a2] unfolding c'_def c2_def [symmetric] B0 .
  show gen: "sc_gen c' = g" by (simp add: f c2_def set_info_def)
  show "sc_nodeTree c' = sc_nodeTree c1" "sc_podStates c' = sc_podStates c1" "sc_assumedPods c' = sc_assumedPods c1"
    by (simp_all add: f c2_def set_info_def)
  have d: "distinct xs" using s by (simp add: cache_struct_def list_ok_def)
  show "gens_ok c' (a # remove1 a xs)"
    by (rule gens_touch [OF old(1) d]) (use new old(2) in \<open>simp_all add: f c2_def set_info_def\<close>)
  have "cinfo c' = (cinfo c1)(nm := Some info)"
    using struct_move(2) [OF s2 a2] cinfo_set_info [OF s a, of "(g, info)"] by (simp add: c'_def c2_def)
  then show ci: "cinfo c' = (cinfo c)(nm := Some info)" using old(3) by (auto simp: fun_eq_iff)
  show "evolves c c'" using new gen by (auto simp: evolves_def ci)
qed

section \<open>Pods on nodes\<close>

lemma AddPod_fields:
  "fst (AddPod env pod (g, n)) = nextGeneration g" "ni_Generation (snd (AddPod env pod (g, n))) = nextGeneration g"
  "ni_node (snd (AddPod env pod (g, n))) = ni_node n" "ni_Pods (snd (AddPod env pod (g, n))) = ni_Pods n @ [NewPodInfo pod]"
  by (simp_all add: AddPod_def AddPodInfo_def split: prod.split)

lemma NewNodeInfo_fields:
  "fst (NewNodeInfo env g []) = nextGeneration g" "ni_Generation (snd (NewNodeInfo env g [])) = nextGeneration g"
  "ni_node (snd (NewNodeInfo env g [])) = None" "ni_Pods (snd (NewNodeInfo env g [])) = []"
  by (simp_all add: NewNodeInfo_def)

lemma base_gen: "base_inv c \<Longrightarrow> 0 \<le> sc_gen c"
  by (auto simp: base_inv_def gens_ok_def)

lemma cinfo_nodes: "cinfo c nm = None \<longleftrightarrow> gomap_get (sc_nodes c) nm = None"
  by (simp add: cinfo_def)

lemma cache_addPod_law:
  fixes pod :: Pod and env :: runtime_env
  assumes inv: "base_inv c" and r: "room 2 c"
  defines "nm \<equiv> pod_NodeName pod" and "c' \<equiv> cache_addPod env pod c"
  shows "base_inv c'" and "evolves c c'" and "uids c' = (uids c)(nm := uids c nm @ [pod_UID pod])" and "sc_gen c' \<le> sc_gen c + 2"
    and "sc_podStates c' = sc_podStates c" and "sc_assumedPods c' = sc_assumedPods c"
proof -
  obtain xs where s: "cache_struct c xs {}" and g: "gens_ok c xs" and t: "tree_inv c" using inv by (auto simp: base_inv_def)
  have pos: "0 \<le> sc_gen c" by (rule base_gen [OF inv])
  define old where "old = (case cinfo c nm of Some info \<Rightarrow> info | None \<Rightarrow> snd (NewNodeInfo env (sc_gen c) []))"
  obtain a c1 where c1: "(case gomap_get (sc_nodes c) nm of Some n \<Rightarrow> (n, c) | None \<Rightarrow> new_item env nm c) = (a, c1)"
    by (cases "case gomap_get (sc_nodes c) nm of Some n \<Rightarrow> (n, c) | None \<Rightarrow> new_item env nm c")
  have c': "c' = moveNodeInfoToHead nm (set_info a (AddPod env pod (sc_gen c1, it_info (item c1 a))) c1)"
    unfolding c'_def cache_addPod_def nm_def [symmetric] c1 by simp
  obtain B where pre: "cache_struct c1 xs B" "B \<subseteq> {a}" "gomap_get (sc_nodes c1) nm = Some a"
    "\<And>x. x \<in> set xs \<Longrightarrow> x \<noteq> a \<Longrightarrow> it_info (item c1 x) = it_info (item c x)"
    "\<And>nm'. nm' \<noteq> nm \<Longrightarrow> cinfo c1 nm' = cinfo c nm'" "it_info (item c1 a) = old"
    "sc_gen c \<le> sc_gen c1" "sc_gen c1 \<le> sc_gen c + 1" "sc_nodeTree c1 = sc_nodeTree c" "sc_podStates c1 = sc_podStates c"
    "sc_assumedPods c1 = sc_assumedPods c"
  proof (cases "gomap_get (sc_nodes c) nm")
    case (Some n)
    then have "a = n" "c1 = c" using c1 by auto
    then show ?thesis using that [of "{}"] s Some by (simp add: old_def cinfo_def)
  next
    case None
    then have n: "new_item env nm c = (a, c1)" using c1 by simp
    note ni = struct_new_item [OF s None n]
    have "nextGeneration (sc_gen c) = sc_gen c + 1" using r pos by (intro nextGeneration_room) (simp_all add: room_def)
    then show ?thesis using that [of "{a}"] ni None by (simp add: old_def cinfo_def NewNodeInfo_fields)
  qed
  define g' where "g' = nextGeneration (sc_gen c1)"
  have g': "g' = sc_gen c1 + 1" unfolding g'_def using r pos pre(7,8) by (intro nextGeneration_room) (simp_all add: room_def)
  define info where "info = snd (AddPod env pod (sc_gen c1, old))"
  have info: "AddPod env pod (sc_gen c1, it_info (item c1 a)) = (g', info)" "ni_Generation info = g'" "ni_node info = ni_node old"
    "ni_Pods info = ni_Pods old @ [NewPodInfo pod]"
    using AddPod_fields [of env pod "sc_gen c1" old] by (simp_all add: info_def g'_def pre(6) prod_eq_iff)
  have lt: "sc_gen c < g'" using g' pre(7) by simp
  note touch = touch_law [OF pre(1-3) g pre(4,5) info(2) lt]
  have c'': "c' = moveNodeInfoToHead nm (set_info a (g', info) c1)" by (simp only: c' info(1))
  have ci: "cinfo c' = (cinfo c)(nm := Some info)" using touch(3) by (simp add: c'')
  show "evolves c c'" using touch(4) by (simp add: c'')
  have node: "cinfo c nm = None \<Longrightarrow> ni_node old = None" by (simp add: old_def NewNodeInfo_fields)
  have "tree_inv c'"
  proof (rule tree_inv_cong [OF t])
    show "sc_nodeTree c' = sc_nodeTree c" using touch(6) pre(9) by (simp add: c'')
    show "map_option ni_node (cinfo c' nm') = map_option ni_node (cinfo c nm') \<or>
      (map_option ni_node (cinfo c nm') \<in> {None, Some None} \<and> map_option ni_node (cinfo c' nm') \<in> {None, Some None})" for nm'
      using node info(3) by (cases "nm' = nm"; cases "cinfo c nm") (simp_all add: ci old_def)
  qed
  then show "base_inv c'" using touch(1,2) unfolding base_inv_def c'' by blast
  show "uids c' = (uids c)(nm := uids c nm @ [pod_UID pod])"
    using info(4) by (cases "cinfo c nm") (auto simp: fun_eq_iff uids_def ci old_def NewNodeInfo_fields NewPodInfo_def)
  show "sc_gen c' \<le> sc_gen c + 2" using touch(5) g' pre(8) by (simp add: c'')
  show "sc_podStates c' = sc_podStates c" "sc_assumedPods c' = sc_assumedPods c"
    using touch(7,8) pre(10,11) by (simp_all add: c'')
qed

lemma RemovePod_key:
  assumes "GetPodKey pod = Inr k" and "find_key k (ni_Pods n) = Some i"
  obtains n' where "RemovePod env pod (g, n) = Returns (None, nextGeneration g, n')" and "ni_Generation n' = nextGeneration g"
    and "ni_node n' = ni_node n" and "ni_Pods n' = swap_remove i (ni_Pods n)"
proof -
  obtain res c m where r: "calculateResource env pod = (res, c, m)" by (cases "calculateResource env pod")
  show ?thesis using that assms by (simp add: RemovePod_def r Let_def)
qed

lemma swap_remove_uids:
  assumes d: "distinct (map f ps)" and i: "i < length ps"
  shows "distinct (map f (swap_remove i ps))" and "set (map f (swap_remove i ps)) = set (map f ps) - {f (ps ! i)}"
proof -
  have "mset (map f (swap_remove i ps)) = image_mset f (mset (swap_remove i ps))" by simp
  also have "\<dots> = image_mset f (mset ps - {# ps ! i #})" by (simp only: swap_remove_mset [OF i])
  also have "\<dots> = mset (map f ps) - {# f (ps ! i) #}" using i by (simp add: image_mset_Diff)
  finally have m: "mset (map f (swap_remove i ps)) = mset (map f ps) - {# f (ps ! i) #}" .
  have "mset (map f (swap_remove i ps)) = mset (remove1 (f (ps ! i)) (map f ps))" by (simp only: m mset_remove1)
  then have "set (map f (swap_remove i ps)) = set (remove1 (f (ps ! i)) (map f ps))"
    "distinct (map f (swap_remove i ps)) = distinct (remove1 (f (ps ! i)) (map f ps))"
    by (rule mset_eq_setD, rule mset_eq_imp_distinct_iff)
  then show "distinct (map f (swap_remove i ps))" and "set (map f (swap_remove i ps)) = set (map f ps) - {f (ps ! i)}"
    using d by simp_all
qed

lemma cache_removePod_law:
  fixes pod :: Pod and env :: runtime_env
  assumes inv: "base_inv c" and r: "room 1 c" and key: "pod_UID pod \<noteq> []" and mem: "pod_UID pod \<in> set (uids c (pod_NodeName pod))"
    and d: "distinct (uids c (pod_NodeName pod))"
  defines "nm \<equiv> pod_NodeName pod"
  obtains c' where "cache_removePod env pod c = Returns (None, c')" and "base_inv c'" and "evolves c c'"
    and "distinct (uids c' nm)" and "set (uids c' nm) = set (uids c nm) - {pod_UID pod}"
    and "\<And>nm'. nm' \<noteq> nm \<Longrightarrow> uids c' nm' = uids c nm'" and "sc_gen c' \<le> sc_gen c + 1"
    and "sc_podStates c' = sc_podStates c" and "sc_assumedPods c' = sc_assumedPods c"
proof -
  obtain xs where s: "cache_struct c xs {}" and g: "gens_ok c xs" and t: "tree_inv c" using inv by (auto simp: base_inv_def)
  have pos: "0 \<le> sc_gen c" by (rule base_gen [OF inv])
  obtain n where n: "cinfo c nm = Some n" using mem by (cases "cinfo c nm") (simp_all add: uids_def nm_def)
  obtain a where a: "gomap_get (sc_nodes c) nm = Some a" "it_info (item c a) = n" using n by (auto simp: cinfo_def)
  have u: "uids c nm = map (pod_UID \<circ> pi_Pod) (ni_Pods n)" by (simp add: uids_def n)
  have gk: "GetPodKey pod = Inr (pod_UID pod)" using key by (simp add: GetPodKey_def)
  have "find_key (pod_UID pod) (ni_Pods n) \<noteq> None"
  proof -
    obtain p where "p \<in> set (ni_Pods n)" "pod_UID (pi_Pod p) = pod_UID pod" using mem u by (auto simp: nm_def)
    then show ?thesis using key unfolding find_key_None GetPodKey_Inr by metis
  qed
  then obtain i where i: "find_key (pod_UID pod) (ni_Pods n) = Some i" by blast
  have iu: "i < length (ni_Pods n)" "pod_UID (pi_Pod (ni_Pods n ! i)) = pod_UID pod"
    using find_key_Some [OF i] by (auto simp: GetPodKey_Inr)
  obtain n' where n': "RemovePod env pod (sc_gen c, n) = Returns (None, nextGeneration (sc_gen c), n')"
    "ni_Generation n' = nextGeneration (sc_gen c)" "ni_node n' = ni_node n" "ni_Pods n' = swap_remove i (ni_Pods n)"
    by (rule RemovePod_key [OF gk i])
  define g' where "g' = nextGeneration (sc_gen c)"
  have g': "g' = sc_gen c + 1" unfolding g'_def using r pos by (intro nextGeneration_room) (simp_all add: room_def)
  define c1 where "c1 = set_info a (g', n') c"
  have i1: "it_info (item c1 a) = n'" by (simp add: c1_def set_info_def)
  have rm: "cache_removePod env pod c = Returns (None, if ni_Pods n' = [] \<and> ni_node n' = None
      then removeNodeInfoFromList nm c1 else moveNodeInfoToHead nm c1)"
    unfolding cache_removePod_def nm_def [symmetric] a option.case n'(1) go_bind.simps
    by (simp add: Let_def i1 g'_def [symmetric] c1_def [symmetric])
  have uids': "distinct (map (pod_UID \<circ> pi_Pod) (ni_Pods n'))"
    "set (map (pod_UID \<circ> pi_Pod) (ni_Pods n')) = set (uids c nm) - {pod_UID pod}"
    using swap_remove_uids [of "pod_UID \<circ> pi_Pod" "ni_Pods n" i] d iu u by (simp_all add: n'(4) nm_def)
  show ?thesis
  proof (cases "ni_Pods n' = [] \<and> ni_node n' = None")
    case True
    define c' where "c' = removeNodeInfoFromList nm c1"
    have s1: "cache_struct c1 xs {}" using s by (simp add: c1_def)
    have a1: "gomap_get (sc_nodes c1) nm = Some a" using a by (simp add: c1_def set_info_def)
    note rem = struct_remove [OF s1 a1, folded c'_def]
    have ci: "cinfo c' = (cinfo c)(nm := None)" using rem(2) cinfo_set_info [OF s a(1), of "(g', n')"] by (simp add: c1_def)
    have dx: "distinct xs" using s by (simp add: cache_struct_def list_ok_def)
    have "gens_ok c' (remove1 a xs)"
      by (rule gens_remove [OF g]) (use dx g' in \<open>auto simp: rem(3,4) c1_def set_info_def\<close>)
    moreover have "tree_inv c'"
      by (rule tree_inv_cong [OF t]) (use True n n'(3) in \<open>auto simp: rem(5) c1_def set_info_def ci\<close>)
    ultimately have "base_inv c'" using rem(1) unfolding base_inv_def by blast
    moreover have "evolves c c'" using g' by (auto simp: evolves_def ci rem(4) c1_def set_info_def)
    moreover have "uids c' = (uids c)(nm := [])" by (auto simp: uids_def ci fun_eq_iff)
    ultimately show ?thesis
      using that [of c'] rm True uids' g' rem by (simp add: c'_def [symmetric]) (simp add: c1_def set_info_def)
  next
    case False
    have lt: "sc_gen c < g'" using g' by simp
    note touch = touch_law [OF s empty_subsetI a(1) g refl refl n'(2) [folded g'_def] lt, folded c1_def]
    define c' where "c' = moveNodeInfoToHead nm c1"
    note touch = touch [folded c'_def]
    have "tree_inv c'"
      by (rule tree_inv_cong [OF t]) (use n n'(3) in \<open>auto simp: touch\<close>)
    then have "base_inv c'" using touch(1,2) unfolding base_inv_def by blast
    moreover have "uids c' = (uids c)(nm := map (pod_UID \<circ> pi_Pod) (ni_Pods n'))" by (auto simp: uids_def touch(3) fun_eq_iff)
    ultimately show ?thesis
      using that [of c'] rm False uids' g' touch by (simp add: c'_def [symmetric])
  qed
qed

end
