(* ===== verification/Cache_Steps.thy ===== *)
theory Cache_Steps
  imports Cache_Inv
begin

text \<open>
  The node operations of the cache: adding, updating and removing a node keep the invariant, and
  what they change of the NodeInfos, the tree and the list.
\<close>

section \<open>Node operations\<close>

lemma put_node_info:
  obtains imgs info where "put_node env node a c = set_info a (nextGeneration (sc_gen c), info) (c\<lparr>sc_imageStates := imgs\<rparr>)"
    and "ni_Generation info = nextGeneration (sc_gen c)" and "ni_node info = Some node" and "ni_Pods info = ni_Pods (it_info (item c a))"
proof -
  obtain imgs newSum where f: "fold (add_image (node_Name node)) (node_image_names node) (sc_imageStates c, []) = (imgs, newSum)"
    by (cases "fold (add_image (node_Name node)) (node_image_names node) (sc_imageStates c, [])")
  define info where "info = (it_info (item c a))\<lparr>ni_ImageStates := newSum, ni_node := Some node,
      ni_Allocatable := NewResource env (node_Allocatable node), ni_Generation := nextGeneration (sc_gen c)\<rparr>"
  show ?thesis
  proof (rule that [of info imgs])
    show "put_node env node a c = set_info a (nextGeneration (sc_gen c), info) (c\<lparr>sc_imageStates := imgs\<rparr>)"
      by (simp add: put_node_def Let_def addNodeImageStates_def f set_info_def SetNode_def info_def)
  qed (simp_all add: info_def)
qed

text \<open>The head gets a new NodeInfo; the tree may change as well.\<close>

lemma touch_head_law:
  fixes nt :: nodeTree and imgs :: "(string, imageState) gomap"
  assumes s: "cache_struct c1 xs B" and B: "B \<subseteq> {a}" and a: "gomap_get (sc_nodes c1) nm = Some a"
    and old: "gens_ok c xs" "\<And>x. x \<in> set xs \<Longrightarrow> x \<noteq> a \<Longrightarrow> it_info (item c1 x) = it_info (item c x)"
      "\<And>nm'. nm' \<noteq> nm \<Longrightarrow> cinfo c1 nm' = cinfo c nm'"
    and new: "ni_Generation info = g" "sc_gen c < g"
  defines "c' \<equiv> set_info a (g, info) ((moveNodeInfoToHead nm c1)\<lparr>sc_nodeTree := nt, sc_imageStates := imgs\<rparr>)"
  shows "cache_struct c' (a # remove1 a xs) {}" and "gens_ok c' (a # remove1 a xs)"
    and "cinfo c' = (cinfo c)(nm := Some info)" and "evolves c c'" and "sc_gen c' = g"
    and "sc_nodeTree c' = nt" "sc_podStates c' = sc_podStates c1" "sc_assumedPods c' = sc_assumedPods c1"
proof -
  define c2 where "c2 = (moveNodeInfoToHead nm c1)\<lparr>sc_nodeTree := nt, sc_imageStates := imgs\<rparr>"
  have r: "relinked c1 (moveNodeInfoToHead nm c1)" by (rule moveNodeInfoToHead_relinked)
  note f = relinked_fields [OF r]
  have B0: "B - {a} = {}" using B by blast
  have s2: "cache_struct c2 (a # remove1 a xs) {}"
    using struct_move(1) [OF s a] unfolding B0 c2_def by simp
  have a2: "gomap_get (sc_nodes c2) nm = Some a" using a by (simp add: c2_def f)
  have c': "c' = set_info a (g, info) c2" by (simp add: c'_def c2_def)
  show "cache_struct c' (a # remove1 a xs) {}" using s2 by (simp add: c')
  show gen: "sc_gen c' = g" by (simp add: c' set_info_def)
  show "sc_nodeTree c' = nt" "sc_podStates c' = sc_podStates c1" "sc_assumedPods c' = sc_assumedPods c1"
    by (simp_all add: c' c2_def set_info_def f)
  have d: "distinct xs" using s by (simp add: cache_struct_def list_ok_def)
  show "gens_ok c' (a # remove1 a xs)"
    by (rule gens_touch [OF old(1) d]) (use new old(2) in \<open>simp_all add: c' c2_def f set_info_def\<close>)
  have "cinfo c' = (cinfo c2)(nm := Some info)" using cinfo_set_info [OF s2 a2, of "(g, info)"] by (simp add: c')
  moreover have "cinfo c2 = cinfo c1" using struct_move(2) [OF s a] by (simp add: c2_def)
  ultimately show ci: "cinfo c' = (cinfo c)(nm := Some info)" using old(3) by (auto simp: fun_eq_iff)
  show "evolves c c'" using new gen by (auto simp: evolves_def ci)
qed

lemma removeNodeImageStates_eq: "\<exists>imgs. removeNodeImageStates nd c = c\<lparr>sc_imageStates := imgs\<rparr>"
proof (cases nd)
  case None
  show ?thesis unfolding None removeNodeImageStates_def by (rule exI [of _ "sc_imageStates c"]) simp
qed (auto simp: removeNodeImageStates_def)

lemma cache_AddNode_law:
  fixes node :: Node and env :: runtime_env
  assumes inv: "base_inv c" and r: "room 2 c" and new: "\<not> present c (node_Name node)"
  defines "c' \<equiv> snd (cache_AddNode env node c)"
  shows "base_inv c'" and "evolves c c'" and "uids c' = uids c" and "sc_podStates c' = sc_podStates c"
    and "sc_assumedPods c' = sc_assumedPods c" and "present c' (node_Name node)"
proof -
  define nm where "nm = node_Name node"
  obtain xs where s: "cache_struct c xs {}" and g: "gens_ok c xs" and t: "tree_inv c" using inv by (auto simp: base_inv_def)
  have pos: "0 \<le> sc_gen c" by (rule base_gen [OF inv])
  obtain a c1 where c1: "(case gomap_get (sc_nodes c) nm of None \<Rightarrow> new_item env nm c
      | Some n \<Rightarrow> (n, removeNodeImageStates (ni_node (it_info (item c n))) c)) = (a, c1)"
    by (cases "case gomap_get (sc_nodes c) nm of None \<Rightarrow> new_item env nm c
      | Some n \<Rightarrow> (n, removeNodeImageStates (ni_node (it_info (item c n))) c)")
  obtain B where pre: "cache_struct c1 xs B" "B \<subseteq> {a}" "gomap_get (sc_nodes c1) nm = Some a"
    "\<And>x. x \<in> set xs \<Longrightarrow> x \<noteq> a \<Longrightarrow> it_info (item c1 x) = it_info (item c x)"
    "\<And>nm'. nm' \<noteq> nm \<Longrightarrow> cinfo c1 nm' = cinfo c nm'" "map (pod_UID \<circ> pi_Pod) (ni_Pods (it_info (item c1 a))) = uids c nm"
    "sc_gen c \<le> sc_gen c1" "sc_gen c1 \<le> sc_gen c + 1" "sc_nodeTree c1 = sc_nodeTree c" "sc_podStates c1 = sc_podStates c"
    "sc_assumedPods c1 = sc_assumedPods c"
  proof (cases "gomap_get (sc_nodes c) nm")
    case (Some n)
    then have "a = n" "c1 = removeNodeImageStates (ni_node (it_info (item c n))) c" using c1 by auto
    moreover obtain imgs where "removeNodeImageStates (ni_node (it_info (item c n))) c = c\<lparr>sc_imageStates := imgs\<rparr>"
      using removeNodeImageStates_eq by blast
    ultimately have an: "a = n" "c1 = c\<lparr>sc_imageStates := imgs\<rparr>" by simp_all
    have "uids c nm = map (pod_UID \<circ> pi_Pod) (ni_Pods (it_info (item c n)))" using Some by (simp add: uids_def cinfo_def)
    then show ?thesis using that [of "{}"] s Some by (simp add: an)
  next
    case None
    then have n: "new_item env nm c = (a, c1)" using c1 by simp
    note ni = struct_new_item [OF s None n]
    have "nextGeneration (sc_gen c) = sc_gen c + 1" using r pos by (intro nextGeneration_room) (simp_all add: room_def)
    moreover have "uids c nm = []" using None by (simp add: uids_def cinfo_def)
    ultimately show ?thesis using that [of "{a}"] ni None by (simp add: NewNodeInfo_fields)
  qed
  define c2 where "c2 = (moveNodeInfoToHead nm c1)\<lparr>sc_nodeTree := addNode node (sc_nodeTree c)\<rparr>"
  have rel: "relinked c1 (moveNodeInfoToHead nm c1)" by (rule moveNodeInfoToHead_relinked)
  obtain imgs info where p: "put_node env node a c2 = set_info a (nextGeneration (sc_gen c2), info) (c2\<lparr>sc_imageStates := imgs\<rparr>)"
    "ni_Generation info = nextGeneration (sc_gen c2)" "ni_node info = Some node" "ni_Pods info = ni_Pods (it_info (item c2 a))"
    by (rule put_node_info)
  have "sc_nodeTree (moveNodeInfoToHead nm c1) = sc_nodeTree c" by (simp add: relinked_fields [OF rel] pre(9))
  then have c': "c' = put_node env node a c2"
    unfolding c'_def cache_AddNode_def nm_def [symmetric] c1 by (simp add: Let_def tree_update_def c2_def)
  define g' where "g' = nextGeneration (sc_gen c2)"
  have gen2: "sc_gen c2 = sc_gen c1" by (simp add: c2_def relinked_fields [OF rel])
  have g': "g' = sc_gen c1 + 1" unfolding g'_def gen2 using r pos pre(7,8) by (intro nextGeneration_room) (simp_all add: room_def)
  have lt: "sc_gen c < g'" using g' pre(7) by simp
  have "c2\<lparr>sc_imageStates := imgs\<rparr> = (moveNodeInfoToHead nm c1)\<lparr>sc_nodeTree := addNode node (sc_nodeTree c), sc_imageStates := imgs\<rparr>"
    by (simp add: c2_def)
  then have c'': "c' = set_info a (g', info) ((moveNodeInfoToHead nm c1)\<lparr>sc_nodeTree := addNode node (sc_nodeTree c), sc_imageStates := imgs\<rparr>)"
    using c' p(1) by (simp add: g'_def)
  have touch: "cache_struct c' (a # remove1 a xs) {}" "gens_ok c' (a # remove1 a xs)" "cinfo c' = (cinfo c)(nm := Some info)"
    "evolves c c'" "sc_gen c' = g'" "sc_nodeTree c' = addNode node (sc_nodeTree c)" "sc_podStates c' = sc_podStates c1"
    "sc_assumedPods c' = sc_assumedPods c1"
    unfolding c'' by (rule touch_head_law [OF pre(1-3) g pre(4,5) p(2) [folded g'_def] lt]; assumption)+
  have ok: "tree_ok (sc_nodeTree c)" and names: "set (tree_names (sc_nodeTree c)) = {nm. present c nm}"
    using t by (simp_all add: tree_inv_def)
  have fresh: "node_Name node \<notin> set (tree_names (sc_nodeTree c))" using names new by simp
  note add = addNode_ok [OF ok fresh]
  have pres: "present c' nm' \<longleftrightarrow> nm' = nm \<or> present c nm'" for nm' by (simp add: present_def touch(3) p(3))
  have "tree_inv c'"
    unfolding tree_inv_def touch(6)
  proof (intro conjI allI impI)
    show "tree_ok (addNode node (sc_nodeTree c))" by (rule add(1))
    show "set (tree_names (addNode node (sc_nodeTree c))) = {nm. present c' nm}" using add(2) names pres nm_def by auto
    fix nm' info' nd assume i: "cinfo c' nm' = Some info'" "ni_node info' = Some nd"
    show "node_Name nd = nm'"
      using i t p(3) unfolding tree_inv_def by (cases "nm' = nm") (auto simp: touch(3) nm_def)
    show "nm' \<in> set (zone_nodes (addNode node (sc_nodeTree c)) (GetZoneKey nd))"
    proof (cases "nm' = nm")
      case True
      then show ?thesis using i add(3) p(3) by (simp add: touch(3) nm_def)
    next
      case False
      then have "nm' \<in> set (zone_nodes (sc_nodeTree c) (GetZoneKey nd))" using i t unfolding tree_inv_def by (simp add: touch(3))
      then show ?thesis by (rule addNode_others)
    qed
  qed
  then show "base_inv c'" using touch(1,2) unfolding base_inv_def by blast
  show "evolves c c'" by (rule touch(4))
  have "it_info (item c2 a) = it_info (item c1 a)" by (simp add: c2_def relinked_fields [OF rel])
  then show "uids c' = uids c" using pre(6) p(4) by (auto simp: uids_def touch(3) fun_eq_iff)
  show "sc_podStates c' = sc_podStates c" "sc_assumedPods c' = sc_assumedPods c" using touch(7,8) pre(10,11) by simp_all
  show "present c' (node_Name node)" using pres by (simp add: nm_def)
qed

lemma cache_UpdateNode_law:
  fixes env :: runtime_env
  assumes inv: "base_inv c" and r: "room 1 c" and name: "node_Name new = node_Name old"
    and here: "cinfo c (node_Name old) = Some info0" "ni_node info0 = Some nd0" "GetZoneKey nd0 = GetZoneKey old"
  obtains res c' where "cache_UpdateNode env (Some old) new c = Returns (res, c')" and "base_inv c'" and "evolves c c'"
    and "uids c' = uids c" and "sc_podStates c' = sc_podStates c" and "sc_assumedPods c' = sc_assumedPods c"
proof -
  define nm where "nm = node_Name new"
  obtain xs where s: "cache_struct c xs {}" and g: "gens_ok c xs" and t: "tree_inv c" using inv by (auto simp: base_inv_def)
  have pos: "0 \<le> sc_gen c" by (rule base_gen [OF inv])
  obtain a where a: "gomap_get (sc_nodes c) nm = Some a" "it_info (item c a) = info0"
    using here(1) by (auto simp: cinfo_def nm_def name)
  obtain is0 where is0: "removeNodeImageStates (ni_node (it_info (item c a))) c = c\<lparr>sc_imageStates := is0\<rparr>"
    using removeNodeImageStates_eq by blast
  define c1 where "c1 = c\<lparr>sc_imageStates := is0\<rparr>"
  have pre: "cache_struct c1 xs {}" "gomap_get (sc_nodes c1) nm = Some a" "it_info (item c1 x) = it_info (item c x)"
    "cinfo c1 = cinfo c" "sc_gen c1 = sc_gen c" "sc_nodeTree c1 = sc_nodeTree c" "sc_podStates c1 = sc_podStates c"
    "sc_assumedPods c1 = sc_assumedPods c" for x
    using s a by (simp_all add: c1_def)
  have rel: "relinked c1 (moveNodeInfoToHead nm c1)" by (rule moveNodeInfoToHead_relinked)
  have ok: "tree_ok (sc_nodeTree c)" and names: "set (tree_names (sc_nodeTree c)) = {nm. present c nm}"
    using t by (simp_all add: tree_inv_def)
  have "node_Name nd0 = node_Name old" "node_Name old \<in> set (zone_nodes (sc_nodeTree c) (GetZoneKey nd0))"
    using t here(1,2) unfolding tree_inv_def by blast+
  then have mem: "node_Name old \<in> set (zone_nodes (sc_nodeTree c) (GetZoneKey old))" by (simp add: here(3))
  obtain nt where nt: "updateNode (Some old) new (sc_nodeTree c) = Returns nt" "tree_ok nt"
    "set (tree_names nt) = set (tree_names (sc_nodeTree c))" "node_Name new \<in> set (zone_nodes nt (GetZoneKey new))"
    by (rule updateNode_ok [OF ok mem name])
  define c2 where "c2 = (moveNodeInfoToHead nm c1)\<lparr>sc_nodeTree := nt\<rparr>"
  obtain imgs info where p: "put_node env new a c2 = set_info a (nextGeneration (sc_gen c2), info) (c2\<lparr>sc_imageStates := imgs\<rparr>)"
    "ni_Generation info = nextGeneration (sc_gen c2)" "ni_node info = Some new" "ni_Pods info = ni_Pods (it_info (item c2 a))"
    by (rule put_node_info)
  define g' where "g' = nextGeneration (sc_gen c2)"
  have gen2: "sc_gen c2 = sc_gen c" by (simp add: c2_def relinked_fields [OF rel] pre)
  have g': "g' = sc_gen c + 1" unfolding g'_def gen2 using r pos by (intro nextGeneration_room) (simp_all add: room_def)
  have lt: "sc_gen c < g'" using g' by simp
  define c' where "c' = put_node env new a c2"
  have c'': "c' = set_info a (g', info) ((moveNodeInfoToHead nm c1)\<lparr>sc_nodeTree := nt, sc_imageStates := imgs\<rparr>)"
    using p(1) by (simp add: g'_def c'_def c2_def)
  have touch: "cache_struct c' (a # remove1 a xs) {}" "gens_ok c' (a # remove1 a xs)" "cinfo c' = (cinfo c)(nm := Some info)"
    "evolves c c'" "sc_gen c' = g'" "sc_nodeTree c' = nt" "sc_podStates c' = sc_podStates c1" "sc_assumedPods c' = sc_assumedPods c1"
    unfolding c'' by (rule touch_head_law [OF pre(1) empty_subsetI pre(2) g pre(3) _ p(2) [folded g'_def] lt]; simp add: pre(4))+
  have pres: "present c' = present c"
    using here(1,2) by (auto simp: present_def touch(3) p(3) fun_eq_iff nm_def name)
  have "tree_inv c'"
    unfolding tree_inv_def touch(6) pres
  proof (intro conjI allI impI)
    show "tree_ok nt" by (rule nt(2))
    show "set (tree_names nt) = {nm. present c nm}" using nt(3) names by simp
    fix nm' info' nd assume i: "cinfo c' nm' = Some info'" "ni_node info' = Some nd"
    show "node_Name nd = nm'"
      using i t p(3) unfolding tree_inv_def by (cases "nm' = nm") (auto simp: touch(3) nm_def)
    show "nm' \<in> set (zone_nodes nt (GetZoneKey nd))"
    proof (cases "nm' = nm")
      case True
      then show ?thesis using i nt(4) p(3) by (simp add: touch(3) nm_def)
    next
      case False
      then have "nm' \<in> set (zone_nodes (sc_nodeTree c) (GetZoneKey nd))" using i t unfolding tree_inv_def by (simp add: touch(3))
      then show ?thesis using updateNode_others [OF nt(1)] False by (simp add: nm_def name)
    qed
  qed
  then have "base_inv c'" using touch(1,2) unfolding base_inv_def by blast
  moreover have "it_info (item c2 a) = info0" using a(2) by (simp add: c2_def relinked_fields [OF rel] pre)
  then have "uids c' = uids c" using p(4) here(1) by (auto simp: uids_def touch(3) fun_eq_iff nm_def name)
  moreover have "cache_UpdateNode env (Some old) new c = Returns (NodeInfo_Clone (it_info (item c' a)), c')"
    unfolding cache_UpdateNode_def nm_def [symmetric] a(1) option.case is0 [unfolded a(2)] a(2)
    using nt(1) by (simp add: Let_def c1_def [symmetric] relinked_fields [OF rel] pre c2_def [symmetric] c'_def)
  ultimately show ?thesis using that touch(4,7,8) pre(7,8) by auto
qed

lemma cache_RemoveNode_law:
  fixes node :: Node
  assumes inv: "base_inv c" and r: "room 1 c"
    and here: "cinfo c (node_Name node) = Some info0" "ni_node info0 = Some nd0" "GetZoneKey nd0 = GetZoneKey node"
  obtains c' where "cache_RemoveNode node c = (None, c')" and "base_inv c'" and "evolves c c'"
    and "uids c' = uids c" and "sc_podStates c' = sc_podStates c" and "sc_assumedPods c' = sc_assumedPods c"
    and "\<not> present c' (node_Name node)"
proof -
  define nm where "nm = node_Name node"
  obtain xs where s: "cache_struct c xs {}" and g: "gens_ok c xs" and t: "tree_inv c" using inv by (auto simp: base_inv_def)
  have pos: "0 \<le> sc_gen c" by (rule base_gen [OF inv])
  obtain a where a: "gomap_get (sc_nodes c) nm = Some a" "it_info (item c a) = info0"
    using here(1) by (auto simp: cinfo_def nm_def)
  define g' where "g' = nextGeneration (sc_gen c)"
  have g': "g' = sc_gen c + 1" unfolding g'_def using r pos by (intro nextGeneration_room) (simp_all add: room_def)
  have lt: "sc_gen c < g'" using g' by simp
  define info where "info = info0\<lparr>ni_node := None, ni_Generation := g'\<rparr>"
  have info: "ni_Generation info = g'" "ni_node info = None" "ni_Pods info = ni_Pods info0" by (simp_all add: info_def)
  define c1 where "c1 = set_info a (g', info) c"
  have i1: "it_info (item c1 a) = info" by (simp add: c1_def set_info_def)
  have ok: "tree_ok (sc_nodeTree c)" and names: "set (tree_names (sc_nodeTree c)) = {nm. present c nm}"
    using t by (simp_all add: tree_inv_def)
  have "node_Name nd0 = nm" "nm \<in> set (zone_nodes (sc_nodeTree c) (GetZoneKey nd0))"
    using t here(1,2) unfolding tree_inv_def nm_def by blast+
  then have mem: "node_Name node \<in> set (zone_nodes (sc_nodeTree c) (GetZoneKey node))" by (simp add: here(3) nm_def)
  obtain nt where nt: "removeNode node (sc_nodeTree c) = (None, nt)" "tree_ok nt" "set (tree_names nt) = set (tree_names (sc_nodeTree c)) - {nm}"
    using removeNode_ok [OF ok mem] by (cases "removeNode node (sc_nodeTree c)") (auto simp: nm_def)
  define c2 where "c2 = (if ni_Pods info = [] then removeNodeInfoFromList nm c1 else moveNodeInfoToHead nm c1)"
  obtain ys where c2: "cache_struct c2 ys {}" "gens_ok c2 ys" "\<And>nm'. nm' \<noteq> nm \<Longrightarrow> cinfo c2 nm' = cinfo c nm'"
    "cinfo c2 nm = (if ni_Pods info = [] then None else Some info)" "evolves c c2" "sc_nodeTree c2 = sc_nodeTree c"
    "sc_podStates c2 = sc_podStates c" "sc_assumedPods c2 = sc_assumedPods c"
  proof (cases "ni_Pods info = []")
    case True
    have s1: "cache_struct c1 xs {}" using s by (simp add: c1_def)
    have a1: "gomap_get (sc_nodes c1) nm = Some a" using a by (simp add: c1_def set_info_def)
    note rem = struct_remove [OF s1 a1]
    have c2: "c2 = removeNodeInfoFromList nm c1" using True by (simp add: c2_def)
    have dx: "distinct xs" using s by (simp add: cache_struct_def list_ok_def)
    have same: "igen c2 x = igen c x" if "x \<noteq> a" for x
      using that by (simp add: c2 rem(3)) (simp add: c1_def set_info_def)
    have gen2: "sc_gen c2 = g'" by (simp add: c2 rem(4)) (simp add: c1_def set_info_def)
    have "gens_ok c2 (remove1 a xs)" by (rule gens_remove [OF g]) (use dx g' gen2 same in auto)
    moreover have ci: "cinfo c2 = (cinfo c)(nm := None)"
      using rem(2) cinfo_set_info [OF s a(1), of "(g', info)"] by (simp add: c1_def c2)
    moreover have "evolves c c2" using g' gen2 by (auto simp: evolves_def ci)
    ultimately show ?thesis using that [of "remove1 a xs"] rem True
      by (simp add: c2) (simp add: c1_def set_info_def)
  next
    case False
    have c2: "c2 = moveNodeInfoToHead nm (set_info a (g', info) c)" using False by (simp add: c2_def c1_def)
    have touch: "cache_struct c2 (a # remove1 a xs) {}" "gens_ok c2 (a # remove1 a xs)" "cinfo c2 = (cinfo c)(nm := Some info)"
      "evolves c c2" "sc_gen c2 = g'" "sc_nodeTree c2 = sc_nodeTree c" "sc_podStates c2 = sc_podStates c" "sc_assumedPods c2 = sc_assumedPods c"
      unfolding c2 by (rule touch_law [OF s empty_subsetI a(1) g refl refl info(1) lt])+
    show ?thesis using that [of "a # remove1 a xs"] touch False by simp
  qed
  obtain imgs where imgs: "removeNodeImageStates (Some node) (c2\<lparr>sc_nodeTree := nt\<rparr>) = c2\<lparr>sc_nodeTree := nt, sc_imageStates := imgs\<rparr>"
    using removeNodeImageStates_eq by blast
  define c' where "c' = c2\<lparr>sc_nodeTree := nt, sc_imageStates := imgs\<rparr>"
  have ci: "cinfo c' = cinfo c2" by (simp add: c'_def)
  have pres: "present c' nm' \<longleftrightarrow> nm' \<noteq> nm \<and> present c nm'" for nm'
    using c2(3,4) info(2) by (cases "nm' = nm") (auto simp: present_def ci)
  have "tree_inv c'"
    unfolding tree_inv_def
  proof (intro conjI allI impI)
    show "tree_ok (sc_nodeTree c')" using nt(2) by (simp add: c'_def)
    show "set (tree_names (sc_nodeTree c')) = {nm. present c' nm}" using nt(3) names pres by (auto simp: c'_def)
    fix nm' info' nd assume i: "cinfo c' nm' = Some info'" "ni_node info' = Some nd"
    then have ne: "nm' \<noteq> nm" using c2(4) info(2) by (auto simp: ci split: if_splits)
    then have old: "node_Name nd = nm'" "nm' \<in> set (zone_nodes (sc_nodeTree c) (GetZoneKey nd))"
      using i t c2(3) unfolding tree_inv_def by (simp_all add: ci)
    show "node_Name nd = nm'" by (rule old(1))
    show "nm' \<in> set (zone_nodes (sc_nodeTree c') (GetZoneKey nd))"
      using removeNode_others [OF old(2), of node] ne nt(1) by (simp add: c'_def nm_def)
  qed
  then have "base_inv c'" using c2(1,2) unfolding base_inv_def c'_def by auto
  moreover have "uids c' nm' = uids c nm'" for nm'
    using c2(3,4) info(3) here(1) by (cases "nm' = nm") (auto simp: uids_def ci nm_def)
  then have "uids c' = uids c" by (rule ext)
  moreover have "cache_RemoveNode node c = (None, c')"
    unfolding cache_RemoveNode_def nm_def [symmetric] a option.case
    using nt(1) imgs by (simp add: Let_def RemoveNode_def g'_def [symmetric] info_def [symmetric] c1_def [symmetric] i1
        c2_def [symmetric] c2(6) c'_def)
  ultimately show ?thesis using that [of c'] c2(5,7,8) pres [of nm] by (simp add: c'_def nm_def)
qed

end
