(* ===== verification/Cache_Pods.thy ===== *)
theory Cache_Pods
  imports Cache_Steps
begin

text \<open>
  The pods of the cache: the invariant that ties the pod states to the pods that the NodeInfos
  hold, and the laws of the operations of the pod state machine (assume, finish binding, forget,
  add, update, remove, expire).
\<close>

section \<open>The invariant\<close>

text \<open>
  A pod has a state under its UID exactly when the node of that state lists it, and a node lists a
  pod at most once.
\<close>

definition pods_rel :: "(string \<Rightarrow> string list) \<Rightarrow> (string \<Rightarrow> podState option) \<Rightarrow> bool" where
  "pods_rel U P \<longleftrightarrow>
     (\<forall>k ps. P k = Some ps \<longrightarrow> k \<noteq> [] \<and> pod_UID (ps_pod ps) = k)
     \<and> (\<forall>nm. distinct (U nm) \<and> (\<forall>k. k \<in> set (U nm) \<longleftrightarrow> (\<exists>ps. P k = Some ps \<and> pod_NodeName (ps_pod ps) = nm)))"

text \<open>An assumed pod has a state, and a deadline once its binding is finished.\<close>

definition assumed_ok :: "string list \<Rightarrow> (string \<Rightarrow> podState option) \<Rightarrow> bool" where
  "assumed_ok A P \<longleftrightarrow>
     distinct A \<and> (\<forall>k\<in>set A. \<exists>ps. P k = Some ps \<and> (ps_bindingFinished ps \<longrightarrow> ps_deadline ps \<noteq> None))"

definition cache_inv :: "schedulerCache \<Rightarrow> bool" where
  "cache_inv c \<longleftrightarrow>
     base_inv c \<and> gomap_ok (sc_podStates c) \<and> pods_rel (uids c) (gomap_get (sc_podStates c))
     \<and> assumed_ok (sc_assumedPods c) (gomap_get (sc_podStates c))"

lemma cache_invD:
  assumes "cache_inv c"
  shows "base_inv c" and "gomap_ok (sc_podStates c)" and "pods_rel (uids c) (gomap_get (sc_podStates c))"
    and "assumed_ok (sc_assumedPods c) (gomap_get (sc_podStates c))"
  using assms by (simp_all add: cache_inv_def)

lemma pods_rel_state:
  assumes "pods_rel U P" and "P k = Some ps"
  shows "k \<noteq> []" and "pod_UID (ps_pod ps) = k" and "k \<in> set (U (pod_NodeName (ps_pod ps)))" and "distinct (U nm)"
  using assms by (auto simp: pods_rel_def)

lemma pods_rel_add:
  assumes rel: "pods_rel U P" and new: "P k = None" and ps: "k \<noteq> []" "pod_UID (ps_pod ps) = k"
  shows "pods_rel (U(pod_NodeName (ps_pod ps) := U (pod_NodeName (ps_pod ps)) @ [k])) (P(k \<mapsto> ps))"
proof -
  have "k \<notin> set (U nm)" for nm using rel new by (auto simp: pods_rel_def)
  then show ?thesis using rel ps unfolding pods_rel_def by auto
qed

lemma pods_rel_remove:
  assumes rel: "pods_rel U P" and ps: "P k = Some ps"
    and U': "distinct (U' (pod_NodeName (ps_pod ps)))"
    "set (U' (pod_NodeName (ps_pod ps))) = set (U (pod_NodeName (ps_pod ps))) - {k}"
    "\<And>nm. nm \<noteq> pod_NodeName (ps_pod ps) \<Longrightarrow> U' nm = U nm"
  shows "pods_rel U' (P(k := None))"
proof -
  have "distinct (U' nm) \<and> (k' \<in> set (U' nm) \<longleftrightarrow> k' \<noteq> k \<and> (\<exists>ps. P k' = Some ps \<and> pod_NodeName (ps_pod ps) = nm))" for nm k'
    using rel ps U' by (cases "nm = pod_NodeName (ps_pod ps)") (auto simp: pods_rel_def)
  moreover have "k' \<noteq> [] \<and> pod_UID (ps_pod ps') = k'" if "P k' = Some ps'" for k' ps'
    using rel that by (auto simp: pods_rel_def)
  ultimately show ?thesis unfolding pods_rel_def by auto
qed

lemma pods_rel_replace:
  assumes "pods_rel U P" and "P k = Some ps" and "pod_UID (ps_pod ps') = k" "pod_NodeName (ps_pod ps') = pod_NodeName (ps_pod ps)"
  shows "pods_rel U (P(k \<mapsto> ps'))"
  using assms unfolding pods_rel_def by auto

section \<open>Adding and removing the pod of a state\<close>

text \<open>The invariant with the state of one pod left out, and the two ways in and out of it.\<close>

definition cache_inv_but :: "string \<Rightarrow> schedulerCache \<Rightarrow> bool" where
  "cache_inv_but k c \<longleftrightarrow>
     base_inv c \<and> gomap_ok (sc_podStates c) \<and> pods_rel (uids c) ((gomap_get (sc_podStates c))(k := None))
     \<and> assumed_ok (removeAll k (sc_assumedPods c)) ((gomap_get (sc_podStates c))(k := None))"

lemma assumed_ok_but: "assumed_ok A P \<Longrightarrow> assumed_ok (removeAll k A) (P(k := None))"
  by (auto simp: assumed_ok_def distinct_removeAll)

lemma cache_inv_but_new:
  assumes "cache_inv c" and "gomap_get (sc_podStates c) k = None"
  shows "cache_inv_but k c"
  using assms assumed_ok_but [of "sc_assumedPods c" "gomap_get (sc_podStates c)" k]
  by (simp add: cache_inv_def cache_inv_but_def fun_upd_idem)

lemma removePod_state_law:
  fixes env :: runtime_env
  assumes inv: "cache_inv c" and r: "room 1 c" and ps: "gomap_get (sc_podStates c) k = Some ps"
    and pod: "pod_UID pod = k" "pod_NodeName pod = pod_NodeName (ps_pod ps)"
  obtains c' where "cache_removePod env pod c = Returns (None, c')" and "cache_inv_but k c'" and "evolves c c'"
    and "sc_gen c' \<le> sc_gen c + 1" and "sc_podStates c' = sc_podStates c" and "sc_assumedPods c' = sc_assumedPods c"
proof -
  note i = cache_invD [OF inv]
  note st = pods_rel_state [OF i(3) ps]
  have ne: "pod_UID pod \<noteq> []" using st(1) pod by simp
  have mem: "pod_UID pod \<in> set (uids c (pod_NodeName pod))" using st(3) pod by simp
  obtain c' where c': "cache_removePod env pod c = Returns (None, c')" "base_inv c'" "evolves c c'"
    "distinct (uids c' (pod_NodeName pod))" "set (uids c' (pod_NodeName pod)) = set (uids c (pod_NodeName pod)) - {pod_UID pod}"
    "\<And>nm'. nm' \<noteq> pod_NodeName pod \<Longrightarrow> uids c' nm' = uids c nm'" "sc_gen c' \<le> sc_gen c + 1"
    "sc_podStates c' = sc_podStates c" "sc_assumedPods c' = sc_assumedPods c"
    by (rule cache_removePod_law [OF i(1) r ne mem st(4)]) blast
  have "pods_rel (uids c') ((gomap_get (sc_podStates c))(k := None))"
    by (rule pods_rel_remove [OF i(3) ps]) (use c'(4-6) pod in simp_all)
  then have "cache_inv_but k c'"
    using i(2) c'(2,8,9) assumed_ok_but [OF i(4)] by (simp add: cache_inv_but_def)
  then show ?thesis using that c' by blast
qed

text \<open>Back in: a pod whose state is written after it has been added to its node.\<close>

lemma addPod_state_law:
  fixes env :: runtime_env
  assumes inv: "cache_inv_but k c" and r: "room 2 c" and pod: "k \<noteq> []" "pod_UID (ps_pod ps) = k"
    and A: "set A \<subseteq> insert k (set (removeAll k (sc_assumedPods c)))" "distinct A"
    and fin: "k \<in> set A \<Longrightarrow> ps_bindingFinished ps \<Longrightarrow> ps_deadline ps \<noteq> None"
  defines "c' \<equiv> put_state k ps (set_assumed A (cache_addPod env (ps_pod ps) c))"
  shows "cache_inv c'" and "evolves c c'" and "sc_gen c' \<le> sc_gen c + 2"
proof -
  have i: "base_inv c" "gomap_ok (sc_podStates c)" "pods_rel (uids c) ((gomap_get (sc_podStates c))(k := None))"
    "assumed_ok (removeAll k (sc_assumedPods c)) ((gomap_get (sc_podStates c))(k := None))"
    using inv by (simp_all add: cache_inv_but_def)
  note l = cache_addPod_law [OF i(1) r, of env "ps_pod ps"]
  have "pods_rel (uids c') ((gomap_get (sc_podStates c))(k \<mapsto> ps))"
    using pods_rel_add [OF i(3) _ pod] by (simp add: c'_def put_state_def set_assumed_def l(3) pod(2))
  moreover have "assumed_ok A ((gomap_get (sc_podStates c))(k \<mapsto> ps))"
    using i(4) A fin by (auto simp: assumed_ok_def)
  ultimately show "cache_inv c'" using l(1,5) i(2)
    by (simp add: cache_inv_def c'_def put_state_def set_assumed_def)
  show "evolves c c'" "sc_gen c' \<le> sc_gen c + 2" using l(2,4) by (simp_all add: c'_def put_state_def set_assumed_def)
qed

lemma cache_inv_drop:
  assumes "cache_inv_but k c"
  shows "cache_inv (drop_state k (set_assumed (removeAll k (sc_assumedPods c)) c))"
  using assms by (simp add: cache_inv_def cache_inv_but_def drop_state_def set_assumed_def)

lemma replace_state_law:
  assumes inv: "cache_inv c" and ps: "gomap_get (sc_podStates c) k = Some ps"
    and ps': "pod_UID (ps_pod ps') = k" "pod_NodeName (ps_pod ps') = pod_NodeName (ps_pod ps)"
    and A: "set A \<subseteq> set (sc_assumedPods c)" "distinct A"
    and fin: "k \<in> set A \<Longrightarrow> ps_bindingFinished ps' \<Longrightarrow> ps_deadline ps' \<noteq> None"
  shows "cache_inv (put_state k ps' (set_assumed A c))"
proof -
  note i = cache_invD [OF inv]
  have "assumed_ok A ((gomap_get (sc_podStates c))(k \<mapsto> ps'))"
    using i(4) A fin by (auto simp: assumed_ok_def)
  then show ?thesis using i pods_rel_replace [OF i(3) ps ps'] by (simp add: cache_inv_def put_state_def set_assumed_def)
qed

section \<open>The operations\<close>

definition kept :: "schedulerCache \<Rightarrow> schedulerCache \<Rightarrow> bool" where
  "kept c c' \<longleftrightarrow> cache_inv c' \<and> evolves c c'"

lemma kept_refl [simp]: "cache_inv c \<Longrightarrow> kept c c"
  by (simp add: kept_def)

lemma kept_trans: "kept a b \<Longrightarrow> kept b c \<Longrightarrow> kept a c"
  by (auto simp: kept_def intro: evolves_trans)

lemma key_cases:
  obtains (bad) e where "GetPodKey pod = Inl e" | (key) "GetPodKey pod = Inr (pod_UID pod)" "pod_UID pod \<noteq> []"
  by (cases "pod_UID pod = []") (simp_all add: GetPodKey_def)

lemma AssumePod_law:
  assumes inv: "cache_inv c" and r: "room 2 c"
  shows "kept c (snd (AssumePod env pod c))"
proof (cases pod rule: key_cases)
  case key
  show ?thesis
  proof (cases "gomap_get (sc_podStates c) (pod_UID pod)")
    case None
    define ps where "ps = \<lparr>ps_pod = pod, ps_deadline = None, ps_bindingFinished = False\<rparr>"
    define A where "A = List.insert (pod_UID pod) (sc_assumedPods c)"
    have A: "distinct A" "set A \<subseteq> insert (pod_UID pod) (set (removeAll (pod_UID pod) (sc_assumedPods c)))"
      using cache_invD(4) [OF inv] by (auto simp: A_def assumed_ok_def)
    have f: "sc_assumedPods (cache_addPod env pod c) = sc_assumedPods c"
      by (rule cache_addPod_law(6) [OF cache_invD(1) [OF inv] r])
    have "AssumePod env pod c = (None, put_state (pod_UID pod) ps (set_assumed A (cache_addPod env (ps_pod ps) c)))"
      using key None f by (simp add: AssumePod_def ps_def A_def put_state_def set_assumed_def Let_def)
    then show ?thesis
      using addPod_state_law [OF cache_inv_but_new [OF inv None] r key(2) _ A(2,1), of ps env] by (simp add: ps_def kept_def)
  qed (use inv key in \<open>simp add: AssumePod_def\<close>)
qed (use inv in \<open>simp add: AssumePod_def\<close>)

lemma set_assumed_same: "set_assumed (sc_assumedPods c) c = c"
  by (simp add: set_assumed_def)

lemma finishBinding_law:
  assumes inv: "cache_inv c"
  shows "kept c (snd (finishBinding pod now c))"
proof (cases pod rule: key_cases)
  case key
  show ?thesis
  proof (cases "gomap_get (sc_podStates c) (pod_UID pod)")
    case (Some ps)
    have "kept c (put_state (pod_UID pod) (ps\<lparr>ps_bindingFinished := True, ps_deadline := Some (now + sc_ttl c)\<rparr>)
        (set_assumed (sc_assumedPods c) c))"
      using replace_state_law [OF inv Some, of "ps\<lparr>ps_bindingFinished := True, ps_deadline := Some (now + sc_ttl c)\<rparr>" "sc_assumedPods c"]
        cache_invD(4) [OF inv] pods_rel_state(2) [OF cache_invD(3) [OF inv] Some]
      by (simp add: kept_def assumed_ok_def) (simp add: put_state_def set_assumed_def)
    then show ?thesis using inv key Some by (simp add: finishBinding_def set_assumed_same)
  qed (use inv key in \<open>simp add: finishBinding_def\<close>)
qed (use inv in \<open>simp add: finishBinding_def\<close>)

text \<open>The common end of forgetting, removing and expiring a pod.\<close>

lemma drop_kept:
  assumes "cache_inv_but k c'" and "evolves c c'" and "A = removeAll k (sc_assumedPods c')"
  shows "kept c (drop_state k (set_assumed A c'))"
  using assms cache_inv_drop [of k c'] by (simp add: kept_def) (simp add: drop_state_def set_assumed_def)

lemma ForgetPod_law:
  assumes inv: "cache_inv c" and r: "room 1 c"
  shows "\<exists>e c'. ForgetPod env pod c = Returns (e, c') \<and> kept c c'"
proof (cases pod rule: key_cases)
  case key
  show ?thesis
  proof (cases "\<exists>ps. gomap_get (sc_podStates c) (pod_UID pod) = Some ps \<and> pod_NodeName (ps_pod ps) = pod_NodeName pod
      \<and> pod_UID pod \<in> set (sc_assumedPods c)")
    case True
    then obtain ps where ps: "gomap_get (sc_podStates c) (pod_UID pod) = Some ps" "pod_NodeName pod = pod_NodeName (ps_pod ps)"
      "pod_UID pod \<in> set (sc_assumedPods c)" by auto
    obtain c' where c': "cache_removePod env pod c = Returns (None, c')" "cache_inv_but (pod_UID pod) c'" "evolves c c'"
      by (rule removePod_state_law [OF inv r ps(1) refl ps(2)])
    then show ?thesis using key ps drop_kept [OF c'(2,3) refl] by (simp add: ForgetPod_def)
  next
    case False
    then show ?thesis using inv key by (cases "gomap_get (sc_podStates c) (pod_UID pod)") (auto simp: ForgetPod_def)
  qed
qed (use inv in \<open>simp add: ForgetPod_def\<close>)

text \<open>An add that arrives for a pod that is already there but assumed, on the node or on another one.\<close>

lemma AddPod_assumed:
  fixes env :: runtime_env
  assumes inv: "cache_inv c" and r: "room 3 c" and key: "GetPodKey pod = Inr (pod_UID pod)" "pod_UID pod \<noteq> []"
    and ps: "gomap_get (sc_podStates c) (pod_UID pod) = Some ps" and A: "pod_UID pod \<in> set (sc_assumedPods c)"
  shows "\<exists>e c'. cache_AddPod env pod c = Returns (e, c') \<and> kept c c'"
proof -
  define k where "k = pod_UID pod"
  define ps' where "ps' = ps\<lparr>ps_deadline := None, ps_pod := pod\<rparr>"
  note i = cache_invD [OF inv]
  have d: "distinct (removeAll k (sc_assumedPods c))" using i(4) by (simp add: assumed_ok_def distinct_removeAll)
  show ?thesis
  proof (cases "pod_NodeName (ps_pod ps) = pod_NodeName pod")
    case True
    then have "cache_AddPod env pod c = Returns (None, put_state k ps' (set_assumed (removeAll k (sc_assumedPods c)) c))"
      using key ps A by (simp add: cache_AddPod_def k_def ps'_def)
    moreover have "cache_inv (put_state k ps' (set_assumed (removeAll k (sc_assumedPods c)) c))"
      by (rule replace_state_law [OF inv ps [folded k_def]]) (use True d in \<open>auto simp: ps'_def k_def\<close>)
    ultimately show ?thesis by (simp add: kept_def) (simp add: put_state_def set_assumed_def)
  next
    case False
    have r1: "room 1 c" using r by (simp add: room_def)
    note st = pods_rel_state [OF i(3) ps]
    obtain c1 where c1: "cache_removePod env (ps_pod ps) c = Returns (None, c1)" "cache_inv_but k c1" "evolves c c1"
      "sc_gen c1 \<le> sc_gen c + 1" "sc_podStates c1 = sc_podStates c" "sc_assumedPods c1 = sc_assumedPods c"
      using removePod_state_law [OF inv r1 ps st(2) refl] unfolding k_def by blast
    have r2: "room 2 c1" using r c1(4) by (simp add: room_def)
    have f: "sc_assumedPods (cache_addPod env pod c1) = sc_assumedPods c"
      using cache_addPod_law(6) [of c1 env pod] r2 c1(2,6) by (simp add: cache_inv_but_def)
    have "cache_AddPod env pod c
        = Returns (None, put_state k ps' (set_assumed (removeAll k (sc_assumedPods c)) (cache_addPod env (ps_pod ps') c1)))"
      using key ps A False c1(1) f by (simp add: cache_AddPod_def k_def ps'_def)
    moreover have "kept c1 (put_state k ps' (set_assumed (removeAll k (sc_assumedPods c)) (cache_addPod env (ps_pod ps') c1)))"
      using addPod_state_law [OF c1(2) r2, of ps' "removeAll k (sc_assumedPods c)" env] key(2) d c1(6)
      by (auto simp: kept_def ps'_def k_def)
    ultimately show ?thesis using c1(3) by (auto simp: kept_def intro: evolves_trans)
  qed
qed

lemma cache_AddPod_law:
  assumes inv: "cache_inv c" and r: "room 3 c"
  shows "\<exists>e c'. cache_AddPod env pod c = Returns (e, c') \<and> kept c c'"
proof (cases pod rule: key_cases)
  case key
  note i = cache_invD [OF inv]
  show ?thesis
  proof (cases "gomap_get (sc_podStates c) (pod_UID pod)")
    case None
    define ps where "ps = \<lparr>ps_pod = pod, ps_deadline = None, ps_bindingFinished = False\<rparr>"
    have r2: "room 2 c" using r by (simp add: room_def)
    have A: "distinct (sc_assumedPods c)" "pod_UID pod \<notin> set (sc_assumedPods c)" using i(4) None by (auto simp: assumed_ok_def)
    have "set_assumed (sc_assumedPods c) (cache_addPod env pod c) = cache_addPod env pod c"
      using cache_addPod_law(6) [OF i(1) r2, of env pod] set_assumed_same by metis
    then have "cache_AddPod env pod c
        = Returns (None, put_state (pod_UID pod) ps (set_assumed (sc_assumedPods c) (cache_addPod env (ps_pod ps) c)))"
      using key None by (simp add: cache_AddPod_def ps_def)
    then show ?thesis
      using addPod_state_law [OF cache_inv_but_new [OF inv None] r2 key(2), of ps "sc_assumedPods c" env] A
      by (auto simp: ps_def kept_def)
  next
    case (Some ps)
    show ?thesis
    proof (cases "pod_UID pod \<in> set (sc_assumedPods c)")
      case True
      then show ?thesis by (rule AddPod_assumed [OF inv r key Some])
    qed (use inv key Some in \<open>simp add: cache_AddPod_def\<close>)
  qed
qed (use inv in \<open>simp add: cache_AddPod_def\<close>)

text \<open>
  An update or a removal for a pod that was added on another node ends the process; every other
  one returns.
\<close>

definition misplaced :: "Pod \<Rightarrow> schedulerCache \<Rightarrow> bool" where
  "misplaced pod c \<longleftrightarrow>
     pod_UID pod \<notin> set (sc_assumedPods c)
     \<and> (\<exists>ps. gomap_get (sc_podStates c) (pod_UID pod) = Some ps \<and> pod_NodeName (ps_pod ps) \<noteq> pod_NodeName pod)"

lemma cache_RemovePod_law:
  assumes inv: "cache_inv c" and r: "room 1 c" and placed: "\<not> misplaced pod c"
  shows "\<exists>e c'. cache_RemovePod env pod c = Returns (e, c') \<and> kept c c'"
proof (cases pod rule: key_cases)
  case key
  note i = cache_invD [OF inv]
  show ?thesis
  proof (cases "\<exists>ps. gomap_get (sc_podStates c) (pod_UID pod) = Some ps \<and> pod_UID pod \<notin> set (sc_assumedPods c)")
    case True
    then obtain ps where ps: "gomap_get (sc_podStates c) (pod_UID pod) = Some ps" "pod_UID pod \<notin> set (sc_assumedPods c)" by auto
    then have nm: "pod_NodeName (ps_pod ps) = pod_NodeName pod" using placed by (auto simp: misplaced_def)
    obtain c' where c': "cache_removePod env (ps_pod ps) c = Returns (None, c')" "cache_inv_but (pod_UID pod) c'" "evolves c c'"
      "sc_assumedPods c' = sc_assumedPods c"
      using removePod_state_law [OF inv r ps(1) pods_rel_state(2) [OF i(3) ps(1)] refl] by blast
    have "sc_assumedPods c' = removeAll (pod_UID pod) (sc_assumedPods c')" using ps(2) c'(4) by simp
    then have "kept c (drop_state (pod_UID pod) c')" using drop_kept [OF c'(2,3)] set_assumed_same [of c'] by metis
    then show ?thesis using key ps nm c'(1) by (simp add: cache_RemovePod_def)
  next
    case False
    then show ?thesis using inv key by (cases "gomap_get (sc_podStates c) (pod_UID pod)") (auto simp: cache_RemovePod_def)
  qed
qed (use inv in \<open>simp add: cache_RemovePod_def\<close>)

lemma cache_UpdatePod_law:
  assumes inv: "cache_inv c" and r: "room 3 c" and same: "pod_UID new = pod_UID old" "pod_NodeName new = pod_NodeName old"
    and placed: "\<not> misplaced new c"
  shows "\<exists>e c'. cache_UpdatePod env old new c = Returns (e, c') \<and> kept c c'"
proof (cases old rule: key_cases)
  case key
  note i = cache_invD [OF inv]
  show ?thesis
  proof (cases "\<exists>ps. gomap_get (sc_podStates c) (pod_UID old) = Some ps \<and> pod_UID old \<notin> set (sc_assumedPods c)")
    case True
    then obtain ps where ps: "gomap_get (sc_podStates c) (pod_UID old) = Some ps" "pod_UID old \<notin> set (sc_assumedPods c)" by auto
    then have nm: "pod_NodeName (ps_pod ps) = pod_NodeName new" using placed same by (auto simp: misplaced_def)
    have nm': "pod_NodeName old = pod_NodeName (ps_pod ps)" using nm same by simp
    have r1: "room 1 c" using r by (simp add: room_def)
    obtain c1 where c1: "cache_removePod env old c = Returns (None, c1)" "cache_inv_but (pod_UID old) c1" "evolves c c1"
      "sc_gen c1 \<le> sc_gen c + 1" "sc_podStates c1 = sc_podStates c" "sc_assumedPods c1 = sc_assumedPods c"
      by (rule removePod_state_law [OF inv r1 ps(1) refl nm'])
    have r2: "room 2 c1" using r c1(4) by (simp add: room_def)
    have f: "sc_assumedPods (cache_addPod env new c1) = sc_assumedPods c"
      using cache_addPod_law(6) [of c1 env new] r2 c1(2,6) by (simp add: cache_inv_but_def)
    define ps' where "ps' = ps\<lparr>ps_pod := new\<rparr>"
    have "set_assumed (sc_assumedPods c) (cache_addPod env new c1) = cache_addPod env new c1"
      using f set_assumed_same by metis
    then have "cache_UpdatePod env old new c
        = Returns (None, put_state (pod_UID old) ps' (set_assumed (sc_assumedPods c) (cache_addPod env (ps_pod ps') c1)))"
      using key ps nm c1(1) by (simp add: cache_UpdatePod_def cache_updatePod_def ps'_def)
    moreover have "kept c1 (put_state (pod_UID old) ps' (set_assumed (sc_assumedPods c) (cache_addPod env (ps_pod ps') c1)))"
      using addPod_state_law [OF c1(2) r2 key(2), of ps' "sc_assumedPods c" env] i(4) same c1(6) ps(2)
      by (auto simp: kept_def ps'_def assumed_ok_def)
    ultimately show ?thesis using c1(3) by (auto simp: kept_def intro: evolves_trans)
  next
    case False
    then show ?thesis using inv key by (cases "gomap_get (sc_podStates c) (pod_UID old)") (auto simp: cache_UpdatePod_def)
  qed
qed (use inv in \<open>simp add: cache_UpdatePod_def\<close>)

lemma misplaced_fatal:
  assumes "misplaced pod c" and "pod_UID pod \<noteq> []"
  shows "cache_RemovePod env pod c = Panics ''Schedulercache is corrupted and can badly affect scheduling decisions''"
    and "pod_UID old = pod_UID pod \<Longrightarrow>
      cache_UpdatePod env old pod c = Panics ''Schedulercache is corrupted and can badly affect scheduling decisions''"
  using assms by (auto simp: misplaced_def cache_RemovePod_def cache_UpdatePod_def GetPodKey_def)

section \<open>Expiry\<close>

definition expired :: "schedulerCache \<Rightarrow> int \<Rightarrow> string \<Rightarrow> bool" where
  "expired c now k \<longleftrightarrow>
     k \<in> set (sc_assumedPods c) \<and>
     (case gomap_get (sc_podStates c) k of None \<Rightarrow> False
      | Some ps \<Rightarrow> ps_bindingFinished ps \<and> (case ps_deadline ps of None \<Rightarrow> False | Some d \<Rightarrow> d < now))"

lemma cleanup_step_law:
  assumes inv: "cache_inv c" and r: "room 1 c" and k: "k \<in> set (sc_assumedPods c)"
  shows "\<exists>c'. cleanup_step env now k c = Returns c' \<and> kept c c' \<and> sc_gen c' \<le> sc_gen c + 1
    \<and> gomap_get (sc_podStates c') = (if expired c now k then (gomap_get (sc_podStates c))(k := None) else gomap_get (sc_podStates c))
    \<and> sc_assumedPods c' = (if expired c now k then removeAll k (sc_assumedPods c) else sc_assumedPods c)"
proof -
  note i = cache_invD [OF inv]
  obtain ps where ps: "gomap_get (sc_podStates c) k = Some ps" "ps_bindingFinished ps \<longrightarrow> ps_deadline ps \<noteq> None"
    using i(4) k by (auto simp: assumed_ok_def)
  show ?thesis
  proof (cases "expired c now k")
    case True
    then obtain d where d: "ps_bindingFinished ps" "ps_deadline ps = Some d" "d < now"
      using ps by (auto simp: expired_def split: option.splits)
    obtain c1 where c1: "cache_removePod env (ps_pod ps) c = Returns (None, c1)" "cache_inv_but k c1" "evolves c c1"
      "sc_gen c1 \<le> sc_gen c + 1" "sc_podStates c1 = sc_podStates c" "sc_assumedPods c1 = sc_assumedPods c"
      using removePod_state_law [OF inv r ps(1) pods_rel_state(2) [OF i(3) ps(1)] refl] by blast
    then show ?thesis using ps(1) d True drop_kept [OF c1(2,3) refl]
      by (simp add: cleanup_step_def expirePod_def) (simp add: drop_state_def set_assumed_def)
  next
    case False
    then show ?thesis using ps k inv by (auto simp: cleanup_step_def expired_def)
  qed
qed

lemma cleanup_fold:
  assumes "cache_inv c" and "room (int (length ks)) c" and "distinct ks" and "set ks \<subseteq> set (sc_assumedPods c)"
  shows "\<exists>c'. go_fold (cleanup_step env now) ks c = Returns c' \<and> kept c c'
    \<and> gomap_get (sc_podStates c') = (\<lambda>k. if k \<in> set ks \<and> expired c now k then None else gomap_get (sc_podStates c) k)
    \<and> sc_assumedPods c' = filter (\<lambda>k. \<not> (k \<in> set ks \<and> expired c now k)) (sc_assumedPods c)"
  using assms
proof (induction ks arbitrary: c)
  case (Cons k ks)
  have r1: "room 1 c" using Cons.prems(2) by (simp add: room_def)
  obtain c1 where c1: "cleanup_step env now k c = Returns c1" "kept c c1" "sc_gen c1 \<le> sc_gen c + 1"
    "gomap_get (sc_podStates c1) = (if expired c now k then (gomap_get (sc_podStates c))(k := None) else gomap_get (sc_podStates c))"
    "sc_assumedPods c1 = (if expired c now k then removeAll k (sc_assumedPods c) else sc_assumedPods c)"
    using cleanup_step_law [OF Cons.prems(1) r1, of k env now] Cons.prems(4) by auto
  have same: "expired c1 now k' = expired c now k'" if "k' \<noteq> k" for k'
    using that by (simp add: expired_def c1(4,5))
  have "room (int (length ks)) c1" using Cons.prems(2) c1(3) by (simp add: room_def)
  moreover have "cache_inv c1" using c1(2) by (simp add: kept_def)
  moreover have "set ks \<subseteq> set (sc_assumedPods c1)" using Cons.prems(3,4) c1(5) by auto
  ultimately obtain c' where c': "go_fold (cleanup_step env now) ks c1 = Returns c'" "kept c1 c'"
    "gomap_get (sc_podStates c') = (\<lambda>k. if k \<in> set ks \<and> expired c1 now k then None else gomap_get (sc_podStates c1) k)"
    "sc_assumedPods c' = filter (\<lambda>k. \<not> (k \<in> set ks \<and> expired c1 now k)) (sc_assumedPods c1)"
    using Cons.IH [of c1] Cons.prems(3) by auto
  have ne: "k' \<in> set ks \<Longrightarrow> k' \<noteq> k" for k' using Cons.prems(3) by auto
  have "gomap_get (sc_podStates c') = (\<lambda>k'. if k' \<in> set (k # ks) \<and> expired c now k' then None else gomap_get (sc_podStates c) k')"
    using ne same by (auto simp: c'(3) c1(4) fun_eq_iff)
  moreover have "sc_assumedPods c' = filter (\<lambda>k'. \<not> (k' \<in> set (k # ks) \<and> expired c now k')) (sc_assumedPods c)"
    unfolding c'(4) c1(5) using ne same by (auto simp: removeAll_filter_not_eq intro!: filter_cong)
  moreover have "kept c c'" by (rule kept_trans [OF c1(2) c'(2)])
  ultimately show ?case using c1(1) c'(1) by simp
qed simp

lemma cleanup_law:
  assumes inv: "cache_inv c" and r: "room (int (length (sc_assumedPods c))) c"
  shows "\<exists>c'. cleanupAssumedPods env now c = Returns c' \<and> kept c c'
    \<and> gomap_get (sc_podStates c') = (\<lambda>k. if expired c now k then None else gomap_get (sc_podStates c) k)
    \<and> sc_assumedPods c' = filter (\<lambda>k. \<not> expired c now k) (sc_assumedPods c)"
proof -
  have d: "distinct (sc_assumedPods c)" using cache_invD(4) [OF inv] by (simp add: assumed_ok_def)
  obtain c' where c': "go_fold (cleanup_step env now) (sc_assumedPods c) c = Returns c'" "kept c c'"
    "gomap_get (sc_podStates c') = (\<lambda>k. if k \<in> set (sc_assumedPods c) \<and> expired c now k then None else gomap_get (sc_podStates c) k)"
    "sc_assumedPods c' = filter (\<lambda>k. \<not> (k \<in> set (sc_assumedPods c) \<and> expired c now k)) (sc_assumedPods c)"
    using cleanup_fold [OF inv r d order_refl, of env now] by blast
  moreover have "kept c (updateMetrics c')"
    using c'(2) by (simp add: kept_def updateMetrics_def cache_inv_def)
  moreover have "gomap_get (sc_podStates c') = (\<lambda>k. if expired c now k then None else gomap_get (sc_podStates c) k)"
    unfolding c'(3) by (auto simp: expired_def fun_eq_iff)
  moreover have "sc_assumedPods c' = filter (\<lambda>k. \<not> expired c now k) (sc_assumedPods c)"
    unfolding c'(4) by (rule filter_cong) auto
  ultimately show ?thesis by (simp add: cleanupAssumedPods_def) (simp add: updateMetrics_def)
qed

end
