(* ===== verification/Cache_Lifecycle.thy ===== *)
theory Cache_Lifecycle
  imports Cache_Pods
begin

text \<open>
  The state machine of a pod in the cache, as the interface documents it
  (pkg/scheduler/internal/cache/interface.go): a specification on the phases of the pods alone, and
  the proof that the operations on the cache with its NodeInfos, list and tree implement it.
\<close>

section \<open>The specification\<close>

text \<open>
  Initial, expired and deleted pods are not in the cache. An assumed pod has a deadline once its
  binding is finished.
\<close>

datatype pod_phase = Absent | Assumed string "int option" | Added string

type_synonym phases = "string \<Rightarrow> pod_phase"

definition spec_Assume :: "Pod \<Rightarrow> phases \<Rightarrow> phases" where
  "spec_Assume pod \<sigma> =
     (if pod_UID pod \<noteq> [] \<and> \<sigma> (pod_UID pod) = Absent then \<sigma>(pod_UID pod := Assumed (pod_NodeName pod) None) else \<sigma>)"

definition spec_FinishBinding :: "Pod \<Rightarrow> int \<Rightarrow> phases \<Rightarrow> phases" where
  "spec_FinishBinding pod deadline \<sigma> =
     (case \<sigma> (pod_UID pod) of Assumed n _ \<Rightarrow> \<sigma>(pod_UID pod := Assumed n (Some deadline)) | _ \<Rightarrow> \<sigma>)"

definition spec_Forget :: "Pod \<Rightarrow> phases \<Rightarrow> phases" where
  "spec_Forget pod \<sigma> =
     (case \<sigma> (pod_UID pod) of Assumed n _ \<Rightarrow> if n = pod_NodeName pod then \<sigma>(pod_UID pod := Absent) else \<sigma> | _ \<Rightarrow> \<sigma>)"

definition spec_Add :: "Pod \<Rightarrow> phases \<Rightarrow> phases" where
  "spec_Add pod \<sigma> =
     (case \<sigma> (pod_UID pod) of Added _ \<Rightarrow> \<sigma>
      | _ \<Rightarrow> if pod_UID pod = [] then \<sigma> else \<sigma>(pod_UID pod := Added (pod_NodeName pod)))"

definition spec_Remove :: "Pod \<Rightarrow> phases \<Rightarrow> phases" where
  "spec_Remove pod \<sigma> = (case \<sigma> (pod_UID pod) of Added _ \<Rightarrow> \<sigma>(pod_UID pod := Absent) | _ \<Rightarrow> \<sigma>)"

definition spec_Expire :: "int \<Rightarrow> phases \<Rightarrow> phases" where
  "spec_Expire now \<sigma> = (\<lambda>k. case \<sigma> k of Assumed _ (Some d) \<Rightarrow> if d < now then Absent else \<sigma> k | p \<Rightarrow> p)"

section \<open>The phases of a cache\<close>

definition phase_of :: "bool \<Rightarrow> podState \<Rightarrow> pod_phase" where
  "phase_of assumed ps =
     (if assumed then Assumed (pod_NodeName (ps_pod ps)) (if ps_bindingFinished ps then ps_deadline ps else None)
      else Added (pod_NodeName (ps_pod ps)))"

definition phases :: "schedulerCache \<Rightarrow> phases" where
  "phases c k = (case gomap_get (sc_podStates c) k of None \<Rightarrow> Absent | Some ps \<Rightarrow> phase_of (k \<in> set (sc_assumedPods c)) ps)"

lemma phases_cong:
  "sc_podStates c' = sc_podStates c \<Longrightarrow> sc_assumedPods c' = sc_assumedPods c \<Longrightarrow> phases c' = phases c"
  by (simp add: phases_def fun_eq_iff split: option.split)

lemma phases_put:
  assumes "sc_podStates c1 = sc_podStates c" and "\<And>k'. k' \<noteq> k \<Longrightarrow> k' \<in> set A \<longleftrightarrow> k' \<in> set (sc_assumedPods c)"
  shows "phases (put_state k ps (set_assumed A c1)) = (phases c)(k := phase_of (k \<in> set A) ps)"
  using assms by (auto simp: phases_def put_state_def set_assumed_def fun_eq_iff split: option.split)

lemma phases_drop:
  assumes "sc_podStates c1 = sc_podStates c" and "\<And>k'. k' \<noteq> k \<Longrightarrow> k' \<in> set A \<longleftrightarrow> k' \<in> set (sc_assumedPods c)"
  shows "phases (drop_state k (set_assumed A c1)) = (phases c)(k := Absent)"
  using assms by (auto simp: phases_def drop_state_def set_assumed_def fun_eq_iff split: option.split)

lemma phases_empty_key: "cache_inv c \<Longrightarrow> phases c [] = Absent"
  using pods_rel_state(1) [OF cache_invD(3)] by (fastforce simp: phases_def split: option.split)

lemma phases_absent: "phases c k = Absent \<longleftrightarrow> gomap_get (sc_podStates c) k = None"
  by (simp add: phases_def phase_of_def split: option.split)

lemma addPod_frame:
  "sc_podStates (cache_addPod env pod c) = sc_podStates c" "sc_assumedPods (cache_addPod env pod c) = sc_assumedPods c"
  using relinked_fields(6,7) [OF moveNodeInfoToHead_relinked]
  by (auto simp: cache_addPod_def Let_def set_info_def new_item_def split: option.split)

section \<open>Refinement\<close>

lemma AssumePod_phases:
  assumes inv: "cache_inv c"
  shows "phases (snd (AssumePod env pod c)) = spec_Assume pod (phases c)"
proof (cases pod rule: key_cases)
  case key
  let ?k = "pod_UID pod"
  show ?thesis
  proof (cases "gomap_get (sc_podStates c) ?k")
    case None
    have "snd (AssumePod env pod c) = put_state ?k \<lparr>ps_pod = pod, ps_deadline = None, ps_bindingFinished = False\<rparr>
        (set_assumed (List.insert ?k (sc_assumedPods c)) (cache_addPod env pod c))"
      using key None by (simp add: AssumePod_def Let_def addPod_frame put_state_def set_assumed_def)
    then show ?thesis using key None
      by (simp add: phases_put [OF addPod_frame(1)] spec_Assume_def phases_absent phase_of_def)
  next
    case (Some ps)
    then have "phases c ?k \<noteq> Absent" by (simp add: phases_absent)
    then show ?thesis using key Some by (simp add: AssumePod_def spec_Assume_def)
  qed
qed (simp add: AssumePod_def spec_Assume_def GetPodKey_def split: if_splits)

lemma finishBinding_phases:
  assumes inv: "cache_inv c"
  shows "phases (snd (finishBinding pod now c)) = spec_FinishBinding pod (now + sc_ttl c) (phases c)"
proof (cases pod rule: key_cases)
  case bad
  then have "pod_UID pod = []" by (simp add: GetPodKey_def split: if_splits)
  then show ?thesis using bad phases_empty_key [OF inv] by (simp add: finishBinding_def spec_FinishBinding_def)
next
  case key
  let ?k = "pod_UID pod"
  show ?thesis
  proof (cases "\<exists>ps. gomap_get (sc_podStates c) ?k = Some ps \<and> ?k \<in> set (sc_assumedPods c)")
    case True
    then obtain ps where ps: "gomap_get (sc_podStates c) ?k = Some ps" "?k \<in> set (sc_assumedPods c)" by blast
    define ps' where "ps' = ps\<lparr>ps_bindingFinished := True, ps_deadline := Some (now + sc_ttl c)\<rparr>"
    have "snd (finishBinding pod now c) = put_state ?k ps' (set_assumed (sc_assumedPods c) c)"
      using key ps by (simp add: finishBinding_def set_assumed_same ps'_def)
    then show ?thesis using ps
      by (simp add: phases_put [OF refl] spec_FinishBinding_def phase_of_def ps'_def) (simp add: phases_def phase_of_def)
  next
    case False
    then have "snd (finishBinding pod now c) = c" using key by (auto simp: finishBinding_def split: option.split)
    moreover have "spec_FinishBinding pod d (phases c) = phases c" for d
      using False by (auto simp: spec_FinishBinding_def phases_def phase_of_def split: option.split pod_phase.split)
    ultimately show ?thesis by simp
  qed
qed

lemma empty_key: "GetPodKey pod = Inl e \<Longrightarrow> pod_UID pod = []"
  by (simp add: GetPodKey_def split: if_splits)

lemma ForgetPod_phases:
  assumes inv: "cache_inv c" and r: "room 1 c" and ret: "ForgetPod env pod c = Returns (e, c')"
  shows "phases c' = spec_Forget pod (phases c)"
proof (cases pod rule: key_cases)
  case bad
  then show ?thesis using ret phases_empty_key [OF inv] empty_key [OF bad] by (simp add: ForgetPod_def spec_Forget_def)
next
  case key
  let ?k = "pod_UID pod"
  show ?thesis
  proof (cases "\<exists>ps. gomap_get (sc_podStates c) ?k = Some ps \<and> pod_NodeName (ps_pod ps) = pod_NodeName pod \<and> ?k \<in> set (sc_assumedPods c)")
    case True
    then obtain ps where ps: "gomap_get (sc_podStates c) ?k = Some ps" "pod_NodeName pod = pod_NodeName (ps_pod ps)"
      "?k \<in> set (sc_assumedPods c)" by auto
    obtain c1 where c1: "cache_removePod env pod c = Returns (None, c1)" "sc_podStates c1 = sc_podStates c"
      "sc_assumedPods c1 = sc_assumedPods c"
      by (rule removePod_state_law [OF inv r ps(1) refl ps(2)])
    have "c' = drop_state ?k (set_assumed (removeAll ?k (sc_assumedPods c)) c1)"
      using ret key ps c1 by (simp add: ForgetPod_def)
    then show ?thesis using ps
      by (simp add: phases_drop [OF c1(2)] spec_Forget_def) (simp add: phases_def phase_of_def)
  next
    case False
    then have "c' = c" using ret key by (auto simp: ForgetPod_def split: option.splits if_splits)
    moreover have "spec_Forget pod (phases c) = phases c"
      using False by (auto simp: spec_Forget_def phases_def phase_of_def split: option.split pod_phase.split)
    ultimately show ?thesis by simp
  qed
qed

lemma cache_RemovePod_phases:
  assumes inv: "cache_inv c" and r: "room 1 c" and ret: "cache_RemovePod env pod c = Returns (e, c')"
  shows "phases c' = spec_Remove pod (phases c)"
proof (cases pod rule: key_cases)
  case bad
  then show ?thesis using ret phases_empty_key [OF inv] empty_key [OF bad] by (simp add: cache_RemovePod_def spec_Remove_def)
next
  case key
  let ?k = "pod_UID pod"
  show ?thesis
  proof (cases "\<exists>ps. gomap_get (sc_podStates c) ?k = Some ps \<and> ?k \<notin> set (sc_assumedPods c)")
    case True
    then obtain ps where ps: "gomap_get (sc_podStates c) ?k = Some ps" "?k \<notin> set (sc_assumedPods c)" by blast
    obtain c1 where c1: "cache_removePod env (ps_pod ps) c = Returns (None, c1)" "sc_podStates c1 = sc_podStates c"
      "sc_assumedPods c1 = sc_assumedPods c"
      using removePod_state_law [OF inv r ps(1) pods_rel_state(2) [OF cache_invD(3) [OF inv] ps(1)] refl] by blast
    have "c' = drop_state ?k (set_assumed (sc_assumedPods c1) c1)"
      using ret key ps c1(1) by (simp add: cache_RemovePod_def set_assumed_same split: if_splits)
    then show ?thesis using ps
      by (simp add: phases_drop [OF c1(2)] c1(3) spec_Remove_def) (simp add: phases_def phase_of_def)
  next
    case False
    then have "c' = c" using ret key by (auto simp: cache_RemovePod_def split: option.splits if_splits)
    moreover have "spec_Remove pod (phases c) = phases c"
      using False by (auto simp: spec_Remove_def phases_def phase_of_def split: option.split pod_phase.split)
    ultimately show ?thesis by simp
  qed
qed

lemma cache_AddPod_phases:
  assumes inv: "cache_inv c" and r: "room 1 c" and ret: "cache_AddPod env pod c = Returns (e, c')"
  shows "phases c' = spec_Add pod (phases c)"
proof (cases pod rule: key_cases)
  case bad
  then show ?thesis using ret phases_empty_key [OF inv] empty_key [OF bad] by (simp add: cache_AddPod_def spec_Add_def)
next
  case key
  let ?k = "pod_UID pod"
  let ?A = "removeAll ?k (sc_assumedPods c)"
  show ?thesis
  proof (cases "gomap_get (sc_podStates c) ?k")
    case None
    define ps where "ps = \<lparr>ps_pod = pod, ps_deadline = None, ps_bindingFinished = False\<rparr>"
    have nA: "?k \<notin> set (sc_assumedPods c)" using cache_invD(4) [OF inv] None by (auto simp: assumed_ok_def)
    have "c' = put_state ?k ps (set_assumed (sc_assumedPods (cache_addPod env pod c)) (cache_addPod env pod c))"
      using ret key None by (simp add: cache_AddPod_def set_assumed_same ps_def)
    then show ?thesis using key None nA
      by (simp add: phases_put [OF addPod_frame(1)] addPod_frame(2) spec_Add_def phase_of_def ps_def) (simp add: phases_def)
  next
    case (Some ps)
    define ps' where "ps' = ps\<lparr>ps_deadline := None, ps_pod := pod\<rparr>"
    show ?thesis
    proof (cases "?k \<in> set (sc_assumedPods c)")
      case True
      obtain c1 where c1: "cache_removePod env (ps_pod ps) c = Returns (None, c1)" "sc_podStates c1 = sc_podStates c"
        "sc_assumedPods c1 = sc_assumedPods c"
        using removePod_state_law [OF inv r Some pods_rel_state(2) [OF cache_invD(3) [OF inv] Some] refl] by blast
      define c2 where "c2 = (if pod_NodeName (ps_pod ps) \<noteq> pod_NodeName pod then cache_addPod env pod c1 else c)"
      have c2: "sc_podStates c2 = sc_podStates c" "sc_assumedPods c2 = sc_assumedPods c"
        by (simp_all add: c2_def addPod_frame c1)
      have "c' = put_state ?k ps' (set_assumed ?A c2)"
        using ret key Some True c1 c2(2) by (auto simp: cache_AddPod_def c2_def ps'_def split: if_splits)
      then show ?thesis using key True Some
        by (simp add: phases_put [OF c2(1)] spec_Add_def phase_of_def ps'_def) (simp add: phases_def phase_of_def)
    next
      case False
      then show ?thesis using ret key Some by (simp add: cache_AddPod_def spec_Add_def phases_def phase_of_def)
    qed
  qed
qed

lemma cache_UpdatePod_phases:
  assumes inv: "cache_inv c" and r: "room 1 c" and ret: "cache_UpdatePod env old new c = Returns (e, c')"
    and same: "pod_UID new = pod_UID old" "pod_NodeName new = pod_NodeName old"
  shows "phases c' = phases c"
proof (cases old rule: key_cases)
  case bad
  then show ?thesis using ret by (simp add: cache_UpdatePod_def)
next
  case key
  let ?k = "pod_UID old"
  show ?thesis
  proof (cases "\<exists>ps. gomap_get (sc_podStates c) ?k = Some ps \<and> ?k \<notin> set (sc_assumedPods c)")
    case True
    then obtain ps where ps: "gomap_get (sc_podStates c) ?k = Some ps" "?k \<notin> set (sc_assumedPods c)" by blast
    have nm: "pod_NodeName old = pod_NodeName (ps_pod ps)"
      using ret key ps same by (simp add: cache_UpdatePod_def split: if_splits)
    obtain c1 where c1: "cache_removePod env old c = Returns (None, c1)" "sc_podStates c1 = sc_podStates c"
      "sc_assumedPods c1 = sc_assumedPods c"
      by (rule removePod_state_law [OF inv r ps(1) refl nm])
    have frame: "sc_podStates (cache_addPod env new c1) = sc_podStates c" by (simp add: addPod_frame c1)
    have "c' = put_state ?k (ps\<lparr>ps_pod := new\<rparr>) (set_assumed (sc_assumedPods (cache_addPod env new c1)) (cache_addPod env new c1))"
      using ret key ps c1(1) nm same by (simp add: cache_UpdatePod_def cache_updatePod_def set_assumed_same)
    then show ?thesis using ps nm same
      by (simp add: phases_put [OF frame] addPod_frame c1(3) phase_of_def) (simp add: phases_def phase_of_def fun_upd_idem)
  next
    case False
    then show ?thesis using ret key by (auto simp: cache_UpdatePod_def split: option.splits if_splits)
  qed
qed

lemma cleanup_phases:
  assumes inv: "cache_inv c" and r: "room (int (length (sc_assumedPods c))) c" and ret: "cleanupAssumedPods env now c = Returns c'"
  shows "phases c' = spec_Expire now (phases c)"
proof
  fix k
  have c': "gomap_get (sc_podStates c') = (\<lambda>k. if expired c now k then None else gomap_get (sc_podStates c) k)"
    "sc_assumedPods c' = filter (\<lambda>k. \<not> expired c now k) (sc_assumedPods c)"
    using cleanup_law [OF inv r, of env now] ret by auto
  show "phases c' k = spec_Expire now (phases c) k"
    by (auto simp: phases_def c' spec_Expire_def expired_def phase_of_def split: option.split)
qed

end
