(* ===== verification/Cache_Snapshot.thy ===== *)
theory Cache_Snapshot
  imports Cache_Pods
begin

text \<open>
  Bringing a snapshot up to date: the walk along the list of the cache copies exactly the
  NodeInfos that changed since the snapshot was taken, and the snapshot that comes out holds the
  NodeInfos of the present nodes and no others.
\<close>

section \<open>What a snapshot holds\<close>

definition view :: "Snapshot \<Rightarrow> string \<Rightarrow> NodeInfo option" where
  "view s nm = map_option (sn_infos s) (gomap_get (sn_nodeInfoMap s) nm)"

definition addrs :: "Snapshot \<Rightarrow> nat set" where
  "addrs s = set (map snd (sn_nodeInfoMap s))"

definition map_ok :: "Snapshot \<Rightarrow> bool" where
  "map_ok s \<longleftrightarrow> gomap_ok (sn_nodeInfoMap s) \<and> distinct (map snd (sn_nodeInfoMap s)) \<and> (\<forall>a\<in>addrs s. a < sn_fresh s)"

definition aff :: "Snapshot \<Rightarrow> nat \<Rightarrow> bool" where
  "aff s a \<longleftrightarrow> ni_PodsWithAffinity (sn_infos s a) \<noteq> []"

definition anti :: "Snapshot \<Rightarrow> nat \<Rightarrow> bool" where
  "anti s a \<longleftrightarrow> ni_PodsWithRequiredAntiAffinity (sn_infos s a) \<noteq> []"

definition quiet :: "snapshot_flags \<Rightarrow> bool" where
  "quiet f \<longleftrightarrow> \<not> updateAllLists f \<and> \<not> updateNodesHavePodsWithAffinity f \<and> \<not> updateNodesHavePodsWithRequiredAntiAffinity f"

text \<open>How a snapshot in the making differs from the one the walk began with.\<close>

definition grown :: "Snapshot \<times> snapshot_flags \<Rightarrow> Snapshot \<times> snapshot_flags \<Rightarrow> bool" where
  "grown sf sf' \<longleftrightarrow>
     (case (sf, sf') of ((s, f), (s', f')) \<Rightarrow>
       (map_ok s \<longrightarrow> map_ok s') \<and> sn_generation s' = sn_generation s \<and> sn_nodeInfoList s' = sn_nodeInfoList s
       \<and> sn_havePodsWithAffinityNodeInfoList s' = sn_havePodsWithAffinityNodeInfoList s
       \<and> sn_havePodsWithRequiredAntiAffinityNodeInfoList s' = sn_havePodsWithRequiredAntiAffinityNodeInfoList s
       \<and> (updateAllLists f \<longrightarrow> updateAllLists f') \<and> (quiet f' \<longrightarrow> quiet f)
       \<and> (\<not> updateAllLists f' \<longrightarrow> sn_nodeInfoMap s' = sn_nodeInfoMap s)
       \<and> (quiet f' \<longrightarrow> (\<forall>a\<in>addrs s. aff s' a = aff s a \<and> anti s' a = anti s a)))"

lemma grown_refl: "grown sf sf"
  by (cases sf) (simp add: grown_def)

lemma grown_trans:
  assumes "grown (s, f) (s1, f1)" and "grown (s1, f1) (s2, f2)"
  shows "grown (s, f) (s2, f2)"
proof -
  have q: "quiet f2 \<Longrightarrow> quiet f1" and m: "\<not> updateAllLists f2 \<Longrightarrow> \<not> updateAllLists f1" using assms(2) by (auto simp: grown_def)
  have "addrs s1 = addrs s" if "quiet f2"
    using assms(1) q [OF that] by (simp add: grown_def quiet_def addrs_def)
  then have "\<forall>a\<in>addrs s. aff s2 a = aff s a \<and> anti s2 a = anti s a" if "quiet f2"
    using assms that q [OF that] by (simp add: grown_def)
  moreover have "sn_nodeInfoMap s2 = sn_nodeInfoMap s" if "\<not> updateAllLists f2"
    using assms that m [OF that] by (simp add: grown_def)
  ultimately show ?thesis using assms by (simp add: grown_def)
qed

lemma gomap_set_new: "gomap_get m k = None \<Longrightarrow> gomap_set m k v = m @ [(k, v)]"
  by (induction m k v rule: gomap_set.induct) (auto split: if_splits)

lemma snapshot_node_new:
  assumes "ni_node info = Some np" and "gomap_get (sn_nodeInfoMap s) (node_Name np) = None"
  obtains f' where "updateAllLists f'"
    and "snapshot_node info (s, f) =
      (s\<lparr>sn_nodeInfoMap := sn_nodeInfoMap s @ [(node_Name np, sn_fresh s)],
         sn_infos := (sn_infos s)(sn_fresh s := info), sn_fresh := sn_fresh s + 1\<rparr>, f')"
proof -
  have "fst (snapshot_node info (s, f)) = s\<lparr>sn_nodeInfoMap := sn_nodeInfoMap s @ [(node_Name np, sn_fresh s)],
      sn_infos := (sn_infos s)(sn_fresh s := info), sn_fresh := sn_fresh s + 1\<rparr>"
    and "updateAllLists (snd (snapshot_node info (s, f)))"
    using assms by (simp_all add: snapshot_node_def Let_def gomap_set_new)
  then show ?thesis using that by (metis prod.collapse)
qed

lemma snapshot_node_old:
  assumes "ni_node info = Some np" and "gomap_get (sn_nodeInfoMap s) (node_Name np) = Some a"
  obtains f' where "snapshot_node info (s, f) = (s\<lparr>sn_infos := (sn_infos s)(a := info)\<rparr>, f')"
    and "updateAllLists f' = updateAllLists f"
    and "quiet f' \<longleftrightarrow> quiet f \<and> aff s a = (ni_PodsWithAffinity info \<noteq> []) \<and> anti s a = (ni_PodsWithRequiredAntiAffinity info \<noteq> [])"
proof -
  let ?f2 = "if (ni_PodsWithAffinity (sn_infos s a) \<noteq> []) \<noteq> (ni_PodsWithAffinity info \<noteq> [])
    then f\<lparr>updateNodesHavePodsWithAffinity := True\<rparr> else f"
  let ?f3 = "if (ni_PodsWithRequiredAntiAffinity (sn_infos s a) \<noteq> []) \<noteq> (ni_PodsWithRequiredAntiAffinity info \<noteq> [])
    then ?f2\<lparr>updateNodesHavePodsWithRequiredAntiAffinity := True\<rparr> else ?f2"
  have "snapshot_node info (s, f) = (s\<lparr>sn_infos := (sn_infos s)(a := info)\<rparr>, ?f3)"
    using assms unfolding snapshot_node_def by (simp add: Let_def)
  moreover have "updateAllLists ?f3 = updateAllLists f" by simp
  moreover have "quiet ?f3 \<longleftrightarrow> quiet f \<and> aff s a = (ni_PodsWithAffinity info \<noteq> []) \<and> anti s a = (ni_PodsWithRequiredAntiAffinity info \<noteq> [])"
    by (simp add: quiet_def aff_def anti_def)
  ultimately show ?thesis by (rule that)
qed

lemma snapshot_node_law:
  assumes node: "ni_node info = Some np" and ok: "map_ok s"
  shows "grown (s, f) (snapshot_node info (s, f))"
    and "view (fst (snapshot_node info (s, f))) = (view s)(node_Name np \<mapsto> info)"
proof -
  have fresh: "gomap_get (sn_nodeInfoMap s) nm = Some a \<Longrightarrow> a < sn_fresh s" for nm a
    using ok gomap_get_mem [of "sn_nodeInfoMap s" nm a] by (auto simp: map_ok_def addrs_def)
  have inj: "gomap_get (sn_nodeInfoMap s) nm = Some a \<Longrightarrow> gomap_get (sn_nodeInfoMap s) nm' = Some a \<Longrightarrow> nm = nm'" for nm nm' a
    using ok by (auto simp: map_ok_def intro: gomap_value_inj)
  have "grown (s, f) (snapshot_node info (s, f)) \<and> view (fst (snapshot_node info (s, f))) = (view s)(node_Name np \<mapsto> info)"
  proof (cases "gomap_get (sn_nodeInfoMap s) (node_Name np)")
    case None
    then have nk: "node_Name np \<notin> fst ` set (sn_nodeInfoMap s)" by (simp add: map_of_eq_None_iff)
    obtain f' where f': "updateAllLists f'" and eq: "snapshot_node info (s, f) =
      (s\<lparr>sn_nodeInfoMap := sn_nodeInfoMap s @ [(node_Name np, sn_fresh s)],
         sn_infos := (sn_infos s)(sn_fresh s := info), sn_fresh := sn_fresh s + 1\<rparr>, f')"
      by (rule snapshot_node_new [OF node None])
    have "grown (s, f) (snapshot_node info (s, f))"
      using f' nk unfolding eq grown_def quiet_def map_ok_def addrs_def gomap_ok_def by force
    moreover have "view (fst (snapshot_node info (s, f))) nm = ((view s)(node_Name np \<mapsto> info)) nm" for nm
      using fresh [of nm] None unfolding eq
      by (cases "gomap_get (sn_nodeInfoMap s) nm") (auto simp: view_def map_add_def)
    ultimately show ?thesis by blast
  next
    case (Some a)
    obtain f' where eq: "snapshot_node info (s, f) = (s\<lparr>sn_infos := (sn_infos s)(a := info)\<rparr>, f')"
      and f': "updateAllLists f' = updateAllLists f"
      "quiet f' \<longleftrightarrow> quiet f \<and> aff s a = (ni_PodsWithAffinity info \<noteq> []) \<and> anti s a = (ni_PodsWithRequiredAntiAffinity info \<noteq> [])"
      by (rule snapshot_node_old [OF node Some])
    have "grown (s, f) (snapshot_node info (s, f))"
      using f' unfolding eq grown_def map_ok_def addrs_def by (simp add: aff_def anti_def)
    moreover have "view (fst (snapshot_node info (s, f))) nm = ((view s)(node_Name np \<mapsto> info)) nm" for nm
      using inj [OF Some, of nm] Some unfolding eq
      by (cases "gomap_get (sn_nodeInfoMap s) nm") (auto simp: view_def)
    ultimately show ?thesis by blast
  qed
  then show "grown (s, f) (snapshot_node info (s, f))"
    and "view (fst (snapshot_node info (s, f))) = (view s)(node_Name np \<mapsto> info)" by blast+
qed

section \<open>The walk\<close>

definition named :: "string \<Rightarrow> NodeInfo \<Rightarrow> bool" where
  "named nm info \<longleftrightarrow> (\<exists>np. ni_node info = Some np \<and> node_Name np = nm)"

lemma snapshot_fold_law:
  assumes "map_ok s"
  shows "grown (s, f) (fold snapshot_node infos (s, f))
    \<and> (\<forall>nm. (\<forall>info\<in>set infos. \<not> named nm info) \<longrightarrow> view (fst (fold snapshot_node infos (s, f))) nm = view s nm)
    \<and> (\<forall>nm info. info \<in> set infos \<longrightarrow> (\<forall>info'\<in>set infos. named nm info' \<longleftrightarrow> info' = info) \<longrightarrow>
        view (fst (fold snapshot_node infos (s, f))) nm = Some info)"
  using assms
proof (induction infos arbitrary: s f)
  case (Cons i infos)
  obtain s1 f1 where s1: "snapshot_node i (s, f) = (s1, f1)" by fastforce
  have "grown (s, f) (s1, f1) \<and> (\<forall>nm. view s1 nm = (if named nm i then Some i else view s nm))"
  proof (cases "ni_node i")
    case None
    then have "s1 = s" "f1 = f" "\<not> named nm i" for nm using s1 by (simp_all add: snapshot_node_def named_def)
    then show ?thesis by (simp add: grown_refl)
  next
    case (Some np)
    then have "named nm i \<longleftrightarrow> nm = node_Name np" for nm by (auto simp: named_def)
    then show ?thesis using snapshot_node_law [OF Some \<open>map_ok s\<close>, of f] s1 by simp
  qed
  then have g: "grown (s, f) (s1, f1)" and out: "view s1 nm = (if named nm i then Some i else view s nm)" for nm by auto
  have ok: "map_ok s1" using g \<open>map_ok s\<close> by (simp add: grown_def)
  obtain s2 f2 where s2: "fold snapshot_node infos (s1, f1) = (s2, f2)" by fastforce
  have all: "fold snapshot_node (i # infos) (s, f) = (s2, f2)" using s1 s2 by simp
  have IH: "grown (s1, f1) (s2, f2)" "\<forall>info\<in>set infos. \<not> named nm info \<Longrightarrow> view s2 nm = view s1 nm"
    "info \<in> set infos \<Longrightarrow> \<forall>info'\<in>set infos. named nm info' \<longleftrightarrow> info' = info \<Longrightarrow> view s2 nm = Some info" for nm info
    using Cons.IH [OF ok, of f1] unfolding s2 fst_conv by blast+
  have "view s2 nm = view s nm" if "\<forall>info\<in>set (i # infos). \<not> named nm info" for nm
    using IH(2) [of nm] that out [of nm] by simp
  moreover have "view s2 nm = Some info"
    if mem: "info \<in> set (i # infos)" and only: "\<forall>info'\<in>set (i # infos). named nm info' \<longleftrightarrow> info' = info" for nm info
  proof (cases "info \<in> set infos")
    case True
    then show ?thesis using IH(3) [of info nm] only by simp
  next
    case False
    then have "info = i" "\<forall>info\<in>set infos. \<not> named nm info" using mem only by auto
    then show ?thesis using IH(2) [of nm] out [of nm] only by simp
  qed
  ultimately show ?case unfolding all fst_conv using grown_trans [OF g IH(1)] by blast
qed (simp add: grown_refl)

lemma snapshot_loop_law:
  assumes "dseg (sc_items c) p h xs None l"
  shows "snapshot_loop c g h sf
    = Some (fold snapshot_node (map (\<lambda>a. it_info (item c a)) (takeWhile (\<lambda>a. \<not> igen c a \<le> g) xs)) sf)"
  using assms
proof (induction xs arbitrary: p h sf)
  case (Cons a xs)
  then have h: "h = Some a" and rest: "dseg (sc_items c) (Some a) (it_next (item c a)) xs None l" by simp_all
  show ?case unfolding h by (subst snapshot_loop.simps) (simp add: Cons.IH [OF rest])
qed (simp add: snapshot_loop.simps)

lemma takeWhile_sorted:
  assumes "sorted_wrt (\<lambda>a b. g b < g a) xs" and "x \<in> set xs"
  shows "x \<in> set (takeWhile (\<lambda>a. \<not> g a \<le> (m :: int)) xs) \<longleftrightarrow> m < g x"
  using assms by (induction xs) (auto simp: not_le dest: order.strict_trans set_takeWhileD)

section \<open>The invariant of a snapshot\<close>

definition snap_ok :: "schedulerCache \<Rightarrow> Snapshot \<Rightarrow> bool" where
  "snap_ok c s \<longleftrightarrow>
     map_ok s \<and> 0 \<le> sn_generation s \<and> sn_generation s \<le> sc_gen c
     \<and> (\<forall>nm info. cinfo c nm = Some info \<longrightarrow> ni_node info \<noteq> None \<longrightarrow> ni_Generation info \<le> sn_generation s \<longrightarrow> view s nm = Some info)
     \<and> distinct (sn_nodeInfoList s) \<and> set (sn_nodeInfoList s) = addrs s
     \<and> sn_havePodsWithAffinityNodeInfoList s = filter (aff s) (sn_nodeInfoList s)
     \<and> sn_havePodsWithRequiredAntiAffinityNodeInfoList s = filter (anti s) (sn_nodeInfoList s)"

lemma snap_ok_evolves:
  assumes "snap_ok c s" and "evolves c c'"
  shows "snap_ok c' s"
  using assms unfolding snap_ok_def evolves_def by fastforce

text \<open>After the walk the snapshot agrees with the cache on every present node.\<close>

lemma walk_law:
  assumes inv: "base_inv c" and ok: "snap_ok c s"
  obtains s1 f1 where "snapshot_loop c (sn_generation s) (sc_headNode c) (s, f) = Some (s1, f1)" and "grown (s, f) (s1, f1)"
    and "\<And>nm info. cinfo c nm = Some info \<Longrightarrow> ni_node info \<noteq> None \<Longrightarrow> view s1 nm = Some info"
proof -
  obtain xs where s: "cache_struct c xs {}" and g: "gens_ok c xs" and t: "tree_inv c" using inv by (auto simp: base_inv_def)
  obtain l where d: "dseg (sc_items c) None (sc_headNode c) xs None l" using s by (auto simp: cache_struct_def list_ok_def)
  define news where "news = takeWhile (\<lambda>a. \<not> igen c a \<le> sn_generation s) xs"
  define infos where "infos = map (\<lambda>a. it_info (item c a)) news"
  obtain s1 f1 where s1: "fold snapshot_node infos (s, f) = (s1, f1)" by fastforce
  have loop: "snapshot_loop c (sn_generation s) (sc_headNode c) (s, f) = Some (s1, f1)"
    using snapshot_loop_law [OF d] s1 by (simp add: infos_def news_def)
  have mok: "map_ok s" using ok by (simp add: snap_ok_def)
  have fold: "grown (s, f) (s1, f1)" "\<forall>info\<in>set infos. \<not> named nm info \<Longrightarrow> view s1 nm = view s nm"
    "info \<in> set infos \<Longrightarrow> \<forall>info'\<in>set infos. named nm info' \<longleftrightarrow> info' = info \<Longrightarrow> view s1 nm = Some info" for nm info
    using snapshot_fold_law [OF mok, of f infos] unfolding s1 fst_conv by blast+
  have src: "\<exists>nm'. cinfo c nm' = Some info" if mem: "info \<in> set infos" for info
  proof -
    obtain a where a: "a \<in> set xs" "info = it_info (item c a)"
      using mem by (auto simp: infos_def news_def dest: set_takeWhileD)
    then have "a \<in> set (map snd (sc_nodes c))" using s by (simp add: cache_struct_def)
    then obtain nm where "(nm, a) \<in> set (sc_nodes c)" by auto
    then have "gomap_get (sc_nodes c) nm = Some a" using s by (simp add: cache_struct_def gomap_get_in)
    then show ?thesis using a(2) by (auto simp: cinfo_def)
  qed
  have name: "cinfo c nm = Some info" if "info \<in> set infos" "named nm info" for nm info
    using src [OF that(1)] that(2) t unfolding tree_inv_def named_def by blast
  have agree: "view s1 nm = Some info" if i: "cinfo c nm = Some info" "ni_node info \<noteq> None" for nm info
  proof (cases "sn_generation s < ni_Generation info")
    case True
    obtain a where a: "gomap_get (sc_nodes c) nm = Some a" "info = it_info (item c a)" using i(1) by (auto simp: cinfo_def)
    have "a \<in> set xs" using struct_mem [OF s a(1)] by simp
    then have "a \<in> set news" using takeWhile_sorted [of "igen c" xs a "sn_generation s"] g True a(2)
      by (simp add: news_def gens_ok_def)
    then have mem: "info \<in> set infos" by (simp add: infos_def a(2))
    have nmd: "named nm info" using i t unfolding tree_inv_def named_def by blast
    have "named nm info' \<longleftrightarrow> info' = info" if m: "info' \<in> set infos" for info'
    proof
      assume "named nm info'"
      then show "info' = info" using name [OF m] i(1) by simp
    qed (simp add: nmd)
    then show ?thesis by (intro fold(3) [OF mem] ballI)
  next
    case False
    have "\<not> named nm info'" if "info' \<in> set infos" for info'
    proof
      assume "named nm info'"
      then have "info' = info" using name [OF that] i(1) by simp
      then show False using that False by (auto simp: infos_def news_def dest!: set_takeWhileD)
    qed
    then have "view s1 nm = view s nm" using fold(2) by blast
    then show ?thesis using ok i False by (simp add: snap_ok_def)
  qed
  show ?thesis by (rule that [OF loop fold(1) agree])
qed

section \<open>Deleted nodes\<close>

lemma present_node:
  "(case gomap_get (sc_nodes c) name of None \<Rightarrow> True | Some n \<Rightarrow> ni_node (it_info (item c n)) = None) \<longleftrightarrow> \<not> present c name"
  by (auto simp: present_def cinfo_def split: option.split)

lemma remove_deleted_law:
  "n = int (length (filter (\<lambda>nm. \<not> present c nm) names)) \<Longrightarrow>
   remove_deleted c names n m = filter (\<lambda>e. fst e \<in> set names \<longrightarrow> present c (fst e)) m"
proof (induction names arbitrary: n m)
  case (Cons name names)
  show ?case
  proof (cases "n \<le> 0")
    case True
    then have "\<forall>nm\<in>set (name # names). present c nm" using Cons.prems by (auto simp: filter_empty_conv split: if_splits)
    then have "filter (\<lambda>e. fst e \<in> set (name # names) \<longrightarrow> present c (fst e)) m = m" by (intro filter_True) auto
    then show ?thesis using True by simp
  next
    case False
    have "remove_deleted c (name # names) n m = (if present c name then remove_deleted c names n m
        else remove_deleted c names (n - 1) (gomap_delete m name))"
      using False by (simp only: remove_deleted.simps present_node) simp
    moreover have "remove_deleted c names n m = filter (\<lambda>e. fst e \<in> set names \<longrightarrow> present c (fst e)) m" if "present c name"
      using Cons that by simp
    moreover have "remove_deleted c names (n - 1) (gomap_delete m name)
        = filter (\<lambda>e. fst e \<in> set names \<longrightarrow> present c (fst e)) (gomap_delete m name)" if "\<not> present c name"
      using Cons that by simp
    ultimately show ?thesis by (auto simp: gomap_delete_def intro!: filter_cong)
  qed
qed simp

definition prune :: "schedulerCache \<Rightarrow> Snapshot \<Rightarrow> Snapshot" where
  "prune c s = s\<lparr>sn_nodeInfoMap := filter (\<lambda>e. present c (fst e)) (sn_nodeInfoMap s)\<rparr>"

lemma numNodes_present:
  assumes "tree_inv c"
  shows "tr_numNodes (sc_nodeTree c) = int (card {nm. present c nm})" and "finite {nm. present c nm}"
proof -
  have "set (tree_names (sc_nodeTree c)) = {nm. present c nm}" "distinct (tree_names (sc_nodeTree c))"
    "tr_numNodes (sc_nodeTree c) = int (length (tree_names (sc_nodeTree c)))"
    using assms by (simp_all add: tree_inv_def tree_ok_def)
  then show "tr_numNodes (sc_nodeTree c) = int (card {nm. present c nm})" "finite {nm. present c nm}"
    by (metis distinct_card, metis List.finite_set)
qed

lemma prune_law:
  assumes t: "tree_inv c" and m: "gomap_ok (sn_nodeInfoMap s)" and dom: "{nm. present c nm} \<subseteq> fst ` set (sn_nodeInfoMap s)"
  shows "int (length (sn_nodeInfoMap s)) > tr_numNodes (sc_nodeTree c) \<Longrightarrow> removeDeletedNodesFromSnapshot c s = prune c s"
    and "\<not> int (length (sn_nodeInfoMap s)) > tr_numNodes (sc_nodeTree c) \<Longrightarrow> prune c s = s"
    and "int (length (sn_nodeInfoMap (prune c s))) = tr_numNodes (sc_nodeTree c)"
proof -
  let ?ks = "map fst (sn_nodeInfoMap s)"
  have d: "distinct ?ks" using m by (simp add: gomap_ok_def)
  have "set (filter (present c) ?ks) = {nm. present c nm}" using dom by auto
  then have n: "length (filter (present c) ?ks) = card {nm. present c nm}" using distinct_card [OF distinct_filter [OF d]] by metis
  have split: "length ?ks = length (filter (present c) ?ks) + length (filter (\<lambda>nm. \<not> present c nm) ?ks)"
    by (rule sum_length_filter_compl [symmetric])
  have num: "tr_numNodes (sc_nodeTree c) = int (length (filter (present c) ?ks))" using numNodes_present(1) [OF t] n by simp
  have mem: "filter (\<lambda>e. fst e \<in> set ?ks \<longrightarrow> present c (fst e)) (sn_nodeInfoMap s) = filter (\<lambda>e. present c (fst e)) (sn_nodeInfoMap s)"
    by (rule filter_cong) auto
  have "int (length (sn_nodeInfoMap s)) - tr_numNodes (sc_nodeTree c) = int (length (filter (\<lambda>nm. \<not> present c nm) ?ks))"
    using split unfolding num by simp
  from remove_deleted_law [OF this] show "removeDeletedNodesFromSnapshot c s = prune c s"
    unfolding removeDeletedNodesFromSnapshot_def prune_def mem by (simp only: mem)
  show "prune c s = s" if "\<not> int (length (sn_nodeInfoMap s)) > tr_numNodes (sc_nodeTree c)"
  proof -
    have "length (filter (\<lambda>nm. \<not> present c nm) ?ks) = 0" using that split unfolding num by (simp del: filter_map)
    then have "\<forall>nm\<in>set ?ks. present c nm" by (simp only: length_0_conv filter_empty_conv) simp
    then have "filter (\<lambda>e. present c (fst e)) (sn_nodeInfoMap s) = sn_nodeInfoMap s" by (intro filter_True) auto
    then show ?thesis by (simp add: prune_def)
  qed
  show "int (length (sn_nodeInfoMap (prune c s))) = tr_numNodes (sc_nodeTree c)"
    unfolding num by (simp add: prune_def filter_map comp_def)
qed

lemma map_of_filter_keys: "map_of (filter (\<lambda>e. P (fst e)) m) k = (if P k then map_of m k else None)"
  by (induction m) auto

lemma prune_map_ok:
  assumes "map_ok s"
  shows "map_ok (prune c s)" and "view (prune c s) nm = (if present c nm then view s nm else None)"
  using assms by (auto simp: map_ok_def prune_def gomap_ok_def addrs_def view_def map_of_filter_keys distinct_map_filter)

section \<open>The lists and the whole update\<close>

definition exact :: "schedulerCache \<Rightarrow> Snapshot \<Rightarrow> bool" where
  "exact c s \<longleftrightarrow> view s = (\<lambda>nm. if present c nm then cinfo c nm else None)"

lemma addrs_card: "map_ok s \<Longrightarrow> distinct xs \<Longrightarrow> set xs = addrs s \<Longrightarrow> length xs = length (sn_nodeInfoMap s)"
  unfolding map_ok_def addrs_def using distinct_card [of xs] distinct_card [of "map snd (sn_nodeInfoMap s)"] by simp

lemma view_names: "map_ok s \<Longrightarrow> exact c s \<Longrightarrow> fst ` set (sn_nodeInfoMap s) = {nm. present c nm}"
proof -
  assume "map_ok s" and e: "exact c s"
  have "nm \<in> fst ` set (sn_nodeInfoMap s) \<longleftrightarrow> view s nm \<noteq> None" for nm
    by (simp add: view_def map_of_eq_None_iff)
  also have "\<dots> nm \<longleftrightarrow> present c nm" for nm using e by (auto simp: exact_def present_def)
  finally show ?thesis by auto
qed

lemma map_filter_total: "\<forall>n\<in>set ns. m n \<noteq> None \<Longrightarrow> map Some (List.map_filter m ns) = map m ns"
  by (induction ns) (auto simp: map_filter_simps split: option.split)

text \<open>Listing the tree gives every address of the map once.\<close>

lemma rebuild_law:
  assumes t: "tree_inv c" and m: "map_ok s" and e: "exact c s"
  obtains xs where "updateNodeInfoSnapshotList c s True = Some (Returns (set_lists xs s))" and "distinct xs" and "set xs = addrs s"
proof -
  have ok: "tree_ok (sc_nodeTree c)" and names: "set (tree_names (sc_nodeTree c)) = {nm. present c nm}"
    using t by (simp_all add: tree_inv_def)
  obtain ns where ns: "tree_list (sc_nodeTree c) = Some (Returns (ns, None))" "distinct ns" "set ns = {nm. present c nm}"
    using tree_list_complete [OF ok] names by auto
  define xs where "xs = List.map_filter (gomap_get (sn_nodeInfoMap s)) ns"
  have keys: "set ns = fst ` set (sn_nodeInfoMap s)" using view_names [OF m e] ns(3) by simp
  have inj: "inj_on (gomap_get (sn_nodeInfoMap s)) (fst ` set (sn_nodeInfoMap s))"
  proof (rule inj_onI)
    fix a b assume ab: "a \<in> fst ` set (sn_nodeInfoMap s)" "gomap_get (sn_nodeInfoMap s) a = gomap_get (sn_nodeInfoMap s) b"
    then obtain v where "gomap_get (sn_nodeInfoMap s) a = Some v" by (metis map_of_eq_None_iff option.exhaust)
    then show "a = b" using ab(2) m gomap_value_inj [of "sn_nodeInfoMap s" a v b] by (simp add: map_ok_def)
  qed
  have all: "map Some xs = map (gomap_get (sn_nodeInfoMap s)) ns"
    unfolding xs_def by (rule map_filter_total) (simp add: keys map_of_eq_None_iff)
  then have "distinct xs" using ns(2) inj keys by (metis distinct_map)
  moreover have "set xs = addrs s"
  proof -
    have "Some ` set xs = gomap_get (sn_nodeInfoMap s) ` fst ` set (sn_nodeInfoMap s)" using arg_cong [OF all, of set] keys by simp
    also have "\<dots> = Some ` addrs s" using m by (force simp: map_ok_def gomap_ok_def addrs_def image_image)
    finally show ?thesis by (simp add: inj_image_eq_iff)
  qed
  moreover have "updateNodeInfoSnapshotList c s True = Some (Returns (set_lists xs s))"
    using ns(1) ok by (simp add: updateNodeInfoSnapshotList_def xs_def tree_ok_def)
  ultimately show ?thesis using that by blast
qed

lemma set_lists_fields [simp]:
  "map_ok (set_lists xs s) = map_ok s" "view (set_lists xs s) = view s" "addrs (set_lists xs s) = addrs s"
  "sn_generation (set_lists xs s) = sn_generation s" "sn_nodeInfoList (set_lists xs s) = xs" "exact c (set_lists xs s) = exact c s"
  "sn_havePodsWithAffinityNodeInfoList (set_lists xs s) = filter (aff (set_lists xs s)) xs"
  "sn_havePodsWithRequiredAntiAffinityNodeInfoList (set_lists xs s) = filter (anti (set_lists xs s)) xs"
  by (simp_all add: set_lists_def map_ok_def view_def addrs_def exact_def have_affinity_def have_anti_affinity_def
      aff_def [abs_def] anti_def [abs_def] fun_eq_iff)

text \<open>A snapshot that agrees with the cache and lists its addresses is up to date.\<close>

lemma snap_okI:
  assumes "map_ok s" and "exact c s" and "0 \<le> sn_generation s" "sn_generation s \<le> sc_gen c"
    and "distinct (sn_nodeInfoList s)" "set (sn_nodeInfoList s) = addrs s"
    and "sn_havePodsWithAffinityNodeInfoList s = filter (aff s) (sn_nodeInfoList s)"
    and "sn_havePodsWithRequiredAntiAffinityNodeInfoList s = filter (anti s) (sn_nodeInfoList s)"
  shows "snap_ok c s"
  using assms by (auto simp: snap_ok_def exact_def present_def)

lemma head_generation:
  assumes "base_inv c" and "sc_headNode c = Some h"
  shows "0 \<le> igen c h" and "igen c h \<le> sc_gen c"
proof -
  obtain xs where s: "cache_struct c xs {}" and g: "gens_ok c xs" using assms(1) by (auto simp: base_inv_def)
  have "h \<in> set xs" using s assms(2) by (cases xs) (auto simp: cache_struct_def list_ok_def)
  then show "0 \<le> igen c h" "igen c h \<le> sc_gen c" using g by (auto simp: gens_ok_def)
qed

lemma set_lists_same:
  assumes "sn_havePodsWithAffinityNodeInfoList s = filter (aff s) (sn_nodeInfoList s)"
    and "sn_havePodsWithRequiredAntiAffinityNodeInfoList s = filter (anti s) (sn_nodeInfoList s)"
  shows "set_lists (sn_nodeInfoList s) s = s"
  using assms by (simp add: set_lists_def have_affinity_def have_anti_affinity_def aff_def [abs_def] anti_def [abs_def])

text \<open>The choice between keeping, refiltering and rebuilding the lists.\<close>

lemma lists_law:
  assumes t: "tree_inv c" and ok: "snap_ok c s" and g: "grown (s, f0) (s1, f)" and s3: "map_ok s3" "exact c s3"
    and same: "sn_infos s3 = sn_infos s1" "sn_nodeInfoList s3 = sn_nodeInfoList s1"
      "sn_havePodsWithAffinityNodeInfoList s3 = sn_havePodsWithAffinityNodeInfoList s1"
      "sn_havePodsWithRequiredAntiAffinityNodeInfoList s3 = sn_havePodsWithRequiredAntiAffinityNodeInfoList s1"
    and keep: "\<not> all \<Longrightarrow> sn_nodeInfoMap s3 = sn_nodeInfoMap s1 \<and> \<not> updateAllLists f"
    and all: "updateAllLists f \<longrightarrow> all"
  shows "\<exists>xs. (if all \<or> updateNodesHavePodsWithAffinity f \<or> updateNodesHavePodsWithRequiredAntiAffinity f
      then updateNodeInfoSnapshotList c s3 all else Some (Returns s3)) = Some (Returns (set_lists xs s3))
    \<and> distinct xs \<and> set xs = addrs s3"
proof (cases all)
  case True
  then show ?thesis using rebuild_law [OF t s3] by auto
next
  case False
  have map: "sn_nodeInfoMap s3 = sn_nodeInfoMap s" and lst: "sn_nodeInfoList s3 = sn_nodeInfoList s"
    using keep [OF False] g same by (simp_all add: grown_def)
  have a: "addrs s3 = addrs s" by (simp add: addrs_def map)
  have nn: "\<not> tr_numNodes (sc_nodeTree c) < 0" using numNodes_present(1) [OF t] by simp
  have upd: "updateNodeInfoSnapshotList c s3 False = Some (Returns (set_lists (sn_nodeInfoList s3) s3))"
    using nn by (simp add: updateNodeInfoSnapshotList_def)
  have "(if updateNodesHavePodsWithAffinity f \<or> updateNodesHavePodsWithRequiredAntiAffinity f
      then updateNodeInfoSnapshotList c s3 False else Some (Returns s3)) = Some (Returns (set_lists (sn_nodeInfoList s3) s3))"
  proof (cases "quiet f")
    case True
    have eq: "aff s3 a = aff s a" "anti s3 a = anti s a" if "a \<in> set (sn_nodeInfoList s)" for a
      using g True ok that same(1) by (auto simp: grown_def snap_ok_def aff_def anti_def)
    have "filter (aff s3) (sn_nodeInfoList s) = filter (aff s) (sn_nodeInfoList s)"
      "filter (anti s3) (sn_nodeInfoList s) = filter (anti s) (sn_nodeInfoList s)"
      by (rule filter_cong [OF refl]; rule eq; assumption)+
    note filters = this
    have "set_lists (sn_nodeInfoList s3) s3 = s3"
    proof (rule set_lists_same)
      show "sn_havePodsWithAffinityNodeInfoList s3 = filter (aff s3) (sn_nodeInfoList s3)"
        using g ok filters(1) by (simp add: same(3) lst grown_def snap_ok_def)
      show "sn_havePodsWithRequiredAntiAffinityNodeInfoList s3 = filter (anti s3) (sn_nodeInfoList s3)"
        using g ok filters(2) by (simp add: same(4) lst grown_def snap_ok_def)
    qed
    then show ?thesis using True by (simp add: quiet_def)
  next
    case False
    then show ?thesis using keep \<open>\<not> all\<close> upd by (auto simp: quiet_def)
  qed
  then show ?thesis using False ok a lst by (auto simp: snap_ok_def)
qed

lemma UpdateSnapshot_law:
  assumes inv: "base_inv c" and ok: "snap_ok c s"
  shows "\<exists>s'. UpdateSnapshot c s = Some (Returns (None, s')) \<and> snap_ok c s' \<and> exact c s'"
proof -
  define f0 where "f0 = \<lparr>updateAllLists = False, updateNodesHavePodsWithAffinity = False, updateNodesHavePodsWithRequiredAntiAffinity = False\<rparr>"
  have t: "tree_inv c" using inv by (simp add: base_inv_def)
  obtain s1 f where loop: "snapshot_loop c (sn_generation s) (sc_headNode c) (s, f0) = Some (s1, f)" and g: "grown (s, f0) (s1, f)"
    and agree: "\<And>nm info. cinfo c nm = Some info \<Longrightarrow> ni_node info \<noteq> None \<Longrightarrow> view s1 nm = Some info"
    using walk_law [OF inv ok, of f0] by blast
  define s2 where "s2 = (case sc_headNode c of None \<Rightarrow> s1 | Some h \<Rightarrow> s1\<lparr>sn_generation := igen c h\<rparr>)"
  have s2: "sn_nodeInfoMap s2 = sn_nodeInfoMap s1" "sn_infos s2 = sn_infos s1" "sn_nodeInfoList s2 = sn_nodeInfoList s1"
    "sn_havePodsWithAffinityNodeInfoList s2 = sn_havePodsWithAffinityNodeInfoList s1"
    "sn_havePodsWithRequiredAntiAffinityNodeInfoList s2 = sn_havePodsWithRequiredAntiAffinityNodeInfoList s1" "sn_fresh s2 = sn_fresh s1"
    by (simp_all add: s2_def split: option.split)
  have gen: "0 \<le> sn_generation s2" "sn_generation s2 \<le> sc_gen c"
    using ok g head_generation [OF inv] by (auto simp: s2_def grown_def snap_ok_def split: option.split)
  have v2: "view s2 = view s1" by (rule ext) (simp add: view_def s2)
  have "map_ok s1" using ok g by (simp add: grown_def snap_ok_def)
  then have m2: "map_ok s2" by (simp add: map_ok_def addrs_def s2)
  have dom: "{nm. present c nm} \<subseteq> fst ` set (sn_nodeInfoMap s2)"
  proof
    fix nm assume "nm \<in> {nm. present c nm}"
    then have "view s2 nm \<noteq> None" using agree v2 by (auto simp: present_def)
    then show "nm \<in> fst ` set (sn_nodeInfoMap s2)" by (simp add: view_def map_of_eq_None_iff)
  qed
  define deleted where "deleted \<longleftrightarrow> int (length (sn_nodeInfoMap s2)) > tr_numNodes (sc_nodeTree c)"
  define s3 where "s3 = (if deleted then removeDeletedNodesFromSnapshot c s2 else s2)"
  have m: "gomap_ok (sn_nodeInfoMap s2)" using m2 by (simp add: map_ok_def)
  note pr = prune_law [OF t m dom]
  have s3: "s3 = prune c s2" using pr(1,2) by (simp add: s3_def deleted_def)
  have m3: "map_ok s3" unfolding s3 by (rule prune_map_ok(1) [OF m2])
  have e3: "exact c s3" unfolding s3 exact_def using agree by (auto simp: prune_map_ok(2) [OF m2] v2 present_def fun_eq_iff)
  have f3: "sn_infos s3 = sn_infos s1" "sn_nodeInfoList s3 = sn_nodeInfoList s1" "sn_generation s3 = sn_generation s2"
    "sn_havePodsWithAffinityNodeInfoList s3 = sn_havePodsWithAffinityNodeInfoList s1"
    "sn_havePodsWithRequiredAntiAffinityNodeInfoList s3 = sn_havePodsWithRequiredAntiAffinityNodeInfoList s1"
    unfolding s3 by (simp_all add: prune_def s2)
  have keep: "sn_nodeInfoMap s3 = sn_nodeInfoMap s1 \<and> \<not> updateAllLists f" if "\<not> (updateAllLists f \<or> deleted)"
    using that by (simp add: s3_def s2)
  have "\<exists>xs. (if (updateAllLists f \<or> deleted) \<or> updateNodesHavePodsWithAffinity f \<or> updateNodesHavePodsWithRequiredAntiAffinity f
      then updateNodeInfoSnapshotList c s3 (updateAllLists f \<or> deleted) else Some (Returns s3)) = Some (Returns (set_lists xs s3))
    \<and> distinct xs \<and> set xs = addrs s3"
    by (rule lists_law [OF t ok g m3 e3 f3(1,2,4,5) keep]) simp_all
  then obtain xs where lists: "(if (updateAllLists f \<or> deleted) \<or> updateNodesHavePodsWithAffinity f \<or> updateNodesHavePodsWithRequiredAntiAffinity f
      then updateNodeInfoSnapshotList c s3 (updateAllLists f \<or> deleted) else Some (Returns s3)) = Some (Returns (set_lists xs s3))"
    and xs: "distinct xs" "set xs = addrs s3" by blast
  have len: "int (length xs) = tr_numNodes (sc_nodeTree c)" using addrs_card [OF m3 xs] pr(3) s3 by simp
  have "UpdateSnapshot c s = Some (Returns (None, set_lists xs s3))"
    unfolding UpdateSnapshot_def f0_def [symmetric] loop option.map loop_bind_simps prod.case Let_def
      s2_def [symmetric] deleted_def [symmetric] s3_def [symmetric] lists
    using len by simp
  moreover have "snap_ok c (set_lists xs s3)" by (rule snap_okI) (use m3 e3 gen f3(3) xs in simp_all)
  ultimately show ?thesis using e3 by auto
qed

end
