(* ===== verification/Cache_History.thy ===== *)
theory Cache_History
  imports Cache_Lifecycle Cache_Snapshot
begin

text \<open>
  Histories of the scheduler cache: any sequence of the calls that the informers, the scheduling
  cycle and the expiry goroutine make, with snapshots taken in between. The invariant, the pod
  state machine and the content of every snapshot hold along all of them.
\<close>

section \<open>Operations\<close>

datatype cache_op =
    OpAssume Pod | OpFinishBinding Pod int | OpForget Pod | OpAddPod Pod | OpUpdatePod Pod Pod | OpRemovePod Pod
  | OpCleanup int | OpAddNode Node | OpUpdateNode Node Node | OpRemoveNode Node

fun exec :: "runtime_env \<Rightarrow> cache_op \<Rightarrow> schedulerCache \<Rightarrow> schedulerCache go_run" where
  "exec env (OpAssume pod) c = Returns (snd (AssumePod env pod c))"
| "exec env (OpFinishBinding pod now) c = Returns (snd (finishBinding pod now c))"
| "exec env (OpForget pod) c = go_bind (ForgetPod env pod c) (\<lambda>r. Returns (snd r))"
| "exec env (OpAddPod pod) c = go_bind (cache_AddPod env pod c) (\<lambda>r. Returns (snd r))"
| "exec env (OpUpdatePod old new) c = go_bind (cache_UpdatePod env old new c) (\<lambda>r. Returns (snd r))"
| "exec env (OpRemovePod pod) c = go_bind (cache_RemovePod env pod c) (\<lambda>r. Returns (snd r))"
| "exec env (OpCleanup now) c = cleanupAssumedPods env now c"
| "exec env (OpAddNode node) c = Returns (snd (cache_AddNode env node c))"
| "exec env (OpUpdateNode old new) c = go_bind (cache_UpdateNode env (Some old) new c) (\<lambda>r. Returns (snd r))"
| "exec env (OpRemoveNode node) c = Returns (snd (cache_RemoveNode node c))"

text \<open>
  What the callers promise. The informers report a node as added when it is not there, as updated
  or removed when it is, with the zone it was last seen in; the two objects of an update are the
  same pod or node; a pod that is bound stays on its node. There is room in the generation counter,
  an \<^verbatim>\<open>int64\<close>, for the generations that the operation draws.
\<close>

definition known :: "schedulerCache \<Rightarrow> Node \<Rightarrow> bool" where
  "known c node \<longleftrightarrow>
     (case cinfo c (node_Name node) of None \<Rightarrow> False
      | Some info \<Rightarrow> (case ni_node info of None \<Rightarrow> False | Some nd \<Rightarrow> GetZoneKey nd = GetZoneKey node))"

fun admissible :: "cache_op \<Rightarrow> schedulerCache \<Rightarrow> bool" where
  "admissible (OpUpdatePod old new) c =
     (pod_UID new = pod_UID old \<and> pod_NodeName new = pod_NodeName old \<and> \<not> misplaced new c)"
| "admissible (OpRemovePod pod) c = (\<not> misplaced pod c)"
| "admissible (OpAddNode node) c = (\<not> present c (node_Name node))"
| "admissible (OpUpdateNode old new) c = (known c old \<and> node_Name new = node_Name old)"
| "admissible (OpRemoveNode node) c = known c node"
| "admissible _ c = True"

definition roomy :: "schedulerCache \<Rightarrow> bool" where
  "roomy c \<longleftrightarrow> room (3 + int (length (sc_assumedPods c))) c"

fun spec_op :: "int \<Rightarrow> cache_op \<Rightarrow> phases \<Rightarrow> phases" where
  "spec_op ttl (OpAssume pod) \<sigma> = spec_Assume pod \<sigma>"
| "spec_op ttl (OpFinishBinding pod now) \<sigma> = spec_FinishBinding pod (now + ttl) \<sigma>"
| "spec_op ttl (OpForget pod) \<sigma> = spec_Forget pod \<sigma>"
| "spec_op ttl (OpAddPod pod) \<sigma> = spec_Add pod \<sigma>"
| "spec_op ttl (OpRemovePod pod) \<sigma> = spec_Remove pod \<sigma>"
| "spec_op ttl (OpCleanup now) \<sigma> = spec_Expire now \<sigma>"
| "spec_op ttl _ \<sigma> = \<sigma>"

section \<open>One operation\<close>

lemma knownE:
  assumes "known c node"
  obtains info nd where "cinfo c (node_Name node) = Some info" and "ni_node info = Some nd" and "GetZoneKey nd = GetZoneKey node"
  using assms that by (auto simp: known_def split: option.splits)

lemma node_op_kept:
  assumes "cache_inv c" and "base_inv c'" and "evolves c c'" and "uids c' = uids c" and "sc_podStates c' = sc_podStates c"
    and "sc_assumedPods c' = sc_assumedPods c"
  shows "kept c c' \<and> phases c' = phases c"
  using assms phases_cong [of c' c] by (simp add: kept_def cache_inv_def)

lemma roomyD: "roomy c \<Longrightarrow> k \<le> 3 + int (length (sc_assumedPods c)) \<Longrightarrow> room k c"
  by (simp add: roomy_def room_def)

lemma exec_law:
  fixes env :: runtime_env
  assumes inv: "cache_inv c" and ok: "admissible opr c" and r: "roomy c"
  shows "\<exists>c'. exec env opr c = Returns c' \<and> kept c c' \<and> phases c' = spec_op (sc_ttl c) opr (phases c)"
proof -
  note base = cache_invD(1) [OF inv]
  have rooms: "room 1 c" "room 2 c" "room 3 c" "room (int (length (sc_assumedPods c))) c" using roomyD [OF r] by simp_all
  show ?thesis
  proof (cases opr)
    case (OpAssume pod)
    then show ?thesis using AssumePod_law [OF inv rooms(2), of env pod] AssumePod_phases [OF inv, of env pod] by simp
  next
    case (OpFinishBinding pod now)
    then show ?thesis using finishBinding_law [OF inv, of pod now] finishBinding_phases [OF inv, of pod now] by simp
  next
    case (OpForget pod)
    obtain e c' where "ForgetPod env pod c = Returns (e, c')" "kept c c'" using ForgetPod_law [OF inv rooms(1)] by blast
    then show ?thesis using OpForget ForgetPod_phases [OF inv rooms(1)] by simp
  next
    case (OpAddPod pod)
    obtain e c' where "cache_AddPod env pod c = Returns (e, c')" "kept c c'" using cache_AddPod_law [OF inv rooms(3)] by blast
    then show ?thesis using OpAddPod cache_AddPod_phases [OF inv rooms(1)] by simp
  next
    case (OpUpdatePod old new)
    then have g: "pod_UID new = pod_UID old" "pod_NodeName new = pod_NodeName old" "\<not> misplaced new c" using ok by simp_all
    obtain e c' where "cache_UpdatePod env old new c = Returns (e, c')" "kept c c'"
      using cache_UpdatePod_law [OF inv rooms(3) g] by blast
    then show ?thesis using OpUpdatePod cache_UpdatePod_phases [OF inv rooms(1) _ g(1,2)] by simp
  next
    case (OpRemovePod pod)
    then have "\<not> misplaced pod c" using ok by simp
    then obtain e c' where "cache_RemovePod env pod c = Returns (e, c')" "kept c c'"
      using cache_RemovePod_law [OF inv rooms(1)] by blast
    then show ?thesis using OpRemovePod cache_RemovePod_phases [OF inv rooms(1)] by simp
  next
    case (OpCleanup now)
    obtain c' where "cleanupAssumedPods env now c = Returns c'" "kept c c'" using cleanup_law [OF inv rooms(4)] by blast
    then show ?thesis using OpCleanup cleanup_phases [OF inv rooms(4)] by simp
  next
    case (OpAddNode node)
    then have new: "\<not> present c (node_Name node)" using ok by simp
    show ?thesis using OpAddNode node_op_kept [OF inv cache_AddNode_law(1-5) [OF base rooms(2) new, of env]] by simp
  next
    case (OpUpdateNode old new)
    then have g: "known c old" "node_Name new = node_Name old" using ok by simp_all
    obtain info nd where i: "cinfo c (node_Name old) = Some info" "ni_node info = Some nd" "GetZoneKey nd = GetZoneKey old"
      by (rule knownE [OF g(1)])
    obtain res c' where c': "cache_UpdateNode env (Some old) new c = Returns (res, c')" and "base_inv c'" "evolves c c'"
      "uids c' = uids c" "sc_podStates c' = sc_podStates c" "sc_assumedPods c' = sc_assumedPods c"
      by (rule cache_UpdateNode_law [OF base rooms(1) g(2) i])
    then show ?thesis using OpUpdateNode node_op_kept [OF inv] by simp
  next
    case (OpRemoveNode node)
    then have g: "known c node" using ok by simp
    obtain info nd where i: "cinfo c (node_Name node) = Some info" "ni_node info = Some nd" "GetZoneKey nd = GetZoneKey node"
      by (rule knownE [OF g])
    obtain c' where c': "cache_RemoveNode node c = (None, c')" and "base_inv c'" "evolves c c'"
      "uids c' = uids c" "sc_podStates c' = sc_podStates c" "sc_assumedPods c' = sc_assumedPods c"
      by (rule cache_RemoveNode_law [OF base rooms(1) i])
    then show ?thesis using OpRemoveNode node_op_kept [OF inv] by simp
  qed
qed

section \<open>The time to live stays as configured\<close>

lemma ttl_frame [simp]:
  "sc_ttl (set_info a gn c) = sc_ttl c" "sc_ttl (moveNodeInfoToHead nm c) = sc_ttl c" "sc_ttl (removeNodeInfoFromList nm c) = sc_ttl c"
  "sc_ttl (snd (new_item env nm c)) = sc_ttl c" "sc_ttl (put_state k ps c) = sc_ttl c" "sc_ttl (drop_state k c) = sc_ttl c"
  "sc_ttl (set_assumed A c) = sc_ttl c" "sc_ttl (updateMetrics c) = sc_ttl c" "sc_ttl (tree_update f c) = sc_ttl c"
  "sc_ttl (removeNodeImageStates nd c) = sc_ttl c" "sc_ttl (addNodeImageStates node a c) = sc_ttl c"
  by (simp_all add: set_info_def relinked_fields [OF moveNodeInfoToHead_relinked] removeNodeInfoFromList_def Let_def
      relinked_fields [OF relinked_unlink] new_item_def put_state_def drop_state_def set_assumed_def updateMetrics_def tree_update_def
      removeNodeImageStates_def addNodeImageStates_def split: option.split prod.split)

lemma ttl_put_node [simp]: "sc_ttl (put_node env node a c) = sc_ttl c"
  by (simp add: put_node_def Let_def)

lemma ttl_new_item: "new_item env nm c = (a, c') \<Longrightarrow> sc_ttl c' = sc_ttl c"
  using ttl_frame(4) [of env nm c] by simp

lemma ttl_addPod [simp]: "sc_ttl (cache_addPod env pod c) = sc_ttl c"
  by (auto simp: cache_addPod_def Let_def dest: ttl_new_item split: option.split prod.split)

lemma ttl_removePod: "cache_removePod env pod c = Returns (e, c') \<Longrightarrow> sc_ttl c' = sc_ttl c"
  by (auto simp: cache_removePod_def Let_def go_bind_Returns_iff split: option.splits if_splits)

lemma ttl_pods:
  "sc_ttl (snd (AssumePod env pod c)) = sc_ttl c" "sc_ttl (snd (finishBinding pod now c)) = sc_ttl c"
  "ForgetPod env pod c = Returns (e, c') \<Longrightarrow> sc_ttl c' = sc_ttl c"
  "cache_AddPod env pod c = Returns (e, c') \<Longrightarrow> sc_ttl c' = sc_ttl c"
  "cache_UpdatePod env old pod c = Returns (e, c') \<Longrightarrow> sc_ttl c' = sc_ttl c"
  "cache_RemovePod env pod c = Returns (e, c') \<Longrightarrow> sc_ttl c' = sc_ttl c"
  by (auto simp: AssumePod_def finishBinding_def ForgetPod_def cache_AddPod_def cache_UpdatePod_def cache_updatePod_def
      cache_RemovePod_def Let_def go_bind_Returns_iff dest: ttl_removePod split: sum.splits option.splits if_splits)

lemma ttl_cleanup_step: "cleanup_step env now k c = Returns c' \<Longrightarrow> sc_ttl c' = sc_ttl c"
  by (auto simp: cleanup_step_def expirePod_def go_bind_Returns_iff dest: ttl_removePod split: option.splits if_splits)

lemma ttl_cleanup: "go_fold (cleanup_step env now) ks c = Returns c' \<Longrightarrow> sc_ttl c' = sc_ttl c"
  by (induction ks arbitrary: c) (auto simp: go_bind_Returns_iff dest: ttl_cleanup_step)

lemma ttl_nodes:
  "sc_ttl (snd (cache_AddNode env node c)) = sc_ttl c" "sc_ttl (snd (cache_RemoveNode node c)) = sc_ttl c"
  "cache_UpdateNode env old node c = Returns (e, c') \<Longrightarrow> sc_ttl c' = sc_ttl c"
  by (auto simp: cache_AddNode_def cache_RemoveNode_def cache_UpdateNode_def Let_def go_bind_Returns_iff
      dest: ttl_new_item split: option.splits prod.splits if_splits)

lemma exec_ttl: "exec env opr c = Returns c' \<Longrightarrow> sc_ttl c' = sc_ttl c"
  by (cases opr) (auto simp: ttl_pods(1,2) ttl_nodes(1,2) cleanupAssumedPods_def go_bind_Returns_iff
      dest: ttl_pods(3-6) ttl_nodes(3) ttl_cleanup)

section \<open>Sequences of operations\<close>

fun run_ok :: "('o \<Rightarrow> 's \<Rightarrow> 's go_run) \<Rightarrow> ('o \<Rightarrow> 's \<Rightarrow> bool) \<Rightarrow> 'o list \<Rightarrow> 's \<Rightarrow> bool" where
  "run_ok run adm [] s = True"
| "run_ok run adm (x # xs) s = (adm x s \<and> (case run x s of Returns s' \<Rightarrow> run_ok run adm xs s' | Panics _ \<Rightarrow> False))"

text \<open>An object whose admissible operations return and implement a specification on an abstract state.\<close>

locale specified_object =
  fixes run :: "'o \<Rightarrow> 's \<Rightarrow> 's go_run" and adm :: "'o \<Rightarrow> 's \<Rightarrow> bool" and inv :: "'s \<Rightarrow> bool"
    and abst :: "'s \<Rightarrow> 'a" and spec :: "'o \<Rightarrow> 'a \<Rightarrow> 'a"
  assumes step: "inv s \<Longrightarrow> adm x s \<Longrightarrow> \<exists>s'. run x s = Returns s' \<and> inv s' \<and> abst s' = spec x (abst s)"
begin

lemma runs:
  "inv s \<Longrightarrow> run_ok run adm xs s \<Longrightarrow> \<exists>s'. go_fold run xs s = Returns s' \<and> inv s' \<and> abst s' = fold spec xs (abst s)"
proof (induction xs arbitrary: s)
  case (Cons x xs)
  then obtain s1 where s1: "run x s = Returns s1" "inv s1" "abst s1 = spec x (abst s)" using step [of s x] by auto
  then show ?case using Cons.IH [of s1] Cons.prems(2) by simp
qed simp

lemma run_ok_take: "run_ok run adm xs s \<Longrightarrow> run_ok run adm (take n xs) s"
  by (induction run adm xs s arbitrary: n rule: run_ok.induct) (auto split: go_run.splits simp: take_Cons')

end

definition allowed :: "cache_op \<Rightarrow> schedulerCache \<Rightarrow> bool" where
  "allowed opr c \<longleftrightarrow> admissible opr c \<and> roomy c"

interpretation cache_object: specified_object "exec env" allowed "\<lambda>c. cache_inv c \<and> sc_ttl c = ttl" phases "spec_op ttl"
  for env ttl
proof
  fix c opr assume c: "cache_inv c \<and> sc_ttl c = ttl" and a: "allowed opr c"
  then obtain c' where "exec env opr c = Returns c'" "kept c c'" "phases c' = spec_op ttl opr (phases c)"
    using exec_law [of c opr env] by (auto simp: allowed_def)
  then show "\<exists>c'. exec env opr c = Returns c' \<and> (cache_inv c' \<and> sc_ttl c' = ttl) \<and> phases c' = spec_op ttl opr (phases c)"
    using c exec_ttl by (auto simp: kept_def)
qed

lemma new_cache_inv:
  assumes "0 \<le> gen"
  shows "cache_inv (newSchedulerCache ttl gen)" and "phases (newSchedulerCache ttl gen) = (\<lambda>_. Absent)"
proof -
  let ?c = "newSchedulerCache ttl gen"
  have "cache_struct ?c [] {}"
    by (simp add: cache_struct_def list_ok_def newSchedulerCache_def)
  moreover have "gens_ok ?c []" using assms by (simp add: gens_ok_def newSchedulerCache_def)
  moreover have none: "cinfo ?c nm = None" for nm by (simp add: cinfo_def newSchedulerCache_def)
  moreover have "tree_inv ?c"
    using none by (simp add: tree_inv_def present_def) (simp add: newSchedulerCache_def newNodeTree_def tree_ok_def tree_names_def)
  ultimately have "base_inv ?c" by (auto simp: base_inv_def)
  moreover have "uids ?c nm = []" for nm using none by (simp add: uids_def)
  ultimately show "cache_inv ?c"
    by (simp add: cache_inv_def pods_rel_def assumed_ok_def) (simp add: newSchedulerCache_def)
  show "phases ?c = (\<lambda>_. Absent)" by (simp add: phases_def newSchedulerCache_def fun_eq_iff)
qed

section \<open>Histories with snapshots\<close>

inductive history :: "runtime_env \<Rightarrow> schedulerCache \<Rightarrow> Snapshot \<Rightarrow> bool" for env where
  New: "0 \<le> gen \<Longrightarrow> history env (newSchedulerCache ttl gen) NewEmptySnapshot"
| Op: "history env c s \<Longrightarrow> allowed opr c \<Longrightarrow> exec env opr c = Returns c' \<Longrightarrow> history env c' s"
| Refresh: "history env c s \<Longrightarrow> UpdateSnapshot c s = Some (Returns (e, s')) \<Longrightarrow> history env c s'"

lemma snap_ok_empty: "0 \<le> gen \<Longrightarrow> snap_ok (newSchedulerCache ttl gen) NewEmptySnapshot"
  by (simp add: snap_ok_def map_ok_def addrs_def NewEmptySnapshot_def cinfo_def newSchedulerCache_def)

lemma history_inv:
  assumes "history env c s"
  shows "cache_inv c \<and> snap_ok c s"
  using assms
proof induction
  case (New gen ttl)
  then show ?case using new_cache_inv snap_ok_empty by blast
next
  case (Op c s opr c')
  then show ?case using exec_law [of c opr env] snap_ok_evolves by (auto simp: allowed_def kept_def)
next
  case (Refresh c s e s')
  then show ?case using UpdateSnapshot_law [of c s] cache_invD(1) by auto
qed

end
