(* ===== verification/Cache_Props.thy ===== *)
theory Cache_Props
  imports Cache_History
begin

text \<open>
  The properties of the scheduler cache: what holds after every history, the pod state machine it
  implements, and the content of a snapshot.
\<close>

section \<open>Counting pods\<close>

lemma PodCount_uids:
  assumes "gomap_ok (sc_nodes c)"
  shows "PodCount c = (\<Sum>nm\<in>fst ` set (sc_nodes c). length (uids c nm))"
proof -
  have one: "(case e of (_, n) \<Rightarrow> length (ni_Pods (it_info (item c n)))) = length (uids c (fst e))" if "e \<in> set (sc_nodes c)" for e
    using that assms by (auto simp: uids_def cinfo_def gomap_ok_def split: prod.split)
  have "PodCount c = sum_list (map (\<lambda>e. length (uids c (fst e))) (sc_nodes c))"
    unfolding PodCount_def by (intro arg_cong [of _ _ sum_list] map_cong refl one)
  also have "\<dots> = sum_list (map (\<lambda>nm. length (uids c nm)) (map fst (sc_nodes c)))" by (simp add: comp_def)
  also have "\<dots> = (\<Sum>nm\<in>set (map fst (sc_nodes c)). length (uids c nm))"
    by (rule sum_list_distinct_conv_sum_set) (use assms in \<open>simp add: gomap_ok_def\<close>)
  finally show ?thesis by simp
qed

lemma PodCount_states:
  assumes inv: "cache_inv c"
  shows "PodCount c = length (sc_podStates c)"
proof -
  note i = cache_invD [OF inv]
  obtain xs where s: "cache_struct c xs {}" using i(1) by (auto simp: base_inv_def)
  let ?N = "fst ` set (sc_nodes c)"
  have U: "distinct (uids c nm)"
    "k \<in> set (uids c nm) \<longleftrightarrow> (\<exists>ps. gomap_get (sc_podStates c) k = Some ps \<and> pod_NodeName (ps_pod ps) = nm)" for nm k
    using i(3) by (simp_all add: pods_rel_def)
  have out: "uids c nm = []" if "nm \<notin> ?N" for nm
  proof -
    have "gomap_get (sc_nodes c) nm = None" using that by (simp add: map_of_eq_None_iff)
    then show ?thesis by (simp add: uids_def cinfo_def)
  qed
  have dom: "dom (gomap_get (sc_podStates c)) = (\<Union>nm\<in>?N. set (uids c nm))"
  proof (intro equalityI subsetI)
    fix k assume "k \<in> dom (gomap_get (sc_podStates c))"
    then obtain nm where "k \<in> set (uids c nm)" using U(2) by auto
    then show "k \<in> (\<Union>nm\<in>?N. set (uids c nm))" using out [of nm] by fastforce
  qed (use U(2) in auto)
  have "PodCount c = (\<Sum>nm\<in>?N. card (set (uids c nm)))"
    using PodCount_uids s U(1) by (simp add: cache_struct_def distinct_card)
  also have "\<dots> = card (\<Union>nm\<in>?N. set (uids c nm))"
    by (rule card_UN_disjoint [symmetric]) (auto simp: U(2))
  also have "\<dots> = card (dom (gomap_get (sc_podStates c)))" by (simp add: dom)
  also have "\<dots> = length (sc_podStates c)"
    using i(2) distinct_card [of "map fst (sc_podStates c)"] by (simp add: gomap_ok_def dom_map_of_conv_image_fst)
  finally show ?thesis .
qed

section \<open>The content of a snapshot\<close>

lemma exact_get:
  assumes "exact c s"
  shows "Snapshot_Get s nm =
    (if present c nm then Inr (the (cinfo c nm)) else Inl (''nodeinfo not found for node name '' @ go_quote nm))"
proof -
  have v: "view s nm = (if present c nm then cinfo c nm else None)" using assms by (simp add: exact_def)
  show ?thesis
  proof (cases "gomap_get (sn_nodeInfoMap s) nm")
    case None
    then have "\<not> present c nm" using v by (auto simp: view_def present_def split: if_splits)
    then show ?thesis using None by (simp add: Snapshot_Get_def)
  next
    case (Some a)
    then have "present c nm" "cinfo c nm = Some (sn_infos s a)" using v by (auto simp: view_def split: if_splits)
    then show ?thesis using Some by (simp add: Snapshot_Get_def present_def)
  qed
qed

lemma exact_list:
  assumes ok: "snap_ok c s" and e: "exact c s"
  shows "mset (fst (Snapshot_List s)) = image_mset (\<lambda>nm. the (cinfo c nm)) (mset_set {nm. present c nm})"
proof -
  let ?m = "sn_nodeInfoMap s"
  have m: "map_ok s" and l: "distinct (sn_nodeInfoList s)" "set (sn_nodeInfoList s) = addrs s"
    using ok by (simp_all add: snap_ok_def)
  have keys: "fst ` set ?m = {nm. present c nm}" by (rule view_names [OF m e])
  have "mset (sn_nodeInfoList s) = mset (map snd ?m)"
    using l m by (intro set_eq_iff_mset_eq_distinct [THEN iffD1]) (auto simp: map_ok_def addrs_def)
  then have "mset (fst (Snapshot_List s)) = mset (map (\<lambda>e. sn_infos s (snd e)) ?m)"
    by (simp add: Snapshot_List_def image_mset.compositionality comp_def)
  also have "map (\<lambda>e. sn_infos s (snd e)) ?m = map (\<lambda>e. the (cinfo c (fst e))) ?m"
  proof (rule map_cong [OF refl])
    fix x assume x: "x \<in> set ?m"
    then have "gomap_get ?m (fst x) = Some (snd x)" using m by (simp add: map_ok_def gomap_ok_def)
    then have "view s (fst x) = Some (sn_infos s (snd x))" by (simp add: view_def)
    then show "sn_infos s (snd x) = the (cinfo c (fst x))" using e by (auto simp: exact_def split: if_splits)
  qed
  also have "mset \<dots> = image_mset (\<lambda>nm. the (cinfo c nm)) (mset (map fst ?m))" by (simp add: image_mset.compositionality comp_def)
  also have "mset (map fst ?m) = mset_set (set (map fst ?m))"
    using m by (intro mset_set_set [symmetric]) (simp add: map_ok_def gomap_ok_def)
  finally show ?thesis using keys by simp
qed

lemma snap_ok_filters:
  assumes "snap_ok c s"
  shows "fst (HavePodsWithAffinityList s) = filter (\<lambda>i. ni_PodsWithAffinity i \<noteq> []) (fst (Snapshot_List s))"
    and "fst (HavePodsWithRequiredAntiAffinityList s) = filter (\<lambda>i. ni_PodsWithRequiredAntiAffinity i \<noteq> []) (fst (Snapshot_List s))"
  using assms by (simp_all add: snap_ok_def HavePodsWithAffinityList_def HavePodsWithRequiredAntiAffinityList_def Snapshot_List_def
      filter_map comp_def aff_def [abs_def] anti_def [abs_def])

section \<open>Examples\<close>

lemma present_code [code]: "present c nm = (case cinfo c nm of None \<Rightarrow> False | Some info \<Rightarrow> ni_node info \<noteq> None)"
  by (auto simp: present_def split: option.split)

lemma misplaced_code [code]:
  "misplaced pod c = (pod_UID pod \<notin> set (sc_assumedPods c) \<and>
     (case gomap_get (sc_podStates c) (pod_UID pod) of None \<Rightarrow> False | Some ps \<Rightarrow> pod_NodeName (ps_pod ps) \<noteq> pod_NodeName pod))"
  by (auto simp: misplaced_def split: option.split)

definition bound_pod :: Pod where
  "bound_pod = (example_pod ''p'' ''u'' [])\<lparr>pod_NodeName := ''n1''\<rparr>"

definition bound_ops :: "cache_op list" where
  "bound_ops = [OpAssume bound_pod, OpFinishBinding bound_pod 10, OpAddPod bound_pod, OpCleanup 50]"

definition one_node :: schedulerCache where
  "one_node = snd (cache_AddNode example_env (zoned_node ''n1'' ''a'') (newSchedulerCache 30 0))"

text \<open>A new cache to which one node is added.\<close>

lemma first_node:
  shows "history env (snd (cache_AddNode env node (newSchedulerCache ttl 0))) NewEmptySnapshot"
    and "present (snd (cache_AddNode env node (newSchedulerCache ttl 0))) (node_Name node)"
proof -
  let ?c = "newSchedulerCache ttl 0"
  have new: "\<not> present ?c (node_Name node)" and r: "room 2 ?c" "roomy ?c"
    by (simp_all add: present_def cinfo_def newSchedulerCache_def room_def roomy_def)
  have ok: "allowed (OpAddNode node) ?c" using new r by (simp add: allowed_def)
  have ex: "exec env (OpAddNode node) ?c = Returns (snd (cache_AddNode env node ?c))" by simp
  show "history env (snd (cache_AddNode env node ?c)) NewEmptySnapshot" by (rule history.Op [OF history.New [OF order_refl] ok ex])
  have "base_inv ?c" using new_cache_inv(1) [of 0 ttl] cache_invD(1) by simp
  from cache_AddNode_law(6) [OF this r(1) new, of env] show "present (snd (cache_AddNode env node ?c)) (node_Name node)" .
qed

lemma one_node_history: "history example_env one_node NewEmptySnapshot" and one_node_present: "present one_node ''n1''"
  using first_node(1) [of example_env "zoned_node ''n1'' ''a''" 30] first_node(2) [of example_env "zoned_node ''n1'' ''a''" 30]
  by (simp_all add: one_node_def zoned_node_def)

section \<open>Properties\<close>

text \<open>
  C9: After any history of the cache, the list, the map of nodes, the node tree, the NodeInfos and
  the pod states fit together: the pods counted over the nodes are the pods that have a state, the
  tree counts the nodes that are there, and every assumed pod has a state.
\<close>

theorem cache_history_invariant:
  assumes "history env c s"
  shows "cache_inv c \<and> PodCount c = length (sc_podStates c) \<and> tr_numNodes (sc_nodeTree c) = int (card {nm. present c nm})"
  using history_inv [OF assms] PodCount_states numNodes_present(1) cache_invD(1) by (auto simp: base_inv_def)

theorem cache_history_invariant_witness:
  "cache_inv one_node \<and> PodCount one_node = length (sc_podStates one_node)"
  using cache_history_invariant [OF one_node_history] by simp



text \<open>
  C4: Updating a snapshot gives what a copy of the whole cache would give: after any history the
  update returns without an error, a lookup by name returns the NodeInfo that the cache has for a
  node that is there and an error for any other name, the list holds each of these NodeInfos once,
  and the two affinity lists are its parts that have such pods.
\<close>

theorem UpdateSnapshot_is_copy:
  assumes "history env c s"
  shows "\<exists>s'. UpdateSnapshot c s = Some (Returns (None, s'))
    \<and> (\<forall>nm. Snapshot_Get s' nm =
          (if present c nm then Inr (the (cinfo c nm)) else Inl (''nodeinfo not found for node name '' @ go_quote nm)))
    \<and> mset (fst (Snapshot_List s')) = image_mset (\<lambda>nm. the (cinfo c nm)) (mset_set {nm. present c nm})
    \<and> fst (HavePodsWithAffinityList s') = filter (\<lambda>i. ni_PodsWithAffinity i \<noteq> []) (fst (Snapshot_List s'))
    \<and> fst (HavePodsWithRequiredAntiAffinityList s')
        = filter (\<lambda>i. ni_PodsWithRequiredAntiAffinity i \<noteq> []) (fst (Snapshot_List s'))"
proof -
  have "base_inv c" "snap_ok c s" using history_inv [OF assms] cache_invD(1) by blast+
  then obtain s' where "UpdateSnapshot c s = Some (Returns (None, s'))" "snap_ok c s'" "exact c s'"
    using UpdateSnapshot_law by blast
  then show ?thesis using exact_get exact_list snap_ok_filters by blast
qed

theorem UpdateSnapshot_is_copy_witness:
  "\<exists>s'. UpdateSnapshot one_node NewEmptySnapshot = Some (Returns (None, s'))
    \<and> Snapshot_Get s' ''n1'' = Inr (the (cinfo one_node ''n1''))"
  using UpdateSnapshot_is_copy [OF one_node_history] one_node_present by auto

end
