(* ===== verification/Cache_Accounting.thy ===== *)
theory Cache_Accounting
  imports Cache_Props
begin

text \<open>
  What the pod operations of the cache do to the requested resources of a node. A pod that is
  confirmed on the node it was assumed on is not counted again, but it is the confirmed object
  whose request is subtracted when the pod goes.
\<close>

definition requested_cpu :: "runtime_env \<Rightarrow> Pod \<Rightarrow> int" where
  "requested_cpu env pod = MilliCPU (fst (calculateResource env pod))"

abbreviation info_cpu :: "NodeInfo \<Rightarrow> int" where
  "info_cpu info \<equiv> MilliCPU (ni_Requested info)"

lemma AddPod_cpu: "info_cpu (snd (AddPod env pod (g, n))) = wrap64 (info_cpu n + requested_cpu env pod)"
  by (simp add: AddPod_def AddPodInfo_def apply_request_def requested_cpu_def NewPodInfo_def split: prod.split)

lemma RemovePod_cpu: "RemovePod env pod (g, n) = Returns (None, g', n') \<Longrightarrow> info_cpu n' = wrap64 (info_cpu n - requested_cpu env pod)"
  by (auto simp: RemovePod_def apply_request_def requested_cpu_def Let_def split: sum.splits option.splits prod.splits)

lemma cinfo_states [simp]: "cinfo (put_state k ps c) = cinfo c" "cinfo (drop_state k c) = cinfo c" "cinfo (set_assumed A c) = cinfo c"
  by (simp_all add: put_state_def drop_state_def set_assumed_def)

lemma addPod_cinfo:
  assumes inv: "base_inv c" and info: "cinfo c (pod_NodeName pod) = Some info"
  shows "cinfo (cache_addPod env pod c) (pod_NodeName pod) = Some (snd (AddPod env pod (sc_gen c, info)))"
proof -
  obtain xs where s: "cache_struct c xs {}" using inv by (auto simp: base_inv_def)
  obtain a where a: "gomap_get (sc_nodes c) (pod_NodeName pod) = Some a" "it_info (item c a) = info"
    using info by (auto simp: cinfo_def)
  show ?thesis
    using a by (simp add: cache_addPod_def Let_def cinfo_relinked [OF moveNodeInfoToHead_relinked] cinfo_set_info [OF s a(1)])
qed

lemma removePod_cinfo:
  assumes inv: "base_inv c" and info: "cinfo c (pod_NodeName pod) = Some info" "ni_node info \<noteq> None"
    and rm: "cache_removePod env pod c = Returns (None, c')"
  shows "\<exists>info'. cinfo c' (pod_NodeName pod) = Some info' \<and> ni_node info' = ni_node info
    \<and> info_cpu info' = wrap64 (info_cpu info - requested_cpu env pod)"
proof -
  obtain xs where s: "cache_struct c xs {}" using inv by (auto simp: base_inv_def)
  obtain a where a: "gomap_get (sc_nodes c) (pod_NodeName pod) = Some a" "it_info (item c a) = info"
    using info(1) by (auto simp: cinfo_def)
  obtain g n where r: "RemovePod env pod (sc_gen c, info) = Returns (None, g, n)"
    using rm a by (auto simp: cache_removePod_def Let_def go_bind_Returns_iff split: if_splits)
  have nd: "ni_node n = ni_node info"
    using r by (auto simp: RemovePod_def Let_def split: sum.splits option.splits prod.splits)
  have i: "it_info (item (set_info a (g, n) c) a) = n" by (simp add: set_info_def)
  have "c' = moveNodeInfoToHead (pod_NodeName pod) (set_info a (g, n) c)"
    using rm nd info(2) unfolding cache_removePod_def a option.case r go_bind.simps by (simp add: Let_def i)
  then have "cinfo c' (pod_NodeName pod) = Some n"
    by (simp add: cinfo_relinked [OF moveNodeInfoToHead_relinked] cinfo_set_info [OF s a(1)])
  then show ?thesis using nd RemovePod_cpu [OF r] by simp
qed

lemma wrap64_drift: "wrap64 (wrap64 (a + b) - d) = wrap64 (a + b - d)"
  by (simp add: wrap64_def mod_simps algebra_simps)

lemma assume_confirm_remove:
  fixes env :: runtime_env
  assumes inv: "cache_inv c" and r: "room 3 c" and info: "cinfo c (pod_NodeName p) = Some info" "ni_node info \<noteq> None"
    and new: "pod_UID p \<noteq> []" "phases c (pod_UID p) = Absent" and same: "pod_UID q = pod_UID p" "pod_NodeName q = pod_NodeName p"
  shows "\<exists>c' info'. go_fold (exec env) [OpAssume p, OpAddPod q, OpRemovePod q] c = Returns c' \<and> phases c' = phases c
    \<and> cinfo c' (pod_NodeName p) = Some info'
    \<and> info_cpu info' = wrap64 (info_cpu info + requested_cpu env p - requested_cpu env q)"
proof -
  let ?k = "pod_UID p"
  have key: "GetPodKey p = Inr ?k" "GetPodKey q = Inr ?k" using new(1) same by (simp_all add: GetPodKey_def)
  have none: "gomap_get (sc_podStates c) ?k = None" using new(2) by (simp add: phases_absent)
  have r2: "room 2 c" using r by (simp add: room_def)
  define c1 where "c1 = snd (AssumePod env p c)"
  have inv1: "cache_inv c1" using AssumePod_law [OF inv r2, of env p] by (simp add: kept_def c1_def)
  have s1: "gomap_get (sc_podStates c1) ?k = Some \<lparr>ps_pod = p, ps_deadline = None, ps_bindingFinished = False\<rparr>"
    "?k \<in> set (sc_assumedPods c1)" "cinfo c1 = cinfo (cache_addPod env p c)"
    using key(1) none by (simp_all add: c1_def AssumePod_def Let_def) (simp_all add: put_state_def set_assumed_def)
  have g1: "sc_gen c1 \<le> sc_gen c + 2"
    using key(1) none cache_addPod_law(4) [OF cache_invD(1) [OF inv] r2, of env p]
    by (simp add: c1_def AssumePod_def Let_def put_state_def set_assumed_def)
  define c2 where "c2 = put_state ?k \<lparr>ps_pod = q, ps_deadline = None, ps_bindingFinished = False\<rparr>
    (set_assumed (removeAll ?k (sc_assumedPods c1)) c1)"
  have a2: "cache_AddPod env q c1 = Returns (None, c2)"
    using key(2) s1(1,2) same by (simp add: cache_AddPod_def c2_def)
  have g2: "sc_gen c2 = sc_gen c1" by (simp add: c2_def put_state_def set_assumed_def)
  have inv2: "cache_inv c2"
    unfolding c2_def using cache_invD(4) [OF inv1] same
    by (intro replace_state_law [OF inv1 s1(1)]) (auto simp: assumed_ok_def distinct_removeAll)
  have s2: "gomap_get (sc_podStates c2) ?k = Some \<lparr>ps_pod = q, ps_deadline = None, ps_bindingFinished = False\<rparr>"
    "?k \<notin> set (sc_assumedPods c2)" "cinfo c2 = cinfo c1"
    by (simp_all add: c2_def) (simp_all add: put_state_def set_assumed_def)
  have r1: "room 1 c2" using r g1 g2 by (simp add: room_def)
  obtain c3 where c3: "cache_removePod env q c2 = Returns (None, c3)"
    using removePod_state_law [OF inv2 r1 s2(1), of q env] same by auto
  define info1 where "info1 = snd (AddPod env p (sc_gen c, info))"
  have i1: "cinfo c2 (pod_NodeName q) = Some info1" "ni_node info1 \<noteq> None"
    "info_cpu info1 = wrap64 (info_cpu info + requested_cpu env p)"
    using addPod_cinfo [OF cache_invD(1) [OF inv] info(1), of env] info(2)
    by (simp_all add: s2(3) s1(3) same info1_def AddPod_cpu AddPod_fields)
  obtain info' where i3: "cinfo c3 (pod_NodeName p) = Some info'" "info_cpu info' = wrap64 (info_cpu info1 - requested_cpu env q)"
    using removePod_cinfo [OF cache_invD(1) [OF inv2] i1(1,2) c3] same by auto
  have rm: "cache_RemovePod env q c2 = Returns (None, drop_state ?k c3)"
    using key(2) s2(1,2) c3 same by (simp add: cache_RemovePod_def)
  have "phases (drop_state ?k c3) = spec_Remove q (phases c2)" by (rule cache_RemovePod_phases [OF inv2 r1 rm])
  moreover have "phases c2 = (phases c)(?k := Added (pod_NodeName q))"
    using cache_AddPod_phases [OF inv1 _ a2] AssumePod_phases [OF inv, of env p] new same r g1
    by (simp add: c1_def [symmetric] spec_Assume_def spec_Add_def room_def)
  ultimately have "phases (drop_state ?k c3) = phases c" using new(2) same by (simp add: spec_Remove_def fun_upd_idem)
  moreover have "go_fold (exec env) [OpAssume p, OpAddPod q, OpRemovePod q] c = Returns (drop_state ?k c3)"
    using a2 rm by (simp add: c1_def [symmetric])
  ultimately show ?thesis using i3 by (auto simp: i1(3) wrap64_drift)
qed

end
