(* ===== verification/Parallelize.thy ===== *)
theory Parallelize
  imports Go_Prelude
begin

text \<open>
  Parallel loops of the scheduler (pkg/scheduler/internal/parallelize/parallelism.go and
  client-go's util/workqueue/parallelizer.go). Workers take chunks of pieces from a channel until
  it is empty or the context is cancelled. Every interleaving of the workers is a run of a step
  relation; a run always ends, and what it has done is the work of some sequence of different
  pieces, all of them unless the context was cancelled.
\<close>

section \<open>Chunks\<close>

text \<open>\<^verbatim>\<open>int(math.Sqrt(float64(n)))\<close>, which is the integer square root for n below 2^52.\<close>

definition isqrt :: "nat \<Rightarrow> nat" where
  "isqrt n = length (filter (\<lambda>k. k * k \<le> n) [1..<n + 1])"

definition chunkSizeFor :: "nat \<Rightarrow> nat \<Rightarrow> nat" where
  "chunkSizeFor n parallelism =
     (let s = isqrt n; r = n div parallelism + 1 in if s > r then r else if s < 1 then 1 else s)"

definition ceilDiv :: "nat \<Rightarrow> nat \<Rightarrow> nat" where
  "ceilDiv a b = (a + b - 1) div b"

definition chunk_range :: "nat \<Rightarrow> nat \<Rightarrow> nat \<Rightarrow> nat list" where
  "chunk_range pieces chunkSize chunk = [chunk * chunkSize ..< min (chunk * chunkSize + chunkSize) pieces]"

section \<open>Workers\<close>

text \<open>
  A worker between two chunks, at a piece it has not looked at, at a piece for which it has seen
  that the context is not cancelled, or returned.
\<close>

datatype worker = Idle | At nat nat | Chosen nat nat | Returned

record 's pool =
  po_toProcess :: "nat list"
  po_workers :: "worker list"
  po_shared :: 's
  po_cancelled :: bool
  po_visits :: "nat list"

text \<open>The chunk size is at least 1, as \<^const>\<open>chunkSizeFor\<close> gives it.\<close>

definition ParallelizeUntil_start :: "nat \<Rightarrow> nat \<Rightarrow> nat \<Rightarrow> 's \<Rightarrow> 's pool" where
  "ParallelizeUntil_start workers pieces chunkSize s =
     (let chunks = ceilDiv pieces chunkSize
      in \<lparr>po_toProcess = [0..<chunks], po_workers = replicate (min chunks workers) Idle, po_shared = s,
          po_cancelled = False, po_visits = []\<rparr>)"

text \<open>The work on a piece changes the shared state in one atomic step and may cancel the context.\<close>

inductive pool_step :: "nat \<Rightarrow> nat \<Rightarrow> (nat \<Rightarrow> 's \<Rightarrow> 's \<times> bool) \<Rightarrow> 's pool \<Rightarrow> 's pool \<Rightarrow> bool" for pieces chunkSize body where
  Take: "w < length (po_workers p) \<Longrightarrow> po_workers p ! w = Idle \<Longrightarrow> po_toProcess p = chunk # rest \<Longrightarrow>
    pool_step pieces chunkSize body p
      (p\<lparr>po_toProcess := rest, po_workers := (po_workers p)[w := At (chunk * chunkSize) (min (chunk * chunkSize + chunkSize) pieces)]\<rparr>)"
| Drained: "w < length (po_workers p) \<Longrightarrow> po_workers p ! w = Idle \<Longrightarrow> po_toProcess p = [] \<Longrightarrow>
    pool_step pieces chunkSize body p (p\<lparr>po_workers := (po_workers p)[w := Returned]\<rparr>)"
| EndChunk: "w < length (po_workers p) \<Longrightarrow> po_workers p ! w = At i e \<Longrightarrow> \<not> i < e \<Longrightarrow>
    pool_step pieces chunkSize body p (p\<lparr>po_workers := (po_workers p)[w := Idle]\<rparr>)"
| Stop: "w < length (po_workers p) \<Longrightarrow> po_workers p ! w = At i e \<Longrightarrow> i < e \<Longrightarrow> po_cancelled p \<Longrightarrow>
    pool_step pieces chunkSize body p (p\<lparr>po_workers := (po_workers p)[w := Returned]\<rparr>)"
| Choose: "w < length (po_workers p) \<Longrightarrow> po_workers p ! w = At i e \<Longrightarrow> i < e \<Longrightarrow> \<not> po_cancelled p \<Longrightarrow>
    pool_step pieces chunkSize body p (p\<lparr>po_workers := (po_workers p)[w := Chosen i e]\<rparr>)"
| Piece: "w < length (po_workers p) \<Longrightarrow> po_workers p ! w = Chosen i e \<Longrightarrow> body i (po_shared p) = (s', cancel) \<Longrightarrow>
    pool_step pieces chunkSize body p
      (p\<lparr>po_workers := (po_workers p)[w := At (i + 1) e], po_shared := s', po_cancelled := po_cancelled p \<or> cancel,
         po_visits := po_visits p @ [i]\<rparr>)"

inductive_simps pool_step_simps: "pool_step pieces chunkSize body p p'"

definition finished :: "'s pool \<Rightarrow> bool" where
  "finished p \<longleftrightarrow> (\<forall>w\<in>set (po_workers p). w = Returned)"

section \<open>Nothing is done twice, nothing is left out\<close>

primrec pending :: "worker \<Rightarrow> nat list" where
  "pending Idle = []"
| "pending (At i e) = [i..<e]"
| "pending (Chosen i e) = [i..<e]"
| "pending Returned = []"

definition left_over :: "nat \<Rightarrow> nat \<Rightarrow> 's pool \<Rightarrow> nat multiset" where
  "left_over pieces chunkSize p =
     mset (concat (map (chunk_range pieces chunkSize) (po_toProcess p))) + mset (concat (map pending (po_workers p)))"

lemma pending_update:
  assumes "w < length ws"
  shows "mset (concat (map pending ws)) = mset (pending (ws ! w)) + mset (concat (map pending (take w ws @ drop (Suc w) ws)))"
    and "mset (concat (map pending (ws[w := x]))) = mset (pending x) + mset (concat (map pending (take w ws @ drop (Suc w) ws)))"
proof -
  have "ws = take w ws @ ws ! w # drop (Suc w) ws" using assms by (rule id_take_nth_drop)
  then have "mset (concat (map pending ws)) = mset (concat (map pending (take w ws @ ws ! w # drop (Suc w) ws)))" by simp
  then show "mset (concat (map pending ws)) = mset (pending (ws ! w)) + mset (concat (map pending (take w ws @ drop (Suc w) ws)))"
    by simp
  have "ws[w := x] = take w ws @ x # drop (Suc w) ws" using assms by (rule upd_conv_take_nth_drop)
  then show "mset (concat (map pending (ws[w := x]))) = mset (pending x) + mset (concat (map pending (take w ws @ drop (Suc w) ws)))"
    by simp
qed

definition work :: "(nat \<Rightarrow> 's \<Rightarrow> 's \<times> bool) \<Rightarrow> nat list \<Rightarrow> 's \<Rightarrow> 's \<times> bool" where
  "work body is s = fold (\<lambda>i (s, c). case body i s of (s', c') \<Rightarrow> (s', c \<or> c')) is (s, False)"

lemma work_Nil [simp]: "work body [] s = (s, False)"
  by (simp add: work_def)

lemma work_snoc: "work body (is @ [i]) s = (case work body is s of (s', c) \<Rightarrow> case body i s' of (s'', c') \<Rightarrow> (s'', c \<or> c'))"
  by (simp add: work_def split: prod.split)

definition pool_inv :: "nat \<Rightarrow> nat \<Rightarrow> (nat \<Rightarrow> 's \<Rightarrow> 's \<times> bool) \<Rightarrow> 's \<Rightarrow> 's pool \<Rightarrow> bool" where
  "pool_inv pieces chunkSize body s0 p \<longleftrightarrow>
     (\<exists>dropped. mset (po_visits p) + left_over pieces chunkSize p + dropped = mset [0..<pieces] \<and> (dropped \<noteq> {#} \<longrightarrow> po_cancelled p))
     \<and> (Returned \<in> set (po_workers p) \<longrightarrow> po_toProcess p = [] \<or> po_cancelled p)
     \<and> (\<forall>i e. Chosen i e \<in> set (po_workers p) \<longrightarrow> i < e)
     \<and> (po_shared p, po_cancelled p) = work body (po_visits p) s0"

lemma left_over_update:
  assumes "w < length (po_workers p)" and "po_workers p' = (po_workers p)[w := x]"
    and "mset (concat (map (chunk_range n k) (po_toProcess p'))) + mset (pending x) + d
       = mset (concat (map (chunk_range n k) (po_toProcess p))) + mset (pending (po_workers p ! w))"
  shows "left_over n k p' + d = left_over n k p"
proof -
  define R where "R = mset (concat (map pending (take w (po_workers p) @ drop (Suc w) (po_workers p))))"
  have "mset (concat (map pending (po_workers p))) = mset (pending (po_workers p ! w)) + R"
    "mset (concat (map pending (po_workers p'))) = mset (pending x) + R"
    unfolding assms(2) R_def using pending_update [OF assms(1)] by blast+
  then show ?thesis unfolding left_over_def using assms(3) by (metis (no_types, lifting) add.assoc add.commute)
qed

text \<open>One step hands over the pieces of one worker; what a cancelled worker had left is dropped.\<close>

lemma pool_inv_step:
  assumes inv: "pool_inv n k body s0 p" and w: "w < length (po_workers p)" and ws: "po_workers p' = (po_workers p)[w := x]"
    and mono: "po_cancelled p \<longrightarrow> po_cancelled p'"
    and d: "mset (concat (map (chunk_range n k) (po_toProcess p'))) + mset (pending x) + mset ex
       = mset (concat (map (chunk_range n k) (po_toProcess p))) + mset (pending (po_workers p ! w))"
    and ex: "po_visits p' = po_visits p @ ex \<or> po_visits p' = po_visits p \<and> (ex \<noteq> [] \<longrightarrow> po_cancelled p')"
    and ret: "x = Returned \<longrightarrow> po_toProcess p' = [] \<or> po_cancelled p'" "po_toProcess p = [] \<longrightarrow> po_toProcess p' = []"
    and ch: "\<forall>i e. x = Chosen i e \<longrightarrow> i < e" and wk: "(po_shared p', po_cancelled p') = work body (po_visits p') s0"
  shows "pool_inv n k body s0 p'"
proof -
  obtain dropped where dr: "mset (po_visits p) + left_over n k p + dropped = mset [0..<n]" "dropped \<noteq> {#} \<longrightarrow> po_cancelled p"
    using inv by (auto simp: pool_inv_def)
  have lo: "left_over n k p' + mset ex = left_over n k p" by (rule left_over_update [OF w ws d])
  have "\<exists>dropped. mset (po_visits p') + left_over n k p' + dropped = mset [0..<n] \<and> (dropped \<noteq> {#} \<longrightarrow> po_cancelled p')"
    using ex
  proof
    assume v: "po_visits p' = po_visits p @ ex"
    have "mset (po_visits p') + left_over n k p' + dropped = mset [0..<n]"
      using dr(1) unfolding v lo [symmetric] mset_append by (simp only: ac_simps)
    then show ?thesis using dr(2) mono by blast
  next
    assume v: "po_visits p' = po_visits p \<and> (ex \<noteq> [] \<longrightarrow> po_cancelled p')"
    then have "mset (po_visits p') + left_over n k p' + (dropped + mset ex) = mset [0..<n]"
      using dr(1) unfolding lo [symmetric] by (simp add: ac_simps)
    moreover have "dropped + mset ex \<noteq> {#} \<longrightarrow> po_cancelled p'" using v dr(2) mono by auto
    ultimately show ?thesis by blast
  qed
  moreover have "set (po_workers p') \<subseteq> insert x (set (po_workers p))" unfolding ws by (rule set_update_subset_insert)
  ultimately show ?thesis using inv ret ch wk mono unfolding pool_inv_def by blast
qed

lemma pool_inv_kept:
  assumes "pool_step n k body p p'" and inv: "pool_inv n k body s0 p"
  shows "pool_inv n k body s0 p'"
  using assms(1)
proof cases
  case (Take w chunk rest)
  then show ?thesis by (intro pool_inv_step [OF inv Take(2), where ex = "[]"]) (use inv in \<open>auto simp: pool_inv_def chunk_range_def\<close>)
next
  case (Drained w)
  then show ?thesis by (intro pool_inv_step [OF inv Drained(2), where ex = "[]"]) (use inv in \<open>auto simp: pool_inv_def\<close>)
next
  case (EndChunk w i e)
  then show ?thesis by (intro pool_inv_step [OF inv EndChunk(2), where ex = "[]"]) (use inv in \<open>auto simp: pool_inv_def\<close>)
next
  case (Stop w i e)
  then show ?thesis by (intro pool_inv_step [OF inv Stop(2), where ex = "[i..<e]"]) (use inv in \<open>auto simp: pool_inv_def\<close>)
next
  case (Choose w i e)
  then show ?thesis by (intro pool_inv_step [OF inv Choose(2), where ex = "[]"]) (use inv in \<open>auto simp: pool_inv_def\<close>)
next
  case (Piece w i e s' cancel)
  have ie: "i < e" using inv Piece(2,3) nth_mem unfolding pool_inv_def by fastforce
  have "work body (po_visits p @ [i]) s0 = (s', po_cancelled p \<or> cancel)"
    using inv Piece(4) unfolding pool_inv_def work_snoc by (metis (mono_tags, lifting) case_prod_conv)
  then show ?thesis using Piece ie
    by (intro pool_inv_step [OF inv Piece(2), where ex = "[i]"]) (auto simp: upt_conv_Cons)
qed

section \<open>Runs\<close>

lemma chunk_ranges:
  assumes "0 < k"
  shows "concat (map (chunk_range n k) [0..<m]) = [0..<min (m * k) n]"
proof (induction m)
  case (Suc m)
  have "[0..<min (Suc m * k) n] = [0..<min (m * k) n] @ [min (m * k) n..<min (Suc m * k) n]"
    using upt_add_eq_append [of 0 "min (m * k) n" "min (Suc m * k) n - min (m * k) n"] by (simp add: min_def)
  moreover have "chunk_range n k m = [min (m * k) n..<min (Suc m * k) n]"
    by (cases "m * k \<le> n") (simp_all add: chunk_range_def add.commute)
  ultimately show ?case using Suc by simp
qed simp

lemma ceilDiv_covers: "0 < k \<Longrightarrow> n \<le> ceilDiv n k * k"
proof -
  assume k: "0 < k"
  have "n + k - 1 = (n + k - 1) div k * k + (n + k - 1) mod k" by simp
  moreover have "(n + k - 1) mod k \<le> k - 1" using mod_less_divisor [OF k, of "n + k - 1"] by linarith
  ultimately show ?thesis unfolding ceilDiv_def using k by linarith
qed

lemma start_inv:
  assumes "0 < k"
  shows "pool_inv n k body s (ParallelizeUntil_start workers n k s)"
proof -
  have "concat (map (chunk_range n k) [0..<ceilDiv n k]) = [0..<n]"
    using chunk_ranges [OF assms, of n "ceilDiv n k"] ceilDiv_covers [OF assms, of n] by (simp add: min_absorb2)
  then show ?thesis
    by (auto simp: pool_inv_def left_over_def ParallelizeUntil_start_def Let_def comp_def map_replicate concat_replicate_trivial
        intro!: exI [of _ "{#}"])
qed

abbreviation pool_run :: "nat \<Rightarrow> nat \<Rightarrow> (nat \<Rightarrow> 's \<Rightarrow> 's \<times> bool) \<Rightarrow> 's pool \<Rightarrow> 's pool \<Rightarrow> bool" where
  "pool_run pieces chunkSize body \<equiv> (pool_step pieces chunkSize body)\<^sup>*\<^sup>*"

lemma run_inv:
  assumes "pool_run n k body p p'" and "pool_inv n k body s p"
  shows "pool_inv n k body s p'"
  using assms by induction (auto intro: pool_inv_kept)

lemma run_workers: "pool_run n k body p p' \<Longrightarrow> length (po_workers p') = length (po_workers p)"
  by (induction rule: rtranclp_induct) (auto elim: pool_step.cases)

text \<open>What the callers of a parallel loop may rely on.\<close>

definition until_ok :: "nat \<Rightarrow> (nat list \<Rightarrow> bool) \<Rightarrow> nat list \<Rightarrow> bool" where
  "until_ok pieces cancels visits \<longleftrightarrow>
     distinct visits \<and> set visits \<subseteq> {..<pieces} \<and> (set visits = {..<pieces} \<or> cancels visits)"

lemma finished_result:
  assumes inv: "pool_inv n k body s p" and fin: "finished p" and ws: "po_workers p \<noteq> []"
  shows "until_ok n (\<lambda>is. snd (work body is s)) (po_visits p)" and "po_shared p = fst (work body (po_visits p) s)"
proof -
  have wk: "(po_shared p, po_cancelled p) = work body (po_visits p) s" using inv by (simp add: pool_inv_def)
  then show "po_shared p = fst (work body (po_visits p) s)" by (metis fst_conv)
  have c: "po_cancelled p = snd (work body (po_visits p) s)" using wk by (metis snd_conv)
  obtain dropped where dr: "mset (po_visits p) + left_over n k p + dropped = mset [0..<n]" "dropped \<noteq> {#} \<longrightarrow> po_cancelled p"
    using inv by (auto simp: pool_inv_def)
  have "Returned \<in> set (po_workers p)" using fin ws by (cases "po_workers p") (auto simp: finished_def)
  then have tp: "po_toProcess p = [] \<or> po_cancelled p" using inv by (simp add: pool_inv_def)
  have none: "mset (concat (map pending (po_workers p))) = {#}" using fin by (auto simp: finished_def)
  have sub: "mset (po_visits p) \<subseteq># mset [0..<n]" using dr(1) by (metis mset_subset_eq_add_left add.assoc)
  have "count (mset [0..<n]) a \<le> 1" for a
    using distinct_upt [of 0 n] by (simp only: distinct_count_atmost_1) simp
  then have one: "count (mset (po_visits p)) a \<le> 1" for a using mset_subset_eq_count [OF sub, of a] le_trans by blast
  have "distinct (po_visits p)"
    unfolding distinct_count_atmost_1
  proof
    fix a
    show "count (mset (po_visits p)) a = (if a \<in> set (po_visits p) then 1 else 0)"
      using one [of a] by (cases "count (mset (po_visits p)) a") (auto simp: count_eq_zero_iff, metis count_eq_zero_iff nat.distinct(1) set_mset_mset)
  qed
  moreover have "set (po_visits p) \<subseteq> {..<n}" using set_mset_mono [OF sub] by auto
  moreover have "set (po_visits p) = {..<n}" if "\<not> po_cancelled p"
  proof -
    have "mset (po_visits p) = mset [0..<n]" using dr tp that none by (simp add: left_over_def)
    then show ?thesis using mset_eq_setD by fastforce
  qed
  ultimately show "until_ok n (\<lambda>is. snd (work body is s)) (po_visits p)" using c by (auto simp: until_ok_def)
qed

section \<open>Every run ends\<close>

primrec weight :: "worker \<Rightarrow> nat" where
  "weight Idle = 1"
| "weight (At i e) = 2 + 2 * (e - i)"
| "weight (Chosen i e) = 1 + 2 * (e - i)"
| "weight Returned = 0"

definition effort :: "nat \<Rightarrow> nat \<Rightarrow> 's pool \<Rightarrow> nat" where
  "effort n k p = sum_list (map (\<lambda>c. 2 + 2 * length (chunk_range n k c)) (po_toProcess p)) + sum_list (map weight (po_workers p))"

lemma weight_update:
  assumes "w < length ws"
  shows "sum_list (map weight (ws[w := x])) + weight (ws ! w) = sum_list (map weight ws) + weight x"
proof -
  have "ws = take w ws @ ws ! w # drop (Suc w) ws" using assms by (rule id_take_nth_drop)
  then have "sum_list (map weight ws) = sum_list (map weight (take w ws @ ws ! w # drop (Suc w) ws))" by simp
  then show ?thesis using assms by (simp add: upd_conv_take_nth_drop)
qed

lemma effort_decreases:
  assumes "pool_step n k body p p'" and "pool_inv n k body s p"
  shows "effort n k p' < effort n k p"
  using assms(1)
proof cases
  case (Take w chunk rest)
  then show ?thesis using weight_update [OF Take(2), of "At (chunk * k) (min (chunk * k + k) n)"]
    by (simp add: effort_def chunk_range_def)
next
  case (Piece w i e s' cancel)
  have "i < e" using assms(2) Piece(2,3) nth_mem unfolding pool_inv_def by fastforce
  then show ?thesis using Piece weight_update [OF Piece(2), of "At (Suc i) e"] by (simp add: effort_def)
next
  case (Drained w)
  then show ?thesis using weight_update [OF Drained(2), of Returned] by (simp add: effort_def)
next
  case (EndChunk w i e)
  then show ?thesis using weight_update [OF EndChunk(2), of Idle] by (simp add: effort_def)
next
  case (Stop w i e)
  then show ?thesis using weight_update [OF Stop(2), of Returned] by (simp add: effort_def)
next
  case (Choose w i e)
  then show ?thesis using weight_update [OF Choose(2), of "Chosen i e"] by (simp add: effort_def)
qed

lemma not_stuck:
  assumes "\<not> finished p"
  shows "\<exists>p'. pool_step n k body p p'"
proof -
  obtain w where w: "w < length (po_workers p)" "po_workers p ! w \<noteq> Returned"
    using assms by (auto simp: finished_def in_set_conv_nth)
  show ?thesis
  proof (cases "po_workers p ! w")
    case Idle
    then show ?thesis using w by (cases "po_toProcess p") (blast intro: Take Drained)+
  next
    case (At i e)
    then show ?thesis using w by (cases "i < e"; cases "po_cancelled p") (blast intro: EndChunk Stop Choose)+
  next
    case (Chosen i e)
    obtain s' c where "body i (po_shared p) = (s', c)" by fastforce
    then show ?thesis using w Chosen by (blast intro: Piece)
  qed (use w in simp)
qed

lemma run_finishes:
  assumes "pool_inv n k body s p"
  shows "\<exists>p'. pool_run n k body p p' \<and> finished p'"
  using assms
proof (induction "effort n k p" arbitrary: p rule: less_induct)
  case less
  show ?case
  proof (cases "finished p")
    case False
    then obtain p1 where p1: "pool_step n k body p p1" using not_stuck by blast
    then obtain p' where "pool_run n k body p1 p'" "finished p'"
      using less.hyps [OF effort_decreases [OF p1 less.prems] pool_inv_kept [OF p1 less.prems]] by blast
    then show ?thesis using p1 by (meson converse_rtranclp_into_rtranclp)
  qed blast
qed

lemma chunkSize_pos: "0 < chunkSizeFor n parallelism"
  by (simp add: chunkSizeFor_def Let_def)

lemma start_workers:
  assumes "0 < workers" and "0 < n" and "0 < k"
  shows "po_workers (ParallelizeUntil_start workers n k s) \<noteq> []"
proof -
  have "0 < ceilDiv n k" using assms(2,3) by (simp add: ceilDiv_def div_greater_zero_iff)
  then show ?thesis using assms(1) by (simp add: ParallelizeUntil_start_def Let_def)
qed

section \<open>Properties\<close>

definition Until_start :: "nat \<Rightarrow> nat \<Rightarrow> 's \<Rightarrow> 's pool" where
  "Until_start parallelism pieces s = ParallelizeUntil_start parallelism pieces (chunkSizeFor pieces parallelism) s"

text \<open>
  C11: A parallel loop ends and does its work once. From the start some run gets to the end, every
  step of every run makes the remaining effort smaller, so no run goes on forever, and however the
  workers interleave, at the end the shared state is that of working on some sequence of
  different pieces one after the other. The sequence has all pieces, unless the work on it cancels the context.
\<close>

theorem Until_runs_pieces:
  assumes "0 < parallelism" and "0 < pieces"
  shows "(\<exists>p. pool_run pieces (chunkSizeFor pieces parallelism) body (Until_start parallelism pieces s) p \<and> finished p)
    \<and> (\<forall>p p'. pool_run pieces (chunkSizeFor pieces parallelism) body (Until_start parallelism pieces s) p \<longrightarrow>
         pool_step pieces (chunkSizeFor pieces parallelism) body p p' \<longrightarrow>
         effort pieces (chunkSizeFor pieces parallelism) p' < effort pieces (chunkSizeFor pieces parallelism) p)
    \<and> (\<forall>p. pool_run pieces (chunkSizeFor pieces parallelism) body (Until_start parallelism pieces s) p \<longrightarrow> finished p \<longrightarrow>
         until_ok pieces (\<lambda>is. snd (work body is s)) (po_visits p) \<and> po_shared p = fst (work body (po_visits p) s))"
proof -
  define k where "k = chunkSizeFor pieces parallelism"
  have k: "0 < k" by (simp add: k_def chunkSize_pos)
  have start: "Until_start parallelism pieces s = ParallelizeUntil_start parallelism pieces k s" by (simp add: Until_start_def k_def)
  note inv = start_inv [OF k, of pieces body s parallelism]
  have ws: "po_workers p \<noteq> []" if "pool_run pieces k body (ParallelizeUntil_start parallelism pieces k s) p" for p
    using run_workers [OF that] start_workers [OF assms k, of s] by auto
  show ?thesis
    unfolding start k_def [symmetric]
    using run_finishes [OF inv] run_inv [OF _ inv] effort_decreases finished_result ws by metis
qed

theorem Until_runs_pieces_witness:
  "\<exists>p. pool_run 3 (chunkSizeFor 3 2) (\<lambda>i s. (s + i, False)) (Until_start 2 3 (10 :: nat)) p \<and> finished p
     \<and> distinct (po_visits p) \<and> set (po_visits p) = {..<3}"
proof -
  have "\<not> snd (work (\<lambda>i s. (s + i, False)) is (10 :: nat))" for "is"
    by (induction "is" rule: rev_induct) (auto simp: work_snoc split: prod.splits)
  then show ?thesis
    using Until_runs_pieces [of 2 3 "\<lambda>i s. (s + i, False)" "10 :: nat"] by (auto simp: until_ok_def)
qed

end
