(* ===== verification/Framework_Runtime.thy ===== *)
theory Framework_Runtime
  imports Parallelize Sched_Queue Framework_Status
begin

text \<open>
  The scheduling framework that runs the plugins at their extension points
  (pkg/scheduler/framework/runtime/framework.go, waiting_pods_map.go). The plugins of a profile are
  values of plugin records; \<open>'w\<close> is what plugins read and write, the cycle state and whatever
  stores they use. Filter and score plugins run in parallel on the nodes and read \<open>'w\<close> only. A
  parallel loop gets the order in which its pieces are worked on as an argument. Metrics, logging
  and the recording of durations are left out.
\<close>

section \<open>Plugins\<close>

record NodeScore =
  ns_Name :: string
  ns_Score :: int

abbreviation MaxNodeScore :: int where "MaxNodeScore \<equiv> 100"
abbreviation MinNodeScore :: int where "MinNodeScore \<equiv> 0"

type_synonym NodeToStatusMap = "(string, Status option) gomap"

record 'w PreFilterExtensions =
  ext_AddPod :: "'w \<Rightarrow> Pod \<Rightarrow> PodInfo \<Rightarrow> NodeInfo \<Rightarrow> (Status option \<times> 'w) go_run"
  ext_RemovePod :: "'w \<Rightarrow> Pod \<Rightarrow> PodInfo \<Rightarrow> NodeInfo \<Rightarrow> (Status option \<times> 'w) go_run"

record 'w PreFilterPlugin =
  pf_Name :: string
  pf_PreFilter :: "'w \<Rightarrow> Pod \<Rightarrow> (Status option \<times> 'w) go_run"
  pf_PreFilterExtensions :: "'w PreFilterExtensions option"

record 'w FilterPlugin =
  fl_Name :: string
  fl_Filter :: "'w \<Rightarrow> Pod \<Rightarrow> NodeInfo \<Rightarrow> Status option go_run"

record 'w PostFilterPlugin =
  pof_Name :: string
  pof_PostFilter :: "'w \<Rightarrow> Pod \<Rightarrow> NodeToStatusMap \<Rightarrow> (string option \<times> Status option \<times> 'w) go_run"

record 'w PreScorePlugin =
  prs_Name :: string
  prs_PreScore :: "'w \<Rightarrow> Pod \<Rightarrow> Node list \<Rightarrow> (Status option \<times> 'w) go_run"

record 'w ScorePlugin =
  sp_Name :: string
  sp_Score :: "'w \<Rightarrow> Pod \<Rightarrow> string \<Rightarrow> (int \<times> Status option) go_run"
  sp_NormalizeScore :: "('w \<Rightarrow> Pod \<Rightarrow> NodeScore list \<Rightarrow> (Status option \<times> NodeScore list) go_run) option"

record 'w ReservePlugin =
  rp_Name :: string
  rp_Reserve :: "'w \<Rightarrow> Pod \<Rightarrow> string \<Rightarrow> (Status option \<times> 'w) go_run"
  rp_Unreserve :: "'w \<Rightarrow> Pod \<Rightarrow> string \<Rightarrow> 'w go_run"

record 'w BindPlugin =
  bp_Name :: string
  bp_Bind :: "'w \<Rightarrow> Pod \<Rightarrow> string \<Rightarrow> (Status option \<times> 'w) go_run"

record 'w PermitPlugin =
  pm_Name :: string
  pm_Permit :: "'w \<Rightarrow> Pod \<Rightarrow> string \<Rightarrow> (Status option \<times> int \<times> 'w) go_run"

record 'w PostBindPlugin =
  pb_Name :: string
  pb_PostBind :: "'w \<Rightarrow> Pod \<Rightarrow> string \<Rightarrow> 'w go_run"

section \<open>Waiting pods\<close>

text \<open>
  A pod that waits for permit plugins. \<open>wp_s\<close> is the channel with one slot. The timers of the
  pending plugins reject the pod when they fire.
\<close>

record waitingPod =
  wp_pod :: Pod
  wp_pendingPlugins :: "(string, int) gomap"
  wp_s :: "Status option"

definition newWaitingPod :: "Pod \<Rightarrow> (string, int) gomap \<Rightarrow> waitingPod" where
  "newWaitingPod pod pluginsMaxWaitTime = \<lparr>wp_pod = pod, wp_pendingPlugins = pluginsMaxWaitTime, wp_s = None\<rparr>"

definition send_status :: "Status \<Rightarrow> waitingPod \<Rightarrow> waitingPod" where
  "send_status st w = (case wp_s w of None \<Rightarrow> w\<lparr>wp_s := Some st\<rparr> | Some _ \<Rightarrow> w)"

definition GetPendingPlugins :: "waitingPod \<Rightarrow> string list" where
  "GetPendingPlugins w = map fst (wp_pendingPlugins w)"

definition Allow :: "string \<Rightarrow> waitingPod \<Rightarrow> waitingPod" where
  "Allow pluginName w =
     (let w1 = w\<lparr>wp_pendingPlugins := gomap_delete (wp_pendingPlugins w) pluginName\<rparr>
      in if wp_pendingPlugins w1 \<noteq> [] then w1 else send_status (NewStatus Success [[]]) w1)"

definition Reject :: "string \<Rightarrow> string \<Rightarrow> waitingPod \<Rightarrow> waitingPod" where
  "Reject pluginName msg w = send_status (WithFailedPlugin pluginName (NewStatus Unschedulable [msg])) w"

type_synonym waitingPodsMap = "(string, waitingPod) gomap"

definition wpm_add :: "waitingPod \<Rightarrow> waitingPodsMap \<Rightarrow> waitingPodsMap" where
  "wpm_add wp m = gomap_set m (pod_UID (wp_pod wp)) wp"

definition wpm_remove :: "string \<Rightarrow> waitingPodsMap \<Rightarrow> waitingPodsMap" where
  "wpm_remove uid m = gomap_delete m uid"

definition wpm_get :: "string \<Rightarrow> waitingPodsMap \<Rightarrow> waitingPod option" where
  "wpm_get uid m = gomap_get m uid"

section \<open>The framework\<close>

text \<open>
  \<open>f_clone\<close> copies the cycle state, \<open>f_gen\<close> is the generation counter read when NodeInfos are
  copied for a trial run.
\<close>

record 'w frameworkImpl =
  f_waitingPods :: waitingPodsMap
  f_scorePluginWeight :: "(string, int) gomap"
  f_preFilterPlugins :: "'w PreFilterPlugin list"
  f_filterPlugins :: "'w FilterPlugin list"
  f_postFilterPlugins :: "'w PostFilterPlugin list"
  f_preScorePlugins :: "'w PreScorePlugin list"
  f_scorePlugins :: "'w ScorePlugin list"
  f_reservePlugins :: "'w ReservePlugin list"
  f_preBindPlugins :: "'w BindPlugin list"
  f_bindPlugins :: "'w BindPlugin list"
  f_postBindPlugins :: "'w PostBindPlugin list"
  f_permitPlugins :: "'w PermitPlugin list"
  f_nominator :: nominator
  f_runAllFilters :: bool
  f_env :: runtime_env
  f_clone :: "'w \<Rightarrow> 'w"
  f_gen :: int

text \<open>The text of the error of a status; a nil error prints as \<^verbatim>\<open>%!w(<nil>)\<close>.\<close>

definition err_text :: "Status option \<Rightarrow> string" where
  "err_text s = (case AsError s of Some e \<Rightarrow> e | None \<Rightarrow> ''%!w(<nil>)'')"

definition failed_plugin :: "string \<Rightarrow> string \<Rightarrow> Status option \<Rightarrow> Status" where
  "failed_plugin what name s = AsStatus (what @ '' '' @ go_quote name @ '': '' @ err_text s)"

fun RunPreFilterPlugins :: "'w PreFilterPlugin list \<Rightarrow> 'w \<Rightarrow> Pod \<Rightarrow> (Status option \<times> 'w) go_run" where
  "RunPreFilterPlugins [] w pod = Returns (None, w)"
| "RunPreFilterPlugins (pl # pls) w pod =
     go_bind (pf_PreFilter pl w pod) (\<lambda>(status, w').
       if IsSuccess status then RunPreFilterPlugins pls w' pod
       else if IsUnschedulable status then Returns (map_option (WithFailedPlugin (pf_Name pl)) status, w')
       else Returns (Some (WithFailedPlugin (pf_Name pl) (failed_plugin ''running PreFilter plugin'' (pf_Name pl) status)), w'))"

text \<open>\<^verbatim>\<open>RunPreFilterExtensionAddPod\<close> and \<^verbatim>\<open>RunPreFilterExtensionRemovePod\<close> differ in the method they call.\<close>

fun RunPreFilterExtension :: "('w PreFilterExtensions \<Rightarrow> 'w \<Rightarrow> Pod \<Rightarrow> PodInfo \<Rightarrow> NodeInfo \<Rightarrow> (Status option \<times> 'w) go_run)
    \<Rightarrow> string \<Rightarrow> 'w PreFilterPlugin list \<Rightarrow> 'w \<Rightarrow> Pod \<Rightarrow> PodInfo \<Rightarrow> NodeInfo \<Rightarrow> (Status option \<times> 'w) go_run" where
  "RunPreFilterExtension call what [] w podToSchedule podInfo nodeInfo = Returns (None, w)"
| "RunPreFilterExtension call what (pl # pls) w podToSchedule podInfo nodeInfo =
     (case pf_PreFilterExtensions pl of None \<Rightarrow> RunPreFilterExtension call what pls w podToSchedule podInfo nodeInfo
      | Some ext \<Rightarrow>
        go_bind (call ext w podToSchedule podInfo nodeInfo) (\<lambda>(status, w').
          if IsSuccess status then RunPreFilterExtension call what pls w' podToSchedule podInfo nodeInfo
          else Returns (Some (failed_plugin what (pf_Name pl) status), w')))"

definition RunPreFilterExtensionAddPod :: "'w frameworkImpl \<Rightarrow> 'w \<Rightarrow> Pod \<Rightarrow> PodInfo \<Rightarrow> NodeInfo \<Rightarrow> (Status option \<times> 'w) go_run" where
  "RunPreFilterExtensionAddPod f = RunPreFilterExtension ext_AddPod ''running AddPod on PreFilter plugin'' (f_preFilterPlugins f)"

definition RunPreFilterExtensionRemovePod :: "'w frameworkImpl \<Rightarrow> 'w \<Rightarrow> Pod \<Rightarrow> PodInfo \<Rightarrow> NodeInfo \<Rightarrow> (Status option \<times> 'w) go_run" where
  "RunPreFilterExtensionRemovePod f = RunPreFilterExtension ext_RemovePod ''running RemovePod on PreFilter plugin'' (f_preFilterPlugins f)"

fun RunFilterPlugins :: "bool \<Rightarrow> 'w FilterPlugin list \<Rightarrow> 'w \<Rightarrow> Pod \<Rightarrow> NodeInfo \<Rightarrow> NodeToStatusMap \<Rightarrow> NodeToStatusMap go_run" where
  "RunFilterPlugins runAll [] w pod nodeInfo statuses = Returns statuses"
| "RunFilterPlugins runAll (pl # pls) w pod nodeInfo statuses =
     go_bind (fl_Filter pl w pod nodeInfo) (\<lambda>status.
       if IsSuccess status then RunFilterPlugins runAll pls w pod nodeInfo statuses
       else if \<not> IsUnschedulable status
       then Returns [(fl_Name pl, Some (WithFailedPlugin (fl_Name pl)
              (AsStatus (''running '' @ go_quote (fl_Name pl) @ '' filter plugin: '' @ err_text status))))]
       else
         let statuses' = gomap_set statuses (fl_Name pl) (map_option (WithFailedPlugin (fl_Name pl)) status)
         in if runAll then RunFilterPlugins runAll pls w pod nodeInfo statuses' else Returns statuses')"

fun RunPostFilterPlugins :: "'w PostFilterPlugin list \<Rightarrow> 'w \<Rightarrow> Pod \<Rightarrow> NodeToStatusMap \<Rightarrow> (string, Status option) gomap
    \<Rightarrow> (string option \<times> Status option \<times> 'w) go_run" where
  "RunPostFilterPlugins [] w pod filtered statuses = go_bind (Merge statuses) (\<lambda>s. Returns (None, s, w))"
| "RunPostFilterPlugins (pl # pls) w pod filtered statuses =
     go_bind (pof_PostFilter pl w pod filtered) (\<lambda>(r, s, w').
       if IsSuccess s then Returns (r, s, w')
       else if \<not> IsUnschedulable s then Returns (None, Some (AsStatus (err_text s)), w')
       else RunPostFilterPlugins pls w' pod filtered (gomap_set statuses (pof_Name pl) s))"

section \<open>Filters with nominated pods\<close>

definition filter_status :: "'w frameworkImpl \<Rightarrow> 'w \<Rightarrow> Pod \<Rightarrow> NodeInfo \<Rightarrow> Status option go_run" where
  "filter_status f w pod nodeInfo = go_bind (RunFilterPlugins (f_runAllFilters f) (f_filterPlugins f) w pod nodeInfo []) Merge"

text \<open>The loop over the nominated pods; an error leaves it at once.\<close>

fun add_nominated :: "'w frameworkImpl \<Rightarrow> Pod \<Rightarrow> PodInfo list \<Rightarrow> bool \<Rightarrow> 'w \<Rightarrow> int \<times> NodeInfo
    \<Rightarrow> (string + bool \<times> 'w \<times> NodeInfo) go_run" where
  "add_nominated f pod [] added w gn = Returns (Inr (added, w, snd gn))"
| "add_nominated f pod (p # ps) added w gn =
     (if PodPriority (pi_Pod p) \<ge> PodPriority pod \<and> pod_UID (pi_Pod p) \<noteq> pod_UID pod then
        let gn' = AddPodInfo (f_env f) p gn in
        go_bind (RunPreFilterExtensionAddPod f w pod p (snd gn')) (\<lambda>(status, w').
          if IsSuccess status then add_nominated f pod ps True w' gn' else Returns (Inl (err_text status)))
      else add_nominated f pod ps added w gn)"

definition addNominatedPods :: "'w frameworkImpl \<Rightarrow> Pod \<Rightarrow> 'w \<Rightarrow> NodeInfo \<Rightarrow> (string + bool \<times> 'w \<times> NodeInfo) go_run" where
  "addNominatedPods f pod w nodeInfo =
     (case ni_node nodeInfo of None \<Rightarrow> Returns (Inr (False, w, nodeInfo))
      | Some node \<Rightarrow>
        (let nominated = NominatedPodsForNode (node_Name node) (f_nominator f)
         in if nominated = [] then Returns (Inr (False, w, nodeInfo))
            else add_nominated f pod nominated False (f_clone f w) (f_gen f, NodeInfo_Clone nodeInfo)))"

definition RunFilterPluginsWithNominatedPods :: "'w frameworkImpl \<Rightarrow> 'w \<Rightarrow> Pod \<Rightarrow> NodeInfo \<Rightarrow> Status option go_run" where
  "RunFilterPluginsWithNominatedPods f w pod info =
     go_bind (addNominatedPods f pod w info) (\<lambda>r.
       case r of Inl err \<Rightarrow> Returns (Some (AsStatus err))
       | Inr (podsAdded, stateToUse, nodeInfoToUse) \<Rightarrow>
           go_bind (filter_status f stateToUse pod nodeInfoToUse) (\<lambda>status.
             if \<not> IsSuccess status \<and> \<not> IsUnschedulable status then Returns status
             else if \<not> podsAdded \<or> \<not> IsSuccess status then Returns status
             else filter_status f w pod info))"

section \<open>Scores\<close>

fun RunPreScorePlugins :: "'w PreScorePlugin list \<Rightarrow> 'w \<Rightarrow> Pod \<Rightarrow> Node list \<Rightarrow> (Status option \<times> 'w) go_run" where
  "RunPreScorePlugins [] w pod nodes = Returns (None, w)"
| "RunPreScorePlugins (pl # pls) w pod nodes =
     go_bind (prs_PreScore pl w pod nodes) (\<lambda>(status, w').
       if IsSuccess status then RunPreScorePlugins pls w' pod nodes
       else Returns (Some (failed_plugin ''running PreScore plugin'' (prs_Name pl) status), w'))"

text \<open>
  A parallel loop whose work may panic, on the given order of the pieces. The second component
  says whether the context has been cancelled.
\<close>

definition go_work :: "(nat \<Rightarrow> 's \<Rightarrow> ('s \<times> bool) go_run) \<Rightarrow> nat list \<Rightarrow> 's \<Rightarrow> ('s \<times> bool) go_run" where
  "go_work body is s =
     go_fold (\<lambda>i (s, c). go_bind (body i s) (\<lambda>(s', c'). Returns (s', c \<or> c'))) is (s, False)"

text \<open>The error channel keeps the first error that is sent.\<close>

definition send_error :: "string \<Rightarrow> string option \<Rightarrow> string option" where
  "send_error e errCh = (case errCh of None \<Rightarrow> Some e | Some _ \<Rightarrow> errCh)"

type_synonym scores = "(string, NodeScore list) gomap"

fun score_node :: "'w ScorePlugin list \<Rightarrow> 'w \<Rightarrow> Pod \<Rightarrow> string \<Rightarrow> nat \<Rightarrow> scores \<times> string option
    \<Rightarrow> ((scores \<times> string option) \<times> bool) go_run" where
  "score_node [] w pod nodeName index (sc, errCh) = Returns ((sc, errCh), False)"
| "score_node (pl # pls) w pod nodeName index (sc, errCh) =
     go_bind (sp_Score pl w pod nodeName) (\<lambda>(s, status).
       if \<not> IsSuccess status
       then Returns ((sc, send_error (''plugin '' @ go_quote (sp_Name pl) @ '' failed with: '' @ err_text status) errCh), True)
       else score_node pls w pod nodeName index
              (gomap_set sc (sp_Name pl) ((get_or [] sc (sp_Name pl))[index := \<lparr>ns_Name = nodeName, ns_Score = s\<rparr>]), errCh))"

definition normalize_plugin :: "'w \<Rightarrow> Pod \<Rightarrow> 'w ScorePlugin \<Rightarrow> scores \<times> string option \<Rightarrow> ((scores \<times> string option) \<times> bool) go_run" where
  "normalize_plugin w pod pl se =
     (case se of (sc, errCh) \<Rightarrow>
      case sp_NormalizeScore pl of None \<Rightarrow> Returns (se, False)
      | Some norm_score \<Rightarrow>
        go_bind (norm_score w pod (get_or [] sc (sp_Name pl))) (\<lambda>(status, l).
          let sc' = gomap_set sc (sp_Name pl) l in
          Returns (if IsSuccess status then ((sc', errCh), False)
            else ((sc', send_error (''plugin '' @ go_quote (sp_Name pl) @ '' failed with: '' @ err_text status) errCh), True))))"

fun weigh_list :: "string \<Rightarrow> int \<Rightarrow> NodeScore list \<Rightarrow> NodeScore list \<times> string option" where
  "weigh_list name wt [] = ([], None)"
| "weigh_list name wt (ns # l) =
     (if ns_Score ns > MaxNodeScore \<or> ns_Score ns < MinNodeScore
      then (ns # l, Some (''plugin '' @ go_quote name @ '' returns an invalid score '' @ itoa (ns_Score ns)
              @ '', it should in the range of [0, 100] after normalizing''))
      else case weigh_list name wt l of (l', err) \<Rightarrow> (ns\<lparr>ns_Score := wrap64 (ns_Score ns * wt)\<rparr> # l', err))"

definition weigh_plugin :: "'w frameworkImpl \<Rightarrow> 'w ScorePlugin \<Rightarrow> scores \<times> string option \<Rightarrow> ((scores \<times> string option) \<times> bool)" where
  "weigh_plugin f pl se =
     (case se of (sc, errCh) \<Rightarrow>
      case weigh_list (sp_Name pl) (get_or 0 (f_scorePluginWeight f) (sp_Name pl)) (get_or [] sc (sp_Name pl)) of (l, err) \<Rightarrow>
        let sc' = gomap_set sc (sp_Name pl) l in
        (case err of None \<Rightarrow> ((sc', errCh), False) | Some e \<Rightarrow> ((sc', send_error e errCh), True)))"

text \<open>The orders in which the three parallel loops work on nodes and plugins.\<close>

record score_order =
  so_nodes :: "nat list"
  so_normalize :: "nat list"
  so_weigh :: "nat list"

definition RunScorePlugins :: "score_order \<Rightarrow> 'w frameworkImpl \<Rightarrow> 'w \<Rightarrow> Pod \<Rightarrow> Node list \<Rightarrow> (Status + scores) go_run" where
  "RunScorePlugins ord f w pod nodes =
     (let pls = f_scorePlugins f;
          sc0 = fold (\<lambda>pl m. gomap_set m (sp_Name pl) (replicate (length nodes) \<lparr>ns_Name = [], ns_Score = 0\<rparr>)) pls []
      in go_bind (go_work (\<lambda>i. score_node pls w pod (node_Name (nodes ! i)) i) (so_nodes ord) (sc0, None)) (\<lambda>((sc1, e1), _).
           case e1 of Some e \<Rightarrow> Returns (Inl (AsStatus (''running Score plugins: '' @ e)))
           | None \<Rightarrow>
             go_bind (go_work (\<lambda>i. normalize_plugin w pod (pls ! i)) (so_normalize ord) (sc1, None)) (\<lambda>((sc2, e2), _).
               case e2 of Some e \<Rightarrow> Returns (Inl (AsStatus (''running Normalize on Score plugins: '' @ e)))
               | None \<Rightarrow>
                 go_bind (go_work (\<lambda>i se. Returns (weigh_plugin f (pls ! i) se)) (so_weigh ord) (sc2, None)) (\<lambda>((sc3, e3), _).
                   case e3 of Some e \<Rightarrow> Returns (Inl (AsStatus (''applying score defaultWeights on Score plugins: '' @ e)))
                   | None \<Rightarrow> Returns (Inr sc3)))))"

section \<open>Reserving, permitting and binding\<close>

fun RunReservePluginsReserve :: "'w ReservePlugin list \<Rightarrow> 'w \<Rightarrow> Pod \<Rightarrow> string \<Rightarrow> (Status option \<times> 'w) go_run" where
  "RunReservePluginsReserve [] w pod nodeName = Returns (None, w)"
| "RunReservePluginsReserve (pl # pls) w pod nodeName =
     go_bind (rp_Reserve pl w pod nodeName) (\<lambda>(status, w').
       if IsSuccess status then RunReservePluginsReserve pls w' pod nodeName
       else Returns (Some (failed_plugin ''running Reserve plugin'' (rp_Name pl) status), w'))"

definition RunReservePluginsUnreserve :: "'w ReservePlugin list \<Rightarrow> 'w \<Rightarrow> Pod \<Rightarrow> string \<Rightarrow> 'w go_run" where
  "RunReservePluginsUnreserve pls w pod nodeName = go_fold (\<lambda>pl w. rp_Unreserve pl w pod nodeName) (rev pls) w"

fun RunPreBindPlugins :: "'w BindPlugin list \<Rightarrow> 'w \<Rightarrow> Pod \<Rightarrow> string \<Rightarrow> (Status option \<times> 'w) go_run" where
  "RunPreBindPlugins [] w pod nodeName = Returns (None, w)"
| "RunPreBindPlugins (pl # pls) w pod nodeName =
     go_bind (bp_Bind pl w pod nodeName) (\<lambda>(status, w').
       if IsSuccess status then RunPreBindPlugins pls w' pod nodeName
       else Returns (Some (failed_plugin ''running PreBind plugin'' (bp_Name pl) status), w'))"

fun bind_plugins :: "'w BindPlugin list \<Rightarrow> Status option \<Rightarrow> 'w \<Rightarrow> Pod \<Rightarrow> string \<Rightarrow> (Status option \<times> 'w) go_run" where
  "bind_plugins [] status w pod nodeName = Returns (status, w)"
| "bind_plugins (bp # bps) _ w pod nodeName =
     go_bind (bp_Bind bp w pod nodeName) (\<lambda>(status, w').
       if status \<noteq> None \<and> Status_Code status = Skip then bind_plugins bps status w' pod nodeName
       else if IsSuccess status then Returns (status, w')
       else Returns (Some (failed_plugin ''running Bind plugin'' (bp_Name bp) status), w'))"

definition RunBindPlugins :: "'w BindPlugin list \<Rightarrow> 'w \<Rightarrow> Pod \<Rightarrow> string \<Rightarrow> (Status option \<times> 'w) go_run" where
  "RunBindPlugins bps w pod nodeName =
     (if bps = [] then Returns (Some (NewStatus Skip [[]]), w) else bind_plugins bps None w pod nodeName)"

definition RunPostBindPlugins :: "'w PostBindPlugin list \<Rightarrow> 'w \<Rightarrow> Pod \<Rightarrow> string \<Rightarrow> 'w go_run" where
  "RunPostBindPlugins pls w pod nodeName = go_fold (\<lambda>pl w. pb_PostBind pl w pod nodeName) pls w"

text \<open>Fifteen minutes, in nanoseconds.\<close>

abbreviation maxTimeout :: int where "maxTimeout \<equiv> 900000000000"

fun permit_plugins :: "'w PermitPlugin list \<Rightarrow> (string, int) gomap \<Rightarrow> bool \<Rightarrow> 'w \<Rightarrow> Pod \<Rightarrow> string
    \<Rightarrow> ((Status option + (string, int) gomap \<times> bool) \<times> 'w) go_run" where
  "permit_plugins [] waits wait w pod nodeName = Returns (Inr (waits, wait), w)"
| "permit_plugins (pl # pls) waits wait w pod nodeName =
     go_bind (pm_Permit pl w pod nodeName) (\<lambda>(status, timeout, w').
       if IsSuccess status then permit_plugins pls waits wait w' pod nodeName
       else if IsUnschedulable status then Returns (Inl (map_option (WithFailedPlugin (pm_Name pl)) status), w')
       else if Status_Code status = Wait
       then permit_plugins pls (gomap_set waits (pm_Name pl) (min timeout maxTimeout)) True w' pod nodeName
       else Returns (Inl (Some (WithFailedPlugin (pm_Name pl) (failed_plugin ''running Permit plugin'' (pm_Name pl) status))), w'))"

definition RunPermitPlugins :: "'w frameworkImpl \<Rightarrow> 'w \<Rightarrow> Pod \<Rightarrow> string \<Rightarrow> (Status option \<times> 'w frameworkImpl \<times> 'w) go_run" where
  "RunPermitPlugins f w pod nodeName =
     go_bind (permit_plugins (f_permitPlugins f) [] False w pod nodeName) (\<lambda>(r, w').
       Returns (case r of Inl s \<Rightarrow> (s, f, w')
         | Inr (waits, wait) \<Rightarrow>
           if wait
           then (Some (NewStatus Wait [''one or more plugins asked to wait and no plugin rejected pod '' @ go_quote (pod_Name pod)]),
                 f\<lparr>f_waitingPods := wpm_add (newWaitingPod pod waits) (f_waitingPods f)\<rparr>, w')
           else (None, f, w')))"

text \<open>
  Waiting for the permit: \<^const>\<open>None\<close> means that the pod still waits, nothing having been sent
  to its channel.
\<close>

definition WaitOnPermit :: "Pod \<Rightarrow> 'w frameworkImpl \<Rightarrow> (Status option \<times> 'w frameworkImpl) option" where
  "WaitOnPermit pod f =
     (case wpm_get (pod_UID pod) (f_waitingPods f) of None \<Rightarrow> Some (None, f)
      | Some wp \<Rightarrow>
        (case wp_s wp of None \<Rightarrow> None
         | Some s \<Rightarrow>
           Some (if IsSuccess (Some s) then None
                 else if IsUnschedulable (Some s) then Some s
                 else Some (WithFailedPlugin (st_failedPlugin s) (AsStatus (''waiting on permit for pod: '' @ err_text (Some s)))),
                 f\<lparr>f_waitingPods := wpm_remove (pod_UID pod) (f_waitingPods f)\<rparr>)))"

definition RejectWaitingPod :: "string \<Rightarrow> 'w frameworkImpl \<Rightarrow> 'w frameworkImpl" where
  "RejectWaitingPod uid f =
     (case wpm_get uid (f_waitingPods f) of None \<Rightarrow> f
      | Some wp \<Rightarrow> f\<lparr>f_waitingPods := wpm_add (Reject [] ''removed'' wp) (f_waitingPods f)\<rparr>)"

section \<open>Filtering a node\<close>

lemma merge_loop_nil_free:
  assumes "\<forall>(n, s)\<in>set ps. s \<noteq> None"
  shows "\<exists>r. merge_loop fin ps = Returns r \<and> (st_code r = Success \<longrightarrow> st_code fin = Success \<and> (\<forall>(n, s)\<in>set ps. IsSuccess s))"
  using assms
proof (induction ps arbitrary: fin)
  case (Cons p ps)
  obtain n s where p: "p = (n, Some s)" using Cons.prems by (cases p) auto
  obtain r where r: "merge_loop (merge_one fin s) ps = Returns r"
    "st_code r = Success \<longrightarrow> st_code (merge_one fin s) = Success \<and> (\<forall>(n, s)\<in>set ps. IsSuccess s)"
    using Cons.IH [of "merge_one fin s"] Cons.prems by auto
  have "st_code fin = Success \<and> st_code s = Success" if "st_code (merge_one fin s) = Success"
    using that by (cases "st_code fin"; cases "st_code s") (simp_all add: statusPrecedence_def)
  then show ?case using r by (auto simp: p IsSuccess_def Status_Code_def)
qed simp

lemma Merge_nil_free:
  assumes "\<forall>(n, s)\<in>set ps. s \<noteq> None" and "\<exists>(n, s)\<in>set ps. \<not> IsSuccess s"
  shows "\<exists>r. Merge ps = Returns (Some r) \<and> \<not> IsSuccess (Some r)"
proof -
  obtain r where "merge_loop (NewStatus Success []) ps = Returns r" "st_code r = Success \<longrightarrow> (\<forall>(n, s)\<in>set ps. IsSuccess s)"
    using merge_loop_nil_free [OF assms(1)] by blast
  then show ?thesis using assms(2) by (auto simp: Merge_def IsSuccess_def Status_Code_def)
qed

definition bad_statuses :: "NodeToStatusMap \<Rightarrow> bool" where
  "bad_statuses m \<longleftrightarrow> (\<forall>(n, s)\<in>set m. s \<noteq> None \<and> \<not> IsSuccess s)"

lemma not_success_Some: "\<not> IsSuccess s \<Longrightarrow> \<exists>st. s = Some st"
  by (cases s) (simp_all add: IsSuccess_def Status_Code_def)

lemma bad_statuses_set: "bad_statuses m \<Longrightarrow> \<not> IsSuccess s \<Longrightarrow> bad_statuses (gomap_set m k (map_option (WithFailedPlugin n) s))"
proof -
  assume m: "bad_statuses m" and s: "\<not> IsSuccess s"
  obtain st where st: "s = Some st" using not_success_Some [OF s] by blast
  have sub: "set (gomap_set m k v) \<subseteq> insert (k, v) (set m)" for v :: "Status option"
    by (induction m k v rule: gomap_set.induct) auto
  have "\<not> IsSuccess (Some (WithFailedPlugin n st))" using s st by (simp add: IsSuccess_def Status_Code_def WithFailedPlugin_def)
  then have all: "\<forall>(n, s)\<in>insert (k, Some (WithFailedPlugin n st)) (set m). s \<noteq> None \<and> \<not> IsSuccess s"
    using m by (simp add: bad_statuses_def)
  show ?thesis
    unfolding bad_statuses_def st option.map
  proof
    fix x assume "x \<in> set (gomap_set m k (Some (WithFailedPlugin n st)))"
    then have "x \<in> insert (k, Some (WithFailedPlugin n st)) (set m)" using sub by (rule subsetD [rotated])
    then show "case x of (n, s) \<Rightarrow> s \<noteq> None \<and> \<not> IsSuccess s" by (rule bspec [OF all])
  qed
qed

text \<open>Every filter plugin accepts the node.\<close>

definition fits :: "'w FilterPlugin list \<Rightarrow> 'w \<Rightarrow> Pod \<Rightarrow> NodeInfo \<Rightarrow> bool" where
  "fits pls w pod info \<longleftrightarrow> (\<forall>pl\<in>set pls. \<exists>s. fl_Filter pl w pod info = Returns s \<and> IsSuccess s)"

lemma RunFilterPlugins_law:
  assumes "RunFilterPlugins runAll pls w pod info m = Returns m'" and "bad_statuses m"
  shows "bad_statuses m'" and "m' = [] \<longleftrightarrow> m = [] \<and> fits pls w pod info"
proof -
  have "bad_statuses m' \<and> (m' = [] \<longleftrightarrow> m = [] \<and> fits pls w pod info)"
    using assms
  proof (induction pls arbitrary: m)
    case (Cons pl pls)
    obtain s where s: "fl_Filter pl w pod info = Returns s" using Cons.prems(1) by (auto simp: go_bind_Returns_iff)
    show ?case
    proof (cases "IsSuccess s")
      case True
      then show ?thesis using Cons s by (simp add: fits_def)
    next
      case False
      then have bad: "bad_statuses (gomap_set m (fl_Name pl) (map_option (WithFailedPlugin (fl_Name pl)) s))"
        by (rule bad_statuses_set [OF Cons.prems(2)])
      have nf: "\<not> fits (pl # pls) w pod info" using False s by (simp add: fits_def)
      show ?thesis
      proof (cases "IsUnschedulable s \<and> runAll")
        case True
        then show ?thesis using Cons.prems(1) s False Cons.IH [OF _ bad] nf by (simp add: Let_def)
      next
        case False
        then show ?thesis using Cons.prems(1) s \<open>\<not> IsSuccess s\<close> bad nf
          by (auto simp: Let_def bad_statuses_def IsSuccess_def Status_Code_def WithFailedPlugin_def AsStatus_def split: if_splits)
      qed
    qed
  qed (auto simp: fits_def)
  then show "bad_statuses m'" and "m' = [] \<longleftrightarrow> m = [] \<and> fits pls w pod info" by blast+
qed

lemma filter_status_law:
  assumes "filter_status f w pod info = Returns s"
  shows "IsSuccess s \<longleftrightarrow> fits (f_filterPlugins f) w pod info"
proof -
  obtain m where m: "RunFilterPlugins (f_runAllFilters f) (f_filterPlugins f) w pod info [] = Returns m" "Merge m = Returns s"
    using assms by (auto simp: filter_status_def go_bind_Returns_iff)
  have bad: "bad_statuses m" and empty: "m = [] \<longleftrightarrow> fits (f_filterPlugins f) w pod info"
    using RunFilterPlugins_law [OF m(1)] by (simp_all add: bad_statuses_def)
  show ?thesis
  proof (cases "m = []")
    case True
    then show ?thesis using m(2) empty by (simp add: Merge_def IsSuccess_def Status_Code_def)
  next
    case False
    then obtain n s' where "(n, s') \<in> set m" by (cases m) auto
    then obtain r where "Merge m = Returns (Some r)" "\<not> IsSuccess (Some r)"
      using Merge_nil_free [of m] bad by (fastforce simp: bad_statuses_def)
    then show ?thesis using m(2) empty False by simp
  qed
qed

lemma fits_filter_status: "fits (f_filterPlugins f) w pod info \<Longrightarrow> filter_status f w pod info = Returns None"
proof -
  assume "fits (f_filterPlugins f) w pod info"
  moreover have "fits pls w pod info \<Longrightarrow> RunFilterPlugins runAll pls w pod info [] = Returns []" for runAll pls
    by (induction pls) (auto simp: fits_def)
  ultimately show ?thesis by (simp add: filter_status_def Merge_def)
qed

text \<open>
  With nominated pods the plugins must accept the node with them, and again without them; when
  none of them counts for the pod, they run once, on a copy.
\<close>

lemma add_nominated_added:
  "add_nominated f pod ps True w gn = Returns (Inr (added, w', info')) \<Longrightarrow> added"
proof (induction ps arbitrary: w gn)
  case (Cons p ps)
  from Cons.prems show ?case
    by (auto simp: Let_def go_bind_Returns_iff split: if_splits dest: Cons.IH)
qed simp

lemma add_nominated_none:
  "add_nominated f pod ps False w gn = Returns (Inr (False, w', info')) \<Longrightarrow> w' = w \<and> info' = snd gn"
proof (induction ps arbitrary: w gn)
  case (Cons p ps)
  from Cons.prems show ?case
    by (auto simp: Let_def go_bind_Returns_iff split: if_splits dest: Cons.IH add_nominated_added)
qed simp

text \<open>The filters cannot tell a copy of the cycle state from the original.\<close>

definition clone_ok :: "'w frameworkImpl \<Rightarrow> 'w \<Rightarrow> Pod \<Rightarrow> bool" where
  "clone_ok f w pod \<longleftrightarrow> (\<forall>pl\<in>set (f_filterPlugins f). fl_Filter pl (f_clone f w) pod = fl_Filter pl w pod)"

lemma clone_fits: "clone_ok f w pod \<Longrightarrow> fits (f_filterPlugins f) (f_clone f w) pod info \<longleftrightarrow> fits (f_filterPlugins f) w pod info"
  by (simp add: clone_ok_def fits_def)

lemma nominated_filters_sound:
  assumes "RunFilterPluginsWithNominatedPods f w pod info = Returns s" and "IsSuccess s" and "clone_ok f w pod"
  shows "fits (f_filterPlugins f) w pod info"
proof -
  obtain r where r: "addNominatedPods f pod w info = Returns r"
    using assms(1) by (auto simp: RunFilterPluginsWithNominatedPods_def go_bind_Returns_iff)
  show ?thesis
  proof (cases r)
    case (Inl e)
    then show ?thesis using assms(1,2) r
      by (auto simp: RunFilterPluginsWithNominatedPods_def IsSuccess_def Status_Code_def AsStatus_def)
  next
    case (Inr x)
    obtain added w1 i1 where x: "x = (added, w1, i1)" by (cases x)
    obtain st where st: "filter_status f w1 pod i1 = Returns st"
      using assms(1) r Inr x by (auto simp: RunFilterPluginsWithNominatedPods_def go_bind_Returns_iff)
    have step: "(if \<not> IsSuccess st \<and> \<not> IsUnschedulable st then Returns st
        else if \<not> added \<or> \<not> IsSuccess st then Returns st else filter_status f w pod info) = Returns s"
      using assms(1) r Inr x st by (simp add: RunFilterPluginsWithNominatedPods_def)
    show ?thesis
    proof (cases added)
      case True
      then have fs: "filter_status f w pod info = Returns s" using step assms(2) by (auto split: if_splits)
      show ?thesis using filter_status_law [OF fs] assms(2) by simp
    next
      case False
      then have "(w1 = w \<or> w1 = f_clone f w) \<and> i1 = info" using r Inr x
        by (auto simp: addNominatedPods_def Let_def dest: add_nominated_none split: option.splits if_splits)
      moreover have "IsSuccess st" using step assms(2) False by (auto split: if_splits)
      ultimately show ?thesis using filter_status_law [OF st] clone_fits [OF assms(3), of info] by auto
    qed
  qed
qed

lemma no_nominated_filters:
  assumes "ni_node info = Some node" and "NominatedPodsForNode (node_Name node) (f_nominator f) = []"
  shows "RunFilterPluginsWithNominatedPods f w pod info = filter_status f w pod info"
  using assms
  by (cases "filter_status f w pod info") (simp_all add: RunFilterPluginsWithNominatedPods_def addNominatedPods_def)

end
