(* ===== verification/Generic_Scheduler.thy ===== *)
theory Generic_Scheduler
  imports Framework_Runtime Cache_Props
begin

text \<open>
  The scheduling algorithm (pkg/scheduler/generic_scheduler.go): take a snapshot, run the filters on
  the nodes in parallel, score those that fit and pick one of the best. The orders of the parallel
  loops and the random draws are arguments; extenders are values of a record, since they are
  remote services. Tracing and metrics are left out.
\<close>

section \<open>State and parameters\<close>

record genericScheduler =
  g_nodeInfoSnapshot :: Snapshot
  g_percentageOfNodesToScore :: int
  g_nextStartNodeIndex :: nat

record Extender =
  ex_IsInterested :: "Pod \<Rightarrow> bool"
  ex_IsIgnorable :: bool
  ex_Filter :: "Pod \<Rightarrow> Node list \<Rightarrow> string + Node list \<times> (string, string) gomap \<times> (string, string) gomap"
  ex_Prioritize :: "Pod \<Rightarrow> Node list \<Rightarrow> string + (string \<times> int) list \<times> int"

record Diagnosis =
  dg_NodeToStatusMap :: NodeToStatusMap
  dg_UnschedulablePlugins :: "string list"

record ScheduleResult =
  sr_SuggestedHost :: string
  sr_EvaluatedNodes :: nat
  sr_FeasibleNodes :: nat

datatype schedule_error = ErrNoNodesAvailable | FitError Pod nat Diagnosis | OtherError string

text \<open>The orders of the parallel loops of one cycle: the nominated node, all nodes, the scores.\<close>

record cycle_order =
  co_nominated :: "nat list"
  co_filter :: "nat list"
  co_score :: score_order

definition NewGenericScheduler :: "Snapshot \<Rightarrow> int \<Rightarrow> genericScheduler" where
  "NewGenericScheduler s percentage =
     \<lparr>g_nodeInfoSnapshot = s, g_percentageOfNodesToScore = percentage, g_nextStartNodeIndex = 0\<rparr>"

section \<open>Choosing a host\<close>

text \<open>\<open>rnd k\<close> is the k-th draw of the random source; \<^verbatim>\<open>rand.Intn(n)\<close> is it modulo n.\<close>

fun select_loop :: "(nat \<Rightarrow> nat) \<Rightarrow> NodeScore list \<Rightarrow> int \<Rightarrow> string \<Rightarrow> nat \<Rightarrow> nat \<Rightarrow> string" where
  "select_loop rnd [] maxScore selected cntOfMaxScore k = selected"
| "select_loop rnd (ns # l) maxScore selected cntOfMaxScore k =
     (if ns_Score ns > maxScore then select_loop rnd l (ns_Score ns) (ns_Name ns) 1 k
      else if ns_Score ns = maxScore
      then select_loop rnd l maxScore (if rnd k mod (cntOfMaxScore + 1) = 0 then ns_Name ns else selected) (cntOfMaxScore + 1) (k + 1)
      else select_loop rnd l maxScore selected cntOfMaxScore k)"

definition selectHost :: "(nat \<Rightarrow> nat) \<Rightarrow> NodeScore list \<Rightarrow> string + string" where
  "selectHost rnd nodeScoreList =
     (case nodeScoreList of [] \<Rightarrow> Inl ''empty priorityList''
      | ns # l \<Rightarrow> Inr (select_loop rnd l (ns_Score ns) (ns_Name ns) 1 0))"

abbreviation minFeasibleNodesToFind :: int where "minFeasibleNodesToFind \<equiv> 100"
abbreviation minFeasibleNodesPercentageToFind :: int where "minFeasibleNodesPercentageToFind \<equiv> 5"

definition numFeasibleNodesToFind :: "genericScheduler \<Rightarrow> int \<Rightarrow> int" where
  "numFeasibleNodesToFind g numAllNodes =
     (if numAllNodes < minFeasibleNodesToFind \<or> g_percentageOfNodesToScore g \<ge> 100 then numAllNodes
      else
        let adaptive = (if g_percentageOfNodesToScore g \<le> 0
              then let a = wrap32 (50 - go_div numAllNodes 125)
                   in if a < minFeasibleNodesPercentageToFind then minFeasibleNodesPercentageToFind else a
              else g_percentageOfNodesToScore g);
            numNodes = go_div (wrap32 (numAllNodes * adaptive)) 100
        in if numNodes < minFeasibleNodesToFind then minFeasibleNodesToFind else numNodes)"

section \<open>Filtering\<close>

record found =
  fd_feasible :: "Node list"
  fd_diagnosis :: Diagnosis
  fd_errCh :: "string option"

text \<open>
  The check of one node. The result says whether the context is cancelled. A snapshot has no
  NodeInfo without a node; one would be dereferenced here or by the caller.
\<close>

definition checkNode :: "'w frameworkImpl \<Rightarrow> 'w \<Rightarrow> Pod \<Rightarrow> NodeInfo list \<Rightarrow> nat \<Rightarrow> int \<Rightarrow> nat \<Rightarrow> found \<Rightarrow> (found \<times> bool) go_run" where
  "checkNode f w pod nodes start numNodesToFind i fd =
     (let nodeInfo = nodes ! ((start + i) mod length nodes) in
      go_bind (RunFilterPluginsWithNominatedPods f w pod nodeInfo) (\<lambda>status.
        if Status_Code status = Error then Returns (fd\<lparr>fd_errCh := send_error (err_text status) (fd_errCh fd)\<rparr>, True)
        else case ni_node nodeInfo of None \<Rightarrow> Panics ''nil pointer dereference''
          | Some node \<Rightarrow>
            Returns (if IsSuccess status
              then (if int (length (fd_feasible fd)) + 1 > numNodesToFind then (fd, True)
                    else (fd\<lparr>fd_feasible := fd_feasible fd @ [node]\<rparr>, False))
              else (fd\<lparr>fd_diagnosis := \<lparr>dg_NodeToStatusMap = gomap_set (dg_NodeToStatusMap (fd_diagnosis fd)) (node_Name node) status,
                       dg_UnschedulablePlugins = List.insert (case status of None \<Rightarrow> [] | Some st \<Rightarrow> st_failedPlugin st)
                         (dg_UnschedulablePlugins (fd_diagnosis fd))\<rparr>\<rparr>, False))))"

definition findNodesThatPassFilters :: "nat list \<Rightarrow> 'w frameworkImpl \<Rightarrow> 'w \<Rightarrow> Pod \<Rightarrow> Diagnosis \<Rightarrow> NodeInfo list \<Rightarrow> genericScheduler
    \<Rightarrow> ((string + Node list) \<times> Diagnosis \<times> genericScheduler) go_run" where
  "findNodesThatPassFilters visits f w pod diagnosis nodes g =
     (let numNodesToFind = numFeasibleNodesToFind g (wrap32 (int (length nodes)));
          start = g_nextStartNodeIndex g
      in if numNodesToFind < 0 then Panics ''makeslice: len out of range''
         else if nodes = [] then Panics ''integer divide by zero''
         else if f_filterPlugins f = [] then
           let picked = map (\<lambda>i. ni_node (nodes ! ((start + i) mod length nodes))) [0..<nat numNodesToFind]
           in if None \<in> set picked then Panics ''nil pointer dereference''
              else Returns (Inr (map the picked), diagnosis,
                     g\<lparr>g_nextStartNodeIndex := (start + nat numNodesToFind) mod length nodes\<rparr>)
         else
           go_bind (go_work (checkNode f w pod nodes start numNodesToFind) visits
                     \<lparr>fd_feasible = [], fd_diagnosis = diagnosis, fd_errCh = None\<rparr>) (\<lambda>(fd, _).
             let processedNodes = length (fd_feasible fd) + length (dg_NodeToStatusMap (fd_diagnosis fd));
                 g' = g\<lparr>g_nextStartNodeIndex := (start + processedNodes) mod length nodes\<rparr>
             in Returns (case fd_errCh fd of Some e \<Rightarrow> Inl e | None \<Rightarrow> Inr (fd_feasible fd), fd_diagnosis fd, g')))"

definition unresolvable_node :: "string \<times> string \<Rightarrow> NodeToStatusMap \<Rightarrow> NodeToStatusMap go_run" where
  "unresolvable_node nm statuses =
     (case nm of (failedNodeName, failedMsg) \<Rightarrow>
      case gomap_get statuses failedNodeName of
        None \<Rightarrow> Returns (gomap_set statuses failedNodeName (Some (NewStatus UnschedulableAndUnresolvable [failedMsg])))
      | Some None \<Rightarrow> Panics ''nil pointer dereference''
      | Some (Some st) \<Rightarrow>
          Returns (gomap_set statuses failedNodeName (Some (NewStatus UnschedulableAndUnresolvable (st_reasons st @ [failedMsg])))))"

definition failed_node :: "(string, string) gomap \<Rightarrow> string \<times> string \<Rightarrow> NodeToStatusMap \<Rightarrow> NodeToStatusMap go_run" where
  "failed_node unresolvable nm statuses =
     (case nm of (failedNodeName, failedMsg) \<Rightarrow>
      if gomap_get unresolvable failedNodeName \<noteq> None then Returns statuses
      else case gomap_get statuses failedNodeName of
        None \<Rightarrow> Returns (gomap_set statuses failedNodeName (Some (NewStatus Unschedulable [failedMsg])))
      | Some None \<Rightarrow> Panics ''nil pointer dereference''
      | Some (Some st) \<Rightarrow> Returns (gomap_set statuses failedNodeName (Some (AppendReason failedMsg st))))"

fun findNodesThatPassExtenders :: "Extender list \<Rightarrow> Pod \<Rightarrow> Node list \<Rightarrow> NodeToStatusMap
    \<Rightarrow> ((string + Node list) \<times> NodeToStatusMap) go_run" where
  "findNodesThatPassExtenders [] pod feasibleNodes statuses = Returns (Inr feasibleNodes, statuses)"
| "findNodesThatPassExtenders (ex # exs) pod feasibleNodes statuses =
     (if feasibleNodes = [] then Returns (Inr feasibleNodes, statuses)
      else if \<not> ex_IsInterested ex pod then findNodesThatPassExtenders exs pod feasibleNodes statuses
      else case ex_Filter ex pod feasibleNodes of
        Inl err \<Rightarrow> if ex_IsIgnorable ex then findNodesThatPassExtenders exs pod feasibleNodes statuses
                   else Returns (Inl err, statuses)
      | Inr (feasibleList, failedMap, failedAndUnresolvableMap) \<Rightarrow>
          go_bind (go_fold unresolvable_node failedAndUnresolvableMap statuses) (\<lambda>st1.
          go_bind (go_fold (failed_node failedAndUnresolvableMap) failedMap st1) (\<lambda>st2.
            findNodesThatPassExtenders exs pod feasibleList st2)))"

section \<open>Nodes that fit the pod\<close>

text \<open>The filters, then the extenders; both callers do this.\<close>

definition pass_filters_extenders :: "nat list \<Rightarrow> Extender list \<Rightarrow> 'w frameworkImpl \<Rightarrow> 'w \<Rightarrow> Pod \<Rightarrow> Diagnosis \<Rightarrow> NodeInfo list \<Rightarrow> genericScheduler
    \<Rightarrow> ((string + Node list) \<times> Diagnosis \<times> genericScheduler) go_run" where
  "pass_filters_extenders visits extenders f w pod diagnosis nodes g =
     go_bind (findNodesThatPassFilters visits f w pod diagnosis nodes g) (\<lambda>(r, d1, g1).
       case r of Inl err \<Rightarrow> Returns (Inl err, d1, g1)
       | Inr feasibleNodes \<Rightarrow>
         go_bind (findNodesThatPassExtenders extenders pod feasibleNodes (dg_NodeToStatusMap d1)) (\<lambda>(r2, statuses).
           Returns (r2, d1\<lparr>dg_NodeToStatusMap := statuses\<rparr>, g1)))"

definition evaluateNominatedNode :: "nat list \<Rightarrow> Extender list \<Rightarrow> Pod \<Rightarrow> 'w frameworkImpl \<Rightarrow> 'w \<Rightarrow> Diagnosis \<Rightarrow> genericScheduler
    \<Rightarrow> ((string + Node list) \<times> Diagnosis \<times> genericScheduler) go_run" where
  "evaluateNominatedNode visits extenders pod f w diagnosis g =
     (case Snapshot_Get (g_nodeInfoSnapshot g) (pod_NominatedNodeName pod) of
        Inl err \<Rightarrow> Returns (Inl err, diagnosis, g)
      | Inr nodeInfo \<Rightarrow> pass_filters_extenders visits extenders f w pod diagnosis [nodeInfo] g)"

definition same_status :: "Status option \<Rightarrow> NodeInfo \<Rightarrow> NodeToStatusMap \<Rightarrow> NodeToStatusMap go_run" where
  "same_status s n m =
     (case ni_node n of None \<Rightarrow> Panics ''nil pointer dereference'' | Some node \<Rightarrow> Returns (gomap_set m (node_Name node) s))"

text \<open>
  \<open>preferNominated\<close> is the feature gate \<^verbatim>\<open>PreferNominatedNode\<close>. An error while
  evaluating the nominated node is logged only.
\<close>

definition findNodesThatFitPod :: "bool \<Rightarrow> cycle_order \<Rightarrow> Extender list \<Rightarrow> 'w frameworkImpl \<Rightarrow> 'w \<Rightarrow> Pod \<Rightarrow> genericScheduler
    \<Rightarrow> ((string + Node list) \<times> Diagnosis \<times> genericScheduler \<times> 'w) go_run" where
  "findNodesThatFitPod preferNominated ord extenders f w pod g =
     (let d0 = \<lparr>dg_NodeToStatusMap = [], dg_UnschedulablePlugins = []\<rparr>;
          allNodes = fst (Snapshot_List (g_nodeInfoSnapshot g))
      in go_bind (RunPreFilterPlugins (f_preFilterPlugins f) w pod) (\<lambda>(s, w1).
           if \<not> IsSuccess s then
             if \<not> IsUnschedulable s then Returns (Inl (err_text s), d0, g, w1)
             else go_bind (go_fold (same_status s) allNodes []) (\<lambda>m.
                    Returns (Inr [], \<lparr>dg_NodeToStatusMap = m,
                      dg_UnschedulablePlugins = [case s of None \<Rightarrow> [] | Some st \<Rightarrow> st_failedPlugin st]\<rparr>, g, w1))
           else
             go_bind (if pod_NominatedNodeName pod \<noteq> [] \<and> preferNominated
                      then evaluateNominatedNode (co_nominated ord) extenders pod f w1 d0 g else Returns (Inr [], d0, g)) (\<lambda>(r0, d1, g1).
               case r0 of Inr (n # ns) \<Rightarrow> Returns (Inr (n # ns), d1, g1, w1)
               | _ \<Rightarrow> go_bind (pass_filters_extenders (co_filter ord) extenders f w1 pod d1 allNodes g1) (\<lambda>(r, d2, g2).
                   Returns (r, d2, g2, w1)))))"

section \<open>Scoring\<close>

definition total_score :: "scores \<Rightarrow> nat \<Rightarrow> int go_run" where
  "total_score scoresMap i =
     go_fold (\<lambda>(_, l) acc. if i < length l then Returns (wrap64 (acc + ns_Score (l ! i))) else Panics ''index out of range'') scoresMap 0"

definition total_scores :: "scores \<Rightarrow> Node list \<Rightarrow> NodeScore list go_run" where
  "total_scores scoresMap nodes =
     go_fold (\<lambda>i result. go_bind (total_score scoresMap i) (\<lambda>sc. Returns (result @ [\<lparr>ns_Name = node_Name (nodes ! i), ns_Score = sc\<rparr>])))
       [0..<length nodes] []"

text \<open>
  The extenders run at the same time and add up under a lock; sums that wrap do not depend on the
  order, so they are added in the order of the list.
\<close>

definition extender_scores :: "Pod \<Rightarrow> Node list \<Rightarrow> Extender \<Rightarrow> (string, int) gomap \<Rightarrow> (string, int) gomap" where
  "extender_scores pod nodes ex combinedScores =
     (if \<not> ex_IsInterested ex pod then combinedScores
      else case ex_Prioritize ex pod nodes of Inl _ \<Rightarrow> combinedScores
        | Inr (prioritizedList, wt) \<Rightarrow>
            fold (\<lambda>(host, score) m. gomap_set m host (wrap64 (get_or 0 m host + wrap64 (score * wt)))) prioritizedList combinedScores)"

abbreviation MaxExtenderPriority :: int where "MaxExtenderPriority \<equiv> 10"

definition scale_extenders :: "(string, int) gomap \<Rightarrow> NodeScore \<Rightarrow> NodeScore" where
  "scale_extenders combinedScores ns =
     ns\<lparr>ns_Score := wrap64 (ns_Score ns + wrap64 (get_or 0 combinedScores (ns_Name ns) * (MaxNodeScore div MaxExtenderPriority)))\<rparr>"

definition prioritizeNodes :: "score_order \<Rightarrow> Extender list \<Rightarrow> 'w frameworkImpl \<Rightarrow> 'w \<Rightarrow> Pod \<Rightarrow> Node list
    \<Rightarrow> ((string + NodeScore list) \<times> 'w) go_run" where
  "prioritizeNodes ord extenders f w pod nodes =
     (if extenders = [] \<and> f_scorePlugins f = [] then Returns (Inr (map (\<lambda>n. \<lparr>ns_Name = node_Name n, ns_Score = 1\<rparr>) nodes), w)
      else
        go_bind (RunPreScorePlugins (f_preScorePlugins f) w pod nodes) (\<lambda>(s, w1).
          if \<not> IsSuccess s then Returns (Inl (err_text s), w1)
          else
            go_bind (RunScorePlugins ord f w1 pod nodes) (\<lambda>r.
              case r of Inl st \<Rightarrow> Returns (Inl (err_text (Some st)), w1)
              | Inr scoresMap \<Rightarrow>
                go_bind (total_scores scoresMap nodes) (\<lambda>result.
                  Returns (Inr (if extenders \<noteq> [] \<and> nodes \<noteq> []
                    then map (scale_extenders (fold (extender_scores pod nodes) extenders [])) result else result), w1)))))"

section \<open>One cycle\<close>

definition Schedule :: "(nat \<Rightarrow> nat) \<Rightarrow> bool \<Rightarrow> cycle_order \<Rightarrow> schedulerCache \<Rightarrow> Extender list \<Rightarrow> 'w frameworkImpl \<Rightarrow> 'w \<Rightarrow> Pod \<Rightarrow> genericScheduler
    \<Rightarrow> ((schedule_error + ScheduleResult) \<times> genericScheduler \<times> 'w) go_run option" where
  "Schedule rnd preferNominated ord cache extenders f w pod g =
     loop_bind (UpdateSnapshot cache (g_nodeInfoSnapshot g)) (\<lambda>(err, s).
       let g0 = g\<lparr>g_nodeInfoSnapshot := s\<rparr> in
       case err of Some e \<Rightarrow> Some (Returns (Inl (OtherError e), g0, w))
       | None \<Rightarrow>
         if NumNodes s = 0 then Some (Returns (Inl ErrNoNodesAvailable, g0, w))
         else Some (go_bind (findNodesThatFitPod preferNominated ord extenders f w pod g0) (\<lambda>(r, diagnosis, g1, w1).
           case r of Inl e \<Rightarrow> Returns (Inl (OtherError e), g1, w1)
           | Inr [] \<Rightarrow> Returns (Inl (FitError pod (NumNodes s) diagnosis), g1, w1)
           | Inr [n] \<Rightarrow> Returns (Inr \<lparr>sr_SuggestedHost = node_Name n,
               sr_EvaluatedNodes = 1 + length (dg_NodeToStatusMap diagnosis), sr_FeasibleNodes = 1\<rparr>, g1, w1)
           | Inr feasibleNodes \<Rightarrow>
             go_bind (prioritizeNodes (co_score ord) extenders f w1 pod feasibleNodes) (\<lambda>(r2, w2).
               case r2 of Inl e \<Rightarrow> Returns (Inl (OtherError e), g1, w2)
               | Inr priorityList \<Rightarrow>
                 (case selectHost rnd priorityList of Inl e \<Rightarrow> Returns (Inl (OtherError e), g1, w2)
                  | Inr host \<Rightarrow> Returns (Inr \<lparr>sr_SuggestedHost = host,
                      sr_EvaluatedNodes = length feasibleNodes + length (dg_NodeToStatusMap diagnosis),
                      sr_FeasibleNodes = length feasibleNodes\<rparr>, g1, w2))))))"

section \<open>The number of nodes to find\<close>

lemma numFeasibleNodesToFind_bounds:
  assumes "0 \<le> n" and "n < 2147483648"
  shows "min n 100 \<le> numFeasibleNodesToFind g n \<and> numFeasibleNodesToFind g n \<le> n"
proof -
  have n64: "in_int64 n" using assms by (simp add: in_int64_def)
  have dd: "go_div n 125 = n div 125" using assms n64 by (simp add: go_int sdiv_pos)
  have w: "go_div (wrap32 (n * p)) 100 \<le> n" if "0 < p" and "p < 100" for p
  proof (cases "n * p < 2147483648")
    case True
    have "0 \<le> n * p" using assms that by simp
    then have "go_div (wrap32 (n * p)) 100 = n * p div 100"
      using True by (simp add: wrap32_id in_int32_def go_int in_int64_def sdiv_pos)
    also have "\<dots> \<le> n * 100 div 100" using that assms by (intro zdiv_mono1 mult_left_mono) auto
    finally show ?thesis by simp
  next
    case False
    have "n * p \<le> n * 99" using that assms by (intro mult_left_mono) auto
    then have big: "21474836 \<le> n" using False by linarith
    have r: "- 2147483648 \<le> wrap32 (n * p)" "wrap32 (n * p) < 2147483648"
      by (simp_all add: wrap32_def)
    then have "go_div (wrap32 (n * p)) 100 = wrap32 (n * p) sdiv 100" by (simp add: go_int in_int64_def)
    also have "\<dots> \<le> 21474836"
    proof (cases "0 \<le> wrap32 (n * p)")
      case True
      then show ?thesis using r by (simp add: sdiv_pos)
    next
      case False
      then show ?thesis by (simp add: signed_divide_int_def)
    qed
    finally show ?thesis using big by linarith
  qed
  have a: "wrap32 (50 - n div 125) = 50 - n div 125" "50 - n div 125 < 100" using assms by (auto simp: wrap32_def)
  show ?thesis
    using assms w [of 5] w [of "50 - n div 125"] w [of "g_percentageOfNodesToScore g"] a(2)
    by (auto simp: numFeasibleNodesToFind_def Let_def dd a(1))
qed

section \<open>Filtering is sound and complete\<close>

lemma go_fold_prefix:
  assumes "go_fold f xs s = Returns s'" and "P [] s"
    and "\<And>ys x s s'. set ys \<union> {x} \<subseteq> set xs \<Longrightarrow> P ys s \<Longrightarrow> f x s = Returns s' \<Longrightarrow> P (ys @ [x]) s'"
  shows "P xs s'"
  using assms
proof (induction xs arbitrary: s' rule: rev_induct)
  case (snoc x xs)
  obtain s1 where s1: "go_fold f xs s = Returns s1" "f x s1 = Returns s'"
    using snoc.prems(1) by (auto simp: go_fold_append go_bind_Returns_iff)
  have "P xs s1" by (rule snoc.IH [OF s1(1) snoc.prems(2)], rule snoc.prems(3)) auto
  then show ?case using snoc.prems(3) [of xs x s1 s'] s1(2) by simp
qed simp

text \<open>The status of the filters on a node, on a run that does not panic.\<close>

definition verdict :: "'w frameworkImpl \<Rightarrow> 'w \<Rightarrow> Pod \<Rightarrow> NodeInfo \<Rightarrow> Status option \<Rightarrow> bool" where
  "verdict f w pod info s \<longleftrightarrow> RunFilterPluginsWithNominatedPods f w pod info = Returns s"

abbreviation nth_node :: "NodeInfo list \<Rightarrow> nat \<Rightarrow> nat \<Rightarrow> NodeInfo" where
  "nth_node nodes start i \<equiv> nodes ! ((start + i) mod length nodes)"

text \<open>What the loop has done after it has visited some of the pieces.\<close>

definition found_inv :: "'w frameworkImpl \<Rightarrow> 'w \<Rightarrow> Pod \<Rightarrow> NodeInfo list \<Rightarrow> nat \<Rightarrow> int \<Rightarrow> nat list \<Rightarrow> found \<times> bool \<Rightarrow> bool" where
  "found_inv f w pod nodes start k is fc \<longleftrightarrow>
     (\<forall>n\<in>set (fd_feasible (fst fc)). \<exists>i\<in>set is. \<exists>s. ni_node (nth_node nodes start i) = Some n
        \<and> verdict f w pod (nth_node nodes start i) s \<and> IsSuccess s)
     \<and> (fd_errCh (fst fc) = None \<longrightarrow>
          (snd fc \<longrightarrow> k \<le> int (length (fd_feasible (fst fc))))
          \<and> (fd_feasible (fst fc) = [] \<longrightarrow> 0 < k \<longrightarrow>
               (\<forall>i\<in>set is. \<exists>s. verdict f w pod (nth_node nodes start i) s \<and> \<not> IsSuccess s)))"

lemma found_inv_step:
  assumes inv: "found_inv f w pod nodes start k is (fd, c)" and run: "checkNode f w pod nodes start k i fd = Returns (fd', c')"
  shows "found_inv f w pod nodes start k (is @ [i]) (fd', c \<or> c')"
proof -
  let ?info = "nth_node nodes start i"
  obtain s where s: "verdict f w pod ?info s"
    and r: "(if Status_Code s = Error then Returns (fd\<lparr>fd_errCh := send_error (err_text s) (fd_errCh fd)\<rparr>, True)
        else case ni_node ?info of None \<Rightarrow> Panics ''nil pointer dereference''
          | Some node \<Rightarrow>
            Returns (if IsSuccess s
              then (if int (length (fd_feasible fd)) + 1 > k then (fd, True)
                    else (fd\<lparr>fd_feasible := fd_feasible fd @ [node]\<rparr>, False))
              else (fd\<lparr>fd_diagnosis := \<lparr>dg_NodeToStatusMap = gomap_set (dg_NodeToStatusMap (fd_diagnosis fd)) (node_Name node) s,
                       dg_UnschedulablePlugins = List.insert (case s of None \<Rightarrow> [] | Some st \<Rightarrow> st_failedPlugin st)
                         (dg_UnschedulablePlugins (fd_diagnosis fd))\<rparr>\<rparr>, False))) = Returns (fd', c')"
    using run by (auto simp: checkNode_def Let_def go_bind_Returns_iff verdict_def)
  show ?thesis
  proof (cases "Status_Code s = Error")
    case True
    then have "fd_errCh fd' \<noteq> None" "fd_feasible fd' = fd_feasible fd"
      using r by (auto simp: send_error_def split: option.splits)
    then show ?thesis using inv by (fastforce simp: found_inv_def)
  next
    case False
    then obtain node where node: "ni_node ?info = Some node" using r by (auto split: option.splits)
    show ?thesis
    proof (cases "IsSuccess s")
      case True
      then show ?thesis using r node False inv s by (fastforce simp: found_inv_def split: if_splits)
    next
      case bad: False
      then have "fd_feasible fd' = fd_feasible fd" "fd_errCh fd' = fd_errCh fd" "c' = False" using r node False by auto
      then show ?thesis using inv s bad by (fastforce simp: found_inv_def)
    qed
  qed
qed

lemma filter_loop_inv:
  assumes "go_work (checkNode f w pod nodes start k) visits \<lparr>fd_feasible = [], fd_diagnosis = d, fd_errCh = None\<rparr> = Returns fc"
  shows "found_inv f w pod nodes start k visits fc"
proof (rule go_fold_prefix [OF assms [unfolded go_work_def]])
  show "found_inv f w pod nodes start k [] (\<lparr>fd_feasible = [], fd_diagnosis = d, fd_errCh = None\<rparr>, False)"
    by (simp add: found_inv_def)
next
  fix ys x sc sc'
  assume inv: "found_inv f w pod nodes start k ys sc"
    and run: "(case sc of (s, c) \<Rightarrow> go_bind (checkNode f w pod nodes start k x s) (\<lambda>(s', c'). Returns (s', c \<or> c'))) = Returns sc'"
  obtain fd c where sc: "sc = (fd, c)" by (cases sc)
  obtain fd' c' where "checkNode f w pod nodes start k x fd = Returns (fd', c')" "sc' = (fd', c \<or> c')"
    using run sc by (auto simp: go_bind_Returns_iff)
  then show "found_inv f w pod nodes start k (ys @ [x]) sc'" using found_inv_step [OF inv [unfolded sc]] by simp
qed

text \<open>The order that the parallelizer gives to the loop over the nodes: see \<^const>\<open>until_ok\<close>.\<close>

definition filter_order :: "'w frameworkImpl \<Rightarrow> 'w \<Rightarrow> Pod \<Rightarrow> Diagnosis \<Rightarrow> NodeInfo list \<Rightarrow> genericScheduler \<Rightarrow> nat list \<Rightarrow> bool" where
  "filter_order f w pod d nodes g =
     until_ok (length nodes) (\<lambda>is. \<exists>fd. go_work (checkNode f w pod nodes (g_nextStartNodeIndex g)
         (numFeasibleNodesToFind g (wrap32 (int (length nodes))))) is \<lparr>fd_feasible = [], fd_diagnosis = d, fd_errCh = None\<rparr> = Returns (fd, True))"

lemma findNodesThatPassFilters_verdict:
  assumes run: "findNodesThatPassFilters visits f w pod d nodes g = Returns (Inr ns, d', g')" and filt: "f_filterPlugins f \<noteq> []"
  shows "\<forall>n\<in>set ns. \<exists>info\<in>set nodes. ni_node info = Some n \<and> (\<exists>st. verdict f w pod info st \<and> IsSuccess st)"
proof
  fix n assume n: "n \<in> set ns"
  define k where "k = numFeasibleNodesToFind g (wrap32 (int (length nodes)))"
  have ne: "nodes \<noteq> []" using run by (auto simp: findNodesThatPassFilters_def Let_def split: if_splits)
  obtain fd c where w: "go_work (checkNode f w pod nodes (g_nextStartNodeIndex g) k) visits
      \<lparr>fd_feasible = [], fd_diagnosis = d, fd_errCh = None\<rparr> = Returns (fd, c)" and ns: "ns = fd_feasible fd"
    using run filt by (auto simp: findNodesThatPassFilters_def Let_def go_bind_Returns_iff k_def split: if_splits option.splits)
  obtain i s where i: "ni_node (nth_node nodes (g_nextStartNodeIndex g) i) = Some n"
    and v: "verdict f w pod (nth_node nodes (g_nextStartNodeIndex g) i) s" "IsSuccess s"
    using filter_loop_inv [OF w] n ns by (auto simp: found_inv_def)
  have "nth_node nodes (g_nextStartNodeIndex g) i \<in> set nodes" using ne by simp
  then show "\<exists>info\<in>set nodes. ni_node info = Some n \<and> (\<exists>st. verdict f w pod info st \<and> IsSuccess st)" using i v by blast
qed

lemma findNodesThatPassFilters_sound:
  assumes run: "findNodesThatPassFilters visits f w pod d nodes g = Returns (Inr ns, d', g')" and clone: "clone_ok f w pod"
  shows "\<forall>n\<in>set ns. \<exists>info\<in>set nodes. ni_node info = Some n \<and> fits (f_filterPlugins f) w pod info"
proof (cases "f_filterPlugins f = []")
  case True
  have ne: "nodes \<noteq> []" using run by (auto simp: findNodesThatPassFilters_def Let_def split: if_splits)
  define picked where "picked = map (\<lambda>i. ni_node (nth_node nodes (g_nextStartNodeIndex g) i))
    [0..<nat (numFeasibleNodesToFind g (wrap32 (int (length nodes))))]"
  have ns: "None \<notin> set picked" "ns = map the picked"
    using run True by (auto simp: findNodesThatPassFilters_def Let_def picked_def split: if_splits)
  show ?thesis
  proof
    fix n assume "n \<in> set ns"
    then obtain x where "x \<in> set picked" "n = the x" using ns(2) by auto
    then have "Some n \<in> set picked" using ns(1) by (metis option.collapse)
    then obtain i where "ni_node (nth_node nodes (g_nextStartNodeIndex g) i) = Some n" by (auto simp: picked_def)
    moreover have "nth_node nodes (g_nextStartNodeIndex g) i \<in> set nodes" using ne by simp
    ultimately show "\<exists>info\<in>set nodes. ni_node info = Some n \<and> fits (f_filterPlugins f) w pod info"
      using True by (auto simp: fits_def)
  qed
next
  case False
  show ?thesis
  proof
    fix n assume "n \<in> set ns"
    then obtain info st where info: "info \<in> set nodes" "ni_node info = Some n" "verdict f w pod info st" "IsSuccess st"
      using bspec [OF findNodesThatPassFilters_verdict [OF run False]] by blast
    then show "\<exists>info\<in>set nodes. ni_node info = Some n \<and> fits (f_filterPlugins f) w pod info"
      using nominated_filters_sound [OF info(3) [unfolded verdict_def] info(4) clone] by blast
  qed
qed

lemma findNodesThatPassFilters_snapshot:
  assumes "findNodesThatPassFilters visits f w pod d nodes g = Returns (r, d', g')"
  shows "g_nodeInfoSnapshot g' = g_nodeInfoSnapshot g"
  using assms by (auto simp: findNodesThatPassFilters_def Let_def go_bind_Returns_iff split: if_splits)

lemma findNodesThatPassFilters_complete:
  assumes run: "findNodesThatPassFilters visits f w pod d nodes g = Returns (Inr [], d', g')"
    and order: "filter_order f w pod d nodes g visits" and few: "length nodes < 2147483648"
  shows "\<forall>info\<in>set nodes. \<exists>s. verdict f w pod info s \<and> \<not> IsSuccess s"
proof -
  define k where "k = numFeasibleNodesToFind g (wrap32 (int (length nodes)))"
  let ?n = "length nodes" and ?start = "g_nextStartNodeIndex g"
  have ne: "nodes \<noteq> []" using run by (auto simp: findNodesThatPassFilters_def Let_def split: if_splits)
  then have "1 \<le> int ?n" by (cases nodes) auto
  then have k: "0 < k" using numFeasibleNodesToFind_bounds [of "int ?n" g] few by (auto simp: k_def wrap32_id in_int32_def min_def split: if_splits)
  then have filt: "f_filterPlugins f \<noteq> []"
    using run by (auto simp: findNodesThatPassFilters_def Let_def k_def split: if_splits)
  obtain fd c where w: "go_work (checkNode f w pod nodes ?start k) visits
      \<lparr>fd_feasible = [], fd_diagnosis = d, fd_errCh = None\<rparr> = Returns (fd, c)" and fd: "fd_feasible fd = []" "fd_errCh fd = None"
    using run filt by (auto simp: findNodesThatPassFilters_def Let_def go_bind_Returns_iff k_def split: if_splits option.splits)
  note inv = filter_loop_inv [OF w, unfolded found_inv_def]
  have "\<not> c" using inv fd k by auto
  then have all: "set visits = {..<?n}" using order w by (auto simp: filter_order_def until_ok_def k_def)
  have bad: "\<forall>i\<in>{..<?n}. \<exists>s. verdict f w pod (nth_node nodes ?start i) s \<and> \<not> IsSuccess s" using inv fd k all by simp
  show ?thesis
  proof
    fix info assume "info \<in> set nodes"
    then obtain j where j: "j < ?n" "info = nodes ! j" by (auto simp: in_set_conv_nth)
    define i where "i = (j + (?n - ?start mod ?n)) mod ?n"
    have "(?start + i) mod ?n = (?start mod ?n + (j + (?n - ?start mod ?n))) mod ?n" by (simp add: i_def mod_simps)
    also have "?start mod ?n + (j + (?n - ?start mod ?n)) = j + ?n" using j(1) mod_less_divisor [of ?n ?start] by linarith
    finally have "nth_node nodes ?start i = info" using j by simp
    moreover have "i \<in> {..<?n}" using ne by (simp add: i_def)
    ultimately show "\<exists>s. verdict f w pod info s \<and> \<not> IsSuccess s" using bad by metis
  qed
qed

text \<open>A node on which the filters end without an error.\<close>

definition judged :: "'w frameworkImpl \<Rightarrow> 'w \<Rightarrow> Pod \<Rightarrow> NodeInfo \<Rightarrow> bool" where
  "judged f w pod info \<longleftrightarrow> ni_node info \<noteq> None \<and> (\<exists>st. verdict f w pod info st \<and> Status_Code st \<noteq> Error)"

lemma filter_loop_returns:
  assumes "\<And>i. judged f w pod (nth_node nodes start i)"
  shows "\<exists>fd c. go_work (checkNode f w pod nodes start k) visits fd0 = Returns (fd, c) \<and> fd_errCh fd = fd_errCh fd0"
proof -
  have one: "\<exists>fd' c. checkNode f w pod nodes start k i fd = Returns (fd', c) \<and> fd_errCh fd' = fd_errCh fd" for i fd
    using assms [of i] by (auto simp: judged_def checkNode_def Let_def verdict_def)
  have "\<exists>fd c. go_fold (\<lambda>i (s, c). go_bind (checkNode f w pod nodes start k i s) (\<lambda>(s', c'). Returns (s', c \<or> c'))) visits (fd0, c0)
      = Returns (fd, c) \<and> fd_errCh fd = fd_errCh fd0" for c0
  proof (induction visits arbitrary: fd0 c0)
    case (Cons i visits)
    obtain fd' c' where "checkNode f w pod nodes start k i fd0 = Returns (fd', c')" "fd_errCh fd' = fd_errCh fd0" using one by blast
    then show ?case using Cons [of fd' "c0 \<or> c'"] by auto
  qed simp
  then show ?thesis by (simp add: go_work_def)
qed

lemma findNodesThatPassFilters_returns:
  assumes "nodes \<noteq> []" and "length nodes < 2147483648" and "f_filterPlugins f \<noteq> []" and "\<forall>info\<in>set nodes. judged f w pod info"
  shows "\<exists>ns d' g'. findNodesThatPassFilters visits f w pod d nodes g = Returns (Inr ns, d', g')"
proof -
  define k where "k = numFeasibleNodesToFind g (wrap32 (int (length nodes)))"
  have k: "0 \<le> k" using numFeasibleNodesToFind_bounds [of "int (length nodes)" g] assms(2) by (auto simp: k_def wrap32_id in_int32_def)
  have all: "judged f w pod (nth_node nodes start i)" for start i using assms(1,4) by simp
  obtain fd c where "go_work (checkNode f w pod nodes (g_nextStartNodeIndex g) k) visits
      \<lparr>fd_feasible = [], fd_diagnosis = d, fd_errCh = None\<rparr> = Returns (fd, c)" "fd_errCh fd = None"
    using filter_loop_returns [OF all, of "g_nextStartNodeIndex g" k visits "\<lparr>fd_feasible = [], fd_diagnosis = d, fd_errCh = None\<rparr>"] by auto
  then show ?thesis using assms(1,3) k by (simp add: findNodesThatPassFilters_def Let_def k_def)
qed

text \<open>
  Whatever the interleaving of the workers, the parallelizer visits the nodes in such an order.
\<close>

definition check_total :: "'w frameworkImpl \<Rightarrow> 'w \<Rightarrow> Pod \<Rightarrow> NodeInfo list \<Rightarrow> nat \<Rightarrow> int \<Rightarrow> nat \<Rightarrow> found \<Rightarrow> found \<times> bool" where
  "check_total f w pod nodes start k i fd = (case checkNode f w pod nodes start k i fd of Returns x \<Rightarrow> x | Panics _ \<Rightarrow> (fd, False))"

lemma go_work_total:
  assumes "\<And>i s. body i s = Returns (b i s)"
  shows "go_work body is s = Returns (work b is s)"
  by (induction "is" rule: rev_induct) (auto simp: go_work_def work_snoc go_fold_append assms split: prod.splits)

lemma parallelizer_filter_order:
  assumes par: "0 < parallelism" and ne: "nodes \<noteq> []" and all: "\<forall>info\<in>set nodes. judged f w pod info"
    and run: "pool_run (length nodes) (chunkSizeFor (length nodes) parallelism)
      (check_total f w pod nodes (g_nextStartNodeIndex g) (numFeasibleNodesToFind g (wrap32 (int (length nodes)))))
      (Until_start parallelism (length nodes) \<lparr>fd_feasible = [], fd_diagnosis = d, fd_errCh = None\<rparr>) p"
    and fin: "finished p"
  shows "filter_order f w pod d nodes g (po_visits p)"
proof -
  let ?n = "length nodes" and ?k = "chunkSizeFor (length nodes) parallelism" and ?s = "\<lparr>fd_feasible = [], fd_diagnosis = d, fd_errCh = None\<rparr>"
  let ?b = "check_total f w pod nodes (g_nextStartNodeIndex g) (numFeasibleNodesToFind g (wrap32 (int (length nodes))))"
  have tot: "checkNode f w pod nodes start k i fd = Returns (check_total f w pod nodes start k i fd)" for start k i fd
  proof -
    have "judged f w pod (nth_node nodes start i)" using all ne by simp
    then show ?thesis by (auto simp: judged_def check_total_def checkNode_def Let_def verdict_def)
  qed
  note inv = run_inv [OF run [unfolded Until_start_def] start_inv [OF chunkSize_pos]]
  have "po_workers p \<noteq> []" using run_workers [OF run] start_workers [OF par _ chunkSize_pos, of ?n ?n parallelism ?s] ne
    by (auto simp: Until_start_def)
  then have "until_ok ?n (\<lambda>is. snd (work ?b is ?s)) (po_visits p)" using finished_result(1) [OF inv fin] by blast
  then show ?thesis by (auto simp: filter_order_def until_ok_def go_work_total [OF tot] prod_eq_iff)
qed

section \<open>The whole cycle\<close>

text \<open>Without extenders every node that is returned has passed the filters.\<close>

lemma pass_no_extenders:
  "pass_filters_extenders visits [] f w pod d nodes g = findNodesThatPassFilters visits f w pod d nodes g"
  unfolding pass_filters_extenders_def
  by (cases "findNodesThatPassFilters visits f w pod d nodes g") (auto split: sum.split prod.split)

lemma findNodesThatFitPod_cases:
  assumes run: "findNodesThatFitPod preferNominated ord [] f w pod g = Returns (Inr ns, d, g', w')"
  shows "\<exists>s. RunPreFilterPlugins (f_preFilterPlugins f) w pod = Returns (s, w') \<and>
    (if IsSuccess s then
       (\<exists>info. Snapshot_Get (g_nodeInfoSnapshot g) (pod_NominatedNodeName pod) = Inr info \<and>
          findNodesThatPassFilters (co_nominated ord) f w' pod \<lparr>dg_NodeToStatusMap = [], dg_UnschedulablePlugins = []\<rparr> [info] g = Returns (Inr ns, d, g'))
       \<or> (\<exists>d1 g1. g_nodeInfoSnapshot g1 = g_nodeInfoSnapshot g \<and> (pod_NominatedNodeName pod = [] \<longrightarrow> d1 = \<lparr>dg_NodeToStatusMap = [], dg_UnschedulablePlugins = []\<rparr> \<and> g1 = g) \<and>
            findNodesThatPassFilters (co_filter ord) f w' pod d1 (fst (Snapshot_List (g_nodeInfoSnapshot g))) g1 = Returns (Inr ns, d, g'))
     else ns = [])"
proof -
  define d0 where "d0 = \<lparr>dg_NodeToStatusMap = [], dg_UnschedulablePlugins = []\<rparr>"
  obtain s w1 where pre: "RunPreFilterPlugins (f_preFilterPlugins f) w pod = Returns (s, w1)"
    using run by (auto simp: findNodesThatFitPod_def Let_def go_bind_Returns_iff)
  show ?thesis
  proof (cases "IsSuccess s")
    case False
    then show ?thesis using run pre by (auto simp: findNodesThatFitPod_def Let_def go_bind_Returns_iff split: if_splits)
  next
    case True
    obtain r0 d1 g1 where nom: "(if pod_NominatedNodeName pod \<noteq> [] \<and> preferNominated
        then evaluateNominatedNode (co_nominated ord) [] pod f w1 d0 g else Returns (Inr [], d0, g)) = Returns (r0, d1, g1)"
      and rest: "(case r0 of Inr (n # ns) \<Rightarrow> Returns (Inr (n # ns), d1, g1, w1)
         | _ \<Rightarrow> go_bind (findNodesThatPassFilters (co_filter ord) f w1 pod d1 (fst (Snapshot_List (g_nodeInfoSnapshot g))) g1) (\<lambda>(r, d2, g2).
                   Returns (r, d2, g2, w1))) = Returns (Inr ns, d, g', w')"
      using run pre True unfolding findNodesThatFitPod_def Let_def d0_def [symmetric] pass_no_extenders
      by (auto simp: go_bind_Returns_iff)
    show ?thesis
    proof (cases "\<exists>n l. r0 = Inr (n # l)")
      case hit: True
      then have r0: "r0 = Inr ns" "d1 = d" "g1 = g'" "w1 = w'" using rest by auto
      then have "evaluateNominatedNode (co_nominated ord) [] pod f w1 d0 g = Returns (Inr ns, d, g')"
        using nom hit by (auto split: if_splits)
      then show ?thesis using pre True r0 unfolding d0_def [symmetric]
        by (auto simp: evaluateNominatedNode_def pass_no_extenders split: sum.splits)
    next
      case False
      then have "findNodesThatPassFilters (co_filter ord) f w1 pod d1 (fst (Snapshot_List (g_nodeInfoSnapshot g))) g1 = Returns (Inr ns, d, g')
          \<and> w1 = w'"
        using rest by (auto simp: go_bind_Returns_iff split: sum.splits list.splits)
      moreover have "g_nodeInfoSnapshot g1 = g_nodeInfoSnapshot g \<and> (pod_NominatedNodeName pod = [] \<longrightarrow> d1 = d0 \<and> g1 = g)"
        using nom by (auto simp: evaluateNominatedNode_def pass_no_extenders findNodesThatPassFilters_snapshot split: if_splits sum.splits)
      ultimately show ?thesis using pre True unfolding d0_def [symmetric] by auto
    qed
  qed
qed

lemma findNodesThatFitPod_snapshot:
  assumes run: "findNodesThatFitPod preferNominated ord [] f w pod g = Returns (Inr ns, d, g', w')" and ne: "ns \<noteq> []"
  shows "g_nodeInfoSnapshot g' = g_nodeInfoSnapshot g"
proof -
  obtain s where split: "if IsSuccess s then
       (\<exists>info. Snapshot_Get (g_nodeInfoSnapshot g) (pod_NominatedNodeName pod) = Inr info \<and>
          findNodesThatPassFilters (co_nominated ord) f w' pod \<lparr>dg_NodeToStatusMap = [], dg_UnschedulablePlugins = []\<rparr> [info] g = Returns (Inr ns, d, g'))
       \<or> (\<exists>d1 g1. g_nodeInfoSnapshot g1 = g_nodeInfoSnapshot g \<and> (pod_NominatedNodeName pod = [] \<longrightarrow> d1 = \<lparr>dg_NodeToStatusMap = [], dg_UnschedulablePlugins = []\<rparr> \<and> g1 = g) \<and>
            findNodesThatPassFilters (co_filter ord) f w' pod d1 (fst (Snapshot_List (g_nodeInfoSnapshot g))) g1 = Returns (Inr ns, d, g'))
     else ns = []"
    using findNodesThatFitPod_cases [OF run] by blast
  have s: "IsSuccess s" using split ne by (simp split: if_splits)
  from split [unfolded if_P [OF s]] show ?thesis
    by (elim disjE exE conjE) (auto dest: findNodesThatPassFilters_snapshot)
qed

lemma findNodesThatFitPod_sound:
  assumes run: "findNodesThatFitPod preferNominated ord [] f w pod g = Returns (Inr ns, d, g', w')" and clone: "\<And>s w'. RunPreFilterPlugins (f_preFilterPlugins f) w pod = Returns (s, w') \<Longrightarrow> clone_ok f w' pod"
    and ne: "ns \<noteq> []"
  shows "\<exists>s. RunPreFilterPlugins (f_preFilterPlugins f) w pod = Returns (s, w') \<and> IsSuccess s"
    and "\<forall>n\<in>set ns. \<exists>info. ni_node info = Some n \<and> fits (f_filterPlugins f) w' pod info
       \<and> (info \<in> set (fst (Snapshot_List (g_nodeInfoSnapshot g))) \<or> (\<exists>nm. Snapshot_Get (g_nodeInfoSnapshot g) nm = Inr info))"
proof -
  let ?S = "g_nodeInfoSnapshot g"
  obtain s where pre: "RunPreFilterPlugins (f_preFilterPlugins f) w pod = Returns (s, w')"
    and split: "if IsSuccess s then
       (\<exists>info. Snapshot_Get ?S (pod_NominatedNodeName pod) = Inr info \<and>
          findNodesThatPassFilters (co_nominated ord) f w' pod \<lparr>dg_NodeToStatusMap = [], dg_UnschedulablePlugins = []\<rparr> [info] g = Returns (Inr ns, d, g'))
       \<or> (\<exists>d1 g1. g_nodeInfoSnapshot g1 = g_nodeInfoSnapshot g \<and> (pod_NominatedNodeName pod = [] \<longrightarrow> d1 = \<lparr>dg_NodeToStatusMap = [], dg_UnschedulablePlugins = []\<rparr> \<and> g1 = g) \<and>
            findNodesThatPassFilters (co_filter ord) f w' pod d1 (fst (Snapshot_List ?S)) g1 = Returns (Inr ns, d, g'))
     else ns = []"
    using findNodesThatFitPod_cases [OF run] by blast
  have s: "IsSuccess s" using split ne by (simp split: if_splits)
  show "\<exists>s. RunPreFilterPlugins (f_preFilterPlugins f) w pod = Returns (s, w') \<and> IsSuccess s" using pre s by blast
  from split [unfolded if_P [OF s]] show "\<forall>n\<in>set ns. \<exists>info. ni_node info = Some n \<and> fits (f_filterPlugins f) w' pod info
       \<and> (info \<in> set (fst (Snapshot_List ?S)) \<or> (\<exists>nm. Snapshot_Get ?S nm = Inr info))"
  proof (elim disjE exE conjE)
    fix info
    assume get: "Snapshot_Get ?S (pod_NominatedNodeName pod) = Inr info"
      and find: "findNodesThatPassFilters (co_nominated ord) f w' pod \<lparr>dg_NodeToStatusMap = [], dg_UnschedulablePlugins = []\<rparr> [info] g
        = Returns (Inr ns, d, g')"
    show ?thesis using findNodesThatPassFilters_sound [OF find clone [OF pre]] get by auto
  next
    fix d1 g1
    assume find: "findNodesThatPassFilters (co_filter ord) f w' pod d1 (fst (Snapshot_List ?S)) g1 = Returns (Inr ns, d, g')"
    show ?thesis using findNodesThatPassFilters_sound [OF find clone [OF pre]] by blast
  qed
qed

lemma total_scores_names:
  assumes "total_scores m nodes = Returns l"
  shows "map ns_Name l = map node_Name nodes"
proof -
  have "map ns_Name l = map (\<lambda>i. node_Name (nodes ! i)) [0..<length nodes]"
    by (rule go_fold_prefix [OF assms [unfolded total_scores_def], of "\<lambda>is l. map ns_Name l = map (\<lambda>i. node_Name (nodes ! i)) is"])
      (auto simp: go_bind_Returns_iff)
  also have "\<dots> = map node_Name (map ((!) nodes) [0..<length nodes])" by simp
  finally show ?thesis by (simp only: map_nth)
qed

lemma prioritizeNodes_names:
  assumes "prioritizeNodes ord exts f w pod nodes = Returns (Inr l, w')"
  shows "map ns_Name l = map node_Name nodes"
proof -
  show ?thesis
  proof (cases "exts = [] \<and> f_scorePlugins f = []")
    case True
    then show ?thesis using assms by (auto simp: prioritizeNodes_def comp_def)
  next
    case False
    obtain s w1 r where run: "(case r of Inl st \<Rightarrow> Returns (Inl (err_text (Some st)), w1)
              | Inr scoresMap \<Rightarrow> go_bind (total_scores scoresMap nodes) (\<lambda>result.
                  Returns (Inr (if exts \<noteq> [] \<and> nodes \<noteq> []
                    then map (scale_extenders (fold (extender_scores pod nodes) exts [])) result else result), w1))) = Returns (Inr l, w')"
      using assms unfolding prioritizeNodes_def if_not_P [OF False] by (auto simp: go_bind_Returns_iff split: if_splits)
    then obtain m l0 where m: "total_scores m nodes = Returns l0"
      and l: "l = (if exts \<noteq> [] \<and> nodes \<noteq> [] then map (scale_extenders (fold (extender_scores pod nodes) exts [])) l0 else l0)"
      by (cases r) (auto simp: go_bind_Returns_iff)
    have "map ns_Name l = map ns_Name l0" unfolding l by (simp add: scale_extenders_def comp_def)
    then show ?thesis using total_scores_names [OF m] by simp
  qed
qed

section \<open>The chosen host\<close>

lemma select_loop_best:
  "\<exists>s. (s = m \<and> select_loop rnd l m sel cnt k = sel \<or> (\<exists>ns\<in>set l. ns_Name ns = select_loop rnd l m sel cnt k \<and> ns_Score ns = s))
     \<and> m \<le> s \<and> (\<forall>ns\<in>set l. ns_Score ns \<le> s)"
proof (induction l arbitrary: m sel cnt k)
  case (Cons ns l)
  consider "ns_Score ns > m" | "ns_Score ns = m" | "ns_Score ns < m" by linarith
  then show ?case
  proof cases
    case 1
    then show ?thesis using Cons [of "ns_Score ns" "ns_Name ns" 1 k] by fastforce
  next
    case 2
    then show ?thesis using Cons [of m "if rnd k mod (cnt + 1) = 0 then ns_Name ns else sel" "cnt + 1" "k + 1"]
      by (auto split: if_splits)
  next
    case 3
    then show ?thesis using Cons [of m sel cnt k] by fastforce
  qed
qed simp

lemma selectHost_best:
  assumes "selectHost rnd l = Inr host"
  shows "\<exists>ns\<in>set l. ns_Name ns = host \<and> (\<forall>ns'\<in>set l. ns_Score ns' \<le> ns_Score ns)"
proof (cases l)
  case (Cons ns l')
  then show ?thesis using assms select_loop_best [of "ns_Score ns" rnd l' "ns_Name ns" 1 0] by (auto simp: selectHost_def)
qed (use assms in \<open>simp add: selectHost_def\<close>)

text \<open>The ranges of the random draws of one call, and the tuples of draws in these ranges.\<close>

fun draw_bounds :: "NodeScore list \<Rightarrow> int \<Rightarrow> nat \<Rightarrow> nat list" where
  "draw_bounds [] m cnt = []"
| "draw_bounds (ns # l) m cnt =
     (if ns_Score ns > m then draw_bounds l (ns_Score ns) 1
      else if ns_Score ns = m then (cnt + 1) # draw_bounds l m (cnt + 1)
      else draw_bounds l m cnt)"

definition draws :: "nat list \<Rightarrow> nat list set" where
  "draws bs = {ds. list_all2 (<) ds bs}"

lemma draws_Nil [simp]: "draws [] = {[]}"
  by (auto simp: draws_def)

lemma draws_Cons: "draws (b # bs) = (\<lambda>(d, ds). d # ds) ` ({..<b} \<times> draws bs)"
  by (auto simp: draws_def list_all2_Cons2 image_iff)

lemma finite_draws: "finite (draws bs)"
  by (induction bs) (simp_all add: draws_Cons)

lemma card_draws: "card (draws bs) = prod_list bs"
proof (induction bs)
  case (Cons b bs)
  have "inj_on (\<lambda>(d, ds). d # ds) ({..<b} \<times> draws bs)" by (auto simp: inj_on_def)
  then show ?case using Cons by (simp add: draws_Cons card_image card_cartesian_product)
qed simp

lemma select_loop_shift: "select_loop rnd l m sel cnt (Suc k) = select_loop (\<lambda>i. rnd (Suc i)) l m sel cnt k"
  by (induction l arbitrary: m sel cnt k) simp_all

text \<open>How many of the tuples of draws end in a name.\<close>

definition picks :: "NodeScore list \<Rightarrow> int \<Rightarrow> string \<Rightarrow> nat \<Rightarrow> string \<Rightarrow> nat" where
  "picks l m sel cnt x = card {ds \<in> draws (draw_bounds l m cnt). select_loop ((!) ds) l m sel cnt 0 = x}"

lemma cons_choices:
  assumes "finite A" and "finite D" and "\<And>d ds. d \<in> A \<Longrightarrow> G (d # ds) = H d ds"
  shows "card {ds \<in> (\<lambda>(d, ds). d # ds) ` (A \<times> D). G ds = x} = (\<Sum>d\<in>A. card {ds \<in> D. H d ds = x})"
proof -
  have "{ds \<in> (\<lambda>(d, ds). d # ds) ` (A \<times> D). G ds = x} = (\<lambda>(d, ds). d # ds) ` (SIGMA d:A. {ds \<in> D. H d ds = x})"
    using assms(3) by auto
  moreover have "inj_on (\<lambda>(d, ds). d # ds) (SIGMA d:A. {ds \<in> D. H d ds = x})" by (auto simp: inj_on_def)
  ultimately show ?thesis using assms(1,2) by (simp add: card_image)
qed

lemma picks_tie:
  assumes "ns_Score ns = m"
  shows "picks (ns # l) m sel cnt x = picks l m (ns_Name ns) (cnt + 1) x + cnt * picks l m sel (cnt + 1) x"
proof -
  let ?D = "draws (draw_bounds l m (cnt + 1))" and ?N = "\<lambda>d. if d = 0 then ns_Name ns else sel"
  have step: "select_loop ((!) (d # ds)) (ns # l) m sel cnt 0 = select_loop ((!) ds) l m (?N d) (cnt + 1) 0"
    if "d \<in> {..<cnt + 1}" for d ds
    using assms that by (simp add: select_loop_shift)
  have ds: "draws (draw_bounds (ns # l) m cnt) = (\<lambda>(d, ds). d # ds) ` ({..<cnt + 1} \<times> ?D)" using assms by (simp add: draws_Cons)
  have "picks (ns # l) m sel cnt x = (\<Sum>d<cnt + 1. card {ds \<in> ?D. select_loop ((!) ds) l m (?N d) (cnt + 1) 0 = x})"
    unfolding picks_def ds 
    by (rule cons_choices [where G = "\<lambda>ds. select_loop ((!) ds) (ns # l) m sel cnt 0" and
          H = "\<lambda>d ds. select_loop ((!) ds) l m (?N d) (cnt + 1) 0", OF finite_lessThan finite_draws step])
  also have "\<dots> = picks l m (ns_Name ns) (cnt + 1) x + (\<Sum>d<cnt. picks l m sel (cnt + 1) x)"
    unfolding picks_def by (simp only: Suc_eq_plus1 [symmetric] sum.lessThan_Suc_shift) simp
  finally show ?thesis by simp
qed

text \<open>The best score from a point of the loop on, and how many entries have it.\<close>

definition top_score :: "NodeScore list \<Rightarrow> int \<Rightarrow> int" where
  "top_score l m = Max (insert m (ns_Score ` set l))"

lemma top_score_Nil [simp]: "top_score [] m = m"
  by (simp add: top_score_def)

lemma top_score_Cons [simp]: "top_score (ns # l) m = top_score l (max m (ns_Score ns))"
  by (cases "l = []") (simp_all add: top_score_def max.assoc)

lemma top_score_ge: "m \<le> top_score l m"
  by (simp add: top_score_def)

definition best :: "NodeScore list \<Rightarrow> int \<Rightarrow> string list" where
  "best l M = map ns_Name (filter (\<lambda>ns. ns_Score ns = M) l)"

lemma picks_share:
  assumes "distinct (map ns_Name l)" and "sel \<notin> ns_Name ` set l" and "0 < cnt"
  shows "picks l m sel cnt x * ((if top_score l m = m then cnt else 0) + length (best l (top_score l m)))
    = prod_list (draw_bounds l m cnt) * (if x = sel then (if top_score l m = m then cnt else 0) else if x \<in> set (best l (top_score l m)) then 1 else 0)"
  using assms
proof (induction l arbitrary: m sel cnt)
  case Nil
  then show ?case by (simp add: picks_def best_def)
next
  case (Cons ns l)
  have d: "distinct (map ns_Name l)" "ns_Name ns \<notin> ns_Name ` set l" "sel \<notin> ns_Name ` set l" "sel \<noteq> ns_Name ns" using Cons.prems by auto
  have sub: "set (best l M) \<subseteq> ns_Name ` set l" for M by (auto simp: best_def)
  consider "ns_Score ns > m" | "ns_Score ns = m" | "ns_Score ns < m" by linarith
  then show ?case
  proof cases
    case 1
    let ?s = "ns_Score ns" and ?T = "top_score l (ns_Score ns)"
    have t: "top_score (ns # l) m = ?T" "?T \<noteq> m" using 1 top_score_ge [of ?s l] by (auto simp: max_def)
    have b: "(if ?T = ?s then 1 else 0) + length (best l ?T) = length (best (ns # l) ?T)" by (simp add: best_def)
    have w: "(if x = ns_Name ns then (if ?T = ?s then 1 else 0) else if x \<in> set (best l ?T) then 1 else 0)
        = (if x = sel then 0 else if x \<in> set (best (ns # l) ?T) then 1 else (0 :: nat))"
      using d sub [of ?T] by (auto simp: best_def)
    have "picks (ns # l) m sel cnt x = picks l ?s (ns_Name ns) 1 x" "draw_bounds (ns # l) m cnt = draw_bounds l ?s 1"
      using 1 by (simp_all add: picks_def)
    then show ?thesis using Cons.IH [OF d(1,2), of 1 ?s] t by (simp add: b w)
  next
    case 2
    have t: "top_score (ns # l) m = top_score l m" using 2 by simp
    let ?P = "prod_list (draw_bounds l m (cnt + 1))" and ?T = "top_score l m" and ?c = "if top_score l m = m then cnt else 0"
    let ?c' = "if top_score l m = m then cnt + 1 else 0" and ?b = "length (best l (top_score l m))"
    have b: "?c + length (best (ns # l) ?T) = ?c' + ?b" using 2 by (auto simp: best_def)
    have one: "picks l m s (cnt + 1) x * (?c' + ?b) = ?P * (if x = s then ?c' else if x \<in> set (best l ?T) then 1 else 0)"
      if "s \<notin> ns_Name ` set l" for s using Cons.IH [OF d(1) that, of "cnt + 1" m] by simp
    have "picks (ns # l) m sel cnt x * (?c' + ?b)
        = picks l m (ns_Name ns) (cnt + 1) x * (?c' + ?b) + cnt * (picks l m sel (cnt + 1) x * (?c' + ?b))"
      unfolding picks_tie [OF 2] by (simp add: algebra_simps)
    also have "\<dots> = ?P * (if x = ns_Name ns then ?c' else if x \<in> set (best l ?T) then 1 else 0)
        + cnt * (?P * (if x = sel then ?c' else if x \<in> set (best l ?T) then 1 else 0))"
      by (simp only: one [OF d(2)] one [OF d(3)])
    also have "\<dots> = (cnt + 1) * ?P * (if x = sel then ?c else if x \<in> set (best (ns # l) ?T) then 1 else 0)"
      using 2 d sub [of ?T] by (auto simp: best_def algebra_simps)
    finally show ?thesis using t b 2 by simp
  next
    case 3
    have "top_score (ns # l) m = top_score l m" using 3 by (simp add: max_def)
    moreover have "ns_Score ns \<noteq> top_score l m" using top_score_ge [of m l] 3 by linarith
    moreover have "picks (ns # l) m sel cnt x = picks l m sel cnt x" using 3 by (simp add: picks_def)
    ultimately show ?thesis using Cons.IH [OF d(1,3) Cons.prems(3), of m] 3 by (simp add: best_def)
  qed
qed

section \<open>Scheduling on a cache\<close>

lemma Schedule_snapshot:
  assumes "history env c s"
  shows "\<exists>s'. UpdateSnapshot c s = Some (Returns (None, s')) \<and> snap_ok c s' \<and> exact c s'"
  using history_inv [OF assms] UpdateSnapshot_law cache_invD(1) by blast

lemma snapshot_list_set:
  assumes "snap_ok c s" and "exact c s"
  shows "set (fst (Snapshot_List s)) = {info. \<exists>nm. present c nm \<and> cinfo c nm = Some info}"
proof -
  have "{nm. present c nm} = fst ` set (sn_nodeInfoMap s)" using view_names assms by (simp add: snap_ok_def)
  then have fin: "finite {nm. present c nm}" by simp
  have "set (fst (Snapshot_List s)) = (\<lambda>nm. the (cinfo c nm)) ` {nm. present c nm}"
    using exact_list [OF assms, THEN arg_cong [of _ _ set_mset]] fin by simp
  then show ?thesis by (force simp: present_def)
qed

lemma NumNodes_present:
  assumes "snap_ok c s" and "exact c s"
  shows "NumNodes s = card {nm. present c nm}" and "length (fst (Snapshot_List s)) = NumNodes s"
proof -
  show len: "length (fst (Snapshot_List s)) = NumNodes s" by (simp add: NumNodes_def Snapshot_List_def)
  show "NumNodes s = card {nm. present c nm}"
    using exact_list [OF assms, THEN arg_cong [of _ _ size]] len by simp
qed

text \<open>A NodeInfo of the snapshot is that of its own node in the cache.\<close>

lemma snapshot_own_node:
  assumes hist: "history env c s0" and s: "snap_ok c s" "exact c s" and node: "ni_node info = Some n"
    and mem: "info \<in> set (fst (Snapshot_List s)) \<or> (\<exists>nm. Snapshot_Get s nm = Inr info)"
  shows "cinfo c (node_Name n) = Some info"
proof -
  obtain nm where nm: "cinfo c nm = Some info"
    using mem by (auto simp: snapshot_list_set [OF s] exact_get [OF s(2)] present_def split: if_splits)
  moreover have "tree_inv c" using history_inv [OF hist] cache_invD(1) by (auto simp: base_inv_def)
  ultimately show ?thesis using node by (auto simp: tree_inv_def)
qed

text \<open>The host is the only node, or has the highest total score of the nodes.\<close>

definition priority_winner :: "score_order \<Rightarrow> 'w frameworkImpl \<Rightarrow> 'w \<Rightarrow> Pod \<Rightarrow> Node list \<Rightarrow> string \<Rightarrow> bool" where
  "priority_winner ord f w pod nodes host \<longleftrightarrow>
     (\<exists>n. nodes = [n] \<and> node_Name n = host) \<or>
     (\<exists>l w'. prioritizeNodes ord [] f w pod nodes = Returns (Inr l, w') \<and>
        (\<exists>ns\<in>set l. ns_Name ns = host \<and> (\<forall>ns'\<in>set l. ns_Score ns' \<le> ns_Score ns)))"

lemma Schedule_found:
  assumes upd: "UpdateSnapshot c (g_nodeInfoSnapshot g) = Some (Returns (None, s))"
    and run: "Schedule rnd preferNominated ord c exts f w pod g = Some (Returns (Inr r, g', w2))"
  shows "\<exists>nodes d w1. findNodesThatFitPod preferNominated ord exts f w pod (g\<lparr>g_nodeInfoSnapshot := s\<rparr>) = Returns (Inr nodes, d, g', w1)
    \<and> nodes \<noteq> [] \<and> ((\<exists>n. nodes = [n] \<and> sr_SuggestedHost r = node_Name n \<and> w2 = w1)
       \<or> (\<exists>l. prioritizeNodes (co_score ord) exts f w1 pod nodes = Returns (Inr l, w2) \<and> selectHost rnd l = Inr (sr_SuggestedHost r)))"
proof -
  obtain rr d g1 w1 where find: "findNodesThatFitPod preferNominated ord exts f w pod (g\<lparr>g_nodeInfoSnapshot := s\<rparr>) = Returns (rr, d, g1, w1)"
    using run upd by (auto simp: Schedule_def Let_def go_bind_Returns_iff split: if_splits)
  have rest: "(case rr of Inl e \<Rightarrow> Returns (Inl (OtherError e), g1, w1)
           | Inr [] \<Rightarrow> Returns (Inl (FitError pod (NumNodes s) d), g1, w1)
           | Inr [n] \<Rightarrow> Returns (Inr \<lparr>sr_SuggestedHost = node_Name n,
               sr_EvaluatedNodes = 1 + length (dg_NodeToStatusMap d), sr_FeasibleNodes = 1\<rparr>, g1, w1)
           | Inr feasibleNodes \<Rightarrow>
             go_bind (prioritizeNodes (co_score ord) exts f w1 pod feasibleNodes) (\<lambda>(r2, w2).
               case r2 of Inl e \<Rightarrow> Returns (Inl (OtherError e), g1, w2)
               | Inr priorityList \<Rightarrow>
                 (case selectHost rnd priorityList of Inl e \<Rightarrow> Returns (Inl (OtherError e), g1, w2)
                  | Inr host \<Rightarrow> Returns (Inr \<lparr>sr_SuggestedHost = host,
                      sr_EvaluatedNodes = length feasibleNodes + length (dg_NodeToStatusMap d),
                      sr_FeasibleNodes = length feasibleNodes\<rparr>, g1, w2)))) = Returns (Inr r, g', w2)"
    using run upd find by (simp add: Schedule_def Let_def split: if_splits)
  then obtain n ns where rr: "rr = Inr (n # ns)" by (cases rr) (auto split: list.splits)
  show ?thesis
  proof (cases ns)
    case Nil
    then show ?thesis using find rr rest by auto
  next
    case (Cons n2 ns2)
    then obtain r2 w3 where p: "prioritizeNodes (co_score ord) exts f w1 pod (n # ns) = Returns (r2, w3)"
      and r2: "(case r2 of Inl e \<Rightarrow> Returns (Inl (OtherError e), g1, w3)
               | Inr priorityList \<Rightarrow>
                 (case selectHost rnd priorityList of Inl e \<Rightarrow> Returns (Inl (OtherError e), g1, w3)
                  | Inr host \<Rightarrow> Returns (Inr \<lparr>sr_SuggestedHost = host,
                      sr_EvaluatedNodes = length (n # ns) + length (dg_NodeToStatusMap d),
                      sr_FeasibleNodes = length (n # ns)\<rparr>, g1, w3))) = Returns (Inr r, g', w2)"
      using rest rr by (auto simp: go_bind_Returns_iff)
    then obtain l where "r2 = Inr l" "selectHost rnd l = Inr (sr_SuggestedHost r)" "g1 = g'" "w3 = w2"
      by (auto split: sum.splits)
    then show ?thesis using find rr p by auto
  qed
qed

lemma Schedule_host:
  assumes hist: "history env c (g_nodeInfoSnapshot g)" and clone: "\<And>s w'. RunPreFilterPlugins (f_preFilterPlugins f) w pod = Returns (s, w') \<Longrightarrow> clone_ok f w' pod"
    and run: "Schedule rnd preferNominated ord c [] f w pod g = Some (Returns (Inr r, g', w2))"
  shows "\<exists>w' s nodes info node. RunPreFilterPlugins (f_preFilterPlugins f) w pod = Returns (s, w') \<and> IsSuccess s
    \<and> cinfo c (sr_SuggestedHost r) = Some info \<and> ni_node info = Some node \<and> node_Name node = sr_SuggestedHost r
    \<and> fits (f_filterPlugins f) w' pod info
    \<and> nodes \<noteq> [] \<and> (\<forall>n\<in>set nodes. \<exists>i. cinfo c (node_Name n) = Some i \<and> fits (f_filterPlugins f) w' pod i)
    \<and> priority_winner (co_score ord) f w' pod nodes (sr_SuggestedHost r)
    \<and> (w2 = w' \<or> (\<exists>l. prioritizeNodes (co_score ord) [] f w' pod nodes = Returns (Inr l, w2)))
    \<and> Snapshot_Get (g_nodeInfoSnapshot g') (sr_SuggestedHost r) = Inr info"
proof -
  obtain s where upd: "UpdateSnapshot c (g_nodeInfoSnapshot g) = Some (Returns (None, s))" and s: "snap_ok c s" "exact c s"
    using Schedule_snapshot [OF hist] by blast
  obtain nodes d w1 where find: "findNodesThatFitPod preferNominated ord [] f w pod (g\<lparr>g_nodeInfoSnapshot := s\<rparr>) = Returns (Inr nodes, d, g', w1)"
    and ne: "nodes \<noteq> []"
    and pick: "(\<exists>n. nodes = [n] \<and> sr_SuggestedHost r = node_Name n \<and> w2 = w1)
       \<or> (\<exists>l. prioritizeNodes (co_score ord) [] f w1 pod nodes = Returns (Inr l, w2) \<and> selectHost rnd l = Inr (sr_SuggestedHost r))"
    using Schedule_found [OF upd run] by blast
  obtain st where pre: "RunPreFilterPlugins (f_preFilterPlugins f) w pod = Returns (st, w1)" "IsSuccess st"
    using findNodesThatFitPod_sound(1) [OF find _ ne] clone by blast
  have sound: "\<forall>n\<in>set nodes. \<exists>info. ni_node info = Some n \<and> fits (f_filterPlugins f) w1 pod info
       \<and> (info \<in> set (fst (Snapshot_List (g_nodeInfoSnapshot (g\<lparr>g_nodeInfoSnapshot := s\<rparr>)))) \<or> (\<exists>nm. Snapshot_Get (g_nodeInfoSnapshot (g\<lparr>g_nodeInfoSnapshot := s\<rparr>)) nm = Inr info))"
    by (rule findNodesThatFitPod_sound(2) [OF find _ ne]) (rule clone)
  have all: "\<exists>i. cinfo c (node_Name n) = Some i \<and> ni_node i = Some n \<and> fits (f_filterPlugins f) w1 pod i" if mem: "n \<in> set nodes" for n
  proof -
    obtain i where i: "ni_node i = Some n" "fits (f_filterPlugins f) w1 pod i"
        "i \<in> set (fst (Snapshot_List s)) \<or> (\<exists>nm. Snapshot_Get s nm = Inr i)"
      using bspec [OF sound mem] by auto
    show ?thesis using snapshot_own_node [OF hist s i(1,3)] i by blast
  qed
  have win: "priority_winner (co_score ord) f w1 pod nodes (sr_SuggestedHost r)"
    using pick selectHost_best unfolding priority_winner_def by metis
  have "\<exists>n\<in>set nodes. node_Name n = sr_SuggestedHost r"
    using pick
  proof (elim disjE exE conjE)
    fix l assume l: "prioritizeNodes (co_score ord) [] f w1 pod nodes = Returns (Inr l, w2)" "selectHost rnd l = Inr (sr_SuggestedHost r)"
    then obtain ns where "ns \<in> set l" "ns_Name ns = sr_SuggestedHost r" using selectHost_best by blast
    then have "sr_SuggestedHost r \<in> set (map ns_Name l)" by force
    then show ?thesis unfolding prioritizeNodes_names [OF l(1)] by force
  qed simp
  then obtain n i where n: "node_Name n = sr_SuggestedHost r" "cinfo c (sr_SuggestedHost r) = Some i" "ni_node i = Some n"
      "fits (f_filterPlugins f) w1 pod i" using all by metis
  have feas: "\<forall>n\<in>set nodes. \<exists>i. cinfo c (node_Name n) = Some i \<and> fits (f_filterPlugins f) w1 pod i" using all by blast
  have "Snapshot_Get (g_nodeInfoSnapshot g') (sr_SuggestedHost r) = Inr i"
    using findNodesThatFitPod_snapshot [OF find ne] n(2,3) by (simp add: exact_get [OF s(2)] present_def)
  then show ?thesis using pre n ne win feas pick by blast
qed

lemma verdict_unique: "verdict f w pod info s \<Longrightarrow> verdict f w pod info s' \<Longrightarrow> s = s'"
  by (simp add: verdict_def)

lemma numFeasible_snapshot [simp]: "numFeasibleNodesToFind (g\<lparr>g_nodeInfoSnapshot := s\<rparr>) n = numFeasibleNodesToFind g n"
  by (simp add: numFeasibleNodesToFind_def)

lemma findNodesThatFitPod_plain:
  assumes "pod_NominatedNodeName pod = []" and "RunPreFilterPlugins (f_preFilterPlugins f) w pod = Returns (s, w')" and "IsSuccess s"
    and "findNodesThatPassFilters (co_filter ord) f w' pod \<lparr>dg_NodeToStatusMap = [], dg_UnschedulablePlugins = []\<rparr>
      (fst (Snapshot_List (g_nodeInfoSnapshot g))) g = Returns (r, d, g1)"
  shows "findNodesThatFitPod preferNominated ord [] f w pod g = Returns (r, d, g1, w')"
  using assms by (simp add: findNodesThatFitPod_def Let_def pass_no_extenders)

text \<open>
  The outcome of a cycle: a node that the filters accept, or a fit error when they reject every
  node.
\<close>

definition decided :: "schedulerCache \<Rightarrow> 'w frameworkImpl \<Rightarrow> 'w \<Rightarrow> Pod \<Rightarrow> schedule_error + ScheduleResult \<Rightarrow> bool" where
  "decided c f w pod res =
     (case res of
        Inr r \<Rightarrow> \<exists>info st. present c (sr_SuggestedHost r) \<and> cinfo c (sr_SuggestedHost r) = Some info \<and> verdict f w pod info st \<and> IsSuccess st
      | Inl e \<Rightarrow> (\<exists>d. e = FitError pod (card {nm. present c nm}) d) \<and>
          (\<forall>nm info. present c nm \<longrightarrow> cinfo c nm = Some info \<longrightarrow> (\<exists>st. verdict f w pod info st \<and> \<not> IsSuccess st)))"

text \<open>The branch with several nodes: some host of the priority list is selected.\<close>

lemma several_nodes:
  assumes "findNodesThatFitPod preferNominated ord [] f w pod (g\<lparr>g_nodeInfoSnapshot := s\<rparr>) = Returns (Inr ns, d, g1, w')"
    and "UpdateSnapshot c (g_nodeInfoSnapshot g) = Some (Returns (None, s))" and "NumNodes s \<noteq> 0" and "2 \<le> length ns"
    and "prioritizeNodes (co_score ord) [] f w' pod ns = Returns (Inr l, w2)"
  shows "\<exists>r. Schedule rnd preferNominated ord c [] f w pod g = Some (Returns (Inr r, g1, w2)) \<and> (\<exists>n\<in>set ns. node_Name n = sr_SuggestedHost r)"
proof -
  obtain n n2 ns2 where ns: "ns = n # n2 # ns2" using assms(4) by (cases ns; cases "tl ns") auto
  have names: "map ns_Name l = map node_Name ns" by (rule prioritizeNodes_names [OF assms(5)])
  obtain host where host: "selectHost rnd l = Inr host" using names ns by (cases l) (auto simp: selectHost_def)
  have "host \<in> set (map ns_Name l)" using selectHost_best [OF host] by force
  then have "\<exists>n\<in>set ns. node_Name n = host" unfolding names by force
  then show ?thesis using assms ns host by (simp add: Schedule_def Let_def)
qed

lemma passed_present:
  assumes hist: "history env c s0" and sn: "snap_ok c sn" "exact c sn"
    and find: "findNodesThatPassFilters visits f w pod d (fst (Snapshot_List sn)) g = Returns (Inr ns, d', g')"
    and filt: "f_filterPlugins f \<noteq> []" and n: "n \<in> set ns"
  shows "\<exists>info st. present c (node_Name n) \<and> cinfo c (node_Name n) = Some info \<and> verdict f w pod info st \<and> IsSuccess st"
proof -
  obtain info st where info: "info \<in> set (fst (Snapshot_List sn))" "ni_node info = Some n" "verdict f w pod info st" "IsSuccess st"
    using bspec [OF findNodesThatPassFilters_verdict [OF find filt] n] by blast
  have "cinfo c (node_Name n) = Some info" using snapshot_own_node [OF hist sn info(2)] info(1) by blast
  then show ?thesis using info by (auto simp: present_def)
qed

section \<open>Properties\<close>

text \<open>
  C2: The outcome of a cycle without extenders for a pod that is not nominated. Take any history
  of the cache, filters that neither panic nor fail, score plugins that return, and any order of
  visits that the parallelizer can produce. Then the cycle ends. It returns a node that is in the
  cache and that the filters accept, or, exactly when they reject every node of the cache, a fit
  error with the number of nodes. The limit on the number of nodes to find never
  turns into a rejection.
\<close>

theorem Schedule_outcome:
  assumes hist: "history env c (g_nodeInfoSnapshot g)" and some: "present c nm0" and few: "card {nm. present c nm} < 2147483648"
    and nominated: "pod_NominatedNodeName pod = []"
    and pre: "RunPreFilterPlugins (f_preFilterPlugins f) w pod = Returns (s, w')" "IsSuccess s" and filt: "f_filterPlugins f \<noteq> []"
    and judge: "\<And>nm info. present c nm \<Longrightarrow> cinfo c nm = Some info \<Longrightarrow> judged f w' pod info"
    and order: "\<And>sn. UpdateSnapshot c (g_nodeInfoSnapshot g) = Some (Returns (None, sn)) \<Longrightarrow>
      filter_order f w' pod \<lparr>dg_NodeToStatusMap = [], dg_UnschedulablePlugins = []\<rparr> (fst (Snapshot_List sn)) g (co_filter ord)"
    and scores: "\<And>ns. \<exists>l w2. prioritizeNodes (co_score ord) [] f w' pod ns = Returns (Inr l, w2)"
  shows "\<exists>res g' w2. Schedule rnd preferNominated ord c [] f w pod g = Some (Returns (res, g', w2)) \<and> decided c f w' pod res"
proof -
  let ?d0 = "\<lparr>dg_NodeToStatusMap = [], dg_UnschedulablePlugins = []\<rparr> :: Diagnosis"
  obtain sn where upd: "UpdateSnapshot c (g_nodeInfoSnapshot g) = Some (Returns (None, sn))" and sn: "snap_ok c sn" "exact c sn"
    using Schedule_snapshot [OF hist] by blast
  let ?nodes = "fst (Snapshot_List sn)" and ?g = "g\<lparr>g_nodeInfoSnapshot := sn\<rparr>"
  note mem = snapshot_list_set [OF sn] and num = NumNodes_present [OF sn]
  obtain info0 where "cinfo c nm0 = Some info0" using some by (auto simp: present_def)
  then have "info0 \<in> set ?nodes" using mem some by auto
  then have ne: "?nodes \<noteq> []" by auto
  then have n0: "NumNodes sn \<noteq> 0" using num(2) by (metis length_0_conv)
  have all: "\<forall>info\<in>set ?nodes. judged f w' pod info" using judge mem by auto
  obtain ns d g1 where find: "findNodesThatPassFilters (co_filter ord) f w' pod ?d0 ?nodes ?g = Returns (Inr ns, d, g1)"
    using findNodesThatPassFilters_returns [OF ne _ filt all, of "co_filter ord" ?d0 ?g] few num by auto
  have fit: "findNodesThatFitPod preferNominated ord [] f w pod ?g = Returns (Inr ns, d, g1, w')"
    using findNodesThatFitPod_plain [OF nominated pre] find by simp
  note ok = passed_present [OF hist sn find filt]
  consider "ns = []" | n where "ns = [n]" | "2 \<le> length ns" by (cases ns; cases "tl ns") auto
  then show ?thesis
  proof cases
    case 1
    have "filter_order f w' pod ?d0 ?nodes ?g (co_filter ord)" using order [OF upd] by (simp add: filter_order_def)
    then have "\<forall>info\<in>set ?nodes. \<exists>st. verdict f w' pod info st \<and> \<not> IsSuccess st"
      using findNodesThatPassFilters_complete [OF find [unfolded 1]] few num by simp
    then show ?thesis using fit upd n0 1 mem num(1) by (auto simp: Schedule_def Let_def decided_def)
  next
    case (2 n)
    then show ?thesis using fit upd n0 ok [of n] by (auto simp: Schedule_def Let_def decided_def)
  next
    case 3
    obtain l w2 where l: "prioritizeNodes (co_score ord) [] f w' pod ns = Returns (Inr l, w2)" using scores by blast
    obtain r n where r: "Schedule rnd preferNominated ord c [] f w pod g = Some (Returns (Inr r, g1, w2))" "n \<in> set ns" "node_Name n = sr_SuggestedHost r"
      using several_nodes [OF fit upd n0 3 l] by blast
    have "decided c f w' pod (Inr r)" using ok [OF r(2)] unfolding r(3) by (simp add: decided_def)
    then show ?thesis using r(1) by blast
  qed
qed

text \<open>A framework with one filter plugin that accepts every node, for the examples.\<close>

definition accepting :: "unit FilterPlugin" where
  "accepting = \<lparr>fl_Name = ''Accept'', fl_Filter = (\<lambda>_ _ _. Returns None)\<rparr>"

definition example_framework :: "unit frameworkImpl" where
  "example_framework = \<lparr>f_waitingPods = [], f_scorePluginWeight = [], f_preFilterPlugins = [], f_filterPlugins = [accepting],
     f_postFilterPlugins = [], f_preScorePlugins = [], f_scorePlugins = [], f_reservePlugins = [], f_preBindPlugins = [],
     f_bindPlugins = [], f_postBindPlugins = [], f_permitPlugins = [], f_nominator = NewPodNominator, f_runAllFilters = False,
     f_env = example_env, f_clone = id, f_gen = 0\<rparr>"

definition example_order :: cycle_order where
  "example_order = \<lparr>co_nominated = [], co_filter = [0], co_score = \<lparr>so_nodes = [], so_normalize = [], so_weigh = []\<rparr>\<rparr>"

lemma example_framework_judged:
  assumes "present c nm" and "cinfo c nm = Some info"
  shows "verdict example_framework w pod info None" and "judged example_framework w pod info"
proof -
  obtain node where node: "ni_node info = Some node" using assms by (auto simp: present_def)
  have "NominatedPodsForNode (node_Name node) (f_nominator example_framework) = []"
    by (simp add: example_framework_def NewPodNominator_def NominatedPodsForNode_def get_or_def)
  moreover have "fits (f_filterPlugins example_framework) w pod info"
    by (simp add: fits_def example_framework_def accepting_def IsSuccess_def Status_Code_def)
  ultimately show "verdict example_framework w pod info None"
    by (simp add: verdict_def no_nominated_filters [OF node] fits_filter_status)
  then show "judged example_framework w pod info" using node by (auto simp: judged_def Status_Code_def)
qed

lemma one_node_card: "card {nm. present one_node nm} = 1"
proof -
  have "tr_numNodes (sc_nodeTree one_node) = 1" by code_simp
  moreover have "base_inv one_node" using history_inv [OF one_node_history] cache_invD(1) by blast
  ultimately show ?thesis using numNodes_present(1) [of one_node] by (auto simp: base_inv_def)
qed

lemma one_node_only: "present one_node nm \<Longrightarrow> nm = ''n1''"
proof -
  assume nm: "present one_node nm"
  obtain x where x: "{nm. present one_node nm} = {x}" using one_node_card by (rule card_1_singletonE)
  have "nm \<in> {x}" "''n1'' \<in> {x}" unfolding x [symmetric] using nm one_node_present by simp_all
  then show ?thesis by simp
qed

theorem Schedule_outcome_witness:
  "\<exists>r g' w2. Schedule (\<lambda>_. 0) True example_order one_node [] example_framework () bound_pod (NewGenericScheduler NewEmptySnapshot 0)
     = Some (Returns (Inr r, g', w2)) \<and> sr_SuggestedHost r = ''n1''"
proof -
  let ?g = "NewGenericScheduler NewEmptySnapshot 0" and ?d = "\<lparr>dg_NodeToStatusMap = [], dg_UnschedulablePlugins = []\<rparr> :: Diagnosis"
  have hist: "history example_env one_node (g_nodeInfoSnapshot ?g)" using one_node_history by (simp add: NewGenericScheduler_def)
  have order: "filter_order example_framework () bound_pod ?d (fst (Snapshot_List sn)) ?g (co_filter example_order)"
    if upd: "UpdateSnapshot one_node (g_nodeInfoSnapshot ?g) = Some (Returns (None, sn))" for sn
  proof -
    obtain s where "UpdateSnapshot one_node (g_nodeInfoSnapshot ?g) = Some (Returns (None, s))" "snap_ok one_node s" "exact one_node s"
      using Schedule_snapshot [OF hist] by blast
    then have "length (fst (Snapshot_List sn)) = 1" using NumNodes_present [of one_node sn] upd one_node_card by simp
    then show ?thesis by (simp add: filter_order_def until_ok_def example_order_def lessThan_Suc)
  qed
  have pre: "RunPreFilterPlugins (f_preFilterPlugins example_framework) () bound_pod = Returns (None, ())" "IsSuccess None"
    by (simp_all add: example_framework_def IsSuccess_def Status_Code_def)
  have "\<exists>res g' w2. Schedule (\<lambda>_. 0) True example_order one_node [] example_framework () bound_pod ?g = Some (Returns (res, g', w2))
      \<and> decided one_node example_framework () bound_pod res"
    by (rule Schedule_outcome [OF hist one_node_present _ _ pre _ example_framework_judged(2) order])
      (simp_all add: one_node_card bound_pod_def example_pod_def example_framework_def prioritizeNodes_def)
  then obtain res g' w2 where run: "Schedule (\<lambda>_. 0) True example_order one_node [] example_framework () bound_pod ?g = Some (Returns (res, g', w2))"
    and d: "decided one_node example_framework () bound_pod res" by blast
  obtain info where info: "cinfo one_node ''n1'' = Some info" using one_node_present by (auto simp: present_def)
  have v: "IsSuccess st" if "verdict example_framework () bound_pod info st" for st
    using verdict_unique [OF example_framework_judged(1) [OF one_node_present info] that] pre(2) by simp
  obtain r where r: "res = Inr r" "present one_node (sr_SuggestedHost r)"
  proof (cases res)
    case (Inl e)
    then show ?thesis using d one_node_present info v by (auto simp: decided_def)
  qed (use d in \<open>auto simp: decided_def\<close>)
  have "sr_SuggestedHost r = ''n1''" using r(2) one_node_only by blast
  then show ?thesis using run r(1) by blast
qed


lemma example_run:
  "(case Schedule (\<lambda>_. 0) True example_order one_node [] example_framework () bound_pod (NewGenericScheduler NewEmptySnapshot 0) of
      Some (Returns (Inr r, _)) \<Rightarrow> Some (sr_SuggestedHost r) | _ \<Rightarrow> None) = Some ''n1''"
  by code_simp


text \<open>
  C16: The host is chosen evenly among the best nodes. Let the nodes have distinct names and count
  all tuples of draws of the random source in the ranges that the loop asks for. Every node with
  the highest score is selected by the same number of tuples, the total divided by the number of
  such nodes, and no other name is ever selected.
\<close>

theorem selectHost_uniform:
  assumes "distinct (map ns_Name (ns # l))"
  shows "card {ds \<in> draws (draw_bounds l (ns_Score ns) 1). selectHost ((!) ds) (ns # l) = Inr host}
      * length (best (ns # l) (Max (ns_Score ` set (ns # l))))
    = (if host \<in> set (best (ns # l) (Max (ns_Score ` set (ns # l)))) then card (draws (draw_bounds l (ns_Score ns) 1)) else 0)"
proof -
  let ?m = "ns_Score ns" and ?T = "top_score l (ns_Score ns)"
  have T: "Max (ns_Score ` set (ns # l)) = ?T" by (simp add: top_score_def)
  have d: "distinct (map ns_Name l)" "ns_Name ns \<notin> ns_Name ` set l" using assms by auto
  have sub: "set (best l ?T) \<subseteq> ns_Name ` set l" by (auto simp: best_def)
  have len: "length (best (ns # l) ?T) = (if ?T = ?m then 1 else 0) + length (best l ?T)" by (simp add: best_def)
  have mem: "(if host = ns_Name ns then (if ?T = ?m then 1 else 0) else if host \<in> set (best l ?T) then 1 else 0)
      = (if host \<in> set (best (ns # l) ?T) then 1 else (0 :: nat))"
    using d sub by (auto simp: best_def)
  have "card {ds \<in> draws (draw_bounds l ?m 1). selectHost ((!) ds) (ns # l) = Inr host} = picks l ?m (ns_Name ns) 1 host"
    by (simp add: picks_def selectHost_def)
  then show ?thesis
    using picks_share [OF d, of 1 ?m host] unfolding T len mem card_draws by simp
qed

text \<open>Of four nodes three have the highest score; of the six tuples of draws two select each of them.\<close>

definition tied_scores :: "NodeScore list" where
  "tied_scores = [\<lparr>ns_Name = ''b'', ns_Score = 9\<rparr>, \<lparr>ns_Name = ''c'', ns_Score = 4\<rparr>, \<lparr>ns_Name = ''d'', ns_Score = 9\<rparr>]"

theorem selectHost_uniform_witness:
  "card {ds \<in> draws [2, 3]. selectHost ((!) ds) (\<lparr>ns_Name = ''a'', ns_Score = 9\<rparr> # tied_scores) = Inr ''d''} = 2"
proof -
  let ?a = "\<lparr>ns_Name = ''a'', ns_Score = 9\<rparr>"
  have "distinct (map ns_Name (?a # tied_scores))" by (simp add: tied_scores_def)
  moreover have "draw_bounds tied_scores (ns_Score ?a) 1 = [2, 3]" by (simp add: tied_scores_def)
  moreover have "best (?a # tied_scores) (Max (ns_Score ` set (?a # tied_scores))) = [''a'', ''b'', ''d'']"
    by (simp add: tied_scores_def best_def)
  ultimately show ?thesis using selectHost_uniform [of ?a tied_scores "''d''"] by (simp add: card_draws)
qed

end
