(* ===== verification/Hice_Schedule.thy ===== *)
theory Hice_Schedule
  imports Hicev1 Generic_Scheduler
begin

text \<open>
  Hicev1 as a plugin of the framework: its extension points on the cycle state and etcd, and what
  a whole cycle with it, from the cache through PreFilter and Filter to Bind, leaves in etcd.
\<close>

section \<open>The plugin\<close>

type_synonym hice_world = "hice_state \<times> etcd"

definition hicev1_preFilter :: "codecs \<Rightarrow> etcd_faults \<Rightarrow> hice_world PreFilterPlugin" where
  "hicev1_preFilter cd ef =
     \<lparr>pf_Name = ''Hicev1'', pf_PreFilter = (\<lambda>(cs, db) pod. PreFilter cd ef pod cs db), pf_PreFilterExtensions = None\<rparr>"

definition hicev1_filter :: "hice_world FilterPlugin" where
  "hicev1_filter = \<lparr>fl_Name = ''Hicev1'', fl_Filter = (\<lambda>(cs, db) pod nodeInfo. Filter cs nodeInfo)\<rparr>"

definition hicev1_bind :: "codecs \<Rightarrow> etcd_faults \<Rightarrow> (string \<Rightarrow> string + NodeInfo) \<Rightarrow> hice_world BindPlugin" where
  "hicev1_bind cd ef nodeInfos =
     \<lparr>bp_Name = ''Hicev1'', bp_Bind = (\<lambda>(cs, db) p nodeName.
        go_bind (Bind cd ef nodeInfos cs p nodeName db) (\<lambda>(st, db'). Returns (st, (cs, db'))))\<rparr>"

definition hicev1_clone :: "hice_world \<Rightarrow> hice_world" where
  "hicev1_clone w = (CycleState_Clone id (fst w), snd w)"

section \<open>The extension points in a cycle\<close>

lemma RunPreFilterPlugins_last:
  assumes "RunPreFilterPlugins (pls @ [pl]) w pod = Returns (s, w')" and "IsSuccess s"
  shows "\<exists>w1 st. pf_PreFilter pl w1 pod = Returns (st, w') \<and> IsSuccess st"
  using assms
proof (induction pls arbitrary: w)
  case Nil
  obtain st w1 where st: "pf_PreFilter pl w pod = Returns (st, w1)" using Nil.prems(1) by (auto simp: go_bind_Returns_iff)
  have "IsSuccess st"
  proof (rule ccontr)
    assume bad: "\<not> IsSuccess st"
    then obtain x where "st = Some x" using not_success_Some by blast
    then show False using Nil.prems st bad
      by (auto simp: IsSuccess_def Status_Code_def WithFailedPlugin_def failed_plugin_def AsStatus_def split: if_splits)
  qed
  then show ?case using Nil.prems st by auto
next
  case (Cons p pls)
  obtain st w1 where st: "pf_PreFilter p w pod = Returns (st, w1)" using Cons.prems(1) by (auto simp: go_bind_Returns_iff)
  show ?case
  proof (cases "IsSuccess st")
    case True
    then show ?thesis using Cons.IH [of w1] Cons.prems st by simp
  next
    case bad: False
    then obtain x where "st = Some x" using not_success_Some by blast
    then show ?thesis using Cons.prems st bad
      by (auto simp: IsSuccess_def Status_Code_def WithFailedPlugin_def failed_plugin_def AsStatus_def split: if_splits)
  qed
qed

lemma prioritizeNodes_world:
  assumes "prioritizeNodes ord exts f w pod nodes = Returns (Inr l, w')" and "f_preScorePlugins f = []"
  shows "w' = w"
proof (cases "exts = [] \<and> f_scorePlugins f = []")
  case True
  then show ?thesis using assms by (simp add: prioritizeNodes_def)
next
  case False
  obtain r where "(case r of Inl st \<Rightarrow> Returns (Inl (err_text (Some st)), w)
      | Inr scoresMap \<Rightarrow> go_bind (total_scores scoresMap nodes) (\<lambda>result. Returns (Inr (if exts \<noteq> [] \<and> nodes \<noteq> []
            then map (scale_extenders (fold (extender_scores pod nodes) exts [])) result else result), w))) = Returns (Inr l, w')"
    using assms unfolding prioritizeNodes_def if_not_P [OF False] by (auto simp: IsSuccess_def Status_Code_def go_bind_Returns_iff)
  then show ?thesis by (cases r) (auto simp: go_bind_Returns_iff)
qed

lemma PreFilter_status: "PreFilter cd ef pod cs db = Returns (st, r) \<Longrightarrow> IsSuccess st \<Longrightarrow> st = None"
  by (auto simp: PreFilter_def IsSuccess_def Status_Code_def NewStatus_def split: option.splits sum.splits list.splits go_run.splits)

lemma PreFilter_storage_ok:
  "PreFilter cd ef pod cs db = Returns (st, cs', db') \<Longrightarrow> gomap_ok (cs_storage cs) \<Longrightarrow> gomap_ok (cs_storage cs')"
  by (auto simp: PreFilter_def CycleState_Write_def split: option.splits sum.splits list.splits go_run.splits)

lemma Filter_accepts: "Filter cs info = Returns st \<Longrightarrow> IsSuccess st \<Longrightarrow> Filter cs info = Returns None"
  by (auto simp: Filter_def IsSuccess_def Status_Code_def NewStatus_def split: sum.splits go_run.splits if_splits)

lemma hicev1_clone_ok:
  assumes "gomap_ok (cs_storage (fst w))" and "f_clone f = hicev1_clone" and "f_filterPlugins f = [hicev1_filter]"
  shows "clone_ok f w pod"
proof -
  have "getPreFilterState (CycleState_Clone id (fst w)) = getPreFilterState (fst w)"
    by (simp add: getPreFilterState_def CycleState_Clone_read [OF assms(1)] sum.map_id0)
  then show ?thesis using assms(2,3)
    by (cases w) (simp add: clone_ok_def hicev1_filter_def hicev1_clone_def Filter_def [abs_def])
qed

section \<open>From the cache to the stored pod\<close>

abbreviation node_arch :: "Node \<Rightarrow> string" where
  "node_arch node \<equiv> get_or [] (node_Labels node) ''kubernetes.io/arch''"

text \<open>Every container of the pod has an image of the architecture in its entry of the table, in the list of images.\<close>

definition images_for :: "codecs \<Rightarrow> string \<Rightarrow> string \<Rightarrow> Pod \<Rightarrow> string list \<Rightarrow> bool" where
  "images_for cd data arch pod images \<longleftrightarrow>
     list_all2 (\<lambda>ct img. \<exists>im\<in>set (GetMultiArchImages cd (ct_Image ct) data). im_Arch im = arch \<and> img = im_Name im) (pod_Containers pod) images"

lemma accepted_images_for:
  assumes "PreFilter cd ef pod cs db = Returns (None, cs', db')" and "ef_dial ef = None"
    and "ni_node ni = Some node" and "Filter cs' ni = Returns None"
  shows "\<exists>data. getImageState cs' = Inr data \<and>
    images_for cd data (node_arch node) pod (map ct_Image (pod_Containers (ConvertPodImages cd (node_arch node) data pod)))"
proof -
  obtain data where data: "getImageState cs' = Inr data" using PreFilter_writes [OF assms(1,2)] by blast
  have acc: "\<forall>(ct, ct') \<in> set (zip (pod_Containers pod) (pod_Containers (ConvertPodImages cd (node_arch node) data pod))).
      \<exists>im \<in> set (GetMultiArchImages cd (ct_Image ct) data). im_Arch im = node_arch node \<and> ct' = ct\<lparr>ct_Image := im_Name im\<rparr>"
    using accepted_images [OF assms(1-3) data] assms(4) by blast
  have "length (pod_Containers (ConvertPodImages cd (node_arch node) data pod)) = length (pod_Containers pod)"
    by (simp add: ConvertPodImages_def)
  then have "images_for cd data (node_arch node) pod (map ct_Image (pod_Containers (ConvertPodImages cd (node_arch node) data pod)))"
    using acc by (fastforce simp: images_for_def list_all2_iff zip_map2)
  then show ?thesis using data by blast
qed

text \<open>Scheduling with the plugin: the host runs images of its own architecture.\<close>

lemma hicev1_schedules:
  assumes hist: "history env c (g_nodeInfoSnapshot g)"
    and pre: "f_preFilterPlugins f = pls @ [hicev1_preFilter cd ef]" and dial: "ef_dial ef = None"
    and filt: "hicev1_filter \<in> set (f_filterPlugins f)" and noscore: "f_preScorePlugins f = []"
    and clone: "\<And>s w'. RunPreFilterPlugins (f_preFilterPlugins f) w pod = Returns (s, w') \<Longrightarrow> clone_ok f w' pod"
    and run: "Schedule rnd preferNominated ord c [] f w pod g = Some (Returns (Inr r, g', w2))"
  shows "\<exists>info node data. cinfo c (sr_SuggestedHost r) = Some info \<and> ni_node info = Some node
    \<and> Snapshot_Get (g_nodeInfoSnapshot g') (sr_SuggestedHost r) = Inr info \<and> getImageState (fst w2) = Inr data
    \<and> images_for cd data (node_arch node) pod (map ct_Image (pod_Containers (ConvertPodImages cd (node_arch node) data pod)))"
proof -
  obtain w' s nodes info node where run_pre: "RunPreFilterPlugins (f_preFilterPlugins f) w pod = Returns (s, w')" "IsSuccess s"
    and info: "cinfo c (sr_SuggestedHost r) = Some info" "ni_node info = Some node"
    and fit: "fits (f_filterPlugins f) w' pod info"
    and world: "w2 = w' \<or> (\<exists>l. prioritizeNodes (co_score ord) [] f w' pod nodes = Returns (Inr l, w2))"
    and get: "Snapshot_Get (g_nodeInfoSnapshot g') (sr_SuggestedHost r) = Inr info"
    using Schedule_host [OF hist _ run] clone by blast
  have w2: "w2 = w'" using world prioritizeNodes_world [OF _ noscore] by blast
  obtain w1 st where w1: "pf_PreFilter (hicev1_preFilter cd ef) w1 pod = Returns (st, w')" "IsSuccess st"
    using RunPreFilterPlugins_last [OF run_pre(1) [unfolded pre] run_pre(2)] by blast
  have pf: "PreFilter cd ef pod (fst w1) (snd w1) = Returns (None, fst w', snd w')"
    using w1 PreFilter_status [of cd ef pod "fst w1" "snd w1" st w'] by (simp add: hicev1_preFilter_def split_beta)
  obtain st' where "Filter (fst w') info = Returns st'" "IsSuccess st'"
    using fit filt by (auto simp: fits_def hicev1_filter_def split_beta)
  then have "Filter (fst w') info = Returns None" by (rule Filter_accepts)
  from accepted_images_for [OF pf dial info(2) this] show ?thesis using info get w2 by blast
qed

section \<open>Properties\<close>

text \<open>
  C1: Scheduling and binding with Hicev1 gives a pod that its node can run. Take any history of
  the cache, Hicev1 as the last PreFilter plugin, as one of the filters and as the bind plugin, no PreScore
  plugin that changes the state, and a stored pod with the containers of the scheduled one. If the cycle
  returns a host and the bind succeeds, the pod in etcd is assigned to that host, and each of its
  containers has the image that the table lists for the container's image and the architecture of the host.
\<close>

theorem hicev1_stores_runnable_pod:
  assumes hist: "history env c (g_nodeInfoSnapshot g)"
    and pre: "f_preFilterPlugins f = pls @ [hicev1_preFilter cd ef]" and dial: "ef_dial ef = None"
    and filt: "hicev1_filter \<in> set (f_filterPlugins f)" and noscore: "f_preScorePlugins f = []"
    and clone: "\<And>s w'. RunPreFilterPlugins (f_preFilterPlugins f) w pod = Returns (s, w') \<Longrightarrow> clone_ok f w' pod"
    and run: "Schedule rnd preferNominated ord c [] f w pod g = Some (Returns (Inr r, g', w2))"
    and bind: "RunBindPlugins [hicev1_bind cd ef (Snapshot_Get (g_nodeInfoSnapshot g'))] w2
      (pod\<lparr>pod_NodeName := sr_SuggestedHost r\<rparr>) (sr_SuggestedHost r) = Returns (None, w3)"
    and stored: "gomap_get (snd w2) (pod_etcd_key pod) = Some v" "cd_pod cd v = Some etcdPod"
      "map ct_Name (pod_Containers pod) = map ct_Name (pod_Containers etcdPod)" "distinct (map ct_Name (pod_Containers pod))"
    and roundtrip: "\<And>info node data q. cinfo c (sr_SuggestedHost r) = Some info \<Longrightarrow> ni_node info = Some node \<Longrightarrow>
      getImageState (fst w2) = Inr data \<Longrightarrow>
      q = patch_images (ConvertPodImages cd (node_arch node) data (pod\<lparr>pod_NodeName := sr_SuggestedHost r\<rparr>)) etcdPod \<Longrightarrow>
      cd_pod cd (cd_pod_enc cd q) = Some q"
  shows "\<exists>info node data v' q. cinfo c (sr_SuggestedHost r) = Some info \<and> ni_node info = Some node \<and> getImageState (fst w2) = Inr data
    \<and> gomap_get (snd w3) (pod_etcd_key pod) = Some v' \<and> cd_pod cd v' = Some q \<and> pod_NodeName q = sr_SuggestedHost r
    \<and> images_for cd data (node_arch node) pod (map ct_Image (pod_Containers q))"
proof -
  let ?p = "pod\<lparr>pod_NodeName := sr_SuggestedHost r\<rparr>"
  obtain info node data where info: "cinfo c (sr_SuggestedHost r) = Some info" "ni_node info = Some node"
    and get: "Snapshot_Get (g_nodeInfoSnapshot g') (sr_SuggestedHost r) = Inr info" and data: "getImageState (fst w2) = Inr data"
    and images: "images_for cd data (node_arch node) pod (map ct_Image (pod_Containers (ConvertPodImages cd (node_arch node) data pod)))"
    using hicev1_schedules [OF hist pre dial filt noscore _ run] clone by blast
  have key: "pod_etcd_key ?p = pod_etcd_key pod" and cts: "pod_Containers ?p = pod_Containers pod" by (simp_all add: pod_etcd_key_def)
  have "Bind cd ef (Snapshot_Get (g_nodeInfoSnapshot g')) (fst w2) ?p (sr_SuggestedHost r) (snd w2) = Returns (None, snd w3)"
    using bind by (auto simp: RunBindPlugins_def hicev1_bind_def go_bind_Returns_iff split_beta split: if_splits)
  from Bind_stored_pod [OF this get info(2) data stored(1) [folded key] stored(2,3) [folded cts] roundtrip [OF info data refl] stored(4) [folded cts]]
  show ?thesis using info data images by (auto simp: ConvertPodImages_def key)
qed

text \<open>A cluster with one arm64 node, and the table and the pod of the examples.\<close>

definition arm_cache :: schedulerCache where
  "arm_cache = snd (cache_AddNode example_env (example_node ''arm64'') (newSchedulerCache 30 0))"

definition arm_codecs :: codecs where
  "arm_codecs = example_codecs\<lparr>cd_pod := (\<lambda>s. Some (if s = ''stored'' then example_web
     else patch_images (ConvertPodImages example_codecs ''arm64'' ''table'' (example_web\<lparr>pod_NodeName := ''n1''\<rparr>)) example_web))\<rparr>"

definition arm_framework :: "hice_world frameworkImpl" where
  "arm_framework = \<lparr>f_waitingPods = [], f_scorePluginWeight = [], f_preFilterPlugins = [hicev1_preFilter arm_codecs no_faults],
     f_filterPlugins = [hicev1_filter], f_postFilterPlugins = [], f_preScorePlugins = [], f_scorePlugins = [], f_reservePlugins = [],
     f_preBindPlugins = [], f_bindPlugins = [], f_postBindPlugins = [], f_permitPlugins = [], f_nominator = NewPodNominator,
     f_runAllFilters = False, f_env = example_env, f_clone = hicev1_clone, f_gen = 0\<rparr>"

definition arm_cycle :: "((schedule_error + ScheduleResult) \<times> genericScheduler \<times> hice_world) go_run option" where
  "arm_cycle = Schedule (\<lambda>_. 0) True example_order arm_cache [] arm_framework (NewCycleState, example_db) example_web
     (NewGenericScheduler NewEmptySnapshot 0)"

lemma arm_run:
  "(case arm_cycle of Some (Returns (Inr r, g', w2)) \<Rightarrow>
      (sr_SuggestedHost r, getImageState (fst w2), gomap_get (snd w2) (pod_etcd_key example_web),
       case RunBindPlugins [hicev1_bind arm_codecs no_faults (Snapshot_Get (g_nodeInfoSnapshot g'))] w2
         (example_web\<lparr>pod_NodeName := sr_SuggestedHost r\<rparr>) (sr_SuggestedHost r) of
         Returns (None, _) \<Rightarrow> True | _ \<Rightarrow> False)
    | _ \<Rightarrow> ([], Inl [], None, False)) = (''n1'', Inr ''table'', Some ''stored'', True)"
  by code_simp

lemma arm_node: "map_option ni_node (cinfo arm_cache ''n1'') = Some (Some (example_node ''arm64''))"
  by code_simp

theorem hicev1_stores_runnable_pod_witness:
  "\<exists>r g' w2 w3 v q. arm_cycle = Some (Returns (Inr r, g', w2))
     \<and> RunBindPlugins [hicev1_bind arm_codecs no_faults (Snapshot_Get (g_nodeInfoSnapshot g'))] w2
         (example_web\<lparr>pod_NodeName := ''n1''\<rparr>) ''n1'' = Returns (None, w3)
     \<and> gomap_get (snd w3) (pod_etcd_key example_web) = Some v \<and> cd_pod arm_codecs v = Some q \<and> pod_NodeName q = ''n1''
     \<and> images_for arm_codecs ''table'' ''arm64'' example_web (map ct_Image (pod_Containers q))"
proof -
  let ?g = "NewGenericScheduler NewEmptySnapshot 0" and ?w = "(NewCycleState, example_db) :: hice_world"
  obtain r g' w2 w3 where cycle: "arm_cycle = Some (Returns (Inr r, g', w2))" and host: "sr_SuggestedHost r = ''n1''"
    and data: "getImageState (fst w2) = Inr ''table''" and st: "gomap_get (snd w2) (pod_etcd_key example_web) = Some ''stored''"
    and bind: "RunBindPlugins [hicev1_bind arm_codecs no_faults (Snapshot_Get (g_nodeInfoSnapshot g'))] w2
       (example_web\<lparr>pod_NodeName := sr_SuggestedHost r\<rparr>) (sr_SuggestedHost r) = Returns (None, w3)"
    using arm_run by (auto split: option.split_asm go_run.split_asm sum.split_asm)
  have hist: "history example_env arm_cache (g_nodeInfoSnapshot ?g)"
    using first_node(1) by (simp add: arm_cache_def NewGenericScheduler_def)
  obtain info where info: "cinfo arm_cache ''n1'' = Some info" "ni_node info = Some (example_node ''arm64'')" using arm_node by auto
  have "gomap_ok (cs_storage (fst w'))" if rp: "RunPreFilterPlugins (f_preFilterPlugins arm_framework) ?w example_web = Returns (s, w')" for s w'
  proof -
    obtain st where "PreFilter arm_codecs no_faults example_web NewCycleState example_db = Returns (st, fst w', snd w')"
      using rp by (auto simp: arm_framework_def hicev1_preFilter_def go_bind_Returns_iff split: if_splits)
    then show ?thesis by (rule PreFilter_storage_ok) (simp add: NewCycleState_def)
  qed
  then have clone: "clone_ok arm_framework w' example_web"
    if "RunPreFilterPlugins (f_preFilterPlugins arm_framework) ?w example_web = Returns (s, w')" for s w'
    using that hicev1_clone_ok by (simp add: arm_framework_def)
  have cv: "ConvertPodImages arm_codecs = ConvertPodImages example_codecs"
    by (intro ext) (simp add: ConvertPodImages_def convert_image_def [abs_def] GetMultiArchImages_def [abs_def] arm_codecs_def)
  have rt: "cd_pod arm_codecs (cd_pod_enc arm_codecs q) = Some q"
    if "cinfo arm_cache (sr_SuggestedHost r) = Some i" "ni_node i = Some n" "getImageState (fst w2) = Inr d"
      "q = patch_images (ConvertPodImages arm_codecs (node_arch n) d (example_web\<lparr>pod_NodeName := sr_SuggestedHost r\<rparr>)) example_web" for i n d q
  proof -
    have "n = example_node ''arm64''" "d = ''table''" using that info host data by auto
    then have q: "q = patch_images (ConvertPodImages example_codecs ''arm64'' ''table'' (example_web\<lparr>pod_NodeName := ''n1''\<rparr>)) example_web"
      using that(4) host by (simp add: cv example_arch)
    show ?thesis unfolding q by (simp add: arm_codecs_def example_etcd(4))
  qed
  have "\<exists>info node data v' q. cinfo arm_cache (sr_SuggestedHost r) = Some info \<and> ni_node info = Some node \<and> getImageState (fst w2) = Inr data
    \<and> gomap_get (snd w3) (pod_etcd_key example_web) = Some v' \<and> cd_pod arm_codecs v' = Some q \<and> pod_NodeName q = sr_SuggestedHost r
    \<and> images_for arm_codecs data (node_arch node) example_web (map ct_Image (pod_Containers q))"
  proof (rule hicev1_stores_runnable_pod [OF hist _ _ _ _ _ cycle [unfolded arm_cycle_def] bind st, where pls = "[]" and etcdPod = example_web])
    show "clone_ok arm_framework w' example_web"
      if "RunPreFilterPlugins (f_preFilterPlugins arm_framework) ?w example_web = Returns (s, w')" for s w' by (rule clone [OF that])
    show "cd_pod arm_codecs (cd_pod_enc arm_codecs q) = Some q"
      if "cinfo arm_cache (sr_SuggestedHost r) = Some i" "ni_node i = Some n" "getImageState (fst w2) = Inr d"
        "q = patch_images (ConvertPodImages arm_codecs (node_arch n) d (example_web\<lparr>pod_NodeName := sr_SuggestedHost r\<rparr>)) example_web" for i n d q
      by (rule rt [OF that])
  qed (simp_all add: arm_framework_def example_etcd(1) arm_codecs_def example_web_def example_pod_def)
  then obtain v q where "gomap_get (snd w3) (pod_etcd_key example_web) = Some v" "cd_pod arm_codecs v = Some q" "pod_NodeName q = ''n1''"
      "images_for arm_codecs ''table'' ''arm64'' example_web (map ct_Image (pod_Containers q))"
    using host info data example_arch by auto
  then show ?thesis using cycle bind unfolding host by blast
qed

end
