(* ===== verification/Spec2Isabelle.thy ===== *)
theory Spec2Isabelle
  imports Quantity_Text Hicev2 MHice Queue_Props Cache_Accounting Hice_Schedule
begin

text \<open>
  A verification development for KubeHICE, a fork of Kubernetes 1.22 whose scheduler places pods on
  clusters of heterogeneous machines. Paths are relative to src/.

  \<^bold>\<open>The program.\<close> The scheduler keeps a cache of the nodes and the pods on them and a queue of
  pods to schedule. A cycle pops a pod, brings a snapshot of the cache up to date, runs the filter
  plugins on the nodes in parallel, scores the nodes that fit, selects one of the best, assumes the
  pod on it in the cache and binds it. The fork adds three plugins: Hicev1 keeps nodes for whose
  architecture every container has an image and writes the images of that architecture into the
  stored pod; Hicev2 scales CPU requests by the single-thread performance of the node; MHice orders
  the pods of a microservice application by the graph of calls between the services and prefers
  near nodes. Both binders write the pod in etcd themselves.

  \<^bold>\<open>Foundations.\<close> Go_Prelude has Go's integers (an int64 is an int with its wrap-around
  written out), results that return an error or panic, and maps as association lists in the order of
  a range loop; Go_Strconv has the conversions of strconv; Go_Float has float64 with its rounding.
  Quantity_Math, Quantity and Quantity_Text model the resource quantities
  (staging/src/k8s.io/apimachinery/pkg/api/resource): checked arithmetic, amounts with a scale and
  with arbitrary precision, the parser and the printer. Their lemmas show that addition, subtraction
  and comparison are exact on the values denoted, that rounding is upwards, and that text and value
  agree both ways.

  \<^bold>\<open>Objects of the scheduler.\<close> Api_Objects has pods, containers, nodes and the
  classification of resource names. Framework_Status has statuses and the cycle state
  (pkg/scheduler/framework/interface.go, cycle_state.go). Node_Info has resource vectors, host ports
  and the NodeInfo (framework/types.go); through every history of additions and removals the totals
  of a node are the sums over its pods.

  \<^bold>\<open>The queue.\<close> Heap_Order and Sched_Heap model container/heap and internal/heap/heap.go
  and refine them to a map with a minimum; Sched_Queue models internal/queue/scheduling_queue.go,
  Queue_Props proves the invariant over all histories, that no pod is lost, the order of Pop, and
  that backoffs end and move requests are not missed.

  \<^bold>\<open>The cache.\<close> Node_Tree models internal/cache/node_tree.go; Sched_Cache models cache.go
  and snapshot.go with the linked list in a store of addresses. Cache_List, Cache_Inv, Cache_Steps
  and Cache_Pods give each operation its law, Cache_Lifecycle the pod state machine that the
  interface documents, Cache_Snapshot the content of a snapshot, Cache_History all sequences of
  calls. Cache_Props proves that every history keeps the cache consistent, that the cache refines
  the state machine, and that the incremental update of a snapshot gives a copy of the cache.
  Cache_Accounting follows the requested CPU of a node.

  \<^bold>\<open>The cycle.\<close> Parallelize models the parallel loops (internal/parallelize,
  client-go/util/workqueue/parallelizer.go) as a step relation over all interleavings and proves that
  every run ends and does each piece once. Framework_Runtime models the runners of the extension
  points (framework/runtime/framework.go, waiting_pods_map.go) for arbitrary plugins.
  Generic_Scheduler models generic_scheduler.go and proves that a cycle returns a node that passes
  the filters, or a fit error exactly when none does, that the node has the best score, and that
  ties are broken evenly.

  \<^bold>\<open>The plugins.\<close> Hicev1, Hicev2 (with Hice_Factors) and MHice model
  framework/plugins/hicev1, hicev2 and mhice; Hice_Schedule runs Hicev1 in a cycle, from the cache to
  the pod stored in etcd. Their theorems say what Filter accepts, what Bind stores and which pod
  may be deployed next, and where the code departs from its comments.

  \<^bold>\<open>This theory\<close> imports all others and has the property that spans the cache and Hicev2.

  \<^bold>\<open>Interfaces.\<close> The laws that several components rely on are locales, interpreted on the
  model: checked int64 operations, sets of used ports, the cycle state as a keyed store, orders of a
  heap, the priority queue, the scheduling queue over any queue order, and an object that implements
  a specification.

  \<^bold>\<open>Loops and concurrency.\<close> Loops that follow a list or a bounded counter are total
  functions. Loops that the code does not bound (dividing out factors, walking the list of the cache,
  listing the tree) are partial functions whose value None is not returning; that they return is
  proved, so no fuel is used. Operations under a lock are single steps. The work on a piece of a
  parallel loop is one atomic step; the order of the pieces is an argument of the cycle, and
  every order that the workers can produce meets the contract that the theorems ask of it. Draws of
  the random source are an argument as well.

  \<^bold>\<open>Parameters.\<close> etcd is a map whose calls may fail; the JSON and protobuf codecs, the
  clock, extenders, feature gates and other plugins are arguments. Theorems that need more of them
  say so in a hypothesis: that a stored pod decodes to what was encoded, or that filters cannot tell
  a copy of the cycle state from the original.

  \<^bold>\<open>Not modelled.\<close> scheduler.go (scheduleOne with its asynchronous binding cycle), the event
  handlers and the construction from configuration connect the modelled parts by goroutines, clients
  and generated code. HTTP extenders and the programs of kubehice-tools are input and output. The
  upstream plugins and the other components of Kubernetes are unchanged by the fork. Within the
  modelled files, logging, metrics, tracing, deep copies and debug printing are left out.
\<close>

section \<open>The cache and the plugin that rewrites pods\<close>

text \<open>
  C23: The pod that Hicev2 stores is not the pod that was assumed: its CPU requests are scaled to
  the node. The cache counts the assumed pod, keeps that count when the stored pod is confirmed on
  the same node, and subtracts the stored pod when it is removed. Once the pod is gone the CPU that
  the node counts as requested differs by the difference of the two requests, and stays different.
\<close>

theorem stored_pod_drift:
  assumes "cache_inv c" and "room 3 c" and "cinfo c (pod_NodeName p) = Some info" "ni_node info \<noteq> None"
    and "pod_UID p \<noteq> []" "phases c (pod_UID p) = Absent"
  shows "\<exists>q. ConvertPodCpu env kb kj p = Returns q \<and>
    (\<exists>c' info'. go_fold (exec env) [OpAssume p, OpAddPod (q\<lparr>pod_Annotations := an, pod_Conditions := cs\<rparr>),
          OpRemovePod (q\<lparr>pod_Annotations := an, pod_Conditions := cs\<rparr>)] c = Returns c'
       \<and> phases c' = phases c \<and> cinfo c' (pod_NodeName p) = Some info'
       \<and> info_cpu info' = wrap64 (info_cpu info + requested_cpu env p - requested_cpu env q))"
proof -
  obtain cts where q: "ConvertPodCpu env kb kj p = Returns (p\<lparr>pod_Containers := cts\<rparr>)"
    using convert_cpus_scaled [of env kb kj "pod_Containers p"] by (auto simp: ConvertPodCpu_def)
  define s where "s = p\<lparr>pod_Containers := cts, pod_Annotations := an, pod_Conditions := cs\<rparr>"
  have "requested_cpu env s = requested_cpu env (p\<lparr>pod_Containers := cts\<rparr>)"
    by (simp add: s_def requested_cpu_def calculateResource_def)
  then show ?thesis
    using q assume_confirm_remove [OF assms, of s env] by (auto simp: s_def)
qed

definition scaled_pod :: Pod where
  "scaled_pod = (example_pod ''p'' ''u'' [example_container ''c'' ''web'' 500])\<lparr>pod_NodeName := ''n1''\<rparr>"

definition stored_cpu :: "Pod \<Rightarrow> int option" where
  "stored_cpu p = (case ConvertPodCpu example_env (F64_Fin False 2) f64_one p of
     Returns q \<Rightarrow> Some (requested_cpu example_env q) | Panics _ \<Rightarrow> None)"

text \<open>A pod of 500m on a node of half the reference performance is stored with 1000m and leaves -500m behind.\<close>

theorem stored_pod_drift_witness:
  "\<exists>q c' info'. ConvertPodCpu example_env (F64_Fin False 2) f64_one scaled_pod = Returns q
     \<and> go_fold (exec example_env) [OpAssume scaled_pod, OpAddPod (q\<lparr>pod_Annotations := None, pod_Conditions := []\<rparr>),
          OpRemovePod (q\<lparr>pod_Annotations := None, pod_Conditions := []\<rparr>)] one_node = Returns c'
     \<and> cinfo c' ''n1'' = Some info' \<and> info_cpu info' = - 500"
proof -
  have ev: "(case one_node of c \<Rightarrow> (map_option (\<lambda>i. (ni_node i \<noteq> None, info_cpu i)) (cinfo c ''n1''), sc_gen c, sc_podStates c))
      = (Some (True, 0), 2, [])" by code_simp
  then obtain info where info: "cinfo one_node (pod_NodeName scaled_pod) = Some info" "ni_node info \<noteq> None" "info_cpu info = 0"
    by (auto simp: scaled_pod_def)
  have inv: "cache_inv one_node" using history_inv [OF one_node_history] by simp
  have room: "room 3 one_node" using ev by (simp add: room_def)
  have cpu: "requested_cpu example_env scaled_pod = 500" "stored_cpu scaled_pod = Some 1000" by code_simp+
  have uid: "pod_UID scaled_pod \<noteq> []" "phases one_node (pod_UID scaled_pod) = Absent"
    using ev by (simp_all add: scaled_pod_def example_pod_def phases_def)
  show ?thesis
    using stored_pod_drift [OF inv room info(1,2) uid, where env = example_env and kb = "F64_Fin False 2" and kj = f64_one
        and an = None and cs = "[]"] cpu info(3)
    by (auto simp: stored_cpu_def wrap64_def scaled_pod_def)
qed

end
